(* ===== verification/Prelude.thy ===== *)
theory Prelude
  imports Main "HOL-Library.Word" "HOL-Library.Monad_Syntax"
begin

text \<open>
  Types and generic lemmas the components share.

  A C++ execution with undefined behaviour (an access outside an allocation, a signed
  overflow, a use of a freed block) is the value \<open>None\<close> of the option monad; a defined
  execution is \<open>Some\<close> of its result and of the new state.  Every other failure of the
  code (a returned error code, a state set to \<open>Error\<close>) is an ordinary value.

  Bytes are \<open>8 word\<close>, unsigned machine integers are words, and the signed 32-bit integers
  the code counts with (sizes, offsets, keys) are \<open>int\<close>s whose range is checked where
  the code could overflow.
\<close>

type_synonym byte = "8 word"
type_synonym u32 = "32 word"
type_synonym u64 = "64 word"
type_synonym i32 = int

named_theorems ub_simps \<open>evaluation of the option monad that carries undefined behaviour\<close>
named_theorems seg_simps \<open>reading and overwriting ranges of byte lists\<close>

lemma bind_eq_Some_conv' [ub_simps]:
  "(Option.bind x f = Some z) = (\<exists>y. x = Some y \<and> f y = Some z)"
  by (cases x) auto

lemma bind_eq_None_conv' [ub_simps]:
  "(Option.bind x f = None) = (x = None \<or> (\<exists>y. x = Some y \<and> f y = None))"
  by (cases x) auto

section \<open>Signed 32-bit arithmetic\<close>

definition i32_min :: int where "i32_min = - (2 ^ 31)"
definition i32_max :: int where "i32_max = 2 ^ 31 - 1"

definition i32_ok :: "int \<Rightarrow> bool" where
  "i32_ok x \<longleftrightarrow> i32_min \<le> x \<and> x \<le> i32_max"

text \<open>Addition of two \<open>std::int32_t\<close>: signed overflow is undefined behaviour.\<close>

definition i32_add :: "i32 \<Rightarrow> i32 \<Rightarrow> i32 option" where
  "i32_add a b = (if i32_ok (a + b) then Some (a + b) else None)"

lemma i32_add_Some [ub_simps]: "i32_add a b = Some c \<longleftrightarrow> i32_ok (a + b) \<and> c = a + b"
  by (auto simp: i32_add_def)

lemma i32_okI: "- 2147483648 \<le> x \<Longrightarrow> x \<le> 2147483647 \<Longrightarrow> i32_ok x"
  by (simp add: i32_ok_def i32_min_def i32_max_def)

lemma i32_ok_iff: "i32_ok x \<longleftrightarrow> - 2147483648 \<le> x \<and> x \<le> 2147483647"
  by (auto simp: i32_ok_def i32_min_def i32_max_def)

lemma i32_ok_simps [simp]:
  "i32_ok 0" "i32_ok 1"
  "i32_ok (numeral w) \<longleftrightarrow> numeral w \<le> (2147483647::int)"
  "i32_ok (- numeral w) \<longleftrightarrow> numeral w \<le> (2147483648::int)"
  "i32_ok (int n) \<longleftrightarrow> n \<le> 2147483647"
  by (auto simp: i32_ok_iff)

text \<open>
  The conversion of an unsigned 32-bit word to \<open>std::int32_t\<close> reads it in two's
  complement; the conversion back keeps the low 32 bits.
\<close>

abbreviation to_i32 :: "u32 \<Rightarrow> i32" where "to_i32 w \<equiv> sint w"
abbreviation of_i32 :: "i32 \<Rightarrow> u32" where "of_i32 x \<equiv> word_of_int x"

lemma to_i32_of_i32: "i32_ok x \<Longrightarrow> to_i32 (of_i32 x) = x"
  by (simp add: i32_ok_iff signed_of_int signed_take_bit_int_eq_self)

lemma of_i32_to_i32 [simp]: "of_i32 (to_i32 w) = w"
  by simp

lemma to_i32_ok [simp]: "i32_ok (to_i32 w)"
  using sint_range_size [of w] by (simp add: i32_ok_iff word_size)

section \<open>Ranges of byte lists\<close>

definition seg :: "'a list \<Rightarrow> nat \<Rightarrow> nat \<Rightarrow> 'a list" where
  "seg bs off n = take n (drop off bs)"

definition patch :: "'a list \<Rightarrow> nat \<Rightarrow> 'a list \<Rightarrow> 'a list" where
  "patch bs off xs = take off bs @ xs @ drop (off + length xs) bs"

lemma length_seg [seg_simps, simp]: "off + n \<le> length bs \<Longrightarrow> length (seg bs off n) = n"
  by (simp add: seg_def)

lemma length_patch [seg_simps, simp]:
  "off + length xs \<le> length bs \<Longrightarrow> length (patch bs off xs) = length bs"
  by (simp add: patch_def)

lemma seg_all [seg_simps, simp]: "seg bs 0 (length bs) = bs"
  by (simp add: seg_def)

lemma seg_zero [seg_simps, simp]: "seg bs off 0 = []"
  by (simp add: seg_def)

lemma patch_nil [seg_simps, simp]: "patch bs off [] = bs"
  by (simp add: patch_def)

lemma patch_all: "length xs = length bs \<Longrightarrow> patch bs 0 xs = xs"
  by (simp add: patch_def)

lemma seg_patch_same [seg_simps]:
  "off + length xs \<le> length bs \<Longrightarrow> n = length xs \<Longrightarrow> seg (patch bs off xs) off n = xs"
  by (simp add: seg_def patch_def)

lemma seg_patch_before [seg_simps]:
  "off + length xs \<le> length bs \<Longrightarrow> o2 + n \<le> off \<Longrightarrow> seg (patch bs off xs) o2 n = seg bs o2 n"
  by (simp add: seg_def patch_def take_drop)

lemma seg_patch_after [seg_simps]:
  "off + length xs \<le> length bs \<Longrightarrow> off + length xs \<le> o2 \<Longrightarrow>
   seg (patch bs off xs) o2 n = seg bs o2 n"
  by (simp add: seg_def patch_def add.commute)

lemma patch_seg_id:
  "off + n \<le> length bs \<Longrightarrow> patch bs off (seg bs off n) = bs"
  by (simp add: seg_def patch_def)
    (metis add.commute append_take_drop_id drop_drop)

lemma seg_seg [seg_simps]:
  "a + k \<le> n \<Longrightarrow> seg (seg bs off n) a k = seg bs (off + a) k"
  by (simp add: seg_def drop_take take_take min_def add.commute)

lemma seg_append1 [seg_simps]: "off + n \<le> length xs \<Longrightarrow> seg (xs @ ys) off n = seg xs off n"
  by (simp add: seg_def)

lemma seg_append2 [seg_simps]:
  "length xs \<le> off \<Longrightarrow> seg (xs @ ys) off n = seg ys (off - length xs) n"
  by (simp add: seg_def)

lemma patch_append1:
  "off + length zs \<le> length xs \<Longrightarrow> patch (xs @ ys) off zs = patch xs off zs @ ys"
  by (simp add: patch_def)

lemma patch_append2:
  "length xs \<le> off \<Longrightarrow> patch (xs @ ys) off zs = xs @ patch ys (off - length xs) zs"
  by (simp add: patch_def)

lemma seg_concat2:
  "seg bs a m @ seg bs (a + m) n = seg bs a (m + n)"
  by (simp add: seg_def take_add add.commute)

lemma patch_patch_same:
  "off + length xs \<le> length bs \<Longrightarrow> length ys = length xs \<Longrightarrow>
   patch (patch bs off xs) off ys = patch bs off ys"
  by (simp add: patch_def)

end
