(* ===== verification/Byte_Order.thy ===== *)
theory Byte_Order
  imports Prelude
begin

text \<open>
  Byte order of integers: the memory layout of the host, \<open>htonl\<close>/\<open>ntohl\<close> of the
  standard library and the integer part of \<open>include/dson/impl/dson_tools.h\<close>
  (\<open>htonll\<close>, \<open>ntohll\<close>, \<open>int32_to_network\<close>, \<open>int64_to_network\<close> and their
  inverses).  The host is little endian (the branch of the macros taken when
  \<open>__BIG_ENDIAN__\<close> is not set).
\<close>

unbundle bit_operations_syntax

section \<open>Layout of unsigned integers\<close>

fun store_le :: "nat \<Rightarrow> nat \<Rightarrow> byte list" where
  "store_le 0 x = []"
| "store_le (Suc n) x = word_of_nat x # store_le n (x div 256)"

fun load_le :: "byte list \<Rightarrow> nat" where
  "load_le [] = 0"
| "load_le (b # bs) = unat b + 256 * load_le bs"

lemma byte_of_nat_cong: "m mod 256 = n mod 256 \<Longrightarrow> (word_of_nat m :: byte) = word_of_nat n"
  by (simp add: word_of_nat_eq_iff take_bit_eq_mod)

lemma length_store_le [simp]: "length (store_le n x) = n"
  by (induction n arbitrary: x) auto

lemma load_store_le: "load_le (store_le n x) = x mod 256 ^ n"
proof (induction n arbitrary: x)
  case 0
  then show ?case by simp
next
  case (Suc n)
  have "unat (word_of_nat x :: byte) = x mod 256"
    by (simp add: unat_of_nat)
  then show ?case
    using Suc [of "x div 256"] by (simp add: mod_mult2_eq)
qed

lemma load_le_less: "load_le bs < 256 ^ length bs"
proof (induction bs)
  case Nil
  then show ?case by simp
next
  case (Cons b bs)
  have "unat b < 256" using unsigned_less [of b] by simp
  with Cons show ?case by simp
qed

lemma store_load_le: "store_le (length bs) (load_le bs) = bs"
proof (induction bs)
  case Nil
  then show ?case by simp
next
  case (Cons b bs)
  have b: "unat b < 256" using unsigned_less [of b] by simp
  have "(word_of_nat (unat b + 256 * load_le bs) :: byte) = word_of_nat (unat b)"
    by (rule byte_of_nat_cong) simp
  moreover have "(unat b + 256 * load_le bs) div 256 = load_le bs"
    using b by simp
  ultimately show ?case using Cons by simp
qed

lemma store_le_4:
  "store_le 4 x = [word_of_nat x, word_of_nat (x div 256), word_of_nat (x div 256 div 256),
     word_of_nat (x div 256 div 256 div 256)]"
proof -
  have "(4::nat) = Suc (Suc (Suc (Suc 0)))" by simp
  then show ?thesis by (simp only: store_le.simps)
qed

definition store32 :: "u32 \<Rightarrow> byte list" where
  "store32 w = store_le 4 (unat w)"

definition load32 :: "byte list \<Rightarrow> u32" where
  "load32 bs = word_of_nat (load_le bs)"

definition store64 :: "u64 \<Rightarrow> byte list" where
  "store64 w = store_le 8 (unat w)"

definition load64 :: "byte list \<Rightarrow> u64" where
  "load64 bs = word_of_nat (load_le bs)"

lemma length_store32 [simp]: "length (store32 w) = 4"
  by (simp add: store32_def)

lemma length_store64 [simp]: "length (store64 w) = 8"
  by (simp add: store64_def)

lemma load_store32 [simp]: "load32 (store32 w) = w"
proof -
  have "unat w < 256 ^ 4" using unsigned_less [of w] by simp
  then show ?thesis by (simp add: load32_def store32_def load_store_le)
qed

lemma store_load32: "length bs = 4 \<Longrightarrow> store32 (load32 bs) = bs"
proof -
  assume len: "length bs = 4"
  then have "load_le bs < 2 ^ 32" using load_le_less [of bs] by simp
  then have "unat (load32 bs) = load_le bs" by (simp add: load32_def unat_of_nat)
  with store_load_le [of bs] len show ?thesis by (simp add: store32_def)
qed

lemma load_store64 [simp]: "load64 (store64 w) = w"
proof -
  have "unat w < 256 ^ 8" using unsigned_less [of w] by simp
  then show ?thesis by (simp add: load64_def store64_def load_store_le)
qed

lemma store_load64: "length bs = 8 \<Longrightarrow> store64 (load64 bs) = bs"
proof -
  assume len: "length bs = 8"
  then have "load_le bs < 2 ^ 64" using load_le_less [of bs] by simp
  then have "unat (load64 bs) = load_le bs" by (simp add: load64_def unat_of_nat)
  with store_load_le [of bs] len show ?thesis by (simp add: store64_def)
qed

lemma store32_inj: "store32 a = store32 b \<Longrightarrow> a = b"
  by (metis load_store32)

text \<open>The layout of the wire, which is the same on every host: big endian.\<close>

definition be32 :: "u32 \<Rightarrow> byte list" where "be32 w = rev (store32 w)"
definition be64 :: "u64 \<Rightarrow> byte list" where "be64 w = rev (store64 w)"

lemma length_be32 [simp]: "length (be32 w) = 4"
  by (simp add: be32_def)

lemma length_be64 [simp]: "length (be64 w) = 8"
  by (simp add: be64_def)

section \<open>htonl, ntohl and the macros htonll, ntohll\<close>

definition htonl :: "u32 \<Rightarrow> u32" where
  "htonl w = load32 (rev (store32 w))"

definition ntohl :: "u32 \<Rightarrow> u32" where
  "ntohl w = load32 (rev (store32 w))"

text \<open>
  The little-endian macro swaps the two 32-bit halves after converting each; the
  argument of \<open>htonl\<close> is converted to 32 bits by the call.
\<close>

definition htonll :: "u64 \<Rightarrow> u64" where
  "htonll x = push_bit 32 (ucast (htonl (ucast (x AND 0xFFFFFFFF)))) OR
              ucast (htonl (ucast (drop_bit 32 x)))"

definition ntohll :: "u64 \<Rightarrow> u64" where
  "ntohll x = push_bit 32 (ucast (ntohl (ucast (x AND 0xFFFFFFFF)))) OR
              ucast (ntohl (ucast (drop_bit 32 x)))"

lemma store32_htonl: "store32 (htonl w) = be32 w"
  by (simp add: htonl_def be32_def store_load32)

lemma ntohl_htonl [simp]: "ntohl (htonl w) = w"
  by (simp add: ntohl_def htonl_def store_load32)

lemma htonl_ntohl [simp]: "htonl (ntohl w) = w"
  by (simp add: ntohl_def htonl_def store_load32)

lemma htonl_htonl [simp]: "htonl (htonl w) = w" "ntohl (ntohl w) = w"
  by (simp_all add: ntohl_def htonl_def store_load32)

lemma ntohl_eq_htonl: "ntohl = htonl"
  by (simp add: fun_eq_iff ntohl_def htonl_def)

lemma ntohll_eq_htonll: "ntohll = htonll"
  by (simp add: fun_eq_iff ntohll_def htonll_def ntohl_eq_htonl)

text \<open>Concatenation of layouts, to relate the 64-bit layout to its two halves.\<close>

lemma store_le_add: "store_le (m + n) x = store_le m x @ store_le n (x div 256 ^ m)"
  by (induction m arbitrary: x) (simp_all add: div_mult2_eq)

lemma load_le_append: "load_le (xs @ ys) = load_le xs + 256 ^ length xs * load_le ys"
  by (induction xs) (simp_all add: algebra_simps)

lemma unat_load32: "length bs = 4 \<Longrightarrow> unat (load32 bs) = load_le bs"
  using load_le_less [of bs] by (simp add: load32_def unat_of_nat)

lemma store_le_mod: "n \<le> k \<Longrightarrow> store_le n (x mod 256 ^ k) = store_le n x"
proof (induction n arbitrary: x k)
  case 0
  then show ?case by simp
next
  case (Suc n)
  then obtain k' where k: "k = Suc k'" by (cases k) auto
  have x: "x mod 256 ^ k = x mod 256 + 256 * (x div 256 mod 256 ^ k')"
    by (simp add: k mod_mult2_eq)
  have "(word_of_nat (x mod 256 ^ k) :: byte) = word_of_nat x"
    by (rule byte_of_nat_cong) (simp add: x)
  moreover have "x mod 256 ^ k div 256 = x div 256 mod 256 ^ k'"
    by (simp add: x)
  ultimately show ?case using Suc.IH [of k' "x div 256"] Suc.prems k
    by simp
qed

lemma store64_split:
  "store64 x = store32 (ucast (x AND 0xFFFFFFFF)) @ store32 (ucast (drop_bit 32 x))"
proof -
  have lo: "unat (ucast (x AND 0xFFFFFFFF) :: u32) = unat x mod 256 ^ 4"
  proof -
    have "x AND 0xFFFFFFFF = take_bit 32 x"
      by (simp add: take_bit_eq_mask mask_numeral)
    then show ?thesis
      by (simp add: unsigned_ucast_eq unat_mod_distrib take_bit_eq_mod)
  qed
  have hi: "unat (ucast (drop_bit 32 x) :: u32) = unat x div 256 ^ 4"
  proof -
    have "unat x < 2 ^ 64" by (rule order_less_le_trans [OF unsigned_less]) simp
    then have "unat x div 2 ^ 32 < 2 ^ 32" by simp
    then show ?thesis
      by (simp add: unsigned_ucast_eq drop_bit_eq_div take_bit_eq_mod unat_div_distrib)
  qed
  show ?thesis
    using store_le_add [of 4 4 "unat x"] store_le_mod [of 4 4 "unat x"]
    by (simp add: store64_def store32_def lo hi)
qed

lemma load64_append:
  assumes "length xs = 4" "length ys = 4"
  shows "load64 (xs @ ys) = push_bit 32 (ucast (load32 ys)) OR ucast (load32 xs)"
proof -
  let ?a = "push_bit 32 (ucast (load32 ys)) :: u64" and ?b = "ucast (load32 xs) :: u64"
  have "?a OR ?b = ?a + ?b"
    by (rule disjunctive_add_eq_or [symmetric], rule bit_word_eqI)
      (auto simp: bit_simps dest: bit_imp_le_length)
  also have "\<dots> = word_of_nat (load_le xs + 2 ^ 32 * load_le ys)"
    using assms by (simp add: push_bit_eq_mult unat_load32 [symmetric] mult.commute)
  finally show ?thesis
    using assms by (simp add: load64_def load_le_append)
qed

text \<open>The macro is the reversal of the eight bytes.\<close>

lemma htonll_rev: "htonll x = load64 (rev (store64 x))"
  by (simp add: htonll_def store64_split load64_append htonl_def)

lemma store64_htonll: "store64 (htonll x) = be64 x"
  by (simp add: htonll_rev be64_def store_load64)

lemma htonll_htonll [simp]: "htonll (htonll x) = x"
  by (simp add: htonll_rev store_load64)

section \<open>Signed integers in network order\<close>

text \<open>The \<open>std::launder(reinterpret_cast\<dots>)\<close> of the source keeps the bits.\<close>

definition int32_to_network :: "i32 \<Rightarrow> u32" where
  "int32_to_network data = htonl (of_i32 data)"

definition int32_to_host :: "u32 \<Rightarrow> i32" where
  "int32_to_host data = to_i32 (ntohl data)"

definition int64_to_network :: "int \<Rightarrow> u64" where
  "int64_to_network data = ntohll (word_of_int data)"

definition int64_to_host :: "u64 \<Rightarrow> int" where
  "int64_to_host data = sint (ntohll data)"

lemma int32_to_host_to_network: "i32_ok x \<Longrightarrow> int32_to_host (int32_to_network x) = x"
  by (simp add: int32_to_host_def int32_to_network_def to_i32_of_i32)

lemma int32_to_network_to_host: "int32_to_network (int32_to_host w) = w"
  by (simp add: int32_to_host_def int32_to_network_def)

lemma int32_to_host_ok [simp]: "i32_ok (int32_to_host w)"
  by (simp add: int32_to_host_def)

lemma int64_to_host_to_network:
  "- (2 ^ 63) \<le> x \<Longrightarrow> x < 2 ^ 63 \<Longrightarrow> int64_to_host (int64_to_network x) = x"
  by (simp add: int64_to_host_def int64_to_network_def ntohll_eq_htonll
      signed_of_int signed_take_bit_int_eq_self)

section \<open>A byte buffer seen as an array of 32-bit words\<close>

definition get32 :: "byte list \<Rightarrow> nat \<Rightarrow> u32" where
  "get32 bs i = load32 (seg bs (4 * i) 4)"

definition set32 :: "byte list \<Rightarrow> nat \<Rightarrow> u32 \<Rightarrow> byte list" where
  "set32 bs i w = patch bs (4 * i) (store32 w)"

text \<open>
  The loop \<open>for (i = 0; i < n; ++i) array[i] = f(array[i])\<close>, here from index \<open>i\<close> on
  for the \<open>k\<close> remaining words.
\<close>

fun words_loop :: "(u32 \<Rightarrow> u32) \<Rightarrow> nat \<Rightarrow> nat \<Rightarrow> byte list \<Rightarrow> byte list" where
  "words_loop f i 0 bs = bs"
| "words_loop f i (Suc k) bs = words_loop f (Suc i) k (set32 bs i (f (get32 bs i)))"

text \<open>What the loop computes: every group of four bytes is converted.\<close>

fun chunk_map :: "(u32 \<Rightarrow> u32) \<Rightarrow> byte list \<Rightarrow> byte list" where
  "chunk_map f (a # b # c # d # bs) = store32 (f (load32 [a, b, c, d])) @ chunk_map f bs"
| "chunk_map f bs = bs"

lemma length_set32 [simp]: "4 * i + 4 \<le> length bs \<Longrightarrow> length (set32 bs i w) = length bs"
  by (simp add: set32_def)

lemma get32_set32_same [simp]: "4 * i + 4 \<le> length bs \<Longrightarrow> get32 (set32 bs i w) i = w"
  by (simp add: get32_def set32_def seg_simps)

lemma get32_set32_other [simp]:
  "i \<noteq> j \<Longrightarrow> 4 * i + 4 \<le> length bs \<Longrightarrow> get32 (set32 bs i w) j = get32 bs j"
  by (cases "i < j") (simp_all add: get32_def set32_def seg_simps)

lemma set32_get32 [simp]: "4 * i + 4 \<le> length bs \<Longrightarrow> set32 bs i (get32 bs i) = bs"
  by (simp add: get32_def set32_def store_load32 patch_seg_id)

lemma length_chunk_map [simp]: "length (chunk_map f bs) = length bs"
  by (induction f bs rule: chunk_map.induct) auto

lemma chunk_map_4:
  "length xs = 4 \<Longrightarrow> chunk_map f (xs @ bs) = store32 (f (load32 xs)) @ chunk_map f bs"
  by (auto simp: length_Suc_conv numeral_eq_Suc)

lemma chunk_map_comp: "chunk_map f (chunk_map g bs) = chunk_map (f \<circ> g) bs"
  by (induction g bs rule: chunk_map.induct) (simp_all add: chunk_map_4)

lemma chunk_map_id: "chunk_map id bs = bs"
proof -
  have "f = id \<Longrightarrow> chunk_map f bs = bs" for f
    by (induction f bs rule: chunk_map.induct) (simp_all add: store_load32)
  then show ?thesis by simp
qed

lemma chunk_map_inverse: "(\<And>w. f (g w) = w) \<Longrightarrow> chunk_map f (chunk_map g bs) = bs"
proof -
  assume "\<And>w. f (g w) = w"
  then have "f \<circ> g = id" by (simp add: fun_eq_iff)
  then show ?thesis by (simp add: chunk_map_comp chunk_map_id)
qed

lemma words_loop_eq:
  "4 * (i + k) \<le> length bs \<Longrightarrow>
   words_loop f i k bs = patch bs (4 * i) (chunk_map f (seg bs (4 * i) (4 * k)))"
proof (induction k arbitrary: i bs)
  case 0
  then show ?case by simp
next
  case (Suc k)
  let ?w = "store32 (f (load32 (seg bs (4 * i) 4)))"
  let ?bs = "patch bs (4 * i) ?w"
  have len: "length ?bs = length bs" using Suc.prems by simp
  have "words_loop f i (Suc k) bs = words_loop f (Suc i) k ?bs"
    by (simp add: set32_def get32_def)
  also have "\<dots> = patch ?bs (4 * Suc i) (chunk_map f (seg ?bs (4 * Suc i) (4 * k)))"
    by (rule Suc.IH) (use Suc.prems len in simp)
  also have "seg ?bs (4 * Suc i) (4 * k) = seg bs (4 * Suc i) (4 * k)"
    using Suc.prems by (simp add: seg_patch_after)
  also have "patch ?bs (4 * Suc i) (chunk_map f (seg bs (4 * Suc i) (4 * k))) =
      patch bs (4 * i) (?w @ chunk_map f (seg bs (4 * Suc i) (4 * k)))"
    using Suc.prems by (simp add: patch_def add_ac)
  also have "?w @ chunk_map f (seg bs (4 * Suc i) (4 * k)) =
      chunk_map f (seg bs (4 * i) 4 @ seg bs (4 * i + 4) (4 * k))"
    using Suc.prems by (simp add: chunk_map_4 add.commute)
  also have "seg bs (4 * i) 4 @ seg bs (4 * i + 4) (4 * k) = seg bs (4 * i) (4 * Suc k)"
    by (simp add: seg_concat2)
  finally show ?case .
qed

lemma length_words_loop [simp]:
  "4 * (i + k) \<le> length bs \<Longrightarrow> length (words_loop f i k bs) = length bs"
  by (simp add: words_loop_eq)

lemma get32_words_loop:
  "4 * (i + k) \<le> length bs \<Longrightarrow> 4 * j + 4 \<le> length bs \<Longrightarrow>
   get32 (words_loop f i k bs) j = (if i \<le> j \<and> j < i + k then f (get32 bs j) else get32 bs j)"
proof (induction k arbitrary: i bs)
  case 0
  then show ?case by auto
next
  case (Suc k)
  then show ?case by (cases "i = j") auto
qed

lemma chunk_map_append:
  "length xs = 4 * k \<Longrightarrow> chunk_map f (xs @ ys) = chunk_map f xs @ chunk_map f ys"
proof (induction k arbitrary: xs)
  case 0
  then show ?case by simp
next
  case (Suc k)
  let ?a = "take 4 xs" and ?b = "drop 4 xs"
  have "chunk_map f (?a @ (?b @ ys)) = store32 (f (load32 ?a)) @ chunk_map f (?b @ ys)"
    "chunk_map f (?a @ ?b) = store32 (f (load32 ?a)) @ chunk_map f ?b"
    by (rule chunk_map_4, use Suc.prems in simp)+
  then show ?case using Suc.IH [of ?b] Suc.prems
    by (simp flip: append_assoc add: append_take_drop_id)
qed

lemma words_loop_all:
  "length bs = 4 * k \<Longrightarrow> words_loop f 0 k bs = chunk_map f bs"
  using words_loop_eq [of 0 k bs f] by (simp add: patch_all seg_def)

end
