(* ===== verification/Memory.thy ===== *)
theory Memory
  imports Byte_Order
begin

text \<open>
  The memory the library works on: blocks from \<open>std::malloc\<close> (and external buffers, which
  are blocks of the caller), pointers into them, and the C library calls on them.  Objects
  that the code builds over one buffer (the views \<open>parse_buf\<close> makes) hold pointers into the
  same block, so a write through one of them is seen by the others.

  An access outside a live block is undefined behaviour (\<open>None\<close>).  Whether an allocation
  succeeds (\<open>malloc_limit\<close>) and what fresh memory holds (\<open>malloc_fill\<close>) are not
  determined: both are fields of the memory that no operation changes.
\<close>

type_synonym ptr = "nat \<times> nat"  \<comment> \<open>block and offset\<close>

record mem =
  heap :: "nat \<Rightarrow> byte list option"
  next_block :: nat
  malloc_limit :: nat
  malloc_fill :: "nat \<Rightarrow> byte"

named_theorems mem_simps \<open>evaluation of memory accesses\<close>

definition mread :: "mem \<Rightarrow> ptr \<Rightarrow> nat \<Rightarrow> byte list option" where
  "mread m p n = (case heap m (fst p) of
     None \<Rightarrow> None
   | Some bs \<Rightarrow> if snd p + n \<le> length bs then Some (seg bs (snd p) n) else None)"

text \<open>The memory with block \<open>b\<close> holding \<open>bs\<close>.\<close>

definition upd_block :: "mem \<Rightarrow> nat \<Rightarrow> byte list \<Rightarrow> mem" where
  "upd_block m b bs = m\<lparr>heap := (heap m)(b := Some bs)\<rparr>"

definition mwrite :: "mem \<Rightarrow> ptr \<Rightarrow> byte list \<Rightarrow> mem option" where
  "mwrite m p xs = (case heap m (fst p) of
     None \<Rightarrow> None
   | Some bs \<Rightarrow> if snd p + length xs \<le> length bs
       then Some (upd_block m (fst p) (patch bs (snd p) xs)) else None)"

definition padd :: "ptr \<Rightarrow> nat \<Rightarrow> ptr" where
  "padd p n = (fst p, snd p + n)"

text \<open>\<open>std::malloc\<close> and \<open>std::free\<close>; freeing anything but the start of a live block is undefined.\<close>

definition malloc :: "mem \<Rightarrow> nat \<Rightarrow> ptr option \<times> mem" where
  "malloc m n = (if n \<le> malloc_limit m
     then (Some (next_block m, 0),
           m\<lparr>heap := (heap m)(next_block m := Some (map (malloc_fill m) [0..<n])),
             next_block := Suc (next_block m)\<rparr>)
     else (None, m))"

definition mfree :: "mem \<Rightarrow> ptr \<Rightarrow> mem option" where
  "mfree m p = (if snd p = 0 \<and> heap m (fst p) \<noteq> None
     then Some (m\<lparr>heap := (heap m)(fst p := None)\<rparr>) else None)"

definition mem_ok :: "mem \<Rightarrow> bool" where
  "mem_ok m \<longleftrightarrow> (\<forall>b \<ge> next_block m. heap m b = None)"

definition mread32 :: "mem \<Rightarrow> ptr \<Rightarrow> u32 option" where
  "mread32 m p = map_option load32 (mread m p 4)"

definition mwrite32 :: "mem \<Rightarrow> ptr \<Rightarrow> u32 \<Rightarrow> mem option" where
  "mwrite32 m p w = mwrite m p (store32 w)"

definition mread64 :: "mem \<Rightarrow> ptr \<Rightarrow> u64 option" where
  "mread64 m p = map_option load64 (mread m p 8)"

definition mwrite64 :: "mem \<Rightarrow> ptr \<Rightarrow> u64 \<Rightarrow> mem option" where
  "mwrite64 m p w = mwrite m p (store64 w)"

text \<open>The loop \<open>for (\<dots>) array[i] = f(array[i])\<close> over 32-bit words in memory.\<close>

fun mem_words_loop :: "(u32 \<Rightarrow> u32) \<Rightarrow> mem \<Rightarrow> ptr \<Rightarrow> nat \<Rightarrow> nat \<Rightarrow> mem option" where
  "mem_words_loop f m p i 0 = Some m"
| "mem_words_loop f m p i (Suc k) = do {
     w \<leftarrow> mread32 m (padd p (4 * i));
     m \<leftarrow> mwrite32 m (padd p (4 * i)) (f w);
     mem_words_loop f m p (Suc i) k
   }"

section \<open>Lemmas\<close>

lemma upd_block_sel [simp]:
  "heap (upd_block m b bs) = (heap m)(b \<mapsto> bs)"
  "next_block (upd_block m b bs) = next_block m"
  "malloc_limit (upd_block m b bs) = malloc_limit m"
  "malloc_fill (upd_block m b bs) = malloc_fill m"
  by (simp_all add: upd_block_def)

lemma upd_block_same [simp]: "upd_block (upd_block m b xs) b ys = upd_block m b ys"
  by (simp add: upd_block_def)

lemma upd_block_idem: "heap m b = Some bs \<Longrightarrow> upd_block m b bs = m"
  by (simp add: upd_block_def fun_upd_idem)

lemma mem_ok_upd_block: "mem_ok m \<Longrightarrow> heap m b = Some xs \<Longrightarrow> mem_ok (upd_block m b bs)"
  by (auto simp: mem_ok_def)

lemma padd_sel [simp]: "fst (padd p n) = fst p" "snd (padd p n) = snd p + n"
  by (simp_all add: padd_def)

lemma padd_padd [simp]: "padd (padd p a) b = padd p (a + b)"
  by (simp add: padd_def)

lemma padd_0 [simp]: "padd p 0 = p"
  by (simp add: padd_def)

lemma mread_eq [mem_simps]:
  "heap m (fst p) = Some bs \<Longrightarrow> snd p + n \<le> length bs \<Longrightarrow> mread m p n = Some (seg bs (snd p) n)"
  by (simp add: mread_def)

lemma mread_at: "heap m b = Some (xs @ ys @ zs) \<Longrightarrow> length xs = o' \<Longrightarrow> length ys = n \<Longrightarrow> mread m (b, o') n = Some ys"
  by (subst mread_eq [of _ _ "xs @ ys @ zs"]) (simp_all add: seg_def)

lemma mread_Some_iff:
  "mread m p n = Some xs \<longleftrightarrow>
   (\<exists>bs. heap m (fst p) = Some bs \<and> snd p + n \<le> length bs \<and> xs = seg bs (snd p) n)"
  by (auto simp: mread_def split: option.splits if_splits)

lemma mwrite_eq [mem_simps]:
  "heap m (fst p) = Some bs \<Longrightarrow> snd p + length xs \<le> length bs \<Longrightarrow>
   mwrite m p xs = Some (upd_block m (fst p) (patch bs (snd p) xs))"
  by (simp add: mwrite_def)

lemma mwrite_Some_iff:
  "mwrite m p xs = Some m' \<longleftrightarrow>
   (\<exists>bs. heap m (fst p) = Some bs \<and> snd p + length xs \<le> length bs \<and>
      m' = upd_block m (fst p) (patch bs (snd p) xs))"
  by (auto simp: mwrite_def split: option.splits if_splits)

lemma mread_length: "mread m p n = Some xs \<Longrightarrow> length xs = n"
  by (auto simp: mread_Some_iff)

lemma mread_mwrite_same:
  "mwrite m p xs = Some m' \<Longrightarrow> mread m' p (length xs) = Some xs"
  by (auto simp: mwrite_Some_iff mread_def seg_patch_same)

lemma mread_mwrite_other_block:
  "mwrite m p xs = Some m' \<Longrightarrow> fst q \<noteq> fst p \<Longrightarrow> mread m' q n = mread m q n"
  by (auto simp: mwrite_Some_iff mread_def)

lemma mread_mwrite_disjoint:
  "mwrite m p xs = Some m' \<Longrightarrow>
   snd q + n \<le> snd p \<or> snd p + length xs \<le> snd q \<Longrightarrow> mread m' q n = mread m q n"
  by (cases "fst q = fst p")
    (auto simp: mwrite_Some_iff mread_def seg_patch_before seg_patch_after)

lemma mwrite_frame: "mwrite m p xs = Some m' \<Longrightarrow> b \<noteq> fst p \<Longrightarrow> heap m' b = heap m b"
  by (auto simp: mwrite_Some_iff)

lemma malloc_fresh: "mem_ok m \<Longrightarrow> malloc m n = (Some p, m') \<Longrightarrow> heap m (fst p) = None"
  by (auto simp: malloc_def mem_ok_def split: if_splits)

lemma malloc_block:
  "malloc m n = (Some p, m') \<Longrightarrow>
   snd p = 0 \<and> (\<exists>bs. heap m' (fst p) = Some bs \<and> length bs = n) \<and>
   (\<forall>b. b \<noteq> fst p \<longrightarrow> heap m' b = heap m b)"
  by (auto simp: malloc_def split: if_splits)

lemma mem_ok_malloc: "mem_ok m \<Longrightarrow> malloc m n = (r, m') \<Longrightarrow> mem_ok m'"
  by (auto simp: malloc_def mem_ok_def split: if_splits)

lemma mem_ok_live: "mem_ok m \<Longrightarrow> heap m b = Some bs \<Longrightarrow> b < next_block m"
  by (metis mem_ok_def not_le option.discI)

lemma mem_ok_mwrite: "mem_ok m \<Longrightarrow> mwrite m p xs = Some m' \<Longrightarrow> mem_ok m'"
  by (auto simp: mwrite_Some_iff mem_ok_def)

lemma mem_ok_mfree: "mem_ok m \<Longrightarrow> mfree m p = Some m' \<Longrightarrow> mem_ok m'"
  by (auto simp: mfree_def mem_ok_def split: if_splits)

text \<open>Converting a range of words converts exactly those bytes.\<close>

lemma mem_words_loop_eq [mem_simps]:
  "heap m (fst p) = Some bs \<Longrightarrow> snd p + 4 * (i + k) \<le> length bs \<Longrightarrow>
   mem_words_loop f m p i k = Some (upd_block m (fst p)
     (patch bs (snd p + 4 * i) (chunk_map f (seg bs (snd p + 4 * i) (4 * k)))))"
proof (induction k arbitrary: i m bs)
  case 0
  then show ?case by (simp add: upd_block_idem)
next
  case (Suc k)
  let ?o = "snd p + 4 * i"
  let ?w = "store32 (f (load32 (seg bs ?o 4)))"
  let ?bs = "patch bs ?o ?w"
  let ?m = "upd_block m (fst p) ?bs"
  have len: "length ?bs = length bs" using Suc.prems by simp
  have "mem_words_loop f m p i (Suc k) = mem_words_loop f ?m p (Suc i) k"
    using Suc.prems by (simp add: mread32_def mwrite32_def mem_simps)
  also have "\<dots> = Some (upd_block ?m (fst p)
      (patch ?bs (snd p + 4 * Suc i) (chunk_map f (seg ?bs (snd p + 4 * Suc i) (4 * k)))))"
    by (rule Suc.IH) (use Suc.prems len in simp_all)
  also have "seg ?bs (snd p + 4 * Suc i) (4 * k) = seg bs (?o + 4) (4 * k)"
    using Suc.prems by (simp add: seg_patch_after add_ac)
  also have "patch ?bs (snd p + 4 * Suc i) (chunk_map f (seg bs (?o + 4) (4 * k))) =
      patch bs ?o (?w @ chunk_map f (seg bs (?o + 4) (4 * k)))"
    using Suc.prems by (simp add: patch_def add_ac)
  also have "?w @ chunk_map f (seg bs (?o + 4) (4 * k)) =
      chunk_map f (seg bs ?o 4 @ seg bs (?o + 4) (4 * k))"
    using Suc.prems by (simp add: chunk_map_4)
  also have "seg bs ?o 4 @ seg bs (?o + 4) (4 * k) = seg bs ?o (4 * Suc k)"
    by (simp add: seg_concat2)
  finally show ?case by (simp only: upd_block_same)
qed

lemma mem_words_loop_frame:
  "mem_words_loop f m p i k = Some m' \<Longrightarrow> b \<noteq> fst p \<Longrightarrow> heap m' b = heap m b"
proof (induction k arbitrary: i m)
  case 0
  then show ?case by simp
next
  case (Suc k)
  then show ?case by (auto simp: ub_simps mwrite32_def dest!: mwrite_frame)
qed

end
