(* ===== verification/Dson_Obj.thy ===== *)
theory Dson_Obj
  imports Memory
begin

text \<open>
  What all objects share: the result of an operation (\<open>impl/result.h\<close>), the registry of
  type identifiers (\<open>impl/types_map.h\<close>), the header of a stored object and the states of
  \<open>DsonObj\<close> (\<open>impl/dson_obj.h\<close>).
\<close>

section \<open>Results and states\<close>

datatype result = Error | Ready | InProcess

datatype obj_state =
  StReady | StLoadingHeader | StLoadingData | StCopyingHeader | StCopyingData | StError

section \<open>Type identifiers\<close>

datatype lib_type =
  T_Empty | T_DsonContainer | T_string | T_int32 | T_uint32 | T_int64 | T_uint64
| T_vector_uint32 | T_double

fun types_map :: "lib_type \<Rightarrow> i32" where
  "types_map T_Empty = 0"
| "types_map T_DsonContainer = 1"
| "types_map T_string = 2"
| "types_map T_int32 = 3"
| "types_map T_uint32 = 4"
| "types_map T_int64 = 5"
| "types_map T_uint64 = 6"
| "types_map T_vector_uint32 = 7"
| "types_map T_double = 8"

declare types_map.simps [simp del]

lemmas type_ids = types_map.simps

lemma types_map_ok [simp]: "i32_ok (types_map t)"
  by (cases t) (simp_all add: type_ids i32_ok_iff)

section \<open>The header\<close>

text \<open>
  A header is four 32-bit words, \<open>[0]\<close> the byte-order mark, \<open>[1]\<close> the size of the data,
  \<open>[2]\<close> the key, \<open>[3]\<close> the type, read and written in place.
\<close>

definition mark_host_order :: u32 where "mark_host_order = 1"
definition mark_network_order :: u32 where "mark_network_order = htonl mark_host_order"

definition header_size :: nat where "header_size = 16"
definition header_array_len :: nat where "header_array_len = 4"

text \<open>
  The mark survives the transfer: a little-endian host reads a network-order mark as
  \<open>0x01000000\<close>, which is not the host mark.
\<close>

lemma mark_network_order_val: "mark_network_order = 0x01000000"
  by (simp add: mark_network_order_def mark_host_order_def htonl_def load32_def store32_def
      store_le_4)

lemma marks_differ: "mark_network_order \<noteq> mark_host_order"
  by (simp add: mark_network_order_val mark_host_order_def)

text \<open>A header in local storage (the array \<open>header_\<close> of an object), seen as bytes.\<close>

definition hdr_is_host :: "byte list \<Rightarrow> bool" where
  "hdr_is_host h \<longleftrightarrow> get32 h 0 = mark_host_order"

definition hdr_is_network :: "byte list \<Rightarrow> bool" where
  "hdr_is_network h \<longleftrightarrow> get32 h 0 = mark_network_order"

text \<open>Field \<open>i\<close> of a header, in the order its mark says.\<close>

definition hdr_field :: "byte list \<Rightarrow> nat \<Rightarrow> i32" where
  "hdr_field h i = (if hdr_is_host h then to_i32 (get32 h i) else int32_to_host (get32 h i))"

definition hdr_set_field :: "byte list \<Rightarrow> nat \<Rightarrow> i32 \<Rightarrow> byte list" where
  "hdr_set_field h i v =
     (if hdr_is_host h then set32 h i (of_i32 v) else set32 h i (int32_to_network v))"

definition hdr_to_host :: "byte list \<Rightarrow> byte list" where
  "hdr_to_host h = (if hdr_is_host h then h else words_loop ntohl 0 header_array_len h)"

definition hdr_to_network :: "byte list \<Rightarrow> byte list" where
  "hdr_to_network h = (if hdr_is_network h then h else words_loop htonl 0 header_array_len h)"

text \<open>The reference layout of a header: four words in the order of the host or of the wire.\<close>

definition host_hdr :: "i32 \<Rightarrow> i32 \<Rightarrow> i32 \<Rightarrow> byte list" where
  "host_hdr sz k ty = store32 mark_host_order @ store32 (of_i32 sz) @ store32 (of_i32 k) @
     store32 (of_i32 ty)"

definition net_hdr :: "i32 \<Rightarrow> i32 \<Rightarrow> i32 \<Rightarrow> byte list" where
  "net_hdr sz k ty = be32 mark_host_order @ be32 (of_i32 sz) @ be32 (of_i32 k) @ be32 (of_i32 ty)"

definition hdr_for :: "bool \<Rightarrow> i32 \<Rightarrow> i32 \<Rightarrow> i32 \<Rightarrow> byte list" where
  "hdr_for nw sz k ty = (if nw then net_hdr sz k ty else host_hdr sz k ty)"

definition hdr_valid :: "byte list \<Rightarrow> bool" where
  "hdr_valid h \<longleftrightarrow> length h = 16 \<and> (hdr_is_host h \<or> hdr_is_network h)"

section \<open>Laws of headers\<close>

named_theorems hdr_simps \<open>reading and converting headers\<close>

lemma get32_append_store32 [hdr_simps]:
  "get32 (store32 w @ xs) 0 = w"
  "get32 (store32 w @ xs) (Suc i) = get32 xs i"
  "get32 (store32 w) 0 = w"
  by (simp_all add: get32_def seg_simps seg_def)

lemma get32_append_be32 [hdr_simps]:
  "get32 (be32 w @ xs) 0 = htonl w"
  "get32 (be32 w @ xs) (Suc i) = get32 xs i"
  "get32 (be32 w) 0 = htonl w"
  by (simp_all add: store32_htonl [symmetric] hdr_simps)

lemma length_hdrs [simp]:
  "length (host_hdr sz k ty) = 16" "length (net_hdr sz k ty) = 16" "length (hdr_for nw sz k ty) = 16"
  by (simp_all add: host_hdr_def net_hdr_def hdr_for_def)

lemma hdrs_nonempty [simp]: "host_hdr sz k ty \<noteq> []" "net_hdr sz k ty \<noteq> []" "hdr_for nw sz k ty \<noteq> []"
  by (metis length_hdrs list.size(3) zero_neq_numeral)+

lemma chunk_map_store32 [simp]: "chunk_map f (store32 w @ xs) = store32 (f w) @ chunk_map f xs"
  by (simp add: chunk_map_4)

lemma chunk_map_store32_nil [simp]: "chunk_map f (store32 w) = store32 (f w)"
  using chunk_map_store32 [of f w "[]"] by simp

lemma host_hdr_to_network: "words_loop htonl 0 header_array_len (host_hdr sz k ty) = net_hdr sz k ty"
  by (simp add: words_loop_eq header_array_len_def host_hdr_def net_hdr_def patch_all seg_def
      store32_htonl)

lemma net_hdr_to_host: "words_loop ntohl 0 header_array_len (net_hdr sz k ty) = host_hdr sz k ty"
  by (simp add: words_loop_eq header_array_len_def host_hdr_def net_hdr_def patch_all seg_def
      store32_htonl [symmetric])

lemma hdr_is_host_simps [hdr_simps]:
  "hdr_is_host (host_hdr sz k ty)" "\<not> hdr_is_host (net_hdr sz k ty)"
  "hdr_is_network (net_hdr sz k ty)" "\<not> hdr_is_network (host_hdr sz k ty)"
  "hdr_is_host (hdr_for nw sz k ty) \<longleftrightarrow> \<not> nw" "hdr_is_network (hdr_for nw sz k ty) \<longleftrightarrow> nw"
  using marks_differ
  by (auto simp: hdr_is_host_def hdr_is_network_def host_hdr_def net_hdr_def hdr_for_def hdr_simps
      mark_network_order_def)

lemma hdr_field_for [hdr_simps]:
  "i32_ok sz \<Longrightarrow> hdr_field (hdr_for nw sz k ty) (Suc 0) = sz"
  "i32_ok k \<Longrightarrow> hdr_field (hdr_for nw sz k ty) 2 = k"
  "i32_ok ty \<Longrightarrow> hdr_field (hdr_for nw sz k ty) 3 = ty"
  by (simp_all add: hdr_field_def hdr_simps)
    (simp_all add: hdr_for_def host_hdr_def net_hdr_def numeral_eq_Suc hdr_simps to_i32_of_i32
      int32_to_host_def)

text \<open>A header of the right length whose mark is valid is one of the two layouts of its fields.\<close>

lemma bytes16_words:
  "length h = 16 \<Longrightarrow>
   h = store32 (get32 h 0) @ store32 (get32 h 1) @ store32 (get32 h 2) @ store32 (get32 h 3)"
  using seg_concat2 [of h 8 4 4] seg_concat2 [of h 4 4 8] seg_concat2 [of h 0 4 12] seg_all [of h]
  by (simp add: get32_def store_load32)

lemma hdr_valid_cases:
  assumes "hdr_valid h"
  shows "h = hdr_for (hdr_is_network h) (hdr_field h 1) (hdr_field h 2) (hdr_field h 3)"
proof (cases "hdr_is_host h")
  case True
  then have "\<not> hdr_is_network h" using marks_differ by (auto simp: hdr_is_host_def hdr_is_network_def)
  with True assms show ?thesis
    using bytes16_words [of h]
    by (simp add: hdr_for_def host_hdr_def hdr_field_def hdr_valid_def) (simp add: hdr_is_host_def)
next
  case False
  with assms have "hdr_is_network h" by (simp add: hdr_valid_def)
  with False assms show ?thesis
    using bytes16_words [of h]
    by (simp add: hdr_for_def net_hdr_def hdr_field_def hdr_valid_def int32_to_host_def
        store32_htonl [symmetric])
      (simp add: hdr_is_network_def mark_network_order_def)
qed

lemma hdr_field_ok [simp]: "i32_ok (hdr_field h i)"
  by (simp add: hdr_field_def)

lemma hdr_to_host_for [hdr_simps]: "hdr_to_host (hdr_for nw sz k ty) = host_hdr sz k ty"
  by (simp add: hdr_to_host_def hdr_simps) (simp add: hdr_for_def net_hdr_to_host)

lemma hdr_to_network_for [hdr_simps]: "hdr_to_network (hdr_for nw sz k ty) = net_hdr sz k ty"
  by (simp add: hdr_to_network_def hdr_simps) (simp add: hdr_for_def host_hdr_to_network)

lemma hdr_set_field_simps [hdr_simps]:
  "hdr_set_field (hdr_for nw sz k ty) (Suc 0) v = hdr_for nw v k ty"
  "hdr_set_field (hdr_for nw sz k ty) 2 v = hdr_for nw sz v ty"
  "hdr_set_field (hdr_for nw sz k ty) 3 v = hdr_for nw sz k v"
  by (simp_all add: hdr_set_field_def hdr_simps)
    (simp_all add: hdr_for_def host_hdr_def net_hdr_def set32_def patch_def int32_to_network_def
      store32_htonl)

lemma hdr_for_valid [simp]: "hdr_valid (hdr_for nw sz k ty)"
  by (simp add: hdr_valid_def hdr_simps)

lemma hdr_to_network_valid:
  "hdr_valid h \<Longrightarrow> hdr_to_network h = net_hdr (hdr_field h 1) (hdr_field h 2) (hdr_field h 3)"
  by (metis hdr_valid_cases hdr_to_network_for)

lemma hdr_to_host_valid:
  "hdr_valid h \<Longrightarrow> hdr_to_host h = host_hdr (hdr_field h 1) (hdr_field h 2) (hdr_field h 3)"
  by (metis hdr_valid_cases hdr_to_host_for)

lemma hdr_valid_length: "hdr_valid h \<Longrightarrow> length h = 16"
  by (simp add: hdr_valid_def)

text \<open>Writing all four fields overwrites the whole header, whatever the storage held before.\<close>

lemma set32_all_words:
  assumes "length raw = 16"
  shows "set32 (set32 (set32 (set32 raw 0 a) (Suc 0) b) 2 c) 3 d =
    store32 a @ store32 b @ store32 c @ store32 d"
proof -
  let ?h = "set32 (set32 (set32 (set32 raw 0 a) (Suc 0) b) 2 c) 3 d"
  have "length ?h = 16" using assms by simp
  then have "?h = store32 (get32 ?h 0) @ store32 (get32 ?h 1) @ store32 (get32 ?h 2) @ store32 (get32 ?h 3)"
    by (rule bytes16_words)
  with assms show ?thesis by simp
qed

text \<open>Converting a header to either order, as the copy operations do, keeps its fields.\<close>

definition hdr_order :: "bool \<Rightarrow> byte list \<Rightarrow> byte list" where
  "hdr_order nw h = (if nw then hdr_to_network h else hdr_to_host h)"

lemma hdr_order_valid:
  "hdr_valid h \<Longrightarrow> hdr_order nw h = hdr_for nw (hdr_field h 1) (hdr_field h 2) (hdr_field h 3)"
  by (simp add: hdr_order_def hdr_for_def hdr_to_network_valid hdr_to_host_valid)

lemma hdr_order_laws [simp]:
  assumes "hdr_valid h"
  shows "hdr_valid (hdr_order nw h)"
    "hdr_field (hdr_order nw h) (Suc 0) = hdr_field h (Suc 0)"
    "hdr_field (hdr_order nw h) 2 = hdr_field h 2"
    "hdr_field (hdr_order nw h) 3 = hdr_field h 3"
    "hdr_is_network (hdr_order nw h) = nw" "hdr_is_host (hdr_order nw h) = (\<not> nw)"
    "length (hdr_order nw h) = 16"
  using assms by (simp_all add: hdr_order_valid hdr_simps)

lemma hdr_order_idem [simp]:
  "hdr_valid h \<Longrightarrow> hdr_order nw (hdr_order nw' h) = hdr_order nw h"
  by (simp add: hdr_order_valid [of "hdr_order nw' h"]) (simp add: hdr_order_valid)

end
