(* ===== verification/Resumable_IO.thy ===== *)
theory Resumable_IO
  imports Dson_Obj
begin

text \<open>
  Moving bytes out of and into objects: the cursor a \<open>copy_to_buf_*\<close> call advances, the
  POSIX descriptors behind \<open>write_to_fd\<close> and \<open>read_from_fd\<close>
  (\<open>os/linux/linux_network.h\<close>), the client loop that repeats a transfer while it answers
  \<open>InProcess\<close>, and the interfaces a resumable writer and a resumable reader satisfy.
\<close>

section \<open>The output window of copy_to_buf\<close>

text \<open>
  \<open>char *& buf, std::int32_t & buf_size\<close>: the bytes written so far through the advancing
  pointer, and the room left.
\<close>

record cur =
  c_out :: "byte list"
  c_room :: i32

definition cur_put :: "cur \<Rightarrow> byte list \<Rightarrow> cur" where
  "cur_put c xs = c\<lparr>c_out := c_out c @ xs, c_room := c_room c - int (length xs)\<rparr>"

definition window :: "nat \<Rightarrow> cur" where
  "window n = \<lparr>c_out = [], c_room = int n\<rparr>"

lemma cur_put_sel [simp]:
  "c_out (cur_put c xs) = c_out c @ xs" "c_room (cur_put c xs) = c_room c - int (length xs)"
  by (simp_all add: cur_put_def)

lemma cur_put_put [simp]: "cur_put (cur_put c xs) ys = cur_put c (xs @ ys)"
  by (simp add: cur_put_def)

lemma cur_put_nil [simp]: "cur_put c [] = c"
  by (simp add: cur_put_def)

lemma window_sel [simp]: "c_out (window n) = []" "c_room (window n) = int n"
  by (simp_all add: window_def)

section \<open>POSIX descriptors\<close>

datatype errno = EAGAIN | EWOULDBLOCK | EOTHER nat

text \<open>
  How the kernel answers the next calls of \<open>::write\<close>: it takes at most so many bytes, or
  it fails with an \<open>errno\<close>.  A call beyond the script would block.
\<close>

datatype wcall = WrTake nat | WrFail errno

record wfd =
  w_script :: "wcall list"
  w_data :: "byte list"

definition sys_write :: "wfd \<Rightarrow> byte list \<Rightarrow> (errno + nat) \<times> wfd" where
  "sys_write fd buf = (case w_script fd of
     [] \<Rightarrow> (Inl EAGAIN, fd)
   | WrFail e # s \<Rightarrow> (Inl e, fd\<lparr>w_script := s\<rparr>)
   | WrTake n # s \<Rightarrow> (let k = min n (length buf) in
       (Inr k, fd\<lparr>w_script := s, w_data := w_data fd @ take k buf\<rparr>)))"

definition write_to_fd :: "wfd \<Rightarrow> byte list \<Rightarrow> int \<times> wfd" where
  "write_to_fd fd buf = (case sys_write fd buf of
     (Inl err, fd') \<Rightarrow> (if err = EAGAIN \<or> err = EWOULDBLOCK then (0, fd') else (-1, fd'))
   | (Inr re, fd') \<Rightarrow> (int re, fd'))"

datatype rcall = RdGive nat | RdFail errno

record rfd =
  r_script :: "rcall list"
  r_data :: "byte list"

definition sys_read :: "rfd \<Rightarrow> nat \<Rightarrow> (errno + byte list) \<times> rfd" where
  "sys_read fd n = (case r_script fd of
     [] \<Rightarrow> (Inl EAGAIN, fd)
   | RdFail e # s \<Rightarrow> (Inl e, fd\<lparr>r_script := s\<rparr>)
   | RdGive k # s \<Rightarrow> (Inr (take (min k n) (r_data fd)),
       fd\<lparr>r_script := s, r_data := drop (min k n) (r_data fd)\<rparr>))"

text \<open>The result and the bytes stored at the start of the caller's buffer.\<close>

definition read_from_fd :: "rfd \<Rightarrow> nat \<Rightarrow> int \<times> byte list \<times> rfd" where
  "read_from_fd fd buf_size = (case sys_read fd buf_size of
     (Inl err, fd') \<Rightarrow> (if err = EAGAIN \<or> err = EWOULDBLOCK then (0, [], fd') else (-1, [], fd'))
   | (Inr bs, fd') \<Rightarrow> (int (length bs), bs, fd'))"

lemma write_to_fd_cases:
  obtains (fail) fd' where "write_to_fd fd buf = (-1, fd')" "w_data fd' = w_data fd"
  | (some) k fd' where "write_to_fd fd buf = (int k, fd')" "k \<le> length buf"
      "w_data fd' = w_data fd @ take k buf"
proof (cases "w_script fd")
  case Nil
  then have "write_to_fd fd buf = (int 0, fd)" by (simp add: write_to_fd_def sys_write_def)
  then show ?thesis using some [of 0 fd] by simp
next
  case (Cons c s)
  show ?thesis
  proof (cases c)
    case (WrTake n)
    then show ?thesis
      using some [of "min n (length buf)"] Cons by (simp add: write_to_fd_def sys_write_def Let_def)
  next
    case (WrFail e)
    then show ?thesis
      using fail some [of 0] Cons
      by (cases "e = EAGAIN \<or> e = EWOULDBLOCK") (simp_all add: write_to_fd_def sys_write_def)
  qed
qed

text \<open>A descriptor whose writes never fail for good: they take bytes or would block.\<close>

definition soft_call :: "wcall \<Rightarrow> bool" where
  "soft_call c \<longleftrightarrow> (case c of WrTake n \<Rightarrow> True | WrFail e \<Rightarrow> e = EAGAIN \<or> e = EWOULDBLOCK)"

abbreviation soft :: "wcall list \<Rightarrow> bool" where
  "soft s \<equiv> \<forall>c \<in> set s. soft_call c"

lemma write_to_fd_soft:
  assumes "soft (w_script fd)"
  obtains k fd' where "write_to_fd fd buf = (int k, fd')" "k \<le> length buf"
    "w_data fd' = w_data fd @ take k buf" "soft (w_script fd')"
proof (cases "w_script fd")
  case Nil
  then show ?thesis using that [of 0 fd] by (simp add: write_to_fd_def sys_write_def)
next
  case (Cons c s)
  show ?thesis
  proof (cases c)
    case (WrTake n)
    then show ?thesis
      using that [of "min n (length buf)"] Cons assms by (simp add: write_to_fd_def sys_write_def Let_def)
  next
    case (WrFail e)
    then show ?thesis
      using that [of 0] Cons assms by (simp add: write_to_fd_def sys_write_def soft_call_def)
  qed
qed

text \<open>
  A descriptor that has taken something in this call, or takes at least one byte of the next
  write.
\<close>

definition live :: "wfd \<Rightarrow> bool" where
  "live fd \<longleftrightarrow> w_data fd \<noteq> [] \<or> (\<exists>n s. w_script fd = WrTake (Suc n) # s)"

lemma write_to_fd_live:
  "live fd \<Longrightarrow> buf \<noteq> [] \<Longrightarrow> write_to_fd fd buf = (r, fd') \<Longrightarrow> w_data fd' \<noteq> []"
  by (cases buf)
    (auto simp: live_def write_to_fd_def sys_write_def Let_def split: list.splits wcall.splits sum.splits if_splits)

lemma write_to_fd_keeps: "w_data fd \<noteq> [] \<Longrightarrow> write_to_fd fd buf = (r, fd') \<Longrightarrow> w_data fd' \<noteq> []"
  by (auto simp: write_to_fd_def sys_write_def Let_def split: list.splits wcall.splits sum.splits if_splits)

lemma read_from_fd_cases:
  obtains (fail) fd' where "read_from_fd fd n = (-1, [], fd')" "r_data fd' = r_data fd"
  | (some) k fd' where "read_from_fd fd n = (int k, take k (r_data fd), fd')" "k \<le> n"
      "k \<le> length (r_data fd)" "r_data fd' = drop k (r_data fd)"
proof (cases "r_script fd")
  case Nil
  then show ?thesis using some [of 0 fd] by (simp add: read_from_fd_def sys_read_def)
next
  case (Cons c s)
  show ?thesis
  proof (cases c)
    case (RdGive k)
    then show ?thesis
      using some [of "min (min k n) (length (r_data fd))" "fd\<lparr>r_script := s, r_data := drop (min k n) (r_data fd)\<rparr>"] Cons
      by (simp add: read_from_fd_def sys_read_def min_def)
  next
    case (RdFail e)
    then show ?thesis
      using fail some [of 0] Cons
      by (cases "e = EAGAIN \<or> e = EWOULDBLOCK") (simp_all add: read_from_fd_def sys_read_def)
  qed
qed

section \<open>The client loop\<close>

text \<open>
  \<open>while (InProcess == result) result = dson.copy_to_...(...)\<close>: one environment (a buffer
  size, the answers of the kernel) per call, until the list of calls ends.
\<close>

fun drive :: "('s \<Rightarrow> 'e \<Rightarrow> (result \<times> byte list \<times> 's) option) \<Rightarrow> 's \<Rightarrow> 'e list \<Rightarrow>
    (result \<times> byte list \<times> 's) option" where
  "drive step s [] = Some (InProcess, [], s)"
| "drive step s (e # es) = do {
     (r, out, s') \<leftarrow> step s e;
     if r = InProcess then do {
       (r', out', s'') \<leftarrow> drive step s' es;
       Some (r', out @ out', s'')
     } else Some (r, out, s')
   }"

text \<open>The same loop around a load: one portion of the input per call.\<close>

fun feed :: "('s \<Rightarrow> 'e \<Rightarrow> (result \<times> 's) option) \<Rightarrow> 's \<Rightarrow> 'e list \<Rightarrow> (result \<times> 's) option" where
  "feed step s [] = Some (InProcess, s)"
| "feed step s (xs # xss) = do {
     (r, s') \<leftarrow> step s xs;
     if r = InProcess then feed step s' xss else Some (r, s')
   }"

section \<open>The abstract queue\<close>

text \<open>
  What a transfer does, seen from outside: a queue of bytes from which each call takes as many
  as it has room for; the call that takes the last of them answers \<open>Ready\<close>.
\<close>

fun queue_run :: "byte list \<Rightarrow> nat list \<Rightarrow> result \<times> byte list" where
  "queue_run q [] = (InProcess, [])"
| "queue_run q (n # ns) = (if length q \<le> n then (Ready, q)
     else (case queue_run (drop n q) ns of (r, out) \<Rightarrow> (r, take n q @ out)))"

section \<open>Progress of one call\<close>

text \<open>
  \<open>advances P k r Q d\<close>: of the pending bytes \<open>P\<close> a call handed over the first \<open>k\<close>; it
  answered \<open>Ready\<close> and is at rest (\<open>d\<close>) if that was all, and otherwise it answered
  \<open>InProcess\<close> and keeps \<open>Q\<close>, the remaining bytes, pending.
\<close>

definition advances :: "byte list \<Rightarrow> nat \<Rightarrow> result \<Rightarrow> byte list \<Rightarrow> bool \<Rightarrow> bool" where
  "advances P k r Q d \<longleftrightarrow> k \<le> length P \<and>
     (if k = length P then r = Ready \<and> d else r = InProcess \<and> \<not> d \<and> Q = drop k P)"

lemma advances_ready: "advances P k Ready Q d \<longleftrightarrow> k = length P \<and> d"
  by (auto simp: advances_def)

lemma advances_in_process:
  "advances P k InProcess Q d \<longleftrightarrow> k < length P \<and> \<not> d \<and> Q = drop k P"
  by (auto simp: advances_def)

lemma advances_not_error [simp]: "\<not> advances P k Error Q d"
  by (auto simp: advances_def)

lemma advances_le: "advances P k r Q d \<Longrightarrow> k \<le> length P"
  by (simp add: advances_def)

lemma advances_first:
  "k < length P1 \<Longrightarrow> Q = drop k P1 @ P2 \<Longrightarrow> \<not> d \<Longrightarrow> advances (P1 @ P2) k InProcess Q d"
  by (simp add: advances_def)

lemma advances_second:
  "advances P2 k r Q d \<Longrightarrow> advances (P1 @ P2) (length P1 + k) r Q d"
  by (simp add: advances_def)

lemma take_first: "k \<le> length P1 \<Longrightarrow> take k (P1 @ P2) = take k P1"
  by simp

lemma take_second: "take (length P1 + k) (P1 @ P2) = P1 @ take k P2"
  by simp

section \<open>Interfaces\<close>

text \<open>
  What \<open>DsonObj\<close> promises of its \<open>copy_to_*\<close> operations: an object has bytes pending;
  a call hands over a first part of them and answers \<open>Ready\<close> exactly when none are left,
  in which case the object is at rest again.
\<close>

locale resumable_writer =
  fixes step :: "'s \<Rightarrow> 'e \<Rightarrow> (result \<times> byte list \<times> 's) option"
    and inv :: "'s \<Rightarrow> bool"
    and pending :: "'s \<Rightarrow> byte list"
    and rest :: "'s \<Rightarrow> bool"
    and env_ok :: "'e \<Rightarrow> bool"
  assumes step_advances: "inv s \<Longrightarrow> env_ok e \<Longrightarrow>
      \<exists>k r s'. step s e = Some (r, take k (pending s), s') \<and>
        advances (pending s) k r (pending s') (rest s') \<and> inv s'"

begin

lemma drive_prefix:
  "inv s \<Longrightarrow> \<forall>e \<in> set es. env_ok e \<Longrightarrow>
   (\<exists>s'. drive step s es = Some (Ready, pending s, s') \<and> rest s' \<and> inv s') \<or>
   (\<exists>out s'. drive step s es = Some (InProcess, out, s') \<and> inv s' \<and> pending s = out @ pending s')"
proof (induction es arbitrary: s)
  case Nil
  then show ?case by simp
next
  case (Cons e es)
  then obtain k r s' where st: "step s e = Some (r, take k (pending s), s')" "inv s'"
    and a: "advances (pending s) k r (pending s') (rest s')"
    using step_advances [of s e] by auto
  show ?case
  proof (cases r)
    case InProcess
    then have "pending s = take k (pending s) @ pending s'" using a by (simp add: advances_in_process)
    then show ?thesis using Cons.IH [OF st(2)] Cons.prems st(1) InProcess by fastforce
  qed (use st a in \<open>simp_all add: advances_ready\<close>)
qed

text \<open>Nothing but a prefix is ever delivered, and there is no error.\<close>

lemma drive_delivers_prefix:
  assumes "inv s" "\<forall>e \<in> set es. env_ok e"
  shows "\<exists>r out s'. drive step s es = Some (r, out, s') \<and> r \<noteq> Error \<and>
    (\<exists>k. out = take k (pending s)) \<and> (r = Ready \<longrightarrow> out = pending s \<and> rest s' \<and> inv s')"
  using drive_prefix [OF assms]
proof (elim disjE exE conjE)
  fix out s'
  assume d: "drive step s es = Some (InProcess, out, s')" and w: "pending s = out @ pending s'"
  have "out = take (length out) (pending s)" unfolding w by simp
  with d show ?thesis by (intro exI conjI) auto
qed (auto intro: exI [of _ "length (pending s)"])

text \<open>A transfer that completes has delivered exactly the pending bytes, however it was cut.\<close>

lemma drive_ready:
  "inv s \<Longrightarrow> \<forall>e \<in> set es. env_ok e \<Longrightarrow> drive step s es = Some (Ready, out, s') \<Longrightarrow>
   out = pending s \<and> rest s' \<and> inv s'"
  using drive_prefix [of s es] by auto

lemma drive_never_error:
  "inv s \<Longrightarrow> \<forall>e \<in> set es. env_ok e \<Longrightarrow> drive step s es \<noteq> Some (Error, out, s')"
  using drive_prefix [of s es] by auto

lemma drive_defined: "inv s \<Longrightarrow> \<forall>e \<in> set es. env_ok e \<Longrightarrow> drive step s es \<noteq> None"
  using drive_prefix [of s es] by auto

end

text \<open>
  In an environment that always takes something a writer finishes after at most as many calls
  as it has bytes.
\<close>

locale live_writer = resumable_writer +
  fixes lively :: "'b \<Rightarrow> bool"
  assumes lively_ok: "lively e \<Longrightarrow> env_ok e"
    and lively_step: "inv s \<Longrightarrow> lively e \<Longrightarrow> pending s \<noteq> [] \<Longrightarrow> step s e = Some (r, out, s') \<Longrightarrow> out \<noteq> []"

begin

lemma drive_completes:
  "inv s \<Longrightarrow> \<forall>e \<in> set es. lively e \<Longrightarrow> pending s \<noteq> [] \<Longrightarrow> length (pending s) \<le> length es \<Longrightarrow>
   \<exists>s'. drive step s es = Some (Ready, pending s, s') \<and> rest s' \<and> inv s'"
proof (induction es arbitrary: s)
  case Nil
  then show ?case by simp
next
  case (Cons e es)
  obtain k r s' where st: "step s e = Some (r, take k (pending s), s')" "inv s'"
    and a: "advances (pending s) k r (pending s') (rest s')"
    using step_advances [of s e] Cons.prems lively_ok by auto
  have k: "0 < k" using lively_step [of s e, OF Cons.prems(1) _ Cons.prems(3) st(1)] Cons.prems(2) by auto
  show ?case
  proof (cases r)
    case InProcess
    then have p: "pending s' = drop k (pending s)" "k < length (pending s)" using a by (simp_all add: advances_in_process)
    then have "length (pending s') \<le> length es" "pending s' \<noteq> []" using Cons.prems(4) k by auto
    then show ?thesis using Cons.IH [OF st(2)] Cons.prems(2) st(1) InProcess p by fastforce
  qed (use st a in \<open>simp_all add: advances_ready\<close>)
qed

end

text \<open>
  A writer into a memory window takes all the room it is given, so it also finishes: the
  calls complete once the windows together hold the pending bytes.
\<close>

locale window_writer =
  fixes step :: "'s \<Rightarrow> nat \<Rightarrow> (result \<times> byte list \<times> 's) option"
    and inv :: "'s \<Rightarrow> bool"
    and pending :: "'s \<Rightarrow> byte list"
    and rest :: "'s \<Rightarrow> bool"
  assumes step_fills: "inv s \<Longrightarrow>
      \<exists>r s'. step s n = Some (r, take n (pending s), s') \<and>
        advances (pending s) (min n (length (pending s))) r (pending s') (rest s') \<and> inv s'"

sublocale window_writer \<subseteq> resumable_writer step inv pending rest "\<lambda>_. True"
proof
  fix s :: 's and n :: nat
  assume "inv s"
  moreover have "take n (pending s) = take (min n (length (pending s))) (pending s)"
    by (simp add: min_def)
  ultimately show "\<exists>k r s'. step s n = Some (r, take k (pending s), s') \<and>
      advances (pending s) k r (pending s') (rest s') \<and> inv s'"
    using step_fills [of s n] by metis
qed

context window_writer
begin

lemma drive_windows:
  "inv s \<Longrightarrow> length (pending s) \<le> sum_list ns \<Longrightarrow> pending s \<noteq> [] \<Longrightarrow>
   \<exists>s'. drive step s ns = Some (Ready, pending s, s') \<and> rest s' \<and> inv s'"
proof (induction ns arbitrary: s)
  case Nil
  then show ?case by simp
next
  case (Cons n ns)
  obtain r s' where st: "step s n = Some (r, take n (pending s), s')" "inv s'"
    and a: "advances (pending s) (min n (length (pending s))) r (pending s') (rest s')"
    using step_fills [OF Cons.prems(1), of n] by blast
  show ?case
  proof (cases "length (pending s) \<le> n")
    case True
    with a have "r = Ready" "rest s'" by (simp_all add: advances_def min_def)
    with True st show ?thesis by simp
  next
    case False
    with a have r: "r = InProcess" and p: "pending s' = drop n (pending s)"
      by (simp_all add: advances_def min_def split: if_splits)
    have "length (pending s') \<le> sum_list ns" "pending s' \<noteq> []"
      using Cons.prems p False by auto
    from Cons.IH [OF st(2) this] p
    obtain t where "drive step s' ns = Some (Ready, drop n (pending s), t)" "rest t" "inv t"
      by auto
    with st r show ?thesis by simp
  qed
qed

text \<open>What the calls deliver and answer is what the queue of the pending bytes does.\<close>

lemma drive_queue:
  "inv s \<Longrightarrow> pending s \<noteq> [] \<Longrightarrow>
   map_option (\<lambda>(r, out, s'). (r, out)) (drive step s ns) = Some (queue_run (pending s) ns)"
proof (induction ns arbitrary: s)
  case Nil
  then show ?case by simp
next
  case (Cons n ns)
  obtain r s' where st: "step s n = Some (r, take n (pending s), s')" "inv s'"
    and a: "advances (pending s) (min n (length (pending s))) r (pending s') (rest s')"
    using step_fills [OF Cons.prems(1), of n] by blast
  show ?case
  proof (cases "length (pending s) \<le> n")
    case True
    with a have "r = Ready" by (simp add: advances_def min_def)
    with True st show ?thesis by simp
  next
    case False
    with a have r: "r = InProcess" and p: "pending s' = drop n (pending s)"
      by (simp_all add: advances_def min_def split: if_splits)
    have "pending s' \<noteq> []" using p False by auto
    from Cons.IH [OF st(2) this] p obtain t where
      "drive step s' ns = Some (fst (queue_run (drop n (pending s)) ns), snd (queue_run (drop n (pending s)) ns), t)"
      by (auto simp: prod_eq_iff)
    with st r False show ?thesis by (simp add: split_beta)
  qed
qed

end

text \<open>
  What loading promises: a reader lacks some bytes; a call takes a first part of them from
  the input, and it is \<open>Ready\<close> exactly when the object is complete.  \<open>wants\<close> says of an
  input stream that it starts with the bytes of one whole object, still to be read.
\<close>

locale resumable_reader =
  fixes step :: "'s \<Rightarrow> byte list \<Rightarrow> (result \<times> 's) option"
    and wants :: "'s \<Rightarrow> byte list \<Rightarrow> bool"
    and complete :: "'s \<Rightarrow> byte list \<Rightarrow> 's \<Rightarrow> bool"
  assumes step_some: "wants s (xs @ ys) \<Longrightarrow> xs \<noteq> [] \<Longrightarrow> ys \<noteq> [] \<Longrightarrow>
      \<exists>s'. step s xs = Some (InProcess, s') \<and> wants s' ys \<and>
        (\<forall>t. complete s' ys t \<longrightarrow> complete s (xs @ ys) t)"
    and step_all: "wants s xs \<Longrightarrow> xs \<noteq> [] \<Longrightarrow>
      \<exists>s'. step s xs = Some (Ready, s') \<and> complete s xs s'"

begin

lemma feed_complete:
  "wants s (concat xss) \<Longrightarrow> xss \<noteq> [] \<Longrightarrow> \<forall>xs \<in> set xss. xs \<noteq> [] \<Longrightarrow>
   \<exists>s'. feed step s xss = Some (Ready, s') \<and> complete s (concat xss) s'"
proof (induction xss arbitrary: s)
  case Nil
  then show ?case by simp
next
  case (Cons xs xss)
  show ?case
  proof (cases "xss = []")
    case True
    then show ?thesis using step_all [of s xs] Cons.prems by auto
  next
    case False
    then have ne: "concat xss \<noteq> []" using Cons.prems(3) by (cases xss) auto
    obtain s' where s': "step s xs = Some (InProcess, s')" "wants s' (concat xss)"
      "\<forall>t. complete s' (concat xss) t \<longrightarrow> complete s (xs @ concat xss) t"
      using step_some [of s xs "concat xss"] Cons.prems ne by auto
    then show ?thesis using Cons.IH [of s'] Cons.prems False by auto
  qed
qed

end

end
