(* ===== verification/Words16.thy ===== *)
theory Words16
  imports Memory
begin

text \<open>
  16-bit integers, which only user-defined types use: their layout in memory, \<open>htons\<close> and
  \<open>ntohs\<close>, and the layout of 16- and 32-bit integers in either byte order.
\<close>

type_synonym u16 = "16 word"

definition store16 :: "u16 \<Rightarrow> byte list" where
  "store16 w = store_le 2 (unat w)"

definition load16 :: "byte list \<Rightarrow> u16" where
  "load16 bs = word_of_nat (load_le bs)"

definition htons :: "u16 \<Rightarrow> u16" where
  "htons w = load16 (rev (store16 w))"

definition ntohs :: "u16 \<Rightarrow> u16" where
  "ntohs w = load16 (rev (store16 w))"

definition mread16 :: "mem \<Rightarrow> ptr \<Rightarrow> u16 option" where
  "mread16 m p = map_option load16 (mread m p 2)"

definition mwrite16 :: "mem \<Rightarrow> ptr \<Rightarrow> u16 \<Rightarrow> mem option" where
  "mwrite16 m p w = mwrite m p (store16 w)"

lemma length_store16 [simp]: "length (store16 w) = 2"
  by (simp add: store16_def)

lemma load_store16 [simp]: "load16 (store16 w) = w"
proof -
  have "unat w < 256 ^ 2" using unsigned_less [of w] by simp
  then show ?thesis by (simp add: load16_def store16_def load_store_le)
qed

lemma store_load16: "length bs = 2 \<Longrightarrow> store16 (load16 bs) = bs"
proof -
  assume len: "length bs = 2"
  then have "load_le bs < 2 ^ 16" using load_le_less [of bs] by simp
  then have "unat (load16 bs) = load_le bs" by (simp add: load16_def unat_of_nat)
  with store_load_le [of bs] len show ?thesis by (simp add: store16_def)
qed

lemma store16_htons: "store16 (htons w) = rev (store16 w)"
  by (simp add: htons_def store_load16)

lemma htons_htons [simp]: "htons (htons w) = w" "ntohs (ntohs w) = w" "ntohs (htons w) = w"
  by (simp_all add: ntohs_def htons_def store_load16)

lemma ntohs_eq_htons: "ntohs = htons"
  by (simp add: fun_eq_iff ntohs_def htons_def)

section \<open>Either order\<close>

definition put16 :: "bool \<Rightarrow> u16 \<Rightarrow> byte list" where
  "put16 nw w = (if nw then store16 (htons w) else store16 w)"

definition put32 :: "bool \<Rightarrow> u32 \<Rightarrow> byte list" where
  "put32 nw w = (if nw then store32 (htonl w) else store32 w)"

lemma length_put [simp]: "length (put16 nw a) = 2" "length (put32 nw b) = 4"
  by (simp_all add: put16_def put32_def)

end
