(* ===== verification/Big_Struct.thy ===== *)
theory Big_Struct
  imports Resumable_IO Words16
begin

text \<open>
  \<open>VeryBigStruct\<close> of \<open>examples/user_defined_type/src/advanced.cpp\<close>: an object of a
  user-defined class that is not copied into a \<open>Dson\<close>.  It keeps a small buffer with its
  header and its integers in the order they are sent, and a string that is sent from where it
  is.
\<close>

definition big_struct_type :: i32 where "big_struct_type = 54322"

definition network_ordered_buf_size :: i32 where "network_ordered_buf_size = 2 + 2 + 2 + 4"

definition big_buf_size :: i32 where "big_buf_size = network_ordered_buf_size + int header_size"

record big_struct =
  bs_data :: "byte list"    \<comment> \<open>\<open>very_big_data\<close>\<close>
  bs_param1 :: u16
  bs_param2 :: u16
  bs_param3 :: u16
  bs_buf :: "byte list"     \<comment> \<open>\<open>buf_\<close>, \<open>buf_size\<close> bytes\<close>
  bs_state :: obj_state
  bs_offset :: i32

section \<open>Construction and accessors\<close>

definition bs_setup_header :: "big_struct \<Rightarrow> big_struct" where
  "bs_setup_header s =
     (let b = bs_buf s;
          b = set32 b 0 mark_host_order;
          b = set32 b 1 0;
          b = set32 b 2 0;
          b = set32 b 3 (of_i32 big_struct_type)
      in s\<lparr>bs_buf := b\<rparr>)"

text \<open>The constructor; \<open>raw\<close> stands for what the members hold that it does not set.\<close>

definition bs_new :: "big_struct \<Rightarrow> big_struct" where
  "bs_new raw = bs_setup_header (raw\<lparr>bs_data := [], bs_state := StReady, bs_offset := 0\<rparr>)"

definition bs_is_host_order :: "big_struct \<Rightarrow> bool" where
  "bs_is_host_order s \<longleftrightarrow> get32 (bs_buf s) 0 = mark_host_order"

definition bs_is_network_order :: "big_struct \<Rightarrow> bool" where
  "bs_is_network_order s \<longleftrightarrow> get32 (bs_buf s) 0 = mark_network_order"

text \<open>\<open>static_cast<std::int32_t>(very_big_data.size())\<close>\<close>

definition bs_size :: "big_struct \<Rightarrow> i32" where
  "bs_size s = to_i32 (word_of_nat (length (bs_data s)))"

definition bs_data_size :: "big_struct \<Rightarrow> i32 option" where
  "bs_data_size s = i32_add network_ordered_buf_size (bs_size s)"

definition bs_key :: "big_struct \<Rightarrow> i32" where
  "bs_key s = (if get32 (bs_buf s) 0 = mark_host_order
     then to_i32 (get32 (bs_buf s) 2) else int32_to_host (get32 (bs_buf s) 2))"

definition bs_set_key :: "big_struct \<Rightarrow> i32 \<Rightarrow> big_struct" where
  "bs_set_key s key = (if get32 (bs_buf s) 0 = mark_host_order
     then s\<lparr>bs_buf := set32 (bs_buf s) 2 (of_i32 key)\<rparr>
     else s\<lparr>bs_buf := set32 (bs_buf s) 2 (int32_to_network key)\<rparr>)"

definition bs_reset_state :: "big_struct \<Rightarrow> big_struct" where
  "bs_reset_state s = s\<lparr>bs_state := StReady\<rparr>"

section \<open>Preparing the buffer\<close>

text \<open>
  The integers go to the bytes behind the header, in the order the mark says; the size in the
  header is written last.
\<close>

definition bs_prepare_data :: "big_struct \<Rightarrow> big_struct option" where
  "bs_prepare_data s = do {
     let host = bs_is_host_order s;
     let b = bs_buf s;
     let b = patch b 16 (store16 (if host then bs_param1 s else htons (bs_param1 s)));
     let b = patch b 18 (store16 (if host then bs_param2 s else htons (bs_param2 s)));
     let b = patch b 20 (store16 (if host then bs_param3 s else htons (bs_param3 s)));
     let n = (word_of_nat (length (bs_data s)) :: u32);
     let b = patch b 22 (store32 (if host then n else htonl n));
     sz \<leftarrow> i32_add (bs_size s) network_ordered_buf_size;
     Some (s\<lparr>bs_buf := set32 b 1 (if host then of_i32 sz else int32_to_network sz)\<rparr>)
   }"

definition bs_to_host_order :: "big_struct \<Rightarrow> big_struct option" where
  "bs_to_host_order s = bs_prepare_data (if bs_is_host_order s then s
     else s\<lparr>bs_buf := words_loop ntohl 0 header_array_len (bs_buf s)\<rparr>)"

definition bs_to_network_order :: "big_struct \<Rightarrow> big_struct option" where
  "bs_to_network_order s = bs_prepare_data (if bs_is_network_order s then s
     else s\<lparr>bs_buf := words_loop htonl 0 header_array_len (bs_buf s)\<rparr>)"

section \<open>Copying out\<close>

definition bs_copy_to_stream :: "bool \<Rightarrow> big_struct \<Rightarrow> byte list \<Rightarrow> (byte list \<times> big_struct) option" where
  "bs_copy_to_stream nw s out = do {
     s \<leftarrow> (if nw then bs_to_network_order s else bs_to_host_order s);
     Some (out @ bs_buf s @ bs_data s, s)
   }"

definition bs_copy_data_fd :: "big_struct \<Rightarrow> wfd \<Rightarrow> result \<times> wfd \<times> big_struct" where
  "bs_copy_data_fd s fd =
     (let size = bs_size s in
      if bs_offset s \<ge> size then (Error, fd, s)
      else (case write_to_fd fd (seg (bs_data s) (nat (bs_offset s)) (nat (size - bs_offset s))) of (writed, fd) \<Rightarrow>
        if writed = -1 then (Error, fd, s)
        else if writed = 0 then (InProcess, fd, s)
        else (let s = s\<lparr>bs_offset := bs_offset s + writed\<rparr> in
          if bs_offset s < size then (InProcess, fd, s)
          else (Ready, fd, s\<lparr>bs_state := StReady\<rparr>))))"

definition bs_copy_to_fd_local :: "big_struct \<Rightarrow> wfd \<Rightarrow> result \<times> wfd \<times> big_struct" where
  "bs_copy_to_fd_local s fd = (case bs_state s of
     StCopyingHeader \<Rightarrow>
       if bs_offset s \<ge> big_buf_size then (Error, fd, s)
       else (case write_to_fd fd (seg (bs_buf s) (nat (bs_offset s)) (nat (big_buf_size - bs_offset s))) of (writed, fd) \<Rightarrow>
         if writed = -1 then (Error, fd, s)
         else if writed = 0 then (InProcess, fd, s)
         else (let s = s\<lparr>bs_offset := bs_offset s + writed\<rparr> in
           if bs_offset s < big_buf_size then (InProcess, fd, s)
           else bs_copy_data_fd (s\<lparr>bs_state := StCopyingData, bs_offset := 0\<rparr>) fd))
   | StCopyingData \<Rightarrow> bs_copy_data_fd s fd
   | _ \<Rightarrow> (Error, fd, s))"

text \<open>The host variant starts over whenever the offset is 0, the network variant when at rest.\<close>

definition bs_copy_to_fd_host_order :: "big_struct \<Rightarrow> wfd \<Rightarrow> (result \<times> wfd \<times> big_struct) option" where
  "bs_copy_to_fd_host_order s fd = do {
     s \<leftarrow> (if bs_offset s = 0
       then map_option (\<lambda>s. s\<lparr>bs_state := StCopyingHeader, bs_offset := 0\<rparr>) (bs_to_host_order s)
       else Some s);
     Some (bs_copy_to_fd_local s fd)
   }"

definition bs_copy_to_fd_network_order :: "big_struct \<Rightarrow> wfd \<Rightarrow> (result \<times> wfd \<times> big_struct) option" where
  "bs_copy_to_fd_network_order s fd = do {
     s \<leftarrow> (if bs_state s = StReady
       then map_option (\<lambda>s. s\<lparr>bs_state := StCopyingHeader, bs_offset := 0\<rparr>) (bs_to_network_order s)
       else Some s);
     Some (bs_copy_to_fd_local s fd)
   }"

text \<open>
  In \<open>copy_to_buf_local\<close> the name \<open>buf_size\<close> is the parameter, the room of the caller, not
  the size of the member \<open>buf_\<close>.  A \<open>memcpy\<close> past the end of its source is undefined.
\<close>

definition bs_copy_data_buf :: "big_struct \<Rightarrow> cur \<Rightarrow> (result \<times> cur \<times> big_struct) option" where
  "bs_copy_data_buf s c =
     (let size = bs_size s in
      if bs_offset s \<ge> size then Some (Error, c, s)
      else (let writed = size - bs_offset s;
                writed = (if writed > c_room c then c_room c else writed)
        in if writed < 0 then None
           else (let c = cur_put c (seg (bs_data s) (nat (bs_offset s)) (nat writed));
                     s = s\<lparr>bs_offset := bs_offset s + writed\<rparr>
             in if bs_offset s < size then Some (InProcess, c, s)
                else Some (Ready, c, s\<lparr>bs_state := StReady\<rparr>))))"

definition bs_copy_to_buf_local :: "big_struct \<Rightarrow> cur \<Rightarrow> (result \<times> cur \<times> big_struct) option" where
  "bs_copy_to_buf_local s c = (case bs_state s of
     StCopyingHeader \<Rightarrow>
       if bs_offset s \<ge> c_room c then Some (Error, c, s)
       else (let writed = c_room c - bs_offset s;
                 writed = (if writed > c_room c then c_room c else writed)
         in if writed < 0 \<or> bs_offset s < 0 \<or> int (length (bs_buf s)) < bs_offset s + writed then None
            else (let c = cur_put c (seg (bs_buf s) (nat (bs_offset s)) (nat writed));
                      s = s\<lparr>bs_offset := bs_offset s + writed\<rparr>
              in if bs_offset s < c_room c then Some (InProcess, c, s)
                 else bs_copy_data_buf (s\<lparr>bs_state := StCopyingData, bs_offset := 0\<rparr>) c))
   | StCopyingData \<Rightarrow> bs_copy_data_buf s c
   | _ \<Rightarrow> Some (Error, c, s))"

definition bs_copy_to_buf :: "bool \<Rightarrow> big_struct \<Rightarrow> cur \<Rightarrow> (result \<times> cur \<times> big_struct) option" where
  "bs_copy_to_buf nw s c = do {
     s \<leftarrow> (if bs_state s = StReady
       then map_option (\<lambda>s. s\<lparr>bs_state := StCopyingHeader, bs_offset := 0\<rparr>)
         (if nw then bs_to_network_order s else bs_to_host_order s)
       else Some s);
     bs_copy_to_buf_local s c
   }"

section \<open>The reference serialisation\<close>

definition big_params :: "bool \<Rightarrow> big_struct \<Rightarrow> byte list" where
  "big_params nw s = put16 nw (bs_param1 s) @ put16 nw (bs_param2 s) @ put16 nw (bs_param3 s) @
     put32 nw (word_of_nat (length (bs_data s)))"

definition big_header :: "bool \<Rightarrow> big_struct \<Rightarrow> byte list" where
  "big_header nw s = hdr_for nw (10 + int (length (bs_data s))) (bs_key s) big_struct_type"

definition big_wire :: "bool \<Rightarrow> big_struct \<Rightarrow> byte list" where
  "big_wire nw s = big_header nw s @ big_params nw s @ bs_data s"

lemma length_big_params [simp]: "length (big_params nw s) = 10"
  by (simp add: big_params_def)

lemma length_big_header [simp]: "length (big_header nw s) = 16"
  by (simp add: big_header_def)

text \<open>The buffer has a header of this type; the data is small enough to be counted.\<close>

definition bs_wf :: "big_struct \<Rightarrow> bool" where
  "bs_wf s \<longleftrightarrow> length (bs_buf s) = 26 \<and> hdr_valid (take 16 (bs_buf s)) \<and>
     hdr_field (take 16 (bs_buf s)) 3 = big_struct_type \<and> int (length (bs_data s)) + 10 \<le> i32_max"

lemma bs_wf_split:
  assumes "bs_wf s"
  obtains h t where "bs_buf s = h @ t" "length h = 16" "length t = 10" "hdr_valid h"
    "hdr_field h 3 = big_struct_type" "bs_key s = hdr_field h 2" "bs_is_host_order s = hdr_is_host h"
    "bs_is_network_order s = hdr_is_network h"
proof (rule that)
  let ?h = "take 16 (bs_buf s)" and ?t = "drop 16 (bs_buf s)"
  show e: "bs_buf s = ?h @ ?t" "length ?h = 16" "length ?t = 10" "hdr_valid ?h" "hdr_field ?h 3 = big_struct_type"
    using assms by (simp_all add: bs_wf_def)
  have g: "get32 (bs_buf s) i = get32 ?h i" if "i < 4" for i
    using that e(2) by (subst e(1)) (simp add: get32_def seg_append1 del: append_take_drop_id)
  show "bs_key s = hdr_field ?h 2" "bs_is_host_order s = hdr_is_host ?h" "bs_is_network_order s = hdr_is_network ?h"
    by (simp_all add: bs_key_def bs_is_host_order_def bs_is_network_order_def hdr_field_def
        hdr_is_host_def hdr_is_network_def g)
qed

lemma bs_size_eq: "bs_wf s \<Longrightarrow> bs_size s = int (length (bs_data s))"
proof -
  assume "bs_wf s"
  then have "i32_ok (int (length (bs_data s)))" by (simp add: bs_wf_def i32_max_def)
  then show ?thesis using to_i32_of_i32 [of "int (length (bs_data s))"] by (simp add: bs_size_def)
qed

lemma patch_params:
  assumes "length t = 10" "length h = 16" "length a = 2" "length b = 2" "length c = 2" "length d = 4"
  shows "patch (patch (patch (patch (h @ t) 16 a) 18 b) 20 c) 22 d = h @ a @ b @ c @ d"
  using assms by (simp add: patch_def)

lemma words_loop_header:
  assumes "length h = 16"
  shows "words_loop f 0 header_array_len (h @ t) = words_loop f 0 header_array_len h @ t"
  using assms by (simp add: words_loop_eq header_array_len_def patch_append1 seg_append1)

text \<open>Preparing gives the header and the parameters of the wire, and keeps everything else.\<close>

lemma bs_prepare_data_eq:
  assumes "bs_buf s = hdr_for nw sz k big_struct_type @ t" "length t = 10"
    "bs_size s = int (length (bs_data s))" "int (length (bs_data s)) + 10 \<le> i32_max"
  shows "bs_prepare_data s = Some (s\<lparr>bs_buf :=
    hdr_for nw (10 + int (length (bs_data s))) k big_struct_type @ big_params nw s\<rparr>)"
proof -
  let ?h = "hdr_for nw sz k big_struct_type" and ?n = "int (length (bs_data s))"
  have g: "get32 (?h @ u) 0 = get32 ?h 0" for u by (simp add: get32_def seg_append1)
  have host: "bs_is_host_order s = (\<not> nw)"
    using hdr_is_host_simps(5) [of nw sz k big_struct_type] by (simp add: bs_is_host_order_def assms(1) g hdr_is_host_def)
  have ov: "i32_add (bs_size s) network_ordered_buf_size = Some (10 + ?n)"
    using assms(3,4) by (simp add: i32_add_def i32_ok_def i32_min_def network_ordered_buf_size_def add.commute)
  have p: "patch (patch (patch (patch (?h @ t) 16 a) 18 b) 20 c) 22 d = ?h @ a @ b @ c @ d"
    if "length a = 2" "length b = 2" "length c = 2" "length d = 4" for a b c d
    by (rule patch_params) (use that assms(2) in simp_all)
  have f: "set32 (?h @ u) (Suc 0) (if \<not> nw then of_i32 (10 + ?n) else int32_to_network (10 + ?n)) =
      hdr_for nw (10 + ?n) k big_struct_type @ u" for u
  proof -
    have "hdr_set_field ?h (Suc 0) (10 + ?n) = hdr_for nw (10 + ?n) k big_struct_type" by (rule hdr_set_field_simps)
    then show ?thesis
      by (simp add: hdr_set_field_def hdr_simps set32_def patch_append1 split: if_splits)
  qed
  show ?thesis
    using f p by (cases nw) (simp_all add: bs_prepare_data_def Let_def host ov assms(1) big_params_def put16_def put32_def)
qed

lemma bs_prepared:
  assumes "bs_wf s"
  shows "(if nw then bs_to_network_order s else bs_to_host_order s) =
    Some (s\<lparr>bs_buf := big_header nw s @ big_params nw s\<rparr>)"
proof -
  obtain h t where h: "bs_buf s = h @ t" "length h = 16" "length t = 10" "hdr_valid h"
    "hdr_field h 3 = big_struct_type" "bs_key s = hdr_field h 2" "bs_is_host_order s = hdr_is_host h"
    "bs_is_network_order s = hdr_is_network h" by (rule bs_wf_split [OF assms])
  have n: "int (length (bs_data s)) + 10 \<le> i32_max" using assms by (simp add: bs_wf_def)
  let ?s = "s\<lparr>bs_buf := hdr_order nw h @ t\<rparr>"
  have "(if nw then bs_to_network_order s else bs_to_host_order s) = bs_prepare_data ?s"
    using h(1,2,7,8) words_loop_header [OF h(2), of _ t]
    by (auto simp: bs_to_network_order_def bs_to_host_order_def hdr_order_def hdr_to_network_def hdr_to_host_def
        intro!: arg_cong [of _ _ bs_prepare_data])
  moreover have "hdr_order nw h = hdr_for nw (hdr_field h 1) (bs_key s) big_struct_type"
    using hdr_order_valid [OF h(4), of nw] h(5,6) by simp
  moreover have "bs_size ?s = int (length (bs_data ?s))" using bs_size_eq [OF assms] by (simp add: bs_size_def)
  ultimately show ?thesis
    using bs_prepare_data_eq [of ?s nw "hdr_field h 1" "bs_key s" t] h(3) n
    by (simp add: big_header_def big_params_def)
qed

section \<open>The network order variant of copy_to_fd\<close>

definition bs_pending :: "big_struct \<Rightarrow> byte list" where
  "bs_pending s = (case bs_state s of
     StReady \<Rightarrow> big_wire True s
   | StCopyingHeader \<Rightarrow> drop (nat (bs_offset s)) (bs_buf s) @ bs_data s
   | StCopyingData \<Rightarrow> drop (nat (bs_offset s)) (bs_data s)
   | _ \<Rightarrow> [])"

definition bs_sendable :: "big_struct \<Rightarrow> bool" where
  "bs_sendable s \<longleftrightarrow> bs_wf s \<and> bs_data s \<noteq> [] \<and>
     (case bs_state s of
        StReady \<Rightarrow> True
      | StCopyingHeader \<Rightarrow> 0 \<le> bs_offset s \<and> bs_offset s < 26
      | StCopyingData \<Rightarrow> 0 \<le> bs_offset s \<and> bs_offset s < int (length (bs_data s))
      | _ \<Rightarrow> False)"

lemma big_sizes [simp]: "big_buf_size = 26"
  by (simp add: big_buf_size_def network_ordered_buf_size_def header_size_def)

lemma seg_drop: "off \<le> length xs \<Longrightarrow> seg xs off (length xs - off) = drop off xs"
  by (simp add: seg_def)

lemma bs_wf_cong:
  "bs_buf s' = bs_buf s \<Longrightarrow> bs_data s' = bs_data s \<Longrightarrow> bs_wf s' = bs_wf s"
  by (simp add: bs_wf_def)

lemma bs_size_cong: "bs_data s' = bs_data s \<Longrightarrow> bs_size s' = bs_size s"
  by (simp add: bs_size_def)

lemma bs_copy_data_fd_spec:
  assumes "bs_sendable s" "bs_state s = StCopyingData" "soft (w_script fd)"
  obtains k r fd' s' where "bs_copy_data_fd s fd = (r, fd', s')"
    "advances (bs_pending s) k r (bs_pending s') (bs_state s' = StReady)"
    "w_data fd' = w_data fd @ take k (bs_pending s)" "soft (w_script fd')" "bs_sendable s'"
proof -
  let ?off = "bs_offset s" and ?len = "int (length (bs_data s))"
  let ?P = "drop (nat (bs_offset s)) (bs_data s)"
  have off: "0 \<le> ?off" "?off < ?len" and wf: "bs_wf s" using assms by (auto simp: bs_sendable_def)
  have P: "bs_pending s = ?P" using assms(2) by (simp add: bs_pending_def)
  obtain k fd' where w: "write_to_fd fd ?P = (int k, fd')" "k \<le> length ?P"
    "w_data fd' = w_data fd @ take k ?P" "soft (w_script fd')"
    using write_to_fd_soft [OF assms(3)] by blast
  have sz: "bs_size s = ?len" "seg (bs_data s) (nat ?off) (nat (?len - ?off)) = ?P"
    using bs_size_eq [OF wf] off seg_drop [of "nat ?off" "bs_data s"] by (simp_all add: nat_diff_distrib)
  let ?s = "if k = 0 then s else if k = length ?P
    then s\<lparr>bs_offset := ?off + int k, bs_state := StReady\<rparr> else s\<lparr>bs_offset := ?off + int k\<rparr>"
  let ?r = "if k = length ?P then Ready else InProcess"
  have "bs_copy_data_fd s fd = (?r, fd', ?s)"
    using off w(1,2) sz unfolding bs_copy_data_fd_def Let_def by auto
  moreover have "advances ?P k ?r (bs_pending ?s) (bs_state ?s = StReady)"
    using assms off w(2) by (auto simp: advances_def bs_pending_def nat_add_distrib add.commute)
  moreover have "bs_sendable ?s"
    using assms off w(2) by (auto simp: bs_sendable_def bs_wf_def)
  ultimately show ?thesis using that w unfolding P by blast
qed

lemma bs_copy_to_fd_local_spec:
  assumes "bs_sendable s" "bs_state s \<noteq> StReady" "soft (w_script fd)"
  obtains k r fd' s' where "bs_copy_to_fd_local s fd = (r, fd', s')"
    "advances (bs_pending s) k r (bs_pending s') (bs_state s' = StReady)"
    "w_data fd' = w_data fd @ take k (bs_pending s)" "soft (w_script fd')" "bs_sendable s'"
proof (cases "bs_state s = StCopyingData")
  case True
  then have "bs_copy_to_fd_local s fd = bs_copy_data_fd s fd" by (simp add: bs_copy_to_fd_local_def)
  then show ?thesis using bs_copy_data_fd_spec [OF assms(1) True assms(3), of thesis] that by metis
next
  case False
  let ?off = "bs_offset s" and ?h = "drop (nat (bs_offset s)) (bs_buf s)"
  have st: "bs_state s = StCopyingHeader"
    using assms False by (auto simp: bs_sendable_def split: obj_state.splits)
  have off: "0 \<le> ?off" "?off < 26" and len: "length (bs_buf s) = 26"
    using assms st by (auto simp: bs_sendable_def bs_wf_def)
  have p: "bs_pending s = ?h @ bs_data s" using st by (simp add: bs_pending_def)
  have sg: "seg (bs_buf s) (nat ?off) (nat (26 - ?off)) = ?h"
    using seg_drop [of "nat ?off" "bs_buf s"] off len by (simp add: nat_diff_distrib)
  obtain k fd1 where w: "write_to_fd fd ?h = (int k, fd1)" "k \<le> length ?h"
    "w_data fd1 = w_data fd @ take k ?h" "soft (w_script fd1)"
    using write_to_fd_soft [OF assms(3)] by blast
  show ?thesis
  proof (cases "k = length ?h")
    case True
    then have k0: "k \<noteq> 0" and ok: "?off + int k = 26" using off len by auto
    let ?s = "s\<lparr>bs_state := StCopyingData, bs_offset := 0\<rparr>"
    have sd: "bs_sendable ?s" "bs_state ?s = StCopyingData"
      using assms by (auto simp: bs_sendable_def bs_wf_def)
    have ps: "bs_pending ?s = bs_data s" by (simp add: bs_pending_def)
    have e: "bs_copy_to_fd_local s fd = bs_copy_data_fd ?s fd1"
      using st off w(1) k0 ok sg by (simp add: bs_copy_to_fd_local_def)
    show ?thesis
    proof (rule bs_copy_data_fd_spec [OF sd w(4)], unfold ps)
      fix j r fd2 s'
      assume r: "bs_copy_data_fd ?s fd1 = (r, fd2, s')" "soft (w_script fd2)" "bs_sendable s'"
        and a: "advances (bs_data s) j r (bs_pending s') (bs_state s' = StReady)"
        and o: "w_data fd2 = w_data fd1 @ take j (bs_data s)"
      have "advances (bs_pending s) (length ?h + j) r (bs_pending s') (bs_state s' = StReady)"
        unfolding p using a by (rule advances_second)
      moreover have "w_data fd2 = w_data fd @ take (length ?h + j) (bs_pending s)"
        unfolding p take_second using o w(3) True by simp
      ultimately show ?thesis using that e r by simp
    qed
  next
    case False
    let ?s = "s\<lparr>bs_offset := ?off + int k\<rparr>"
    have lt: "?off + int k < 26" "k < length ?h" using False w(2) off len by auto
    have e: "bs_copy_to_fd_local s fd = (InProcess, fd1, ?s)"
      using st off w(1) lt sg by (auto simp: bs_copy_to_fd_local_def)
    have "bs_pending ?s = drop k ?h @ bs_data s"
      using st off by (simp add: bs_pending_def nat_add_distrib add.commute)
    then have "advances (bs_pending s) k InProcess (bs_pending ?s) (bs_state ?s = StReady)"
      unfolding p using lt st by (intro advances_first) simp_all
    moreover have "w_data fd1 = w_data fd @ take k (bs_pending s)" unfolding p using w by simp
    moreover have "bs_sendable ?s" using assms off lt st by (auto simp: bs_sendable_def bs_wf_def)
    ultimately show ?thesis using that e w(4) by simp
  qed
qed

text \<open>Starting a transfer in an order.\<close>

definition bs_started :: "bool \<Rightarrow> big_struct \<Rightarrow> big_struct" where
  "bs_started nw s = s\<lparr>bs_buf := big_header nw s @ big_params nw s, bs_state := StCopyingHeader, bs_offset := 0\<rparr>"

lemma bs_started_ok:
  assumes "bs_wf s" "bs_data s \<noteq> []"
  shows "bs_sendable (bs_started nw s)" "drop (nat (bs_offset (bs_started nw s))) (bs_buf (bs_started nw s)) @ bs_data (bs_started nw s) = big_wire nw s"
  using assms by (simp_all add: bs_started_def bs_sendable_def bs_wf_def big_wire_def big_header_def hdr_simps
      big_struct_type_def)

lemma bs_begin:
  assumes "bs_wf s"
  defines "start \<equiv> map_option (\<lambda>s. s\<lparr>bs_state := StCopyingHeader, bs_offset := 0\<rparr>)"
  shows "start (bs_to_network_order s) = Some (bs_started True s)"
    "start (bs_to_host_order s) = Some (bs_started False s)"
  using bs_prepared [OF assms(1), of True] bs_prepared [OF assms(1), of False]
  by (simp_all add: start_def bs_started_def)

definition bs_net_fd_step :: "big_struct \<Rightarrow> wcall list \<Rightarrow> (result \<times> byte list \<times> big_struct) option" where
  "bs_net_fd_step s script = do {
     (r, fd, s') \<leftarrow> bs_copy_to_fd_network_order s \<lparr>w_script = script, w_data = []\<rparr>;
     Some (r, w_data fd, s')
   }"

lemma bs_net_fd_step_spec:
  assumes "bs_sendable s" "soft script"
  obtains k r s' where "bs_net_fd_step s script = Some (r, take k (bs_pending s), s')"
    "advances (bs_pending s) k r (bs_pending s') (bs_state s' = StReady)" "bs_sendable s'"
proof -
  let ?s = "if bs_state s = StReady then bs_started True s else s"
  let ?fd = "\<lparr>w_script = script, w_data = []\<rparr>"
  have wf: "bs_wf s" "bs_data s \<noteq> []" using assms by (simp_all add: bs_sendable_def)
  have p: "bs_pending ?s = bs_pending s"
    using bs_started_ok(2) [OF wf, of True] by (simp add: bs_pending_def) (simp add: bs_started_def)
  have s: "bs_sendable ?s" "bs_state ?s \<noteq> StReady"
    using assms bs_started_ok(1) [OF wf] by (simp_all add: bs_started_def)
  have e: "bs_copy_to_fd_network_order s ?fd = Some (bs_copy_to_fd_local ?s ?fd)"
    by (simp add: bs_copy_to_fd_network_order_def bs_begin(1) [OF wf(1)])
  have sf: "soft (w_script ?fd)" using assms(2) by simp
  show ?thesis
    by (rule bs_copy_to_fd_local_spec [OF s sf], unfold p, rule that) (use e in \<open>simp_all add: bs_net_fd_step_def\<close>)
qed

interpretation bs_net_writer:
  resumable_writer bs_net_fd_step bs_sendable bs_pending "\<lambda>s. bs_state s = StReady" soft
proof
  fix s :: big_struct and e
  assume "bs_sendable s" "soft e"
  then show "\<exists>k r s'. bs_net_fd_step s e = Some (r, take k (bs_pending s), s') \<and>
      advances (bs_pending s) k r (bs_pending s') (bs_state s' = StReady) \<and> bs_sendable s'"
    by (rule bs_net_fd_step_spec [of s e]) blast
qed

text \<open>A small object, used by the witnesses.\<close>

definition sample_big :: big_struct where
  "sample_big = (bs_set_key (bs_new \<lparr>bs_data = [], bs_param1 = 9, bs_param2 = 8, bs_param3 = 7,
     bs_buf = replicate 26 0, bs_state = StError, bs_offset = 5\<rparr>) 12345)\<lparr>bs_data := [104, 105]\<rparr>"

text \<open>A fresh object is well formed, and giving it a key and data keeps it so.\<close>

lemma set32_append: "4 * i + 4 \<le> length xs \<Longrightarrow> set32 (xs @ ys) i w = set32 xs i w @ ys"
  by (simp add: set32_def patch_append1)

lemma bs_new_eq:
  assumes "bs_buf raw = h @ t" "length h = 16"
  shows "bs_new raw = raw\<lparr>bs_data := [], bs_state := StReady, bs_offset := 0,
    bs_buf := host_hdr 0 0 big_struct_type @ t\<rparr>"
  using assms set32_all_words [of h mark_host_order 0 0 "of_i32 big_struct_type"]
  by (simp add: bs_new_def bs_setup_header_def Let_def host_hdr_def set32_append)

lemma bs_new_wf:
  assumes "length (bs_buf raw) = 26" "int (length xs) + 10 \<le> i32_max" "i32_ok k"
  shows "bs_wf ((bs_set_key (bs_new raw) k)\<lparr>bs_data := xs\<rparr>)"
    "bs_key ((bs_set_key (bs_new raw) k)\<lparr>bs_data := xs\<rparr>) = k"
    "bs_state ((bs_set_key (bs_new raw) k)\<lparr>bs_data := xs\<rparr>) = StReady"
    "bs_offset ((bs_set_key (bs_new raw) k)\<lparr>bs_data := xs\<rparr>) = 0"
proof -
  let ?h = "\<lambda>k. host_hdr 0 k big_struct_type" and ?t = "drop 16 (bs_buf raw)"
  have n: "bs_new raw = raw\<lparr>bs_data := [], bs_state := StReady, bs_offset := 0, bs_buf := ?h 0 @ ?t\<rparr>"
    by (rule bs_new_eq [of _ "take 16 (bs_buf raw)"]) (use assms(1) in simp_all)
  have g: "get32 (?h k @ ?t) 0 = mark_host_order" "get32 (?h k @ ?t) 2 = of_i32 k" for k
    by (simp_all add: host_hdr_def hdr_simps numeral_2_eq_2)
  have "set32 (?h 0 @ ?t) 2 (of_i32 k) = ?h k @ ?t"
    using hdr_set_field_simps(2) [of False 0 0 big_struct_type k]
    by (simp add: set32_append hdr_set_field_def hdr_for_def hdr_simps)
  then have e: "(bs_set_key (bs_new raw) k)\<lparr>bs_data := xs\<rparr> =
      raw\<lparr>bs_data := xs, bs_state := StReady, bs_offset := 0, bs_buf := ?h k @ ?t\<rparr>"
    by (simp add: bs_set_key_def n g)
  have "hdr_valid (?h k)" "hdr_field (?h k) 3 = big_struct_type"
    using hdr_for_valid [of False] hdr_field_for(3) [of big_struct_type False]
    by (simp_all add: hdr_for_def big_struct_type_def)
  then show "bs_wf ((bs_set_key (bs_new raw) k)\<lparr>bs_data := xs\<rparr>)"
    "bs_key ((bs_set_key (bs_new raw) k)\<lparr>bs_data := xs\<rparr>) = k"
    "bs_state ((bs_set_key (bs_new raw) k)\<lparr>bs_data := xs\<rparr>) = StReady"
    "bs_offset ((bs_set_key (bs_new raw) k)\<lparr>bs_data := xs\<rparr>) = 0"
    using assms unfolding e by (simp_all add: bs_wf_def bs_key_def g to_i32_of_i32)
qed

text \<open>A new key, in the order the header is in.\<close>

lemma bs_set_key_ok:
  assumes "bs_wf s" "i32_ok k"
  shows "bs_wf (bs_set_key s k)" "bs_key (bs_set_key s k) = k"
proof -
  obtain h t where h: "bs_buf s = h @ t" "length h = 16" "length t = 10" "hdr_valid h" "hdr_field h 3 = big_struct_type"
    by (rule bs_wf_split [OF assms(1)])
  have g: "get32 (h @ u) 0 = get32 h 0" for u using h(2) by (simp add: get32_def seg_append1)
  have e: "bs_set_key s k = s\<lparr>bs_buf := hdr_set_field h 2 k @ t\<rparr>"
    using h(1,2) by (simp add: bs_set_key_def g hdr_set_field_def hdr_is_host_def set32_append)
  obtain nw sz k' where hv: "h = hdr_for nw sz k' big_struct_type"
    using hdr_valid_cases [OF h(4)] h(5) by metis
  then have h': "hdr_set_field h 2 k = hdr_for nw sz k big_struct_type" by (simp add: hdr_simps)
  have ty: "hdr_field (hdr_for nw sz k big_struct_type) 3 = big_struct_type"
    by (rule hdr_field_for(3)) (simp add: big_struct_type_def)
  show w: "bs_wf (bs_set_key s k)" using assms(1) h(3) ty by (simp add: bs_wf_def e h')
  obtain h2 t2 where h2: "bs_buf (bs_set_key s k) = h2 @ t2" "length h2 = 16" "bs_key (bs_set_key s k) = hdr_field h2 2"
    by (rule bs_wf_split [OF w])
  then have "h2 = hdr_for nw sz k big_struct_type" by (simp add: e h')
  then show "bs_key (bs_set_key s k) = k" using h2(3) hdr_field_for(2) [OF assms(2)] by simp
qed

lemma bs_set_key_sel [simp]:
  "bs_data (bs_set_key s k) = bs_data s" "bs_state (bs_set_key s k) = bs_state s" "bs_offset (bs_set_key s k) = bs_offset s"
  "bs_param1 (bs_set_key s k) = bs_param1 s" "bs_param2 (bs_set_key s k) = bs_param2 s"
  "bs_param3 (bs_set_key s k) = bs_param3 s"
  by (simp_all add: bs_set_key_def)

lemma sample_big_facts:
  "bs_wf sample_big" "bs_key sample_big = 12345" "bs_state sample_big = StReady" "bs_offset sample_big = 0"
  "bs_data sample_big = [104, 105]"
  using bs_new_wf [of "\<lparr>bs_data = [], bs_param1 = 9, bs_param2 = 8, bs_param3 = 7,
     bs_buf = replicate 26 0, bs_state = StError, bs_offset = 5\<rparr>" "[104, 105]" 12345]
  by (simp_all add: sample_big_def i32_max_def)

text \<open>
  Over a descriptor that takes any part of what it is offered, repeated calls of
  \<open>VeryBigStruct::copy_to_fd_network_order\<close> never answer \<open>Error\<close>; what has been written is a
  prefix of header, parameters and data in network order, and all of it when they answer
  \<open>Ready\<close>.  The object is then at rest, so it can be sent again.
\<close>

theorem big_struct_copy_to_fd_prefix:
  assumes "bs_wf s" "bs_state s = StReady" "bs_data s \<noteq> []" "\<forall>e \<in> set es. soft e"
  shows "\<exists>r out s'. drive bs_net_fd_step s es = Some (r, out, s') \<and> r \<noteq> Error \<and>
    (\<exists>k. out = take k (big_wire True s)) \<and> (r = Ready \<longrightarrow> out = big_wire True s \<and> bs_state s' = StReady)"
proof -
  have p: "bs_pending s = big_wire True s" using assms(2) by (simp add: bs_pending_def)
  have "bs_sendable s" using assms by (simp add: bs_sendable_def)
  from bs_net_writer.drive_delivers_prefix [OF this assms(4)] show ?thesis unfolding p by blast
qed

lemma big_struct_copy_to_fd_prefix_witness:
  "\<exists>r out s'. drive bs_net_fd_step sample_big [[WrTake 3], [WrFail EAGAIN], [WrTake 30, WrTake 1], [WrTake 9]] =
      Some (r, out, s') \<and> r \<noteq> Error \<and>
    (\<exists>k. out = take k (big_wire True sample_big)) \<and> (r = Ready \<longrightarrow> out = big_wire True sample_big \<and> bs_state s' = StReady)"
  by (rule big_struct_copy_to_fd_prefix) (simp_all add: sample_big_facts soft_call_def)

section \<open>The host order variant of copy_to_fd\<close>

definition bs_host_fd_step :: "big_struct \<Rightarrow> wcall list \<Rightarrow> (result \<times> byte list \<times> big_struct) option" where
  "bs_host_fd_step s script = do {
     (r, fd, s') \<leftarrow> bs_copy_to_fd_host_order s \<lparr>w_script = script, w_data = []\<rparr>;
     Some (r, w_data fd, s')
   }"

lemma bs_host_fd_header_then_block:
  assumes "bs_sendable s" "bs_offset s = 0"
  shows "bs_host_fd_step s [WrTake 26] = Some (InProcess, big_header False s @ big_params False s,
    (bs_started False s)\<lparr>bs_state := StCopyingData\<rparr>)"
proof -
  have wf: "bs_wf s" "bs_data s \<noteq> []" using assms by (simp_all add: bs_sendable_def)
  have "bs_size ((bs_started False s)\<lparr>bs_state := StCopyingData, bs_offset := 0\<rparr>) = int (length (bs_data s))"
    using bs_size_eq [OF wf(1)] by (simp add: bs_started_def bs_size_def)
  then show ?thesis using wf(2)
    by (simp add: bs_host_fd_step_def bs_copy_to_fd_host_order_def assms(2) bs_begin(2) [OF wf(1)])
      (simp add: bs_copy_to_fd_local_def bs_copy_data_fd_def bs_started_def write_to_fd_def sys_write_def Let_def seg_def)
qed

lemma bs_host_fd_whole:
  assumes "bs_sendable s" "bs_offset s = 0"
  shows "bs_host_fd_step s [WrTake 26, WrTake (length (bs_data s))] = Some (Ready, big_wire False s,
    (bs_started False s)\<lparr>bs_offset := int (length (bs_data s)), bs_state := StReady\<rparr>)"
proof -
  have wf: "bs_wf s" "bs_data s \<noteq> []" using assms by (simp_all add: bs_sendable_def)
  have "bs_size ((bs_started False s)\<lparr>bs_state := StCopyingData, bs_offset := 0\<rparr>) = int (length (bs_data s))"
    using bs_size_eq [OF wf(1)] by (simp add: bs_started_def bs_size_def)
  then show ?thesis using wf(2)
    by (simp add: bs_host_fd_step_def bs_copy_to_fd_host_order_def assms(2) bs_begin(2) [OF wf(1)])
      (simp add: bs_copy_to_fd_local_def bs_copy_data_fd_def bs_started_def write_to_fd_def sys_write_def Let_def
        seg_def big_wire_def)
qed

lemma bs_key_header: "length h = 16 \<Longrightarrow> bs_buf s = h @ u \<Longrightarrow> bs_key s = hdr_field h 2"
  by (simp add: bs_key_def hdr_field_def hdr_is_host_def get32_def seg_append1)

lemma bs_host_again:
  assumes "bs_sendable s"
  defines "t \<equiv> (bs_started False s)\<lparr>bs_state := StCopyingData\<rparr>"
  shows "bs_sendable t" "bs_offset t = 0" "big_header False t = big_header False s"
    "big_params False t = big_params False s" "bs_data t = bs_data s" "big_wire False t = big_wire False s"
proof -
  have wf: "bs_wf s" "bs_data s \<noteq> []" using assms by (simp_all add: bs_sendable_def)
  note st = bs_started_ok(1) [OF wf, of False]
  show t: "bs_sendable t" using st wf(2) by (simp add: t_def bs_sendable_def bs_wf_def bs_started_def)
  have "i32_ok (bs_key s)" by (simp add: bs_key_def)
  then have k: "bs_key t = bs_key s"
    using bs_key_header [of "big_header False s" t "big_params False s"]
    by (simp add: t_def bs_started_def big_header_def hdr_simps)
  show "bs_offset t = 0" "bs_data t = bs_data s" by (simp_all add: t_def bs_started_def)
  show "big_header False t = big_header False s" "big_params False t = big_params False s"
    "big_wire False t = big_wire False s"
    using k by (simp_all add: big_wire_def big_header_def big_params_def t_def bs_started_def)
qed

text \<open>
  \<open>VeryBigStruct::copy_to_fd_host_order\<close> decides by the offset, not by the state, whether
  a transfer starts.  When the descriptor blocks right after the header, the next call sends
  the header again, so the receiver gets it twice although the sender is told \<open>Ready\<close>; and the
  object cannot be sent a second time, each further call answers \<open>Error\<close>.
\<close>

theorem big_struct_host_fd_repeats_header:
  assumes "bs_wf s" "bs_state s = StReady" "bs_offset s = 0" "bs_data s \<noteq> []"
  shows "\<exists>s'. drive bs_host_fd_step s [[WrTake 26], [WrTake 26, WrTake (length (bs_data s))]] =
      Some (Ready, big_header False s @ big_params False s @ big_wire False s, s') \<and>
    (\<forall>fd. bs_copy_to_fd_host_order s' fd = Some (Error, fd, s'))"
proof -
  have sd: "bs_sendable s" using assms by (simp add: bs_sendable_def)
  note t = bs_host_again [OF sd]
  let ?t = "(bs_started False s)\<lparr>bs_state := StCopyingData\<rparr>"
  let ?s = "(bs_started False ?t)\<lparr>bs_offset := int (length (bs_data ?t)), bs_state := StReady\<rparr>"
  have "drive bs_host_fd_step s [[WrTake 26], [WrTake 26, WrTake (length (bs_data s))]] =
      Some (Ready, big_header False s @ big_params False s @ big_wire False s, ?s)"
    using bs_host_fd_header_then_block [OF sd assms(3)] bs_host_fd_whole [OF t(1,2)] t(5,6) by simp
  moreover have "bs_copy_to_fd_host_order ?s fd = Some (Error, fd, ?s)" for fd
    using assms(4) t(5) by (simp add: bs_copy_to_fd_host_order_def bs_copy_to_fd_local_def)
  ultimately show ?thesis by blast
qed

lemma big_struct_host_fd_repeats_header_witness:
  "\<exists>s'. drive bs_host_fd_step sample_big [[WrTake 26], [WrTake 26, WrTake (length (bs_data sample_big))]] =
      Some (Ready, big_header False sample_big @ big_params False sample_big @ big_wire False sample_big, s') \<and>
    (\<forall>fd. bs_copy_to_fd_host_order s' fd = Some (Error, fd, s'))"
  by (rule big_struct_host_fd_repeats_header) (simp_all add: sample_big_facts)

section \<open>Copying to a buffer\<close>

text \<open>
  \<open>VeryBigStruct::copy_to_buf_*\<close> takes the room of the caller for the size of its header
  buffer.  Without room it answers \<open>Error\<close>; a window larger than the 26 bytes makes it read
  past them; a window of \<open>n \<le> 26\<close> bytes gets the first \<open>n\<close> bytes of the header and the
  parameters, the others are never sent: the next window gets the data, and the call that
  takes the last of it answers \<open>Ready\<close>.
\<close>

theorem big_struct_copy_to_buf_truncates:
  assumes "bs_wf s" "bs_state s = StReady" "bs_data s \<noteq> []"
  shows "bs_copy_to_buf nw s (window n) =
      (if n = 0 then Some (Error, window 0, bs_started nw s)
       else if 26 < n then None
       else Some (InProcess, \<lparr>c_out = take n (big_header nw s @ big_params nw s), c_room = 0\<rparr>,
         (bs_started nw s)\<lparr>bs_state := StCopyingData\<rparr>)) \<and>
    bs_copy_to_buf nw ((bs_started nw s)\<lparr>bs_state := StCopyingData\<rparr>) (window (length (bs_data s))) =
      Some (Ready, \<lparr>c_out = bs_data s, c_room = 0\<rparr>,
        (bs_started nw s)\<lparr>bs_offset := int (length (bs_data s)), bs_state := StReady\<rparr>)"
proof -
  let ?t = "(bs_started nw s)\<lparr>bs_state := StCopyingData, bs_offset := 0\<rparr>"
  have sz: "bs_size ?t = int (length (bs_data s))"
    using bs_size_eq [OF assms(1)] by (simp add: bs_started_def bs_size_def)
  have t: "?t = (bs_started nw s)\<lparr>bs_state := StCopyingData\<rparr>" by (simp add: bs_started_def)
  have b: "bs_copy_to_buf nw s c = bs_copy_to_buf_local (bs_started nw s) c" for c
    by (simp add: bs_copy_to_buf_def assms(2) bs_begin [OF assms(1)])
  have l: "bs_state (bs_started nw s) = StCopyingHeader" "bs_offset (bs_started nw s) = 0"
    "bs_buf (bs_started nw s) = big_header nw s @ big_params nw s" "bs_data (bs_started nw s) = bs_data s"
    by (simp_all add: bs_started_def)
  have "bs_copy_to_buf nw s (window n) =
      (if n = 0 then Some (Error, window 0, bs_started nw s)
       else if 26 < n then None
       else Some (InProcess, \<lparr>c_out = take n (big_header nw s @ big_params nw s), c_room = 0\<rparr>, ?t))"
    unfolding b using sz assms(3)
    by (simp add: bs_copy_to_buf_local_def l bs_copy_data_buf_def Let_def)
      (auto simp: cur_put_def window_def seg_def bs_started_def)
  moreover have "bs_copy_to_buf nw ?t (window (length (bs_data s))) =
      Some (Ready, \<lparr>c_out = bs_data s, c_room = 0\<rparr>,
        (bs_started nw s)\<lparr>bs_offset := int (length (bs_data s)), bs_state := StReady\<rparr>)"
    using sz assms(3) l
    by (simp add: bs_copy_to_buf_def bs_copy_to_buf_local_def bs_copy_data_buf_def Let_def cur_put_def window_def
        seg_def bs_started_def)
  ultimately show ?thesis unfolding t by blast
qed

lemma big_struct_copy_to_buf_truncates_witness:
  "bs_copy_to_buf True sample_big (window 20) = Some (InProcess,
      \<lparr>c_out = take 20 (big_header True sample_big @ big_params True sample_big), c_room = 0\<rparr>,
      (bs_started True sample_big)\<lparr>bs_state := StCopyingData\<rparr>) \<and>
   bs_copy_to_buf True sample_big (window 100) = None"
  using big_struct_copy_to_buf_truncates [of sample_big True 20] big_struct_copy_to_buf_truncates [of sample_big True 100]
  by (simp add: sample_big_facts)

end
