(* ===== verification/Doubles.thy ===== *)
theory Doubles
  imports Byte_Order
begin

text \<open>
  Doubles on the wire: \<open>FloatPointType\<close>, \<open>double_in_buf_to_network_order\<close> and
  \<open>double_in_buf_to_host_order\<close> of \<open>include/dson/impl/dson_tools.h\<close>.

  A \<open>double\<close> is its 64-bit pattern (IEEE 754 binary64: a sign, 11 bits of exponent, 52 of
  fraction).  The functions of \<open><cmath>\<close> the code calls are modelled on patterns:
  \<open>frexp\<close>, \<open>ldexp\<close> with rounding to nearest even, gradual underflow and overflow to
  infinity, and the conversions between \<open>double\<close> and integers.
\<close>

type_synonym dbl = u64

section \<open>Patterns\<close>

definition dbl_sign :: "dbl \<Rightarrow> bool" where "dbl_sign x \<longleftrightarrow> 2 ^ 63 \<le> unat x"

text \<open>The pattern without its sign (\<open>std::fabs\<close>).\<close>

definition dbl_mag :: "dbl \<Rightarrow> nat" where "dbl_mag x = unat x mod 2 ^ 63"

definition mk_dbl :: "bool \<Rightarrow> nat \<Rightarrow> dbl" where
  "mk_dbl s n = word_of_nat ((if s then 2 ^ 63 else 0) + n)"

definition inf_mag :: nat where "inf_mag = 2047 * 2 ^ 52"

definition dbl_isnan :: "dbl \<Rightarrow> bool" where "dbl_isnan x \<longleftrightarrow> inf_mag < dbl_mag x"
definition dbl_isinf :: "dbl \<Rightarrow> bool" where "dbl_isinf x \<longleftrightarrow> dbl_mag x = inf_mag"

text \<open>\<open>x < 0\<close>: false for a NaN and for both zeros.\<close>

definition dbl_less_0 :: "dbl \<Rightarrow> bool" where
  "dbl_less_0 x \<longleftrightarrow> dbl_sign x \<and> dbl_mag x \<noteq> 0 \<and> \<not> dbl_isnan x"

definition quiet_nan :: dbl where "quiet_nan = mk_dbl False (inf_mag + 2 ^ 51)"
definition dbl_inf :: "bool \<Rightarrow> dbl" where "dbl_inf s = mk_dbl s inf_mag"

text \<open>A finite magnitude is \<open>m * 2 ^ q\<close>.\<close>

definition mag_decode :: "nat \<Rightarrow> nat \<times> int" where
  "mag_decode n = (let e = n div 2 ^ 52; f = n mod 2 ^ 52 in
     if e = 0 then (f, -1074) else (2 ^ 52 + f, int e - 1075))"

fun bitlen :: "nat \<Rightarrow> nat" where
  "bitlen n = (if n = 0 then 0 else Suc (bitlen (n div 2)))"

declare bitlen.simps [simp del]

text \<open>Division by \<open>2 ^ s\<close>, rounded to nearest, ties to even.\<close>

definition round_shift :: "nat \<Rightarrow> nat \<Rightarrow> nat" where
  "round_shift m s = (let d = m div 2 ^ s; r = m mod 2 ^ s in
     if 2 ^ s < 2 * r \<or> (2 ^ s = 2 * r \<and> odd d) then Suc d else d)"

text \<open>The magnitude nearest to \<open>m * 2 ^ q\<close>.\<close>

definition mag_encode :: "nat \<Rightarrow> int \<Rightarrow> nat" where
  "mag_encode m q = (if m = 0 then 0 else
     (let q' = max (q + int (bitlen m) - 53) (-1074);
          s = q' - q;
          m' = (if s \<le> 0 then m * 2 ^ nat (- s) else round_shift m (nat s));
          bits = nat (q' + 1074) * 2 ^ 52 + m'
      in min bits inf_mag))"

section \<open>frexp, ldexp and conversions, on finite magnitudes\<close>

definition frexp_mag :: "nat \<Rightarrow> nat \<times> int" where
  "frexp_mag n = (let (m, q) = mag_decode n in
     if m = 0 then (n, 0) else (mag_encode m (- int (bitlen m)), q + int (bitlen m)))"

definition ldexp_mag :: "nat \<Rightarrow> int \<Rightarrow> nat" where
  "ldexp_mag n e = (let (m, q) = mag_decode n in mag_encode m (q + e))"

definition mag_of_u64 :: "u64 \<Rightarrow> nat" where
  "mag_of_u64 w = mag_encode (unat w) 0"

text \<open>\<open>static_cast<std::uint64_t>\<close> of a value below \<open>2 ^ 64\<close> truncates.\<close>

definition mag_trunc :: "nat \<Rightarrow> nat" where
  "mag_trunc n = (let (m, q) = mag_decode n in if 0 \<le> q then m * 2 ^ nat q else m div 2 ^ nat (- q))"

section \<open>The conversions of the library\<close>

datatype float_point_type = NormalNegative | NormalPositive | FNaN | InfNegative | InfPositive

fun fpt_byte :: "float_point_type \<Rightarrow> byte" where
  "fpt_byte NormalNegative = 0"
| "fpt_byte NormalPositive = 1"
| "fpt_byte FNaN = 2"
| "fpt_byte InfNegative = 3"
| "fpt_byte InfPositive = 4"

definition buf_size_for_double :: nat where "buf_size_for_double = 13"
definition double_mantissa_bits :: nat where "double_mantissa_bits = 53"

text \<open>
  Both work in place on the bytes from \<open>data\<close> to the end of the allocation; \<open>None\<close> when
  they would run past it.  A NaN or an infinity only writes its type byte.
\<close>

definition double_in_buf_to_network_order :: "byte list \<Rightarrow> byte list option" where
  "double_in_buf_to_network_order data =
     (if length data < 8 then None else
      let from = load64 (seg data 0 8) in
      if dbl_isnan from then Some (patch data 0 [fpt_byte FNaN])
      else if dbl_isinf from then
        Some (patch data 0 [fpt_byte (if dbl_less_0 from then InfNegative else InfPositive)])
      else let data1 = patch data 0
              [fpt_byte (if dbl_less_0 from then NormalNegative else NormalPositive)];
             (frac, exp) = frexp_mag (dbl_mag from);
             mantissa = word_of_nat (mag_trunc (ldexp_mag frac (int double_mantissa_bits)))
           in if length data < 13 then None else
             let data2 = patch data1 1 (store64 (htonll mantissa))
             in Some (patch data2 9 (store32 (int32_to_network (exp - int double_mantissa_bits)))))"

definition double_in_buf_to_host_order :: "byte list \<Rightarrow> byte list option" where
  "double_in_buf_to_host_order data =
     (if length data < 8 then None else
      let type = data ! 0 in
      if type = fpt_byte FNaN then Some (patch data 0 (store64 quiet_nan))
      else if type = fpt_byte InfNegative then Some (patch data 0 (store64 (dbl_inf True)))
      else if type = fpt_byte InfPositive then Some (patch data 0 (store64 (dbl_inf False)))
      else if length data < 13 then None else
        let mantissa = load64 (seg data 1 8); exp = load32 (seg data 9 4);
            res = ldexp_mag (mag_of_u64 (ntohll mantissa)) (int32_to_host exp)
        in Some (patch data 0 (store64 (mk_dbl (type = fpt_byte NormalNegative) res))))"

section \<open>Lemmas on magnitudes\<close>

lemma bitlen_0 [simp]: "bitlen 0 = 0"
  by (simp add: bitlen.simps)

lemma bitlen_pos: "0 < n \<Longrightarrow> bitlen n = Suc (bitlen (n div 2))"
  by (subst bitlen.simps) simp

lemma bitlen_bounds: "0 < n \<Longrightarrow> n < 2 ^ bitlen n \<and> 2 ^ bitlen n \<le> 2 * n"
proof (induction n rule: bitlen.induct)
  case (1 n)
  show ?case
  proof (cases "n = 1")
    case True
    then show ?thesis by (simp add: bitlen_pos)
  next
    case False
    with 1 have "n div 2 < 2 ^ bitlen (n div 2) \<and> 2 ^ bitlen (n div 2) \<le> 2 * (n div 2)" by simp
    with 1 show ?thesis by (subst (1 2) bitlen_pos) auto
  qed
qed

lemma bitlen_unique: "n < 2 ^ k \<Longrightarrow> 2 ^ k \<le> 2 * n \<Longrightarrow> bitlen n = k"
proof -
  assume n: "n < 2 ^ k" "2 ^ k \<le> 2 * n"
  then have pos: "0 < n" by (cases n) auto
  note b = bitlen_bounds [OF pos]
  have "(2::nat) ^ bitlen n < 2 ^ Suc k" "(2::nat) ^ k < 2 ^ Suc (bitlen n)" using n b by auto
  then have "bitlen n < Suc k" "k < Suc (bitlen n)" by (simp_all only: power_strict_increasing_iff)
  then show ?thesis by simp
qed

lemma bitlen_shift: "0 < m \<Longrightarrow> bitlen (m * 2 ^ k) = bitlen m + k"
  using bitlen_bounds [of m] by (intro bitlen_unique) (auto simp: power_add)

lemma bitlen_le: "n < 2 ^ k \<Longrightarrow> bitlen n \<le> k"
proof (cases "n = 0")
  case False
  assume "n < 2 ^ k"
  then have "(2::nat) ^ bitlen n < 2 ^ Suc k" using bitlen_bounds [of n] False by auto
  then have "bitlen n < Suc k" by (simp only: power_strict_increasing_iff)
  then show ?thesis by simp
qed simp

lemma round_shift_exact: "round_shift (m * 2 ^ s) s = m"
  by (simp add: round_shift_def)

lemma block_div_mod: "f < B \<Longrightarrow> (k * B + f) div B = k" "f < B \<Longrightarrow> (k * B + f) mod B = (f::nat)"
  by simp_all

text \<open>A normalised mantissa in range is encoded without rounding and decoded back.\<close>

lemma mag_encode_normal:
  assumes "2 ^ 52 \<le> m" "m < 2 ^ 53" "-1074 \<le> q" "q \<le> 971"
  shows "mag_encode m q = nat (q + 1074) * 2 ^ 52 + m"
    "mag_decode (mag_encode m q) = (m, q)" "mag_encode m q < inf_mag"
proof -
  have l: "bitlen m = 53" using assms by (intro bitlen_unique) auto
  have "nat (q + 1074) * 2 ^ 52 + m < 2046 * 2 ^ 52 + 2 ^ 52"
    using assms
    by (intro order_le_less_trans [of "nat (q + 1074) * 2 ^ 52 + m" "2045 * 2 ^ 52 + m"]) auto
  then have lt: "nat (q + 1074) * 2 ^ 52 + m < inf_mag" by (simp add: inf_mag_def)
  then show e: "mag_encode m q = nat (q + 1074) * 2 ^ 52 + m"
    using assms l by (simp add: mag_encode_def Let_def)
  show "mag_encode m q < inf_mag" using lt e by simp
  define f where "f = m - 2 ^ 52"
  have f: "m = 2 ^ 52 + f" "f < 2 ^ 52" using assms by (auto simp: f_def)
  have n: "mag_encode m q = Suc (nat (q + 1074)) * 2 ^ 52 + f" using e f by simp
  have "mag_encode m q div 2 ^ 52 = Suc (nat (q + 1074))" "mag_encode m q mod 2 ^ 52 = f"
    unfolding n by (rule block_div_mod, rule f)+
  then show "mag_decode (mag_encode m q) = (m, q)"
    using f assms by (simp add: mag_decode_def)
qed

text \<open>
  The normalised mantissa of a finite non-zero magnitude, as \<open>frexp\<close> and the scaling by
  \<open>2 ^ 53\<close> compute it, and its exponent.
\<close>

definition norm_mantissa :: "nat \<Rightarrow> nat" where
  "norm_mantissa n = (let m = fst (mag_decode n) in m * 2 ^ (53 - bitlen m))"

definition norm_exponent :: "nat \<Rightarrow> int" where
  "norm_exponent n = (let (m, q) = mag_decode n in q + int (bitlen m) - 53)"

lemma mag_decode_cases:
  assumes "n < inf_mag" "n \<noteq> 0"
  obtains (normal) e m where "n = e * 2 ^ 52 + m" "2 ^ 52 \<le> m" "m < 2 ^ 53" "e \<le> 2045"
      "mag_decode n = (m, int e - 1074)"
  | (subnormal) "0 < n" "n < 2 ^ 52" "mag_decode n = (n, -1074)"
proof (cases "n div 2 ^ 52 = 0")
  case True
  then have "n < 2 ^ 52" by (simp add: div_eq_0_iff)
  then show ?thesis using subnormal assms by (simp add: mag_decode_def)
next
  case False
  have lt: "n div 2 ^ 52 < 2047" using assms by (simp add: inf_mag_def less_mult_imp_div_less)
  define e where "e = n div 2 ^ 52 - 1"
  have e: "n div 2 ^ 52 = Suc e" using False by (simp add: e_def)
  have "n = n div 2 ^ 52 * 2 ^ 52 + n mod 2 ^ 52" by simp
  then have "n = e * 2 ^ 52 + (2 ^ 52 + n mod 2 ^ 52)" unfolding e by simp
  moreover have "mag_decode n = (2 ^ 52 + n mod 2 ^ 52, int e - 1074)"
    unfolding mag_decode_def Let_def e by simp
  moreover have "n mod 2 ^ 52 < 2 ^ 52" by simp
  ultimately show ?thesis using normal [of e "2 ^ 52 + n mod 2 ^ 52"] lt e by simp
qed

lemma bitlen_53: "2 ^ 52 \<le> m \<Longrightarrow> m < 2 ^ 53 \<Longrightarrow> bitlen m = 53"
  by (rule bitlen_unique) simp_all

lemma norm_mantissa_range:
  assumes "0 < m" "m < 2 ^ 53"
  shows "2 ^ 52 \<le> m * 2 ^ (53 - bitlen m)" "m * 2 ^ (53 - bitlen m) < 2 ^ 53"
proof -
  have l: "bitlen m \<le> 53" using bitlen_le assms by blast
  note b = bitlen_bounds [OF assms(1)]
  have s: "(2::nat) ^ bitlen m * 2 ^ (53 - bitlen m) = 2 ^ 53"
    using l by (simp only: power_add [symmetric] le_add_diff_inverse)
  have "m * 2 ^ (53 - bitlen m) < 2 ^ bitlen m * 2 ^ (53 - bitlen m)" using b by simp
  then show "m * 2 ^ (53 - bitlen m) < 2 ^ 53" unfolding s .
  have "2 ^ bitlen m * 2 ^ (53 - bitlen m) \<le> 2 * m * 2 ^ (53 - bitlen m)" using b by simp
  then show "2 ^ 52 \<le> m * 2 ^ (53 - bitlen m)" unfolding s by simp
qed

text \<open>The fraction \<open>frexp\<close> returns, scaled by \<open>2 ^ 53\<close>, is the integer mantissa.\<close>

lemma frexp_scaled:
  assumes "0 < m" "m < 2 ^ 53"
  defines "M \<equiv> m * 2 ^ (53 - bitlen m)"
  shows "mag_trunc (ldexp_mag (mag_encode m (- int (bitlen m))) 53) = M"
proof -
  have l: "bitlen m \<le> 53" using bitlen_le assms by blast
  note r = norm_mantissa_range [OF assms(1,2), folded M_def]
  note n = mag_encode_normal [OF r]
  have i: "nat (53 - int (bitlen m)) = 53 - bitlen m" using l by simp
  have "mag_encode m (- int (bitlen m)) = min (1021 * 2 ^ 52 + M) inf_mag"
    using l assms by (simp add: mag_encode_def Let_def i)
  also have "\<dots> = mag_encode M (-53)"
    using n(1) [of "-53"] n(3) [of "-53"] by simp
  finally have "ldexp_mag (mag_encode m (- int (bitlen m))) 53 = mag_encode M 0"
    using n(2) [of "-53"] by (simp add: ldexp_mag_def)
  then show ?thesis using n(2) [of 0] by (simp add: mag_trunc_def)
qed

text \<open>Mantissa and exponent give the magnitude back, gradual underflow included.\<close>

lemma norm_encode:
  assumes "n < inf_mag" "n \<noteq> 0"
  shows "mag_encode (norm_mantissa n) (norm_exponent n) = n"
  using assms
proof (cases rule: mag_decode_cases)
  case (normal e m)
  have "norm_mantissa n = m" "norm_exponent n = int e - 1074"
    using normal bitlen_53 [of m] by (simp_all add: norm_mantissa_def norm_exponent_def)
  then show ?thesis using mag_encode_normal(1) [of m "int e - 1074"] normal by simp
next
  case subnormal
  let ?M = "n * 2 ^ (53 - bitlen n)"
  have l: "bitlen n \<le> 52" using subnormal(2) by (rule bitlen_le)
  have "bitlen ?M = 53"
    using norm_mantissa_range [of n] subnormal by (intro bitlen_53) simp_all
  moreover have nd: "norm_mantissa n = ?M" "norm_exponent n = int (bitlen n) - 1127"
    using subnormal(3) by (simp_all add: norm_mantissa_def norm_exponent_def)
  moreover have s: "nat (53 - int (bitlen n)) = 53 - bitlen n" by simp
  moreover have "n \<le> inf_mag" using assms by simp
  ultimately show ?thesis using l subnormal
    by (simp add: mag_encode_def Let_def max_def round_shift_exact min_def)
qed

lemma frexp_mag_finite:
  assumes "n < inf_mag"
  shows "mag_trunc (ldexp_mag (fst (frexp_mag n)) 53) = (if n = 0 then 0 else norm_mantissa n)"
    "n \<noteq> 0 \<Longrightarrow> snd (frexp_mag n) - 53 = norm_exponent n"
proof -
  have ld: "bitlen (fst (mag_decode n)) \<le> 53 \<and> fst (mag_decode n) < 2 ^ 53 \<and> 0 < fst (mag_decode n)"
    if "n \<noteq> 0" using assms that
  proof (cases rule: mag_decode_cases)
    case (normal e m)
    then show ?thesis using bitlen_53 [of m] by simp
  next
    case subnormal
    then show ?thesis using bitlen_le [of n 52] by simp
  qed
  have z: "mag_decode 0 = (0, -1074)" by (simp add: mag_decode_def)
  show "mag_trunc (ldexp_mag (fst (frexp_mag n)) 53) = (if n = 0 then 0 else norm_mantissa n)"
  proof (cases "n = 0")
    case True
    then show ?thesis by (simp add: frexp_mag_def z ldexp_mag_def mag_trunc_def mag_encode_def)
  next
    case False
    then have "fst (frexp_mag n) = mag_encode (fst (mag_decode n)) (- int (bitlen (fst (mag_decode n))))"
      using ld by (auto simp: frexp_mag_def split: prod.split)
    then show ?thesis
      using False ld frexp_scaled [of "fst (mag_decode n)"] by (simp add: norm_mantissa_def Let_def)
  qed
  show "snd (frexp_mag n) - 53 = norm_exponent n" if "n \<noteq> 0"
    using ld [OF that] by (auto simp: frexp_mag_def norm_exponent_def split: prod.split)
qed

lemma norm_ranges:
  assumes "n < inf_mag" "n \<noteq> 0"
  shows "2 ^ 52 \<le> norm_mantissa n" "norm_mantissa n < 2 ^ 53"
    "-1200 \<le> norm_exponent n" "norm_exponent n \<le> 1000"
proof -
  consider (a) e m where "mag_decode n = (m, int e - 1074)" "2 ^ 52 \<le> m" "m < 2 ^ 53" "e \<le> 2045"
    | (b) "mag_decode n = (n, -1074)" "0 < n" "n < 2 ^ 52"
    using assms by (cases rule: mag_decode_cases) blast+
  then have "(2 ^ 52 \<le> norm_mantissa n \<and> norm_mantissa n < 2 ^ 53) \<and>
      (-1200 \<le> norm_exponent n \<and> norm_exponent n \<le> 1000)"
  proof cases
    case a
    then show ?thesis using bitlen_53 [of m] by (simp add: norm_mantissa_def norm_exponent_def)
  next
    case b
    then show ?thesis using norm_mantissa_range [of n] bitlen_le [of n 52]
      by (simp add: norm_mantissa_def norm_exponent_def)
  qed
  then show "2 ^ 52 \<le> norm_mantissa n" "norm_mantissa n < 2 ^ 53"
    "-1200 \<le> norm_exponent n" "norm_exponent n \<le> 1000" by blast+
qed

text \<open>The receiver's computation on what the sender wrote.\<close>

lemma ldexp_of_norm:
  assumes "n < inf_mag" "n \<noteq> 0"
  shows "ldexp_mag (mag_of_u64 (word_of_nat (norm_mantissa n))) (norm_exponent n) = n"
proof -
  note r = norm_ranges [OF assms]
  have "unat (word_of_nat (norm_mantissa n) :: u64) = norm_mantissa n"
    using r by (simp add: unat_of_nat)
  then show ?thesis
    using norm_encode [OF assms] mag_encode_normal(2) [OF r(1,2), of 0]
    by (simp add: mag_of_u64_def ldexp_mag_def)
qed

section \<open>Doubles over the wire\<close>

text \<open>The thirteen bytes of a finite double: sign, mantissa, exponent, the integers big endian.\<close>

definition double_wire :: "dbl \<Rightarrow> byte list" where
  "double_wire x = (let n = dbl_mag x in
     fpt_byte (if dbl_less_0 x then NormalNegative else NormalPositive) #
     be64 (word_of_nat (if n = 0 then 0 else norm_mantissa n)) @
     be32 (of_i32 (if n = 0 then -53 else norm_exponent n)))"

text \<open>What arrives: a NaN loses its payload and sign, a negative zero its sign.\<close>

definition dbl_received :: "dbl \<Rightarrow> dbl" where
  "dbl_received x = (if dbl_isnan x then quiet_nan else if dbl_mag x = 0 then 0 else x)"

lemma length_double_wire [simp]: "length (double_wire x) = 13"
  by (simp add: double_wire_def Let_def)

lemma dbl_finite_iff: "\<not> dbl_isnan x \<and> \<not> dbl_isinf x \<longleftrightarrow> dbl_mag x < inf_mag"
  by (auto simp: dbl_isnan_def dbl_isinf_def)

lemma patch_three:
  assumes "13 \<le> length data" "length b = 8" "length c = 4"
  shows "patch (patch (patch data 0 [a]) (Suc 0) b) 9 c = patch data 0 (a # b @ c)"
  using assms by (simp add: patch_def)

lemma double_to_network_finite:
  assumes "13 \<le> length data" "load64 (seg data 0 8) = x" "dbl_mag x < inf_mag"
  shows "double_in_buf_to_network_order data = Some (patch data 0 (double_wire x))"
proof -
  have nf: "\<not> dbl_isnan x" "\<not> dbl_isinf x" using assms dbl_finite_iff [of x] by blast+
  obtain frac e where fe: "frexp_mag (dbl_mag x) = (frac, e)" by fastforce
  note f = frexp_mag_finite [OF assms(3), unfolded fe fst_conv snd_conv]
  have z: "e - 53 = -53" if "dbl_mag x = 0"
    using fe that by (simp add: frexp_mag_def mag_decode_def)
  have b: "store64 (htonll w) = be64 w" "store32 (int32_to_network i) = be32 (of_i32 i)" for w i
    by (simp_all add: store64_htonll int32_to_network_def store32_htonl)
  have "e - 53 = (if dbl_mag x = 0 then -53 else norm_exponent (dbl_mag x))"
    using f(2) z by simp
  moreover have "mag_trunc (ldexp_mag frac 53) = (if dbl_mag x = 0 then 0 else norm_mantissa (dbl_mag x))"
    using f(1) .
  ultimately show ?thesis
    using assms nf
    by (simp only: double_in_buf_to_network_order_def fe Let_def prod.case b double_mantissa_bits_def)
      (simp add: patch_three double_wire_def Let_def)
qed

lemma seg_patch_wire:
  assumes "13 \<le> length data"
  shows "patch data 0 (double_wire x) ! 0 = double_wire x ! 0"
    "seg (patch data 0 (double_wire x)) 1 8 = seg (double_wire x) 1 8"
    "seg (patch data 0 (double_wire x)) 9 4 = seg (double_wire x) 9 4"
  using assms by (simp_all add: patch_def nth_append seg_append1)

lemma double_wire_parts:
  "double_wire x ! 0 = fpt_byte (if dbl_less_0 x then NormalNegative else NormalPositive)"
  "load64 (seg (double_wire x) 1 8) =
     htonll (word_of_nat (if dbl_mag x = 0 then 0 else norm_mantissa (dbl_mag x)))"
  "load32 (seg (double_wire x) 9 4) =
     htonl (of_i32 (if dbl_mag x = 0 then -53 else norm_exponent (dbl_mag x)))"
  by (simp_all add: double_wire_def Let_def seg_def flip: store64_htonll store32_htonl)

lemma mk_dbl_mag: "mk_dbl (dbl_sign x) (dbl_mag x) = x"
proof -
  have l: "unat x < 2 ^ 64" by (rule order_less_le_trans [OF unsigned_less]) simp
  have "(if dbl_sign x then 2 ^ 63 else 0) + dbl_mag x = unat x"
  proof (cases "dbl_sign x")
    case True
    then have "unat x - 2 ^ 63 < 2 ^ 63" "unat x = 2 ^ 63 + (unat x - 2 ^ 63)"
      using l by (auto simp: dbl_sign_def)
    then have "unat x mod 2 ^ 63 = unat x - 2 ^ 63" by (metis mod_add_self1 mod_less)
    with True show ?thesis by (simp add: dbl_mag_def dbl_sign_def)
  next
    case False
    then show ?thesis by (simp add: dbl_mag_def dbl_sign_def)
  qed
  then show ?thesis by (simp add: mk_dbl_def)
qed

lemma mag_of_u64_0: "mag_of_u64 0 = 0"
  by (simp add: mag_of_u64_def mag_encode_def)

lemma double_to_host_normal:
  assumes "13 \<le> length d" "d ! 0 \<notin> fpt_byte ` {FNaN, InfNegative, InfPositive}"
  shows "double_in_buf_to_host_order d = Some (patch d 0 (store64 (mk_dbl
    (d ! 0 = fpt_byte NormalNegative)
    (ldexp_mag (mag_of_u64 (ntohll (load64 (seg d 1 8)))) (int32_to_host (load32 (seg d 9 4)))))))"
  using assms by (simp add: double_in_buf_to_host_order_def Let_def)

lemma double_to_host_finite:
  assumes "13 \<le> length data" "dbl_mag x < inf_mag"
  shows "double_in_buf_to_host_order (patch data 0 (double_wire x)) =
    Some (patch data 0 (store64 (dbl_received x) @ drop 8 (double_wire x)))"
proof -
  let ?d = "patch data 0 (double_wire x)"
  let ?n = "dbl_mag x"
  let ?e = "if ?n = 0 then -53 else norm_exponent ?n"
  have n: "\<not> dbl_isnan x" using assms(2) by (simp add: dbl_isnan_def)
  have "i32_ok ?e" using norm_ranges [OF assms(2)] by (auto simp: i32_ok_iff)
  then have e: "int32_to_host (load32 (seg ?d 9 4)) = ?e"
    using assms(1) by (simp add: seg_patch_wire double_wire_parts int32_to_host_def to_i32_of_i32)
  have m: "ntohll (load64 (seg ?d 1 8)) = word_of_nat (if ?n = 0 then 0 else norm_mantissa ?n)"
    using assms(1) by (simp add: seg_patch_wire double_wire_parts ntohll_eq_htonll
        flip: One_nat_def)
  have "ldexp_mag 0 (- 53) = 0" by (simp add: ldexp_mag_def mag_decode_def mag_encode_def)
  then have v: "ldexp_mag (mag_of_u64 (word_of_nat (if ?n = 0 then 0 else norm_mantissa ?n))) ?e = ?n"
    using ldexp_of_norm [OF assms(2)] mag_of_u64_0 by simp
  have s: "dbl_less_0 x \<longleftrightarrow> dbl_sign x \<and> ?n \<noteq> 0" using n by (simp add: dbl_less_0_def)
  have t: "?d ! 0 = fpt_byte (if dbl_less_0 x then NormalNegative else NormalPositive)"
    using assms(1) by (simp add: seg_patch_wire double_wire_parts)
  have r: "mk_dbl (?d ! 0 = fpt_byte NormalNegative) ?n = dbl_received x"
    using mk_dbl_mag [of x] n s by (auto simp: t dbl_received_def mk_dbl_def)
  have "13 \<le> length ?d" "?d ! 0 \<notin> fpt_byte ` {FNaN, InfNegative, InfPositive}"
    using assms(1) by (simp_all add: t)
  from double_to_host_normal [OF this]
  have "double_in_buf_to_host_order ?d = Some (patch ?d 0 (store64 (dbl_received x)))"
    by (simp only: e m v r)
  also have "patch ?d 0 (store64 (dbl_received x)) =
      patch data 0 (store64 (dbl_received x) @ drop 8 (double_wire x))"
    using assms(1) by (simp add: patch_def)
  finally show ?thesis .
qed

lemma double_network_host:
  assumes "13 \<le> length data"
  shows "\<exists>net back. double_in_buf_to_network_order (patch data 0 (store64 x)) = Some net \<and>
    double_in_buf_to_host_order net = Some back \<and> length back = length data \<and>
    load64 (seg back 0 8) = dbl_received x \<and> drop 13 back = drop 13 data"
proof -
  let ?d = "patch data 0 (store64 x)"
  have l: "13 \<le> length ?d" "load64 (seg ?d 0 8) = x" using assms by (simp_all add: seg_simps)
  have dr: "drop 13 ?d = drop 13 data" using assms by (simp add: patch_def)
  consider (fin) "dbl_mag x < inf_mag" | (inf) "dbl_isinf x" "\<not> dbl_isnan x" | (nan) "dbl_isnan x"
    using dbl_finite_iff [of x] by blast
  then show ?thesis
  proof cases
    case fin
    let ?b = "patch ?d 0 (store64 (dbl_received x) @ drop 8 (double_wire x))"
    have "drop 13 ?b = drop 13 data" "load64 (seg ?b 0 8) = dbl_received x" "length ?b = length data"
      using l dr assms by (simp_all add: patch_def seg_def)
    then show ?thesis
      using double_to_network_finite [OF l fin] double_to_host_finite [OF l(1) fin] by blast
  next
    case inf
    let ?i = "if dbl_less_0 x then InfNegative else InfPositive"
    let ?b = "patch (patch ?d 0 [fpt_byte ?i]) 0 (store64 x)"
    have "dbl_mag x = inf_mag" using inf by (simp add: dbl_isinf_def)
    then have "dbl_inf (dbl_less_0 x) = x"
      using inf mk_dbl_mag [of x] by (simp add: dbl_inf_def dbl_less_0_def inf_mag_def)
    then have "double_in_buf_to_host_order (patch ?d 0 [fpt_byte ?i]) = Some ?b"
      using l by (cases "dbl_less_0 x") (simp_all add: double_in_buf_to_host_order_def patch_def)
    moreover have "dbl_received x = x"
      using inf by (simp add: dbl_received_def dbl_isinf_def inf_mag_def)
    moreover have "double_in_buf_to_network_order ?d = Some (patch ?d 0 [fpt_byte ?i])"
      using l inf by (simp add: double_in_buf_to_network_order_def)
    moreover have "drop 13 ?b = drop 13 data" "load64 (seg ?b 0 8) = x" "length ?b = length data"
      using l dr assms by (simp_all add: patch_def seg_def)
    ultimately show ?thesis by simp
  next
    case nan
    let ?b = "patch (patch ?d 0 [fpt_byte FNaN]) 0 (store64 quiet_nan)"
    have "double_in_buf_to_host_order (patch ?d 0 [fpt_byte FNaN]) = Some ?b"
      using l by (simp add: double_in_buf_to_host_order_def patch_def)
    moreover have "double_in_buf_to_network_order ?d = Some (patch ?d 0 [fpt_byte FNaN])"
      using l nan by (simp add: double_in_buf_to_network_order_def)
    moreover have "drop 13 ?b = drop 13 data" "load64 (seg ?b 0 8) = quiet_nan" "length ?b = length data"
      using l dr assms by (simp_all add: patch_def seg_def)
    ultimately show ?thesis using nan by (simp add: dbl_received_def)
  qed
qed

text \<open>
  C16: a double converted for the wire and back.  Every double survives, NaN payloads and the
  sign of a negative zero apart, and no byte after the thirteen of the buffer changes.
\<close>

theorem double_roundtrip:
  assumes "13 \<le> length data"
  shows "\<exists>net back. double_in_buf_to_network_order (patch data 0 (store64 x)) = Some net \<and>
    double_in_buf_to_host_order net = Some back \<and> length back = length data \<and>
    load64 (seg back 0 8) = dbl_received x \<and> drop 13 back = drop 13 data"
  using double_network_host [OF assms] .

text \<open>The hypothesis holds of the buffer the library allocates for \<open>1.5\<close>.\<close>

lemma double_roundtrip_witness:
  "\<exists>net back. double_in_buf_to_network_order (patch (replicate 13 0) 0 (store64 0x3FF8000000000000))
     = Some net \<and> double_in_buf_to_host_order net = Some back \<and>
     length back = length (replicate 13 (0 :: byte)) \<and>
     load64 (seg back 0 8) = dbl_received 0x3FF8000000000000 \<and>
     drop 13 back = drop 13 (replicate 13 0)"
  by (rule double_roundtrip) simp

end
