(* ===== verification/Converters.thy ===== *)
theory Converters
  imports Doubles Dson_Obj
begin

text \<open>
  The byte-order converters of \<open>include/dson/dson.h\<close>: functions that convert the data of
  an object in place, and the tables \<open>Dson::Converters\<close> holds, keyed by type identifier.

  A converter gets the \<open>data_size_\<close> of the header and the bytes from \<open>data\<close> to the end of
  the allocation they lie in; \<open>None\<close> means that it accesses bytes past that end.
\<close>

type_synonym converter = "i32 \<Rightarrow> byte list \<Rightarrow> byte list option"
type_synonym converters_map = "u32 \<Rightarrow> converter option"

text \<open>\<open>*var = f(*var)\<close> for a 32-bit and for a 64-bit variable.\<close>

definition conv32 :: "(u32 \<Rightarrow> u32) \<Rightarrow> converter" where
  "conv32 f data_size data = (if length data < 4 then None
     else Some (patch data 0 (store32 (f (load32 (seg data 0 4))))))"

definition conv64 :: "(u64 \<Rightarrow> u64) \<Rightarrow> converter" where
  "conv64 f data_size data = (if length data < 8 then None
     else Some (patch data 0 (store64 (f (load64 (seg data 0 8))))))"

text \<open>
  The element count of a vector: \<open>header.data_size_ / sizeof(std::uint32_t)\<close> is computed
  in the 64-bit unsigned type of \<open>sizeof\<close> and then stored in 32 bits.
\<close>

definition vector_count :: "i32 \<Rightarrow> nat" where
  "vector_count data_size = unat (ucast ((word_of_int data_size :: u64) div 4) :: u32)"

definition conv_vector :: "(u32 \<Rightarrow> u32) \<Rightarrow> converter" where
  "conv_vector f data_size data = (let n = vector_count data_size in
     if length data < 4 * n then None else Some (words_loop f 0 n data))"

definition conv_double_to_host :: converter where
  "conv_double_to_host data_size data = double_in_buf_to_host_order data"

definition conv_double_to_network :: converter where
  "conv_double_to_network data_size data = double_in_buf_to_network_order data"

record converters =
  to_host_order :: converters_map
  to_network_order :: converters_map

definition type_key :: "lib_type \<Rightarrow> u32" where
  "type_key t = of_i32 (types_map t)"

definition dson_lib_defined_converters :: "converters \<Rightarrow> converters" where
  "dson_lib_defined_converters cv = cv\<lparr>
     to_host_order := (to_host_order cv)(
       type_key T_int32 \<mapsto> conv32 ntohl, type_key T_uint32 \<mapsto> conv32 ntohl,
       type_key T_int64 \<mapsto> conv64 ntohll, type_key T_uint64 \<mapsto> conv64 ntohll,
       type_key T_double \<mapsto> conv_double_to_host,
       type_key T_vector_uint32 \<mapsto> conv_vector ntohl),
     to_network_order := (to_network_order cv)(
       type_key T_int32 \<mapsto> conv32 htonl, type_key T_uint32 \<mapsto> conv32 htonl,
       type_key T_int64 \<mapsto> conv64 htonll, type_key T_uint64 \<mapsto> conv64 htonll,
       type_key T_double \<mapsto> conv_double_to_network,
       type_key T_vector_uint32 \<mapsto> conv_vector htonl)\<rparr>"

text \<open>
  \<open>Converters()\<close>: the library's entries, then those of the user
  (\<open>dson_user_defined_converters\<close>, compiled in by \<open>USE_USER_DSON_TYPES\<close>), which may
  replace them.
\<close>

definition make_converters :: "(converters \<Rightarrow> converters) \<Rightarrow> converters" where
  "make_converters user_defined = user_defined
     (dson_lib_defined_converters \<lparr>to_host_order = Map.empty, to_network_order = Map.empty\<rparr>)"

definition lib_converters :: converters where
  "lib_converters = make_converters id"

section \<open>The interface of a pair of converters\<close>

text \<open>
  \<open>host_ok\<close> and \<open>net_ok\<close> say that the bytes are data of the type in the one and in the
  other order, \<open>hval\<close> and \<open>nval\<close> which value they hold.  Converting stays inside the
  \<open>data_size_\<close> bytes, keeps the value and yields data of the other order; what follows
  them in memory neither changes nor matters.
\<close>

locale byte_order_converter =
  fixes to_net to_host :: converter
    and host_ok net_ok :: "i32 \<Rightarrow> byte list \<Rightarrow> bool"
    and hval nval :: "i32 \<Rightarrow> byte list \<Rightarrow> 'v"
  assumes to_net_ok: "host_ok sz d \<Longrightarrow> \<exists>n. to_net sz d = Some n \<and> length n = length d \<and>
      drop (nat sz) n = drop (nat sz) d \<and> net_ok sz n \<and> nval sz n = hval sz d"
    and to_host_ok: "net_ok sz n \<Longrightarrow> \<exists>d. to_host sz n = Some d \<and> length d = length n \<and>
      drop (nat sz) d = drop (nat sz) n \<and> host_ok sz d \<and> hval sz d = nval sz n"
    and to_net_local: "host_ok sz d \<Longrightarrow> length d = nat sz \<Longrightarrow>
      to_net sz (d @ tail) = map_option (\<lambda>n. n @ tail) (to_net sz d)"
    and to_host_local: "net_ok sz n \<Longrightarrow> length n = nat sz \<Longrightarrow>
      to_host sz (n @ tail) = map_option (\<lambda>d. d @ tail) (to_host sz n)"

begin

lemma round_trip:
  assumes "host_ok sz d"
  shows "\<exists>n d'. to_net sz d = Some n \<and> to_host sz n = Some d' \<and> length d' = length d \<and>
    drop (nat sz) d' = drop (nat sz) d \<and> host_ok sz d' \<and> hval sz d' = hval sz d"
  using to_net_ok [OF assms] to_host_ok by metis

text \<open>A relay may convert any number of times: the value stays the same.\<close>

lemma to_net_defined: "host_ok sz d \<Longrightarrow> to_net sz d \<noteq> None"
  using to_net_ok [of sz d] by auto

lemma to_host_defined: "net_ok sz n \<Longrightarrow> to_host sz n \<noteq> None"
  using to_host_ok [of sz n] by auto

end

section \<open>The library's converters satisfy it\<close>

definition fits :: "nat \<Rightarrow> i32 \<Rightarrow> byte list \<Rightarrow> bool" where
  "fits n sz d \<longleftrightarrow> sz = int n \<and> n \<le> length d"

definition fits_words :: "i32 \<Rightarrow> byte list \<Rightarrow> bool" where
  "fits_words sz d \<longleftrightarrow> 0 \<le> sz \<and> 4 dvd sz \<and> i32_ok sz \<and> nat sz \<le> length d"

fun load_words :: "byte list \<Rightarrow> u32 list" where
  "load_words (a # b # c # d # bs) = load32 [a, b, c, d] # load_words bs"
| "load_words bs = []"

lemma load_words_4: "length xs = 4 \<Longrightarrow> load_words (xs @ bs) = load32 xs # load_words bs"
  by (auto simp: length_Suc_conv numeral_eq_Suc)

lemma load_words_chunk_map: "load_words (chunk_map f bs) = map f (load_words bs)"
  by (induction f bs rule: chunk_map.induct) (simp_all add: load_words_4)

lemma vector_count_words: "fits_words sz d \<Longrightarrow> vector_count sz = nat sz div 4"
proof -
  assume f: "fits_words sz d"
  define n where "n = nat sz"
  have n: "sz = int n" "n < 2 ^ 31" using f by (auto simp: n_def fits_words_def i32_ok_iff)
  have "unat ((word_of_int sz :: u64) div 4) = n div 4"
    using n by (simp add: unat_div_distrib unat_of_nat)
  then have "unat (ucast ((word_of_int sz :: u64) div 4) :: u32) = n div 4"
    using n by (simp add: unsigned_ucast_eq take_bit_eq_mod)
  then show ?thesis using n by (simp add: vector_count_def)
qed

lemma conv_vector_words:
  assumes "fits_words sz d"
  shows "conv_vector f sz d = Some (chunk_map f (take (nat sz) d) @ drop (nat sz) d)"
proof -
  obtain k where k: "nat sz = 4 * k" using assms by (auto simp: fits_words_def nat_mult_distrib elim!: dvdE)
  have l: "4 * k \<le> length d" using assms k by (simp add: fits_words_def)
  have c: "vector_count sz = k" using vector_count_words [OF assms] k by simp
  show ?thesis
    using l by (simp add: conv_vector_def c k words_loop_eq patch_def seg_def)
qed

lemma patch_take_drop: "length xs = n \<Longrightarrow> n \<le> length d \<Longrightarrow> drop n (patch d 0 xs) = drop n d"
  by (simp add: patch_def)

lemma conv_vector_local:
  assumes "fits_words sz d" "length d = nat sz"
  shows "conv_vector f sz (d @ tail) = map_option (\<lambda>n. n @ tail) (conv_vector f sz d)"
proof -
  have "fits_words sz (d @ tail)" using assms by (simp add: fits_words_def)
  then show ?thesis using assms by (simp add: conv_vector_words)
qed

interpretation cv32: byte_order_converter "conv32 htonl" "conv32 ntohl" "fits 4" "fits 4"
  "\<lambda>sz d. load32 (seg d 0 4)" "\<lambda>sz n. ntohl (load32 (seg n 0 4))"
  by unfold_locales (auto simp: conv32_def fits_def seg_simps patch_take_drop patch_append1)

interpretation cv64: byte_order_converter "conv64 htonll" "conv64 ntohll" "fits 8" "fits 8"
  "\<lambda>sz d. load64 (seg d 0 8)" "\<lambda>sz n. ntohll (load64 (seg n 0 8))"
  by unfold_locales
    (auto simp: conv64_def fits_def seg_simps patch_take_drop ntohll_eq_htonll patch_append1)

interpretation cvvec: byte_order_converter "conv_vector htonl" "conv_vector ntohl"
  fits_words fits_words
  "\<lambda>sz d. load_words (take (nat sz) d)" "\<lambda>sz n. map ntohl (load_words (take (nat sz) n))"
  by unfold_locales
    (auto simp: conv_vector_words conv_vector_local fits_words_def load_words_chunk_map ntohl_eq_htonl
      o_def)

lemma double_to_host_13:
  assumes "13 \<le> length n"
  shows "\<exists>w. double_in_buf_to_host_order n = Some (patch n 0 (store64 w))"
  using assms by (auto simp: double_in_buf_to_host_order_def Let_def)

lemma drop_patch_8: "13 \<le> length n \<Longrightarrow> drop 13 (patch n 0 (store64 w)) = drop 13 n"
  by (simp add: patch_def)

lemma patch_store_load64: "8 \<le> length d \<Longrightarrow> patch d 0 (store64 (load64 (seg d 0 8))) = d"
  by (simp add: store_load64 patch_seg_id)

lemma dbl_received_idem [simp]: "dbl_received (dbl_received x) = dbl_received x"
  by (auto simp: dbl_received_def)
    (simp_all add: dbl_isnan_def dbl_mag_def quiet_nan_def mk_dbl_def inf_mag_def)

text \<open>Of a double the value that arrives is kept.\<close>

definition double_nval :: "i32 \<Rightarrow> byte list \<Rightarrow> dbl" where
  "double_nval sz n = (case double_in_buf_to_host_order n of
     None \<Rightarrow> 0 | Some d \<Rightarrow> dbl_received (load64 (seg d 0 8)))"

lemma double_to_net_13:
  assumes "13 \<le> length d"
  shows "\<exists>n. double_in_buf_to_network_order d = Some n \<and> length n = length d \<and>
    drop 13 n = drop 13 d \<and> double_nval sz n = dbl_received (load64 (seg d 0 8))"
proof -
  obtain n b where n: "double_in_buf_to_network_order d = Some n"
    and b: "double_in_buf_to_host_order n = Some b" "length b = length d"
      "load64 (seg b 0 8) = dbl_received (load64 (seg d 0 8))" "drop 13 b = drop 13 d"
    using double_network_host [OF assms, of "load64 (seg d 0 8)"] assms
    by (auto simp: patch_store_load64)
  have "length n = length d \<and> drop 13 n = drop 13 d"
    using n assms
    by (auto simp: double_in_buf_to_network_order_def Let_def patch_def split: if_splits prod.splits)
  with n b show ?thesis by (simp add: double_nval_def)
qed

lemma double_to_host_local:
  assumes "13 \<le> length n"
  shows "double_in_buf_to_host_order (n @ tail) = map_option (\<lambda>d. d @ tail) (double_in_buf_to_host_order n)"
proof -
  have "(n @ tail) ! 0 = n ! 0" using assms by (cases n) auto
  then show ?thesis using assms
    by (simp add: double_in_buf_to_host_order_def Let_def seg_append1 patch_append1)
qed

lemma double_to_net_local:
  assumes "13 \<le> length d"
  shows "double_in_buf_to_network_order (d @ tail) = map_option (\<lambda>n. n @ tail) (double_in_buf_to_network_order d)"
  using assms
  by (simp add: double_in_buf_to_network_order_def Let_def seg_append1 patch_append1 split_beta)

interpretation cvdbl: byte_order_converter conv_double_to_network conv_double_to_host
  "fits 13" "fits 13" "\<lambda>sz d. dbl_received (load64 (seg d 0 8))" double_nval
proof
  show "\<exists>n. conv_double_to_network sz d = Some n \<and> length n = length d \<and>
      drop (nat sz) n = drop (nat sz) d \<and> fits 13 sz n \<and>
      double_nval sz n = dbl_received (load64 (seg d 0 8))" if "fits 13 sz d" for sz d
    using that double_to_net_13 [of d sz] by (auto simp: fits_def conv_double_to_network_def)
  show "conv_double_to_network sz (d @ tail) = map_option (\<lambda>n. n @ tail) (conv_double_to_network sz d)"
    if "fits 13 sz d" for sz d tail
    using that double_to_net_local [of d tail] by (simp add: fits_def conv_double_to_network_def)
  show "conv_double_to_host sz (n @ tail) = map_option (\<lambda>d. d @ tail) (conv_double_to_host sz n)"
    if "fits 13 sz n" for sz n tail
    using that double_to_host_local [of n tail] by (simp add: fits_def conv_double_to_host_def)
  show "\<exists>d. conv_double_to_host sz n = Some d \<and> length d = length n \<and>
      drop (nat sz) d = drop (nat sz) n \<and> fits 13 sz d \<and>
      dbl_received (load64 (seg d 0 8)) = double_nval sz n" if "fits 13 sz n" for sz n
  proof -
    have l: "13 \<le> length n" "sz = 13" using that by (auto simp: fits_def)
    obtain w where w: "double_in_buf_to_host_order n = Some (patch n 0 (store64 w))"
      using double_to_host_13 [OF l(1)] by blast
    then show ?thesis using l
      by (simp add: conv_double_to_host_def fits_def double_nval_def drop_patch_8)
  qed
qed

section \<open>The table\<close>

lemma type_key_inj [simp]: "type_key s = type_key t \<longleftrightarrow> s = t"
  by (cases s; cases t; simp add: type_key_def type_ids)

lemma lib_converters_eq:
  "to_host_order lib_converters = [
     type_key T_int32 \<mapsto> conv32 ntohl, type_key T_uint32 \<mapsto> conv32 ntohl,
     type_key T_int64 \<mapsto> conv64 ntohll, type_key T_uint64 \<mapsto> conv64 ntohll,
     type_key T_double \<mapsto> conv_double_to_host, type_key T_vector_uint32 \<mapsto> conv_vector ntohl]"
  "to_network_order lib_converters = [
     type_key T_int32 \<mapsto> conv32 htonl, type_key T_uint32 \<mapsto> conv32 htonl,
     type_key T_int64 \<mapsto> conv64 htonll, type_key T_uint64 \<mapsto> conv64 htonll,
     type_key T_double \<mapsto> conv_double_to_network, type_key T_vector_uint32 \<mapsto> conv_vector htonl]"
  by (simp_all add: lib_converters_def make_converters_def dson_lib_defined_converters_def)

text \<open>Which bytes are data of a type, and the value a program reads from them.\<close>

fun lib_data_ok :: "lib_type \<Rightarrow> i32 \<Rightarrow> byte list \<Rightarrow> bool" where
  "lib_data_ok T_int32 = fits 4"
| "lib_data_ok T_uint32 = fits 4"
| "lib_data_ok T_int64 = fits 8"
| "lib_data_ok T_uint64 = fits 8"
| "lib_data_ok T_double = fits 13"
| "lib_data_ok T_vector_uint32 = fits_words"
| "lib_data_ok _ = (\<lambda>sz d. True)"

definition lib_value :: "lib_type \<Rightarrow> i32 \<Rightarrow> byte list \<Rightarrow> nat list" where
  "lib_value t sz d =
     (if t \<in> {T_int32, T_uint32} then [unat (load32 (seg d 0 4))]
      else if t \<in> {T_int64, T_uint64} then [unat (load64 (seg d 0 8))]
      else if t = T_double then [unat (dbl_received (load64 (seg d 0 8)))]
      else if t = T_vector_uint32 then map unat (load_words (take (nat sz) d))
      else map unat (take (nat sz) d))"

text \<open>Applying the converter of a type, when the table has one (\<open>find\<close> and the call).\<close>

definition convert_with :: "converters_map \<Rightarrow> u32 \<Rightarrow> i32 \<Rightarrow> byte list \<Rightarrow> byte list option" where
  "convert_with table key sz d = (case table key of None \<Rightarrow> Some d | Some f \<Rightarrow> f sz d)"

lemma lib_network_host:
  assumes "lib_data_ok t sz d"
  shows "\<exists>n d'. convert_with (to_network_order lib_converters) (type_key t) sz d = Some n \<and>
    convert_with (to_host_order lib_converters) (type_key t) sz n = Some d' \<and>
    length d' = length d \<and> drop (nat sz) d' = drop (nat sz) d \<and>
    lib_data_ok t sz d' \<and> lib_value t sz d' = lib_value t sz d"
proof (cases t)
  case T_int32
  then show ?thesis using cv32.round_trip [of sz d] assms
    by (auto simp: convert_with_def lib_converters_eq lib_value_def)
next
  case T_uint32
  then show ?thesis using cv32.round_trip [of sz d] assms
    by (auto simp: convert_with_def lib_converters_eq lib_value_def)
next
  case T_int64
  then show ?thesis using cv64.round_trip [of sz d] assms
    by (auto simp: convert_with_def lib_converters_eq lib_value_def)
next
  case T_uint64
  then show ?thesis using cv64.round_trip [of sz d] assms
    by (auto simp: convert_with_def lib_converters_eq lib_value_def)
next
  case T_double
  then show ?thesis using cvdbl.round_trip [of sz d] assms
    by (auto simp: convert_with_def lib_converters_eq lib_value_def)
next
  case T_vector_uint32
  then show ?thesis using cvvec.round_trip [of sz d] assms
    by (auto simp: convert_with_def lib_converters_eq lib_value_def)
qed (simp_all add: convert_with_def lib_converters_eq)

text \<open>
  C15: for every type of the library, converting data of that type to network order and
  back stays inside the data, never fails, and gives the same value.
\<close>

theorem lib_converters_roundtrip:
  assumes "lib_data_ok t sz d"
  shows "\<exists>n d'. convert_with (to_network_order lib_converters) (type_key t) sz d = Some n \<and>
    convert_with (to_host_order lib_converters) (type_key t) sz n = Some d' \<and>
    length d' = length d \<and> drop (nat sz) d' = drop (nat sz) d \<and>
    lib_data_ok t sz d' \<and> lib_value t sz d' = lib_value t sz d"
  using lib_network_host [OF assms] .

lemma lib_converters_roundtrip_witness:
  "\<exists>n d'. convert_with (to_network_order lib_converters) (type_key T_vector_uint32) 8 [1,2,3,4,5,6,7,8,9] = Some n \<and>
    convert_with (to_host_order lib_converters) (type_key T_vector_uint32) 8 n = Some d' \<and>
    length d' = length [1,2,3,4,5,6,7,8,9 :: byte] \<and> drop (nat 8) d' = drop (nat 8) [1,2,3,4,5,6,7,8,9] \<and>
    lib_data_ok T_vector_uint32 8 d' \<and>
    lib_value T_vector_uint32 8 d' = lib_value T_vector_uint32 8 [1,2,3,4,5,6,7,8,9]"
  by (rule lib_converters_roundtrip) (simp add: fits_words_def)

text \<open>
  The converter trusts the type identifier.  The library's converter of a type with a
  fixed size accesses memory past the end of the data of any object that is shorter.
\<close>

theorem lib_converters_trust_type:
  assumes "t \<in> {T_int32, T_uint32, T_int64, T_uint64}"
    "length d < (if t \<in> {T_int32, T_uint32} then 4 else 8)"
  shows "convert_with (to_network_order lib_converters) (type_key t) sz d = None \<and>
    convert_with (to_host_order lib_converters) (type_key t) sz d = None"
  using assms
  by (cases t) (simp_all add: convert_with_def lib_converters_eq conv32_def conv64_def)

lemma lib_converters_trust_type_witness:
  "convert_with (to_network_order lib_converters) (type_key T_int64) 2 [1,2] = None \<and>
   convert_with (to_host_order lib_converters) (type_key T_int64) 2 [1,2] = None"
  by (rule lib_converters_trust_type) simp_all

end
