(* ===== verification/Key_Map.thy ===== *)
theory Key_Map
  imports Prelude
begin

text \<open>
  The ordered map \<open>std::map<std::int32_t, std::unique_ptr<DsonObj>>\<close> a Dson keeps its
  objects in: an association list sorted by key, which is also the order of iteration, with
  \<open>insert_or_assign\<close> and \<open>find\<close>; and the interface its clients rely on.
\<close>

fun kv_insert_or_assign :: "'k::linorder \<Rightarrow> 'v \<Rightarrow> ('k \<times> 'v) list \<Rightarrow> ('k \<times> 'v) list" where
  "kv_insert_or_assign k v [] = [(k, v)]"
| "kv_insert_or_assign k v ((k', v') # kv) =
     (if k < k' then (k, v) # (k', v') # kv
      else if k = k' then (k, v) # kv
      else (k', v') # kv_insert_or_assign k v kv)"

fun kv_find :: "'k::linorder \<Rightarrow> ('k \<times> 'v) list \<Rightarrow> 'v option" where
  "kv_find k [] = None"
| "kv_find k ((k', v') # kv) = (if k = k' then Some v' else kv_find k kv)"

definition kv_sorted :: "('k::linorder \<times> 'v) list \<Rightarrow> bool" where
  "kv_sorted kv \<longleftrightarrow> sorted_wrt (<) (map fst kv)"

section \<open>The interface of a map from keys\<close>

locale key_map =
  fixes empty :: "'m"
    and insert :: "'k \<Rightarrow> 'v \<Rightarrow> 'm \<Rightarrow> 'm"
    and find :: "'k \<Rightarrow> 'm \<Rightarrow> 'v option"
    and inv :: "'m \<Rightarrow> bool"
  assumes inv_empty: "inv empty"
    and inv_insert: "inv m \<Longrightarrow> inv (insert k v m)"
    and find_empty: "find k empty = None"
    and find_insert: "inv m \<Longrightarrow> find k' (insert k v m) = (if k' = k then Some v else find k' m)"

begin

text \<open>A whole message inserted entry by entry.\<close>

definition insert_all :: "('k \<times> 'v) list \<Rightarrow> 'm \<Rightarrow> 'm" where
  "insert_all kvs m = fold (\<lambda>(k, v). insert k v) kvs m"

lemma insert_all_simps [simp]:
  "insert_all [] m = m" "insert_all ((k, v) # kvs) m = insert_all kvs (insert k v m)"
  by (simp_all add: insert_all_def)

lemma inv_insert_all: "inv m \<Longrightarrow> inv (insert_all kvs m)"
  by (induction kvs arbitrary: m) (auto simp: inv_insert)

lemma find_insert_all_other: "inv m \<Longrightarrow> k \<notin> fst ` set kvs \<Longrightarrow> find k (insert_all kvs m) = find k m"
  by (induction kvs arbitrary: m) (auto simp: inv_insert find_insert)

text \<open>The last entry of a key wins, and with distinct keys every entry is found.\<close>

lemma find_insert_all_last:
  "inv m \<Longrightarrow> k \<notin> fst ` set ys \<Longrightarrow> find k (insert_all (xs @ (k, v) # ys) m) = Some v"
  by (induction xs arbitrary: m) (auto simp: inv_insert find_insert find_insert_all_other)

lemma find_insert_all_distinct:
  assumes "inv m" "distinct (map fst kvs)" "(k, v) \<in> set kvs"
  shows "find k (insert_all kvs m) = Some v"
proof -
  obtain xs ys where kvs: "kvs = xs @ (k, v) # ys" using assms(3) by (auto simp: in_set_conv_decomp)
  then have "k \<notin> fst ` set ys" using assms(2) by auto
  then show ?thesis using find_insert_all_last assms(1) kvs by blast
qed

end

section \<open>The sorted association list provides it\<close>

lemma kv_insert_keys: "fst ` set (kv_insert_or_assign k v kv) = insert k (fst ` set kv)"
  by (induction k v kv rule: kv_insert_or_assign.induct) auto

lemma kv_insert_set: "set (kv_insert_or_assign k v kv) \<subseteq> insert (k, v) (set kv)"
  by (induction k v kv rule: kv_insert_or_assign.induct) auto

lemma kv_sorted_Cons: "kv_sorted ((k, v) # kv) \<longleftrightarrow> (\<forall>k' \<in> fst ` set kv. k < k') \<and> kv_sorted kv"
  by (simp add: kv_sorted_def)

lemma kv_sorted_Nil [simp]: "kv_sorted []"
  by (simp add: kv_sorted_def)

lemma kv_sorted_insert: "kv_sorted kv \<Longrightarrow> kv_sorted (kv_insert_or_assign k v kv)"
proof (induction k v kv rule: kv_insert_or_assign.induct)
  case (2 k v k' v' kv)
  then show ?case by (auto simp: kv_sorted_Cons kv_insert_keys simp del: image_iff)
qed (simp add: kv_sorted_def)

lemma kv_find_insert:
  "kv_find k' (kv_insert_or_assign k v kv) = (if k' = k then Some v else kv_find k' kv)"
  by (induction k v kv rule: kv_insert_or_assign.induct) auto

interpretation kv: key_map "[]" kv_insert_or_assign kv_find kv_sorted
  by unfold_locales (simp_all add: kv_sorted_insert kv_find_insert)

lemma kv_find_set: "kv_find k kv = Some v \<Longrightarrow> (k, v) \<in> set kv"
  by (induction k kv rule: kv_find.induct) (auto split: if_splits)

lemma kv_find_None: "kv_find k kv = None \<longleftrightarrow> k \<notin> fst ` set kv"
  by (induction k kv rule: kv_find.induct) auto

lemma kv_find_sorted: "kv_sorted kv \<Longrightarrow> (k, v) \<in> set kv \<Longrightarrow> kv_find k kv = Some v"
  by (induction k kv rule: kv_find.induct) (auto simp: kv_sorted_Cons)

text \<open>Appending keys in increasing order builds the list itself.\<close>

lemma kv_insert_last:
  "\<forall>k' \<in> fst ` set kv. k' < k \<Longrightarrow> kv_insert_or_assign k v kv = kv @ [(k, v)]"
  by (induction k v kv rule: kv_insert_or_assign.induct) auto

lemma kv_insert_all_sorted: "kv_sorted (kv @ kvs) \<Longrightarrow> kv.insert_all kvs kv = kv @ kvs"
proof (induction kvs arbitrary: kv)
  case (Cons p kvs)
  obtain k v where p: "p = (k, v)" by (cases p)
  have "\<forall>k' \<in> fst ` set kv. k' < k"
    using Cons.prems by (auto simp: kv_sorted_def p sorted_wrt_append)
  then show ?case using Cons.IH [of "kv @ [(k, v)]"] Cons.prems by (simp add: p kv_insert_last)
qed simp

text \<open>The place of a key: what is there, if anything, is replaced.\<close>

lemma kv_insert_split:
  assumes "kv_sorted kv"
  obtains xs ys where "kv_insert_or_assign k v kv = xs @ (k, v) # ys"
    "kv = xs @ (case kv_find k kv of None \<Rightarrow> [] | Some old \<Rightarrow> [(k, old)]) @ ys"
proof -
  have "\<exists>xs ys. kv_insert_or_assign k v kv = xs @ (k, v) # ys \<and>
      kv = xs @ (case kv_find k kv of None \<Rightarrow> [] | Some old \<Rightarrow> [(k, old)]) @ ys"
    using assms
  proof (induction k v kv rule: kv_insert_or_assign.induct)
    case (1 k v)
    then show ?case by simp
  next
    case (2 k v k' v' kv)
    consider "k < k'" | "k = k'" | "k' < k" by (rule linorder_cases)
    then show ?case
    proof cases
      case 1
      then have "kv_find k ((k', v') # kv) = None"
        using 2(2) by (auto simp: kv_find_None kv_sorted_Cons)
      with 1 show ?thesis by (intro exI [of _ "[]"] exI [of _ "(k', v') # kv"]) simp
    next
      case 2
      then show ?thesis by (intro exI [of _ "[]"] exI [of _ kv]) simp
    next
      case 3
      then have "\<not> k < k'" "k \<noteq> k'" by auto
      then obtain xs ys where "kv_insert_or_assign k v kv = xs @ (k, v) # ys"
        "kv = xs @ (case kv_find k kv of None \<Rightarrow> [] | Some old \<Rightarrow> [(k, old)]) @ ys"
        using 2 by (metis kv_sorted_Cons)
      with 3 show ?thesis by (intro exI [of _ "(k', v') # xs"] exI [of _ ys]) auto
    qed
  qed
  then show ?thesis using that by blast
qed

end
