(* ===== verification/String_Obj.thy ===== *)
theory String_Obj
  imports Resumable_IO
begin

text \<open>
  \<open>DsonStringObj\<close> (\<open>custom_dson_objs/dson_string_obj.h\<close>): a moved-in string with a header
  of its own, copied out in two phases (header, then characters).
\<close>

record string_obj =
  so_header :: "byte list"    \<comment> \<open>\<open>header_\<close>\<close>
  so_object :: "byte list"    \<comment> \<open>\<open>object_\<close>\<close>
  so_state :: obj_state
  so_offset :: i32

section \<open>Construction and accessors\<close>

text \<open>\<open>static_cast<std::int32_t>(object_.size())\<close> keeps the low 32 bits.\<close>

definition so_setup_header :: "i32 \<Rightarrow> string_obj \<Rightarrow> string_obj" where
  "so_setup_header key s =
     (let h0 = so_header s;
          h1 = set32 h0 0 mark_host_order;
          h2 = set32 h1 1 (word_of_nat (length (so_object s)));
          h3 = set32 h2 2 (of_i32 key);
          h4 = set32 h3 3 (of_i32 (types_map T_string))
      in s\<lparr>so_header := h4\<rparr>)"

text \<open>The constructor; \<open>raw\<close> is what the uninitialised header storage held before.\<close>

definition so_new :: "byte list \<Rightarrow> i32 \<Rightarrow> byte list \<Rightarrow> string_obj" where
  "so_new raw key object = so_setup_header key
     \<lparr>so_header = raw, so_object = object, so_state = StReady, so_offset = 0\<rparr>"

definition so_is_host_order :: "string_obj \<Rightarrow> bool" where
  "so_is_host_order s \<longleftrightarrow> get32 (so_header s) 0 = mark_host_order"

definition so_is_network_order :: "string_obj \<Rightarrow> bool" where
  "so_is_network_order s \<longleftrightarrow> get32 (so_header s) 0 = mark_network_order"

definition so_data_size :: "string_obj \<Rightarrow> i32" where
  "so_data_size s = (if get32 (so_header s) 0 = mark_host_order
     then to_i32 (get32 (so_header s) 1) else int32_to_host (get32 (so_header s) 1))"

definition so_key :: "string_obj \<Rightarrow> i32" where
  "so_key s = (if get32 (so_header s) 0 = mark_host_order
     then to_i32 (get32 (so_header s) 2) else int32_to_host (get32 (so_header s) 2))"

definition so_set_key :: "string_obj \<Rightarrow> i32 \<Rightarrow> string_obj" where
  "so_set_key s key = (if get32 (so_header s) 0 = mark_host_order
     then s\<lparr>so_header := set32 (so_header s) 2 (of_i32 key)\<rparr>
     else s\<lparr>so_header := set32 (so_header s) 2 (int32_to_network key)\<rparr>)"

definition so_data_type :: "string_obj \<Rightarrow> i32" where
  "so_data_type s = (if get32 (so_header s) 0 = mark_host_order
     then to_i32 (get32 (so_header s) 3) else int32_to_host (get32 (so_header s) 3))"

definition so_reset_state :: "string_obj \<Rightarrow> string_obj" where
  "so_reset_state s = s\<lparr>so_state := StReady\<rparr>"

definition so_prepare_header_host_order :: "string_obj \<Rightarrow> string_obj" where
  "so_prepare_header_host_order s = (if so_is_host_order s then s
     else s\<lparr>so_header := words_loop ntohl 0 header_array_len (so_header s)\<rparr>)"

definition so_prepare_header_network_order :: "string_obj \<Rightarrow> string_obj" where
  "so_prepare_header_network_order s = (if so_is_network_order s then s
     else s\<lparr>so_header := words_loop htonl 0 header_array_len (so_header s)\<rparr>)"

section \<open>Copying out\<close>

definition so_copy_to_stream :: "bool \<Rightarrow> string_obj \<Rightarrow> byte list \<Rightarrow> byte list \<times> string_obj" where
  "so_copy_to_stream nw s out =
     (let s' = (if nw then so_prepare_header_network_order s else so_prepare_header_host_order s)
      in (out @ so_header s' @ so_object s', s'))"

text \<open>
  One phase of \<open>copy_to_buf_local\<close>: as much of \<open>src\<close> from the offset on as the window
  takes.  A negative room would make the \<open>memcpy\<close> undefined.
\<close>

definition so_phase_buf :: "byte list \<Rightarrow> i32 \<Rightarrow> cur \<Rightarrow> (i32 \<times> cur) option" where
  "so_phase_buf src offset c =
     (let writed = int (length src) - offset;
          writed = (if writed > c_room c then c_room c else writed)
      in if writed < 0 then None
         else Some (offset + writed, cur_put c (seg src (nat offset) (nat writed))))"

definition so_copy_data_buf :: "string_obj \<Rightarrow> cur \<Rightarrow> (result \<times> cur \<times> string_obj) option" where
  "so_copy_data_buf s c =
     (let size = int (length (so_object s)) in
      if so_offset s \<ge> size then Some (Error, c, s)
      else do {
        (off, c) \<leftarrow> so_phase_buf (so_object s) (so_offset s) c;
        let s = s\<lparr>so_offset := off\<rparr>;
        if off < size then Some (InProcess, c, s)
        else Some (Ready, c, s\<lparr>so_state := StReady\<rparr>)
      })"

definition so_copy_to_buf_local :: "string_obj \<Rightarrow> cur \<Rightarrow> (result \<times> cur \<times> string_obj) option" where
  "so_copy_to_buf_local s c = (case so_state s of
     StCopyingHeader \<Rightarrow>
       if so_offset s \<ge> int header_size then Some (Error, c, s)
       else do {
         (off, c) \<leftarrow> so_phase_buf (so_header s) (so_offset s) c;
         let s = s\<lparr>so_offset := off\<rparr>;
         if off < int header_size then Some (InProcess, c, s)
         else so_copy_data_buf (s\<lparr>so_state := StCopyingData, so_offset := 0\<rparr>) c
       }
   | StCopyingData \<Rightarrow> so_copy_data_buf s c
   | _ \<Rightarrow> Some (Error, c, s))"

definition so_copy_begin :: "bool \<Rightarrow> string_obj \<Rightarrow> string_obj" where
  "so_copy_begin nw s = (if so_state s = StReady
     then (if nw then so_prepare_header_network_order s else so_prepare_header_host_order s)
       \<lparr>so_state := StCopyingHeader, so_offset := 0\<rparr>
     else s)"

definition so_copy_to_buf :: "bool \<Rightarrow> string_obj \<Rightarrow> cur \<Rightarrow> (result \<times> cur \<times> string_obj) option" where
  "so_copy_to_buf nw s c = so_copy_to_buf_local (so_copy_begin nw s) c"

text \<open>
  The descriptor variants.  A write that takes nothing (\<open>EAGAIN\<close>) and a failed write leave
  the offset where it was.
\<close>

definition so_copy_data_fd :: "string_obj \<Rightarrow> wfd \<Rightarrow> result \<times> wfd \<times> string_obj" where
  "so_copy_data_fd s fd =
     (let size = int (length (so_object s)) in
      if so_offset s \<ge> size then (Error, fd, s)
      else (case write_to_fd fd (drop (nat (so_offset s)) (so_object s)) of (writed, fd) \<Rightarrow>
        if writed = -1 then (Error, fd, s)
        else if writed = 0 then (InProcess, fd, s)
        else (let s = s\<lparr>so_offset := so_offset s + writed\<rparr> in
          if so_offset s < size then (InProcess, fd, s)
          else (Ready, fd, s\<lparr>so_state := StReady\<rparr>))))"

definition so_copy_to_fd_local :: "string_obj \<Rightarrow> wfd \<Rightarrow> result \<times> wfd \<times> string_obj" where
  "so_copy_to_fd_local s fd = (case so_state s of
     StCopyingHeader \<Rightarrow>
       if so_offset s \<ge> int header_size then (Error, fd, s)
       else (case write_to_fd fd (drop (nat (so_offset s)) (so_header s)) of (writed, fd) \<Rightarrow>
         if writed = -1 then (Error, fd, s)
         else if writed = 0 then (InProcess, fd, s)
         else (let s = s\<lparr>so_offset := so_offset s + writed\<rparr> in
           if so_offset s < int header_size then (InProcess, fd, s)
           else so_copy_data_fd (s\<lparr>so_state := StCopyingData, so_offset := 0\<rparr>) fd))
   | StCopyingData \<Rightarrow> so_copy_data_fd s fd
   | _ \<Rightarrow> (Error, fd, s))"

definition so_copy_to_fd :: "bool \<Rightarrow> string_obj \<Rightarrow> wfd \<Rightarrow> result \<times> wfd \<times> string_obj" where
  "so_copy_to_fd nw s fd = so_copy_to_fd_local (so_copy_begin nw s) fd"

section \<open>Invariant and what is pending\<close>

text \<open>The bytes the object still owes in its current state; \<open>nw\<close> is the order asked for.\<close>

fun so_pending :: "bool \<Rightarrow> string_obj \<Rightarrow> byte list" where
  "so_pending nw s = (case so_state s of
     StReady \<Rightarrow> so_header (so_copy_begin nw s) @ so_object s
   | StCopyingHeader \<Rightarrow> drop (nat (so_offset s)) (so_header s) @ so_object s
   | StCopyingData \<Rightarrow> drop (nat (so_offset s)) (so_object s)
   | _ \<Rightarrow> [])"

definition so_wf :: "string_obj \<Rightarrow> bool" where
  "so_wf s \<longleftrightarrow> hdr_valid (so_header s) \<and> so_data_type s = types_map T_string \<and>
     so_data_size s = int (length (so_object s)) \<and> length (so_object s) < 2 ^ 31 \<and>
     (case so_state s of
        StReady \<Rightarrow> True
      | StCopyingHeader \<Rightarrow> 0 \<le> so_offset s \<and> so_offset s < 16
      | StCopyingData \<Rightarrow> 0 \<le> so_offset s \<and> so_offset s < int (length (so_object s))
      | _ \<Rightarrow> False)"

definition so_sendable :: "string_obj \<Rightarrow> bool" where
  "so_sendable s \<longleftrightarrow> so_wf s \<and> so_object s \<noteq> []"

text \<open>The reference serialisation of a string.\<close>

definition string_wire :: "bool \<Rightarrow> i32 \<Rightarrow> byte list \<Rightarrow> byte list" where
  "string_wire nw key object = hdr_for nw (int (length object)) key (types_map T_string) @ object"

lemma so_accessors_hdr:
  "so_is_host_order s = hdr_is_host (so_header s)"
  "so_is_network_order s = hdr_is_network (so_header s)"
  "so_data_size s = hdr_field (so_header s) 1"
  "so_key s = hdr_field (so_header s) 2"
  "so_data_type s = hdr_field (so_header s) 3"
  "so_set_key s k = s\<lparr>so_header := hdr_set_field (so_header s) 2 k\<rparr>"
  "so_prepare_header_host_order s = s\<lparr>so_header := hdr_to_host (so_header s)\<rparr>"
  "so_prepare_header_network_order s = s\<lparr>so_header := hdr_to_network (so_header s)\<rparr>"
  by (simp_all add: so_is_host_order_def so_is_network_order_def so_data_size_def so_key_def
      so_data_type_def so_set_key_def so_prepare_header_host_order_def
      so_prepare_header_network_order_def hdr_is_host_def hdr_is_network_def hdr_field_def
      hdr_set_field_def hdr_to_host_def hdr_to_network_def)

lemma so_new_eq:
  "length raw = 16 \<Longrightarrow> so_new raw key object =
     \<lparr>so_header = host_hdr (int (length object)) key (types_map T_string), so_object = object,
      so_state = StReady, so_offset = 0\<rparr>"
  by (simp add: so_new_def so_setup_header_def Let_def set32_all_words host_hdr_def)

lemma so_wf_header:
  assumes "so_wf s"
  shows "so_header s = hdr_for (hdr_is_network (so_header s)) (int (length (so_object s)))
    (so_key s) (types_map T_string)"
  using assms hdr_valid_cases [of "so_header s"] by (simp add: so_wf_def so_accessors_hdr)

lemma so_copy_begin_eq:
  "so_copy_begin nw s = (if so_state s = StReady
     then s\<lparr>so_header := hdr_order nw (so_header s), so_state := StCopyingHeader, so_offset := 0\<rparr>
     else s)"
  by (simp add: so_copy_begin_def so_accessors_hdr hdr_order_def)

lemma so_pending_ready:
  assumes "so_wf s" "so_state s = StReady"
  shows "so_pending nw s = string_wire nw (so_key s) (so_object s)"
proof -
  have "so_header (so_copy_begin nw s) =
      hdr_for nw (int (length (so_object s))) (so_key s) (types_map T_string)"
    using assms by (simp add: so_copy_begin_eq so_accessors_hdr so_wf_def hdr_order_valid)
  then show ?thesis by (simp add: assms(2) string_wire_def)
qed

section \<open>One call, and any sequence of calls\<close>

lemma so_copy_begin_sendable: "so_sendable s \<Longrightarrow> so_sendable (so_copy_begin nw s)"
  by (auto simp: so_sendable_def so_wf_def so_copy_begin_eq so_accessors_hdr)

lemma so_copy_begin_key: "so_wf s \<Longrightarrow> so_key (so_copy_begin nw s) = so_key s"
  by (simp add: so_copy_begin_eq so_accessors_hdr so_wf_def)

lemma so_copy_begin_sel [simp]:
  "so_object (so_copy_begin nw s) = so_object s"
  "so_state (so_copy_begin nw s) = (if so_state s = StReady then StCopyingHeader else so_state s)"
  by (simp_all add: so_copy_begin_eq)

lemma so_pending_begin: "so_pending nw (so_copy_begin nw' s) = so_pending nw' s"
  by (cases "so_state s") (simp_all add: so_copy_begin_eq)

lemma so_phase_buf_eq:
  assumes "0 \<le> off" "off \<le> int (length src)" "0 \<le> c_room c"
  shows "so_phase_buf src off c =
    Some (off + min (int (length src) - off) (c_room c),
      cur_put c (take (nat (c_room c)) (drop (nat off) src)))"
proof -
  let ?w = "min (int (length src) - off) (c_room c)"
  have "seg src (nat off) (nat ?w) = take (nat (c_room c)) (drop (nat off) src)"
    using assms by (cases "int (length src) - off \<le> c_room c") (auto simp: seg_def)
  then show ?thesis
    using assms by (auto simp: so_phase_buf_def Let_def min_def)
qed

lemma so_copy_data_buf_spec:
  assumes "so_sendable s" "so_state s = StCopyingData" "0 \<le> c_room c"
  shows "\<exists>s'. so_copy_data_buf s c =
      Some (if length (so_pending nw s) \<le> nat (c_room c) then Ready else InProcess,
        cur_put c (take (nat (c_room c)) (so_pending nw s)), s') \<and>
    so_sendable s' \<and> so_header s' = so_header s \<and> so_object s' = so_object s \<and>
    (if length (so_pending nw s) \<le> nat (c_room c) then so_state s' = StReady
     else so_state s' = StCopyingData \<and> so_pending nw s' = drop (nat (c_room c)) (so_pending nw s))"
proof -
  let ?off = "so_offset s" and ?n = "c_room c" and ?len = "int (length (so_object s))"
  have off: "0 \<le> ?off" "?off < ?len" using assms by (auto simp: so_sendable_def so_wf_def)
  have ph: "so_phase_buf (so_object s) ?off c =
      Some (?off + min (?len - ?off) ?n, cur_put c (take (nat ?n) (drop (nat ?off) (so_object s))))"
    by (rule so_phase_buf_eq) (use off assms in simp_all)
  have p: "so_pending nw s = drop (nat ?off) (so_object s)" using assms(2) by simp
  show ?thesis
  proof (cases "?len - ?off \<le> ?n")
    case True
    then have "length (so_object s) - nat ?off \<le> nat ?n" using off by arith
    with True off assms ph show ?thesis
      by (simp add: so_copy_data_buf_def Let_def p so_sendable_def so_wf_def so_accessors_hdr)
  next
    case False
    then have "\<not> length (so_object s) - nat ?off \<le> nat ?n" using off assms by arith
    with False off assms ph show ?thesis
      by (simp add: so_copy_data_buf_def Let_def p so_sendable_def so_wf_def so_accessors_hdr
          min_def nat_add_distrib add.commute)
  qed
qed

lemma so_copy_to_buf_local_spec:
  assumes "so_sendable s" "so_state s \<noteq> StReady" "0 \<le> c_room c"
  shows "\<exists>s'. so_copy_to_buf_local s c =
      Some (if length (so_pending nw s) \<le> nat (c_room c) then Ready else InProcess,
        cur_put c (take (nat (c_room c)) (so_pending nw s)), s') \<and>
    so_sendable s' \<and> so_header s' = so_header s \<and> so_object s' = so_object s \<and>
    (if length (so_pending nw s) \<le> nat (c_room c) then so_state s' = StReady
     else so_state s' \<noteq> StReady \<and> so_pending nw s' = drop (nat (c_room c)) (so_pending nw s))"
proof (cases "so_state s = StCopyingData")
  case True
  then show ?thesis
    using so_copy_data_buf_spec [OF assms(1) True assms(3), of nw]
    by (auto simp: so_copy_to_buf_local_def)
next
  case False
  let ?off = "so_offset s" and ?n = "c_room c"
  have st: "so_state s = StCopyingHeader"
    using assms False by (auto simp: so_sendable_def so_wf_def split: obj_state.splits)
  have off: "0 \<le> ?off" "?off < 16" and len: "length (so_header s) = 16"
    using assms st by (auto simp: so_sendable_def so_wf_def hdr_valid_def)
  have ph: "so_phase_buf (so_header s) ?off c =
      Some (?off + min (16 - ?off) ?n, cur_put c (take (nat ?n) (drop (nat ?off) (so_header s))))"
    using so_phase_buf_eq [of ?off "so_header s" c] off assms len by simp
  have p: "so_pending nw s = drop (nat ?off) (so_header s) @ so_object s" using st by simp
  show ?thesis
  proof (cases "16 - ?off \<le> ?n")
    case True
    let ?s = "s\<lparr>so_state := StCopyingData, so_offset := 0\<rparr>"
    let ?c = "cur_put c (drop (nat ?off) (so_header s))"
    have hl: "16 - nat ?off \<le> nat ?n" using True off by arith
    have room: "nat (c_room ?c) = nat ?n - (16 - nat ?off)" "0 \<le> c_room ?c"
      using True off len by auto
    have "so_sendable ?s"
      using assms by (auto simp: so_sendable_def so_wf_def so_accessors_hdr)
    note d = so_copy_data_buf_spec [OF this _ room(2), of nw]
    have e: "so_copy_to_buf_local s c = so_copy_data_buf ?s ?c"
      using st off ph True hl len by (simp add: so_copy_to_buf_local_def header_size_def)
    have pd: "so_pending nw ?s = so_object s" by simp
    have le: "length (so_pending nw s) \<le> nat ?n \<longleftrightarrow> length (so_object s) \<le> nat (c_room ?c)"
      unfolding p length_append length_drop len room(1) using hl by linarith
    have hl': "16 \<le> nat ?n + nat ?off" using hl by linarith
    have tk: "cur_put ?c (take (nat (c_room ?c)) (so_object s)) =
        cur_put c (take (nat ?n) (so_pending nw s))"
      using p len hl hl' room by simp
    have dr: "drop (nat (c_room ?c)) (so_object s) = drop (nat ?n) (so_pending nw s)"
      using p len hl hl' room by simp
    show ?thesis using d unfolding e pd le tk dr by (auto split: if_splits)
  next
    case False
    then have n: "\<not> 16 - nat ?off \<le> nat ?n" using off assms by arith
    with False off assms ph st len show ?thesis
      by (simp add: so_copy_to_buf_local_def header_size_def p so_sendable_def so_wf_def
          so_accessors_hdr min_def nat_add_distrib add.commute)
  qed
qed

lemma so_copy_to_buf_spec:
  assumes "so_sendable s" "0 \<le> c_room c"
  obtains r s' where "so_copy_to_buf nw s c =
      Some (r, cur_put c (take (nat (c_room c)) (so_pending nw s)), s')"
    "advances (so_pending nw s) (min (nat (c_room c)) (length (so_pending nw s))) r
      (so_pending nw s') (so_state s' = StReady)"
    "so_sendable s'" "so_key s' = so_key s" "so_object s' = so_object s"
proof -
  let ?s = "so_copy_begin nw s"
  have "so_sendable ?s" "so_state ?s \<noteq> StReady"
    using so_copy_begin_sendable [OF assms(1)] by simp_all
  from so_copy_to_buf_local_spec [OF this assms(2), of nw] that
  show ?thesis
    using so_copy_begin_key [of s nw] assms(1)
    by (auto simp: so_copy_to_buf_def so_pending_begin so_accessors_hdr so_sendable_def advances_def
        min_def simp del: so_pending.simps split: if_splits)
qed

text \<open>One call on a window of \<open>n\<close> bytes, as a step of the client loop.\<close>

definition so_buf_step :: "bool \<Rightarrow> string_obj \<Rightarrow> nat \<Rightarrow> (result \<times> byte list \<times> string_obj) option" where
  "so_buf_step nw s n = do {
     (r, c, s') \<leftarrow> so_copy_to_buf nw s (window n);
     Some (r, c_out c, s')
   }"

interpretation so_writer:
  window_writer "so_buf_step nw" so_sendable "so_pending nw" "\<lambda>s. so_state s = StReady" for nw
proof
  fix s :: string_obj and n :: nat
  assume "so_sendable s"
  then show "\<exists>r s'. so_buf_step nw s n = Some (r, take n (so_pending nw s), s') \<and>
      advances (so_pending nw s) (min n (length (so_pending nw s))) r (so_pending nw s')
        (so_state s' = StReady) \<and> so_sendable s'"
    by (rule so_copy_to_buf_spec [of s "window n" nw]) (auto simp: so_buf_step_def simp del: so_pending.simps)
qed

text \<open>The two letters of a small object, used by the witnesses.\<close>

lemma so_new_hi:
  "so_wf (so_new (replicate 16 0) 7 [104, 105])" "so_key (so_new (replicate 16 0) 7 [104, 105]) = 7"
  "so_object (so_new (replicate 16 0) 7 [104, 105]) = [104, 105]"
  "so_state (so_new (replicate 16 0) 7 [104, 105]) = StReady"
proof -
  let ?s = "so_new (replicate 16 0) 7 [104, 105]"
  have s: "?s = \<lparr>so_header = hdr_for False 2 7 (types_map T_string), so_object = [104, 105],
      so_state = StReady, so_offset = 0\<rparr>"
    by (simp add: so_new_eq hdr_for_def)
  show "so_wf ?s" "so_key ?s = 7" "so_object ?s = [104, 105]" "so_state ?s = StReady"
    unfolding s by (simp_all add: so_wf_def so_accessors_hdr hdr_simps)
qed

text \<open>
  However the windows are cut, a string object at rest that is copied with
  \<open>copy_to_buf_host_order\<close> or \<open>copy_to_buf_network_order\<close> until it answers \<open>Ready\<close> delivers
  exactly one header in the order asked for followed by the characters, and it is at rest
  again; the calls complete once the windows together have room for those bytes.
\<close>

theorem string_copy_to_buf_windows:
  assumes "so_wf s" "so_state s = StReady" "so_object s \<noteq> []"
    and "16 + length (so_object s) \<le> sum_list ns"
  shows "\<exists>s'. drive (so_buf_step nw) s ns =
      Some (Ready, string_wire nw (so_key s) (so_object s), s') \<and> so_state s' = StReady"
proof -
  have p: "so_pending nw s = string_wire nw (so_key s) (so_object s)"
    using so_pending_ready assms by blast
  have "so_sendable s" using assms by (simp add: so_sendable_def)
  moreover have "length (so_pending nw s) \<le> sum_list ns" "so_pending nw s \<noteq> []"
    unfolding p string_wire_def using assms by simp_all
  ultimately show ?thesis using so_writer.drive_windows [of s nw ns] unfolding p by blast
qed

theorem string_copy_to_buf_windows_witness:
  "\<exists>s'. drive (so_buf_step True) (so_new (replicate 16 0) 7 [104, 105]) [5, 0, 3, 10] =
      Some (Ready, string_wire True 7 [104, 105], s') \<and> so_state s' = StReady"
  using string_copy_to_buf_windows [of "so_new (replicate 16 0) 7 [104, 105]" "[5, 0, 3, 10]" True]
  by (simp add: so_new_hi)

section \<open>Copying to a descriptor\<close>

lemma so_copy_data_fd_spec:
  assumes "so_sendable s" "so_state s = StCopyingData" "soft (w_script fd)"
  obtains k r fd' s' where "so_copy_data_fd s fd = (r, fd', s')"
    "advances (drop (nat (so_offset s)) (so_object s)) k r (so_pending nw s') (so_state s' = StReady)"
    "w_data fd' = w_data fd @ take k (drop (nat (so_offset s)) (so_object s))"
    "soft (w_script fd')" "so_sendable s'" "so_header s' = so_header s" "so_object s' = so_object s"
proof -
  let ?off = "so_offset s" and ?len = "int (length (so_object s))"
  let ?P = "drop (nat (so_offset s)) (so_object s)"
  have off: "0 \<le> ?off" "?off < ?len" using assms by (auto simp: so_sendable_def so_wf_def)
  obtain k fd' where w: "write_to_fd fd ?P = (int k, fd')" "k \<le> length ?P"
    "w_data fd' = w_data fd @ take k ?P" "soft (w_script fd')"
    using write_to_fd_soft [OF assms(3)] by blast
  let ?s = "if k = 0 then s else if k = length ?P
    then s\<lparr>so_offset := ?off + int k, so_state := StReady\<rparr> else s\<lparr>so_offset := ?off + int k\<rparr>"
  let ?r = "if k = length ?P then Ready else InProcess"
  have "so_copy_data_fd s fd = (?r, fd', ?s)"
    using off w(1,2) unfolding so_copy_data_fd_def Let_def by auto
  moreover have "advances ?P k ?r (so_pending nw ?s) (so_state ?s = StReady)"
    using assms off w(2) by (auto simp: advances_def nat_add_distrib add.commute)
  moreover have "so_sendable ?s" "so_header ?s = so_header s" "so_object ?s = so_object s"
    using assms off w(2) by (auto simp: so_sendable_def so_wf_def so_accessors_hdr)
  ultimately show ?thesis using that w by blast
qed

lemma so_copy_to_fd_local_spec:
  assumes "so_sendable s" "so_state s \<noteq> StReady" "soft (w_script fd)"
  obtains k r fd' s' where "so_copy_to_fd_local s fd = (r, fd', s')"
    "advances (so_pending nw s) k r (so_pending nw s') (so_state s' = StReady)"
    "w_data fd' = w_data fd @ take k (so_pending nw s)"
    "soft (w_script fd')" "so_sendable s'" "so_header s' = so_header s" "so_object s' = so_object s"
proof (cases "so_state s = StCopyingData")
  case True
  then have "so_copy_to_fd_local s fd = so_copy_data_fd s fd"
    "so_pending nw s = drop (nat (so_offset s)) (so_object s)"
    by (simp_all add: so_copy_to_fd_local_def)
  then show ?thesis
    using so_copy_data_fd_spec [OF assms(1) True assms(3), of nw thesis] that by metis
next
  case False
  let ?off = "so_offset s" and ?h = "drop (nat (so_offset s)) (so_header s)"
  have st: "so_state s = StCopyingHeader"
    using assms False by (auto simp: so_sendable_def so_wf_def split: obj_state.splits)
  have off: "0 \<le> ?off" "?off < 16" and len: "length (so_header s) = 16"
    using assms st by (auto simp: so_sendable_def so_wf_def hdr_valid_def)
  have p: "so_pending nw s = ?h @ so_object s" using st by simp
  have ob: "so_object s \<noteq> []" using assms by (simp add: so_sendable_def)
  obtain k fd1 where w: "write_to_fd fd ?h = (int k, fd1)" "k \<le> length ?h"
    "w_data fd1 = w_data fd @ take k ?h" "soft (w_script fd1)"
    using write_to_fd_soft [OF assms(3)] by blast
  show ?thesis
  proof (cases "k = length ?h")
    case True
    then have k0: "k \<noteq> 0" and ok: "?off + int k = 16" using off len by auto
    let ?s = "s\<lparr>so_state := StCopyingData, so_offset := 0\<rparr>"
    have sd: "so_sendable ?s" "so_state ?s = StCopyingData"
      using assms ob by (auto simp: so_sendable_def so_wf_def so_accessors_hdr)
    have e: "so_copy_to_fd_local s fd = so_copy_data_fd ?s fd1"
      using st off w(1) k0 ok by (simp add: so_copy_to_fd_local_def header_size_def)
    show ?thesis
    proof (rule so_copy_data_fd_spec [OF sd w(4), of nw])
      fix j r fd2 s'
      assume r: "so_copy_data_fd ?s fd1 = (r, fd2, s')" "soft (w_script fd2)" "so_sendable s'"
        "so_header s' = so_header ?s" "so_object s' = so_object ?s"
        and a: "advances (drop (nat (so_offset ?s)) (so_object ?s)) j r (so_pending nw s') (so_state s' = StReady)"
        and o: "w_data fd2 = w_data fd1 @ take j (drop (nat (so_offset ?s)) (so_object ?s))"
      have "advances (so_pending nw s) (length ?h + j) r (so_pending nw s') (so_state s' = StReady)"
        unfolding p using a by (intro advances_second) simp
      moreover have "w_data fd2 = w_data fd @ take (length ?h + j) (so_pending nw s)"
        unfolding p take_second using o w(3) True by simp
      ultimately show ?thesis using that e r by simp
    qed
  next
    case False
    let ?s = "s\<lparr>so_offset := ?off + int k\<rparr>"
    have lt: "?off + int k < 16" "k < length ?h" using False w(2) off len by auto
    have e: "so_copy_to_fd_local s fd = (InProcess, fd1, ?s)"
      using st off w(1) lt by (auto simp: so_copy_to_fd_local_def header_size_def)
    have "so_pending nw ?s = drop k ?h @ so_object s"
      using st off by (simp add: nat_add_distrib add.commute)
    then have "advances (so_pending nw s) k InProcess (so_pending nw ?s) (so_state ?s = StReady)"
      unfolding p using lt st by (intro advances_first) simp_all
    moreover have "w_data fd1 = w_data fd @ take k (so_pending nw s)"
      unfolding p using w by simp
    moreover have "so_sendable ?s"
      using assms off lt st by (auto simp: so_sendable_def so_wf_def so_accessors_hdr)
    ultimately show ?thesis using that e w(4) by simp
  qed
qed

lemma so_copy_to_fd_spec:
  assumes "so_sendable s" "soft (w_script fd)"
  obtains k r fd' s' where "so_copy_to_fd nw s fd = (r, fd', s')"
    "advances (so_pending nw s) k r (so_pending nw s') (so_state s' = StReady)"
    "w_data fd' = w_data fd @ take k (so_pending nw s)"
    "soft (w_script fd')" "so_sendable s'" "so_key s' = so_key s" "so_object s' = so_object s"
proof -
  let ?s = "so_copy_begin nw s"
  have "so_sendable ?s" "so_state ?s \<noteq> StReady"
    using so_copy_begin_sendable [OF assms(1)] by simp_all
  then show ?thesis
  proof (rule so_copy_to_fd_local_spec [OF _ _ assms(2), of ?s nw])
    fix k r fd' s'
    assume *: "so_copy_to_fd_local ?s fd = (r, fd', s')" "soft (w_script fd')" "so_sendable s'"
      "so_header s' = so_header ?s" "so_object s' = so_object ?s"
      "advances (so_pending nw ?s) k r (so_pending nw s') (so_state s' = StReady)"
      "w_data fd' = w_data fd @ take k (so_pending nw ?s)"
    have "so_key s' = so_key s"
      using *(4) so_copy_begin_key [of s nw] assms(1) by (simp add: so_accessors_hdr so_sendable_def)
    with * show ?thesis
      using that unfolding so_pending_begin by (simp add: so_copy_to_fd_def)
  qed
qed

text \<open>A call on a descriptor that takes something writes something.\<close>

lemma so_copy_data_fd_keeps:
  "w_data fd \<noteq> [] \<Longrightarrow> so_copy_data_fd s fd = (r, fd', s') \<Longrightarrow> w_data fd' \<noteq> []"
  using write_to_fd_keeps
  by (fastforce simp: so_copy_data_fd_def Let_def split: if_splits prod.splits)

lemma so_copy_to_fd_live:
  assumes "so_sendable s" "live fd" "so_copy_to_fd nw s fd = (r, fd', s')"
  shows "w_data fd' \<noteq> []"
proof -
  let ?s = "so_copy_begin nw s"
  have s: "so_sendable ?s" "so_state ?s \<noteq> StReady" using so_copy_begin_sendable [OF assms(1)] by simp_all
  have c: "so_copy_to_fd_local ?s fd = (r, fd', s')" using assms(3) by (simp add: so_copy_to_fd_def)
  consider "so_state ?s = StCopyingHeader" | "so_state ?s = StCopyingData"
    using s by (cases "so_state ?s") (auto simp: so_sendable_def so_wf_def)
  then show ?thesis
  proof cases
    case 1
    let ?P = "drop (nat (so_offset ?s)) (so_header ?s)"
    have P: "?P \<noteq> []" "\<not> int header_size \<le> so_offset ?s"
      using 1 s(1) by (auto simp: so_sendable_def so_wf_def hdr_valid_def header_size_def)
    obtain k fd1 where w: "write_to_fd fd ?P = (k, fd1)" by (cases "write_to_fd fd ?P")
    have n: "w_data fd1 \<noteq> []" by (rule write_to_fd_live [OF assms(2) P(1) w])
    have "fd' = fd1 \<or> (\<exists>t. so_copy_data_fd t fd1 = (r, fd', s'))"
      using c 1 P w by (auto simp: so_copy_to_fd_local_def Let_def split: if_splits)
    then show ?thesis using n so_copy_data_fd_keeps [OF n] by auto
  next
    case 2
    let ?P = "drop (nat (so_offset ?s)) (so_object ?s)"
    have P: "?P \<noteq> []" "\<not> int (length (so_object ?s)) \<le> so_offset ?s"
      using 2 s(1) by (auto simp: so_sendable_def so_wf_def)
    obtain k fd1 where w: "write_to_fd fd ?P = (k, fd1)" by (cases "write_to_fd fd ?P")
    have n: "w_data fd1 \<noteq> []" by (rule write_to_fd_live [OF assms(2) P(1) w])
    then show ?thesis
      using 2 c P w by (auto simp: so_copy_to_fd_local_def so_copy_data_fd_def Let_def split: if_splits)
  qed
qed

text \<open>One call, the kernel answering its writes by a script, as a step of the client loop.\<close>

definition so_fd_step :: "bool \<Rightarrow> string_obj \<Rightarrow> wcall list \<Rightarrow> (result \<times> byte list \<times> string_obj) option" where
  "so_fd_step nw s script =
     (case so_copy_to_fd nw s \<lparr>w_script = script, w_data = []\<rparr> of
        (r, fd, s') \<Rightarrow> Some (r, w_data fd, s'))"

lemma so_fd_step_spec:
  assumes "so_sendable s" "soft script"
  obtains k r s' where "so_fd_step nw s script = Some (r, take k (so_pending nw s), s')"
    "advances (so_pending nw s) k r (so_pending nw s') (so_state s' = StReady)" "so_sendable s'"
  using so_copy_to_fd_spec [OF assms(1), of "\<lparr>w_script = script, w_data = []\<rparr>" nw thesis] assms(2)
  by (simp add: so_fd_step_def del: so_pending.simps)

interpretation so_fd_writer:
  resumable_writer "so_fd_step nw" so_sendable "so_pending nw" "\<lambda>s. so_state s = StReady" soft for nw
proof
  fix s :: string_obj and e
  assume "so_sendable s" "soft e"
  then show "\<exists>k r s'. so_fd_step nw s e = Some (r, take k (so_pending nw s), s') \<and>
      advances (so_pending nw s) k r (so_pending nw s') (so_state s' = StReady) \<and> so_sendable s'"
    by (rule so_fd_step_spec [of s e nw]) blast
qed

text \<open>
  Over a descriptor that may take any part of what it is offered, or nothing, but does
  not fail, repeated \<open>copy_to_fd_*\<close> calls on a string object never answer \<open>Error\<close>; what has
  been written is always a prefix of the serialisation, and when they answer \<open>Ready\<close> it is
  the whole of it.
\<close>

theorem string_copy_to_fd_prefix:
  assumes "so_wf s" "so_state s = StReady" "so_object s \<noteq> []" "\<forall>e \<in> set es. soft e"
  shows "\<exists>r out s'. drive (so_fd_step nw) s es = Some (r, out, s') \<and> r \<noteq> Error \<and>
    (\<exists>k. out = take k (string_wire nw (so_key s) (so_object s))) \<and>
    (r = Ready \<longrightarrow> out = string_wire nw (so_key s) (so_object s) \<and> so_state s' = StReady)"
proof -
  have p: "so_pending nw s = string_wire nw (so_key s) (so_object s)"
    using so_pending_ready assms by blast
  have "so_sendable s" using assms by (simp add: so_sendable_def)
  from so_fd_writer.drive_delivers_prefix [OF this assms(4), of nw] show ?thesis unfolding p by blast
qed

theorem string_copy_to_fd_prefix_witness:
  "\<exists>r out s'. drive (so_fd_step True) (so_new (replicate 16 0) 7 [104, 105])
      [[WrTake 3], [WrFail EAGAIN], [WrTake 20, WrTake 20]] = Some (r, out, s') \<and> r \<noteq> Error \<and>
    (\<exists>k. out = take k (string_wire True 7 [104, 105])) \<and>
    (r = Ready \<longrightarrow> out = string_wire True 7 [104, 105] \<and> so_state s' = StReady)"
  using string_copy_to_fd_prefix [of "so_new (replicate 16 0) 7 [104, 105]"
      "[[WrTake 3], [WrFail EAGAIN], [WrTake 20, WrTake 20]]" True]
  by (simp add: so_new_hi soft_call_def)

section \<open>The empty string\<close>

text \<open>
  A string object that holds the empty string can never be sent.  Once its header has
  gone out the data phase finds the offset at the size and answers \<open>Error\<close>, and it stays
  there: every further call answers \<open>Error\<close> as well.
\<close>

theorem empty_string_never_sent:
  assumes "so_wf s" "so_state s = StReady" "so_object s = []" "16 \<le> c_room c"
  shows "\<exists>s'. so_copy_to_buf nw s c =
      Some (Error, cur_put c (string_wire nw (so_key s) []), s') \<and>
    (\<forall>c' nw'. so_copy_to_buf nw' s' c' = Some (Error, c', s'))"
proof -
  let ?s = "so_copy_begin nw s"
  have st: "so_state ?s = StCopyingHeader" "so_offset ?s = 0" "so_object ?s = []"
    using assms by (simp_all add: so_copy_begin_eq)
  have h: "so_header ?s = string_wire nw (so_key s) []"
    using so_pending_ready [OF assms(1,2), of nw] assms(2,3) by simp
  then have len: "length (so_header ?s) = 16" by (simp add: string_wire_def)
  have ph: "so_phase_buf (so_header ?s) 0 c = Some (16, cur_put c (so_header ?s))"
    using so_phase_buf_eq [of 0 "so_header ?s" c] len assms(4) by simp
  let ?t = "?s\<lparr>so_state := StCopyingData, so_offset := 0\<rparr>"
  have "so_copy_to_buf nw s c = Some (Error, cur_put c (string_wire nw (so_key s) []), ?t)"
    using st ph h by (simp add: so_copy_to_buf_def so_copy_to_buf_local_def so_copy_data_buf_def
        header_size_def)
  moreover have "so_copy_to_buf nw' ?t c' = Some (Error, c', ?t)" for nw' c'
    using st by (simp add: so_copy_to_buf_def so_copy_begin_def so_copy_to_buf_local_def
        so_copy_data_buf_def)
  ultimately show ?thesis by blast
qed

theorem empty_string_never_sent_witness:
  "\<exists>s'. so_copy_to_buf False (so_new (replicate 16 0) 7 []) (window 100) =
      Some (Error, cur_put (window 100) (string_wire False 7 []), s') \<and>
    (\<forall>c' nw'. so_copy_to_buf nw' s' c' = Some (Error, c', s'))"
proof -
  let ?s = "so_new (replicate 16 0) 7 []"
  have s: "?s = \<lparr>so_header = hdr_for False 0 7 (types_map T_string), so_object = [],
      so_state = StReady, so_offset = 0\<rparr>"
    by (simp add: so_new_eq hdr_for_def)
  have "so_wf ?s" "so_key ?s = 7" "so_object ?s = []" "so_state ?s = StReady"
    unfolding s by (simp_all add: so_wf_def so_accessors_hdr hdr_simps)
  then show ?thesis using empty_string_never_sent [of ?s "window 100" False] by simp
qed

end
