(* ===== verification/Route_Obj.thy ===== *)
theory Route_Obj
  imports Resumable_IO
begin

text \<open>
  \<open>DsonRouteObj\<close> (\<open>custom_dson_objs/dson_route_obj.h\<close>): a header and a routing address of
  four words in one buffer, converted and copied out as a whole.
\<close>

record address =
  from_serv_id :: u32
  from_cli_id :: u32
  to_serv_id :: u32
  to_cli_id :: u32

definition address_size :: nat where "address_size = 16"
definition header_size_address_size :: nat where "header_size_address_size = 32"
definition buf_array_len :: nat where "buf_array_len = 8"

record route_obj =
  ro_buf :: "byte list"      \<comment> \<open>\<open>buf_\<close>: the header and the address\<close>
  ro_state :: obj_state
  ro_offset :: i32

section \<open>Byte order, accessors and construction\<close>

definition ro_is_host_order :: "route_obj \<Rightarrow> bool" where
  "ro_is_host_order r \<longleftrightarrow> get32 (ro_buf r) 0 = mark_host_order"

definition ro_is_network_order :: "route_obj \<Rightarrow> bool" where
  "ro_is_network_order r \<longleftrightarrow> get32 (ro_buf r) 0 = mark_network_order"

definition ro_data_size :: "route_obj \<Rightarrow> i32" where
  "ro_data_size r = int address_size"

definition ro_key :: "route_obj \<Rightarrow> i32" where
  "ro_key r = (if get32 (ro_buf r) 0 = mark_host_order
     then to_i32 (get32 (ro_buf r) 2) else int32_to_host (get32 (ro_buf r) 2))"

definition ro_set_key :: "route_obj \<Rightarrow> i32 \<Rightarrow> route_obj" where
  "ro_set_key r key = (if get32 (ro_buf r) 0 = mark_host_order
     then r\<lparr>ro_buf := set32 (ro_buf r) 2 (of_i32 key)\<rparr>
     else r\<lparr>ro_buf := set32 (ro_buf r) 2 (int32_to_network key)\<rparr>)"

definition ro_data_type :: "route_obj \<Rightarrow> i32" where
  "ro_data_type r = types_map T_vector_uint32"

definition ro_reset_state :: "route_obj \<Rightarrow> route_obj" where
  "ro_reset_state r = r\<lparr>ro_state := StReady\<rparr>"

definition ro_to_host_order :: "route_obj \<Rightarrow> route_obj" where
  "ro_to_host_order r = (if ro_is_host_order r then r
     else r\<lparr>ro_buf := words_loop ntohl 0 buf_array_len (ro_buf r)\<rparr>)"

definition ro_to_network_order :: "route_obj \<Rightarrow> route_obj" where
  "ro_to_network_order r = (if ro_is_network_order r then r
     else r\<lparr>ro_buf := words_loop htonl 0 buf_array_len (ro_buf r)\<rparr>)"

text \<open>
  \<open>address()\<close> converts to host order and returns a pointer into the buffer: what is read
  and written through it are the words 4 to 7.
\<close>

definition ro_address :: "route_obj \<Rightarrow> address \<times> route_obj" where
  "ro_address r = (let r' = ro_to_host_order r; b = ro_buf r' in
     (\<lparr>from_serv_id = get32 b 4, from_cli_id = get32 b 5, to_serv_id = get32 b 6,
       to_cli_id = get32 b 7\<rparr>, r'))"

definition ro_put_address :: "address \<Rightarrow> route_obj \<Rightarrow> route_obj" where
  "ro_put_address a r = r\<lparr>ro_buf :=
     set32 (set32 (set32 (set32 (ro_buf r) 4 (from_serv_id a)) 5 (from_cli_id a))
       6 (to_serv_id a)) 7 (to_cli_id a)\<rparr>"

definition ro_setup_header :: "i32 \<Rightarrow> route_obj \<Rightarrow> route_obj" where
  "ro_setup_header key r =
     (let b0 = ro_buf r;
          b1 = set32 b0 0 mark_host_order;
          b2 = set32 b1 1 (word_of_nat address_size);
          b3 = set32 b2 2 (of_i32 key);
          b4 = set32 b3 3 (of_i32 (types_map T_vector_uint32));
          r1 = ro_to_host_order (r\<lparr>ro_buf := b4\<rparr>)
      in ro_put_address \<lparr>from_serv_id = 0, from_cli_id = 0, to_serv_id = 0, to_cli_id = 0\<rparr> r1)"

text \<open>The answer goes back the way the message came; a null \<open>from\<close> changes nothing.\<close>

definition ro_set_reverse_address :: "address option \<Rightarrow> route_obj \<Rightarrow> route_obj" where
  "ro_set_reverse_address from r = (case from of
     None \<Rightarrow> r
   | Some f \<Rightarrow> (let (a, r') = ro_address r in
       ro_put_address \<lparr>from_serv_id = to_serv_id f, from_cli_id = to_cli_id f,
         to_serv_id = from_serv_id f, to_cli_id = from_cli_id f\<rparr> r'))"

definition ro_new :: "byte list \<Rightarrow> i32 \<Rightarrow> route_obj" where
  "ro_new raw key = ro_setup_header key \<lparr>ro_buf = raw, ro_state = StReady, ro_offset = 0\<rparr>"

definition ro_new_from :: "byte list \<Rightarrow> i32 \<Rightarrow> address option \<Rightarrow> route_obj" where
  "ro_new_from raw key from = ro_set_reverse_address from (ro_new raw key)"

section \<open>Copying out\<close>

definition ro_copy_to_stream :: "bool \<Rightarrow> route_obj \<Rightarrow> byte list \<Rightarrow> byte list \<times> route_obj" where
  "ro_copy_to_stream nw r out =
     (let r' = (if nw then ro_to_network_order r else ro_to_host_order r)
      in (out @ ro_buf r', r'))"

definition ro_copy_begin :: "bool \<Rightarrow> route_obj \<Rightarrow> route_obj" where
  "ro_copy_begin nw r = (if ro_state r = StReady
     then (if nw then ro_to_network_order r else ro_to_host_order r)
       \<lparr>ro_state := StCopyingHeader, ro_offset := 0\<rparr>
     else r)"

definition ro_copy_to_buf_local :: "route_obj \<Rightarrow> cur \<Rightarrow> (result \<times> cur \<times> route_obj) option" where
  "ro_copy_to_buf_local r c = (case ro_state r of
     StCopyingHeader \<Rightarrow>
       if ro_offset r \<ge> int header_size_address_size then Some (Error, c, r)
       else (let writed = int header_size_address_size - ro_offset r;
                 writed = (if writed > c_room c then c_room c else writed) in
         if writed < 0 then None
         else (let c = cur_put c (seg (ro_buf r) (nat (ro_offset r)) (nat writed));
                   r = r\<lparr>ro_offset := ro_offset r + writed\<rparr> in
           if ro_offset r < int header_size_address_size then Some (InProcess, c, r)
           else Some (Ready, c, r\<lparr>ro_state := StReady\<rparr>)))
   | _ \<Rightarrow> Some (Error, c, r))"

definition ro_copy_to_buf :: "bool \<Rightarrow> route_obj \<Rightarrow> cur \<Rightarrow> (result \<times> cur \<times> route_obj) option" where
  "ro_copy_to_buf nw r c = ro_copy_to_buf_local (ro_copy_begin nw r) c"

definition ro_copy_to_fd_local :: "route_obj \<Rightarrow> wfd \<Rightarrow> result \<times> wfd \<times> route_obj" where
  "ro_copy_to_fd_local r fd = (case ro_state r of
     StCopyingHeader \<Rightarrow>
       if ro_offset r \<ge> int header_size_address_size then (Error, fd, r)
       else (case write_to_fd fd (drop (nat (ro_offset r)) (ro_buf r)) of (writed, fd) \<Rightarrow>
         if writed = -1 then (Error, fd, r)
         else if writed = 0 then (InProcess, fd, r)
         else (let r = r\<lparr>ro_offset := ro_offset r + writed\<rparr> in
           if ro_offset r < int header_size_address_size then (InProcess, fd, r)
           else (Ready, fd, r\<lparr>ro_state := StReady\<rparr>)))
   | _ \<Rightarrow> (Error, fd, r))"

definition ro_copy_to_fd :: "bool \<Rightarrow> route_obj \<Rightarrow> wfd \<Rightarrow> result \<times> wfd \<times> route_obj" where
  "ro_copy_to_fd nw r fd = ro_copy_to_fd_local (ro_copy_begin nw r) fd"

section \<open>Invariant, abstraction and reference serialisation\<close>

definition addr_bytes :: "bool \<Rightarrow> address \<Rightarrow> byte list" where
  "addr_bytes nw a = (let f = (if nw then be32 else store32) in
     f (from_serv_id a) @ f (from_cli_id a) @ f (to_serv_id a) @ f (to_cli_id a))"

definition route_wire :: "bool \<Rightarrow> i32 \<Rightarrow> address \<Rightarrow> byte list" where
  "route_wire nw key a = hdr_for nw 16 key (types_map T_vector_uint32) @ addr_bytes nw a"

text \<open>A well-formed object is a reference serialisation, in one of the two orders.\<close>

definition ro_wf :: "route_obj \<Rightarrow> bool" where
  "ro_wf r \<longleftrightarrow> (\<exists>nw key a. i32_ok key \<and> ro_buf r = route_wire nw key a) \<and>
     (case ro_state r of
        StReady \<Rightarrow> True
      | StCopyingHeader \<Rightarrow> 0 \<le> ro_offset r \<and> ro_offset r < 32
      | _ \<Rightarrow> False)"

fun ro_pending :: "bool \<Rightarrow> route_obj \<Rightarrow> byte list" where
  "ro_pending nw r = (case ro_state r of
     StReady \<Rightarrow> ro_buf (ro_copy_begin nw r)
   | StCopyingHeader \<Rightarrow> drop (nat (ro_offset r)) (ro_buf r)
   | _ \<Rightarrow> [])"

lemma length_addr_bytes [simp]: "length (addr_bytes nw a) = 16"
  by (simp add: addr_bytes_def Let_def)

lemma length_route_wire [simp]: "length (route_wire nw key a) = 32"
  by (simp add: route_wire_def)

lemma chunk_map_addr_bytes:
  "chunk_map htonl (addr_bytes False a) = addr_bytes True a"
  "chunk_map ntohl (addr_bytes True a) = addr_bytes False a"
  by (simp_all add: addr_bytes_def Let_def store32_htonl [symmetric])

lemma get32_append_left: "4 * i + 4 \<le> length xs \<Longrightarrow> get32 (xs @ ys) i = get32 xs i"
  by (simp add: get32_def seg_append1)

lemma set32_append_left: "4 * i + 4 \<le> length xs \<Longrightarrow> set32 (xs @ ys) i w = set32 xs i w @ ys"
  by (simp add: set32_def patch_append1)

lemma chunk_map_route_wire:
  "chunk_map htonl (route_wire False key a) = route_wire True key a"
  "chunk_map ntohl (route_wire True key a) = route_wire False key a"
proof -
  have "chunk_map ntohl (net_hdr sz k t) = host_hdr sz k t"
    "chunk_map htonl (host_hdr sz k t) = net_hdr sz k t" for sz k t
    using net_hdr_to_host [of sz k t] host_hdr_to_network [of sz k t]
    by (simp_all add: header_array_len_def words_loop_all)
  then show "chunk_map htonl (route_wire False key a) = route_wire True key a"
    "chunk_map ntohl (route_wire True key a) = route_wire False key a"
    by (simp_all add: route_wire_def hdr_for_def chunk_map_append [of _ 4] chunk_map_addr_bytes)
qed

lemma ro_buf_order:
  assumes "ro_buf r = route_wire nw0 key a" "i32_ok key"
  shows "ro_to_host_order r = r\<lparr>ro_buf := route_wire False key a\<rparr>"
    "ro_to_network_order r = r\<lparr>ro_buf := route_wire True key a\<rparr>"
    "ro_key r = key" "ro_is_host_order r \<longleftrightarrow> \<not> nw0" "ro_is_network_order r \<longleftrightarrow> nw0"
proof -
  have g: "get32 (ro_buf r) 0 = get32 (hdr_for nw0 16 key (types_map T_vector_uint32)) 0"
    "get32 (ro_buf r) 2 = get32 (hdr_for nw0 16 key (types_map T_vector_uint32)) 2"
    by (simp_all add: assms route_wire_def get32_append_left)
  show h: "ro_is_host_order r \<longleftrightarrow> \<not> nw0" "ro_is_network_order r \<longleftrightarrow> nw0"
    using hdr_is_host_simps(5,6) [of nw0]
    by (simp_all add: ro_is_host_order_def ro_is_network_order_def g hdr_is_host_def hdr_is_network_def)
  show "ro_key r = key"
    unfolding ro_key_def g
    using hdr_field_for(2) [OF assms(2), of nw0 16 "types_map T_vector_uint32"]
    by (simp only: hdr_field_def hdr_is_host_def)
  show "ro_to_host_order r = r\<lparr>ro_buf := route_wire False key a\<rparr>"
    using assms h(1) by (cases nw0)
      (simp_all add: ro_to_host_order_def buf_array_len_def words_loop_all chunk_map_route_wire)
  show "ro_to_network_order r = r\<lparr>ro_buf := route_wire True key a\<rparr>"
    using assms h(2) by (cases nw0)
      (simp_all add: ro_to_network_order_def buf_array_len_def words_loop_all chunk_map_route_wire)
qed

text \<open>The address an object holds, whatever order it is in.\<close>

definition ro_addr :: "route_obj \<Rightarrow> address" where
  "ro_addr r = fst (ro_address r)"

lemma get32_route_wire:
  "get32 (route_wire False key a) 4 = from_serv_id a"
  "get32 (route_wire False key a) 5 = from_cli_id a"
  "get32 (route_wire False key a) 6 = to_serv_id a"
  "get32 (route_wire False key a) 7 = to_cli_id a"
  by (simp_all add: route_wire_def get32_def seg_append2)
    (simp_all add: addr_bytes_def seg_def)

lemma ro_address_eq:
  "ro_buf r = route_wire nw0 key a \<Longrightarrow> i32_ok key \<Longrightarrow>
   ro_address r = (a, r\<lparr>ro_buf := route_wire False key a\<rparr>)"
  by (simp add: ro_address_def ro_buf_order Let_def get32_route_wire)

lemma ro_put_address_eq:
  "ro_buf r = route_wire False key a0 \<Longrightarrow>
   ro_put_address a r = r\<lparr>ro_buf := route_wire False key a\<rparr>"
proof -
  assume b: "ro_buf r = route_wire False key a0"
  let ?h = "hdr_for False 16 key (types_map T_vector_uint32)"
  have s: "set32 (?h @ xs) (4 + i) w = ?h @ set32 xs i w" for xs i w
    by (simp add: set32_def patch_append2)
  have "set32 (set32 (set32 (set32 (addr_bytes False a0) 0 (from_serv_id a)) (Suc 0) (from_cli_id a))
      2 (to_serv_id a)) 3 (to_cli_id a) = addr_bytes False a"
    by (subst set32_all_words) (simp_all add: addr_bytes_def)
  then show ?thesis
    using s [of _ 0] s [of _ 1] s [of _ 2] s [of _ 3]
    by (simp add: ro_put_address_def b route_wire_def)
qed

lemma ro_set_reverse_address_eq:
  "ro_buf r = route_wire nw0 key a \<Longrightarrow> i32_ok key \<Longrightarrow>
   ro_set_reverse_address (Some f) r = r\<lparr>ro_buf := route_wire False key
     \<lparr>from_serv_id = to_serv_id f, from_cli_id = to_cli_id f,
      to_serv_id = from_serv_id f, to_cli_id = from_cli_id f\<rparr>\<rparr>"
  by (simp add: ro_set_reverse_address_def ro_address_eq ro_put_address_eq [where ?a0.0 = a])

lemma ro_new_eq:
  assumes "length raw = 32" "i32_ok key"
  shows "ro_new raw key = \<lparr>ro_buf = route_wire False key
      \<lparr>from_serv_id = 0, from_cli_id = 0, to_serv_id = 0, to_cli_id = 0\<rparr>,
    ro_state = StReady, ro_offset = 0\<rparr>"
proof -
  let ?h = "take 16 raw" and ?t = "drop 16 raw"
  define r where "r = \<lparr>ro_buf = raw, ro_state = StReady, ro_offset = 0\<rparr>"
  let ?a = "\<lparr>from_serv_id = get32 ?t 0, from_cli_id = get32 ?t 1, to_serv_id = get32 ?t 2,
    to_cli_id = get32 ?t 3\<rparr>"
  have t: "?t = addr_bytes False ?a"
    using bytes16_words [of ?t] assms(1) by (simp add: addr_bytes_def Let_def)
  have raw: "raw = ?h @ ?t" by simp
  have h: "set32 (set32 (set32 (set32 ?h 0 x) (Suc 0) y) 2 z) 3 w =
      store32 x @ store32 y @ store32 z @ store32 w" for x y z w
    by (rule set32_all_words) (use assms in simp)
  have "set32 (set32 (set32 (set32 raw 0 mark_host_order) (Suc 0) (word_of_nat address_size)) 2
      (of_i32 key)) 3 (of_i32 (types_map T_vector_uint32)) =
      set32 (set32 (set32 (set32 ?h 0 mark_host_order) (Suc 0) (word_of_nat address_size)) 2
      (of_i32 key)) 3 (of_i32 (types_map T_vector_uint32)) @ ?t"
    by (subst raw) (use assms in \<open>simp add: set32_append_left del: append_take_drop_id\<close>)
  also have "\<dots> = route_wire False key ?a"
    unfolding h using t by (simp add: route_wire_def hdr_for_def host_hdr_def address_size_def)
  finally have b: "set32 (set32 (set32 (set32 raw 0 mark_host_order) (Suc 0) (word_of_nat address_size)) 2
      (of_i32 key)) 3 (of_i32 (types_map T_vector_uint32)) = route_wire False key ?a" .
  show ?thesis
    unfolding ro_new_def ro_setup_header_def Let_def
    by (simp add: b ro_buf_order [of _ False key ?a] ro_put_address_eq [where ?a0.0 = ?a] assms)
qed

lemma ro_pending_ready:
  assumes "ro_wf r" "ro_state r = StReady"
  shows "ro_pending nw r = route_wire nw (ro_key r) (ro_addr r)"
proof -
  obtain nw0 key a where b: "ro_buf r = route_wire nw0 key a" "i32_ok key"
    using assms by (auto simp: ro_wf_def)
  then show ?thesis
    using assms(2) by (simp add: ro_copy_begin_def ro_buf_order ro_addr_def ro_address_eq)
qed

section \<open>One call, and any sequence of calls\<close>

declare ro_pending.simps [simp del]

lemma ro_pending_copying:
  "ro_state r = StCopyingHeader \<Longrightarrow> ro_pending nw r = drop (nat (ro_offset r)) (ro_buf r)"
  by (simp add: ro_pending.simps)

lemma ro_wfI:
  "ro_buf r = route_wire nw key a \<Longrightarrow> i32_ok key \<Longrightarrow> ro_state r = StReady \<Longrightarrow> ro_wf r"
  by (auto simp: ro_wf_def)

lemma ro_wf_buf: "ro_wf r \<Longrightarrow> length (ro_buf r) = 32"
  by (auto simp: ro_wf_def)

lemma ro_begin:
  assumes "ro_wf r"
  shows "ro_wf (ro_copy_begin nw r)" "ro_state (ro_copy_begin nw r) = StCopyingHeader"
    "ro_key (ro_copy_begin nw r) = ro_key r" "ro_addr (ro_copy_begin nw r) = ro_addr r"
    "ro_pending nw' (ro_copy_begin nw r) = ro_pending nw r"
proof -
  obtain nw0 key a where b: "ro_buf r = route_wire nw0 key a" "i32_ok key"
    using assms by (auto simp: ro_wf_def)
  show "ro_wf (ro_copy_begin nw r)"
    using assms b by (auto simp: ro_wf_def ro_copy_begin_def ro_buf_order)
  show "ro_state (ro_copy_begin nw r) = StCopyingHeader"
    using assms by (auto simp: ro_wf_def ro_copy_begin_def split: obj_state.splits)
  show "ro_key (ro_copy_begin nw r) = ro_key r" "ro_addr (ro_copy_begin nw r) = ro_addr r"
    using b by (auto simp: ro_copy_begin_def ro_buf_order ro_addr_def ro_address_eq)
  show "ro_pending nw' (ro_copy_begin nw r) = ro_pending nw r"
    using assms b by (auto simp: ro_wf_def ro_pending.simps ro_copy_begin_def split: obj_state.splits)
qed

lemma ro_same_buf:
  "ro_buf r' = ro_buf r \<Longrightarrow> ro_key r' = ro_key r \<and> ro_addr r' = ro_addr r"
  by (simp add: ro_key_def ro_addr_def ro_address_def ro_to_host_order_def ro_is_host_order_def Let_def)

lemma ro_copy_to_buf_local_spec:
  assumes "ro_wf r" "ro_state r = StCopyingHeader" "0 \<le> c_room c"
  obtains res r' where "ro_copy_to_buf_local r c =
      Some (res, cur_put c (take (nat (c_room c)) (ro_pending nw r)), r')"
    "advances (ro_pending nw r) (min (nat (c_room c)) (length (ro_pending nw r))) res
      (ro_pending nw r') (ro_state r' = StReady)"
    "ro_wf r'" "ro_buf r' = ro_buf r"
proof -
  let ?off = "ro_offset r" and ?n = "c_room c"
  have off: "0 \<le> ?off" "?off < 32" and len: "length (ro_buf r) = 32"
    using assms ro_wf_buf [OF assms(1)] by (auto simp: ro_wf_def)
  have p: "ro_pending nw r = drop (nat ?off) (ro_buf r)"
    using assms(2) by (rule ro_pending_copying)
  show ?thesis
  proof (cases "32 - ?off \<le> ?n")
    case True
    let ?r = "r\<lparr>ro_offset := 32, ro_state := StReady\<rparr>"
    have n: "32 - nat ?off \<le> nat ?n" using True off by arith
    have "seg (ro_buf r) (nat ?off) (nat (32 - ?off)) = drop (nat ?off) (ro_buf r)"
      using off len by (simp add: seg_def)
    then have "ro_copy_to_buf_local r c = Some (Ready, cur_put c (take (nat ?n) (ro_pending nw r)), ?r)"
      using assms(2) off True n len p
      by (auto simp: ro_copy_to_buf_local_def header_size_address_size_def Let_def)
    moreover have "ro_wf ?r" using assms(1) by (auto simp: ro_wf_def)
    ultimately show ?thesis using that [of Ready ?r] n len p by (simp add: advances_def)
  next
    case False
    let ?r = "r\<lparr>ro_offset := ?off + ?n\<rparr>"
    have n: "nat ?n < 32 - nat ?off" using False off assms(3) by arith
    have "ro_copy_to_buf_local r c = Some (InProcess, cur_put c (take (nat ?n) (ro_pending nw r)), ?r)"
      using assms(2,3) off False p
      by (auto simp: ro_copy_to_buf_local_def header_size_address_size_def Let_def seg_def)
    moreover have "ro_wf ?r" using assms off False by (auto simp: ro_wf_def)
    moreover have "ro_pending nw ?r = drop (nat ?n) (ro_pending nw r)"
      using assms off p by (simp add: ro_pending_copying nat_add_distrib add.commute)
    ultimately show ?thesis using that [of InProcess ?r] n len p assms(2) by (simp add: advances_def)
  qed
qed

lemma ro_copy_to_buf_spec:
  assumes "ro_wf r" "0 \<le> c_room c"
  obtains res r' where "ro_copy_to_buf nw r c =
      Some (res, cur_put c (take (nat (c_room c)) (ro_pending nw r)), r')"
    "advances (ro_pending nw r) (min (nat (c_room c)) (length (ro_pending nw r))) res
      (ro_pending nw r') (ro_state r' = StReady)"
    "ro_wf r'" "ro_key r' = ro_key r" "ro_addr r' = ro_addr r"
proof -
  note b = ro_begin [OF assms(1), of nw]
  show ?thesis
  proof (rule ro_copy_to_buf_local_spec [OF b(1,2) assms(2), of nw])
    fix res r'
    assume *: "ro_copy_to_buf_local (ro_copy_begin nw r) c = Some (res,
        cur_put c (take (nat (c_room c)) (ro_pending nw (ro_copy_begin nw r))), r')"
      "advances (ro_pending nw (ro_copy_begin nw r))
        (min (nat (c_room c)) (length (ro_pending nw (ro_copy_begin nw r)))) res
        (ro_pending nw r') (ro_state r' = StReady)"
      "ro_wf r'" "ro_buf r' = ro_buf (ro_copy_begin nw r)"
    show thesis
      by (rule that [of res r']) (use * b ro_same_buf [OF *(4)] in \<open>simp_all add: ro_copy_to_buf_def\<close>)
  qed
qed

lemma ro_copy_to_fd_local_spec:
  assumes "ro_wf r" "ro_state r = StCopyingHeader" "soft (w_script fd)"
  obtains k res fd' r' where "ro_copy_to_fd_local r fd = (res, fd', r')"
    "advances (ro_pending nw r) k res (ro_pending nw r') (ro_state r' = StReady)"
    "w_data fd' = w_data fd @ take k (ro_pending nw r)" "soft (w_script fd')"
    "ro_wf r'" "ro_buf r' = ro_buf r"
proof -
  let ?off = "ro_offset r"
  have off: "0 \<le> ?off" "?off < 32" and len: "length (ro_buf r) = 32"
    using assms ro_wf_buf [OF assms(1)] by (auto simp: ro_wf_def)
  have p: "ro_pending nw r = drop (nat ?off) (ro_buf r)"
    using assms(2) by (rule ro_pending_copying)
  obtain k fd' where w: "write_to_fd fd (ro_pending nw r) = (int k, fd')"
    "k \<le> length (ro_pending nw r)" "w_data fd' = w_data fd @ take k (ro_pending nw r)"
    "soft (w_script fd')"
    using write_to_fd_soft [OF assms(3)] by blast
  let ?all = "k = length (ro_pending nw r)"
  let ?r = "if k = 0 then r else if ?all then r\<lparr>ro_offset := ?off + int k, ro_state := StReady\<rparr>
    else r\<lparr>ro_offset := ?off + int k\<rparr>"
  have k: "k \<le> 32 - nat ?off" "?all \<longleftrightarrow> ?off + int k = 32" "?off + int k \<le> 32"
    using w(2) p len off by auto
  have "ro_copy_to_fd_local r fd = (if ?all then Ready else InProcess, fd', ?r)"
    using assms(2) off w(1) k len unfolding p
    by (auto simp: ro_copy_to_fd_local_def header_size_address_size_def Let_def)
  moreover have "advances (ro_pending nw r) k (if ?all then Ready else InProcess) (ro_pending nw ?r)
      (ro_state ?r = StReady)"
    using assms(2) off w(2) k len p
    by (auto simp: advances_def ro_pending_copying nat_add_distrib add.commute)
  moreover have "ro_wf ?r" "ro_buf ?r = ro_buf r"
    using assms off k by (auto simp: ro_wf_def)
  ultimately show ?thesis using that w by blast
qed

lemma ro_copy_to_fd_spec:
  assumes "ro_wf r" "soft (w_script fd)"
  obtains k res fd' r' where "ro_copy_to_fd nw r fd = (res, fd', r')"
    "advances (ro_pending nw r) k res (ro_pending nw r') (ro_state r' = StReady)"
    "w_data fd' = w_data fd @ take k (ro_pending nw r)" "soft (w_script fd')"
    "ro_wf r'" "ro_key r' = ro_key r" "ro_addr r' = ro_addr r"
proof -
  note b = ro_begin [OF assms(1), of nw]
  show ?thesis
  proof (rule ro_copy_to_fd_local_spec [OF b(1,2) assms(2), of nw])
    fix k res fd' r'
    assume *: "ro_copy_to_fd_local (ro_copy_begin nw r) fd = (res, fd', r')"
      "advances (ro_pending nw (ro_copy_begin nw r)) k res (ro_pending nw r') (ro_state r' = StReady)"
      "w_data fd' = w_data fd @ take k (ro_pending nw (ro_copy_begin nw r))" "soft (w_script fd')"
      "ro_wf r'" "ro_buf r' = ro_buf (ro_copy_begin nw r)"
    show thesis
      by (rule that [of res fd' r' k]) (use * b ro_same_buf [OF *(6)] in \<open>simp_all add: ro_copy_to_fd_def\<close>)
  qed
qed

definition ro_buf_step :: "bool \<Rightarrow> route_obj \<Rightarrow> nat \<Rightarrow> (result \<times> byte list \<times> route_obj) option" where
  "ro_buf_step nw r n = do {
     (res, c, r') \<leftarrow> ro_copy_to_buf nw r (window n);
     Some (res, c_out c, r')
   }"

lemma ro_copy_to_fd_live:
  assumes "ro_wf r" "live fd" "ro_copy_to_fd nw r fd = (res, fd', r')"
  shows "w_data fd' \<noteq> []"
proof -
  let ?r = "ro_copy_begin nw r"
  have w: "ro_wf ?r" "ro_state ?r = StCopyingHeader"
    using ro_begin(1,2) [OF assms(1)] by simp_all
  let ?P = "drop (nat (ro_offset ?r)) (ro_buf ?r)"
  have "0 \<le> ro_offset ?r" "ro_offset ?r < 32" using w by (simp_all add: ro_wf_def)
  then have P: "?P \<noteq> []" "\<not> int header_size_address_size \<le> ro_offset ?r"
    using ro_wf_buf [OF w(1)] by (auto simp: header_size_address_size_def header_size_def address_size_def)
  obtain k fd1 where e: "write_to_fd fd ?P = (k, fd1)" by (cases "write_to_fd fd ?P")
  have "w_data fd1 \<noteq> []" by (rule write_to_fd_live [OF assms(2) P(1) e])
  then show ?thesis
    using assms(3) w(2) P e by (auto simp: ro_copy_to_fd_def ro_copy_to_fd_local_def Let_def split: if_splits)
qed

definition ro_fd_step :: "bool \<Rightarrow> route_obj \<Rightarrow> wcall list \<Rightarrow> (result \<times> byte list \<times> route_obj) option" where
  "ro_fd_step nw r script =
     (case ro_copy_to_fd nw r \<lparr>w_script = script, w_data = []\<rparr> of
        (res, fd, r') \<Rightarrow> Some (res, w_data fd, r'))"

interpretation ro_writer:
  window_writer "ro_buf_step nw" ro_wf "ro_pending nw" "\<lambda>r. ro_state r = StReady" for nw
proof
  fix r :: route_obj and n :: nat
  assume "ro_wf r"
  then show "\<exists>res r'. ro_buf_step nw r n = Some (res, take n (ro_pending nw r), r') \<and>
      advances (ro_pending nw r) (min n (length (ro_pending nw r))) res (ro_pending nw r')
        (ro_state r' = StReady) \<and> ro_wf r'"
    by (rule ro_copy_to_buf_spec [of r "window n" nw]) (auto simp: ro_buf_step_def)
qed

interpretation ro_fd_writer:
  resumable_writer "ro_fd_step nw" ro_wf "ro_pending nw" "\<lambda>r. ro_state r = StReady" soft for nw
proof
  fix r :: route_obj and e
  let ?fd = "\<lparr>w_script = e, w_data = []\<rparr>"
  assume "ro_wf r" "soft e"
  then have "ro_wf r" "soft (w_script ?fd)" by simp_all
  then show "\<exists>k res r'. ro_fd_step nw r e = Some (res, take k (ro_pending nw r), r') \<and>
      advances (ro_pending nw r) k res (ro_pending nw r') (ro_state r' = StReady) \<and> ro_wf r'"
    by (rule ro_copy_to_fd_spec [of r ?fd nw]) (auto simp: ro_fd_step_def)
qed

text \<open>
  The constructor that takes a sender's address sets up, whatever the buffer held before,
  an object in host order with the given key whose address is the sender's with from and to
  exchanged; copied out in either order through any windows with enough room it delivers
  the header (size 16, type of a vector of \<open>uint32\<close>) and that address, in the order asked for.
\<close>

theorem route_reply_copied_out:
  assumes "length raw = 32" "i32_ok key" "32 \<le> sum_list ns"
  shows "\<exists>r'. drive (ro_buf_step nw) (ro_new_from raw key (Some f)) ns =
      Some (Ready, route_wire nw key
        \<lparr>from_serv_id = to_serv_id f, from_cli_id = to_cli_id f,
         to_serv_id = from_serv_id f, to_cli_id = from_cli_id f\<rparr>, r') \<and> ro_state r' = StReady"
proof -
  let ?a = "\<lparr>from_serv_id = to_serv_id f, from_cli_id = to_cli_id f,
         to_serv_id = from_serv_id f, to_cli_id = from_cli_id f\<rparr>"
  let ?r = "ro_new_from raw key (Some f)"
  have r: "ro_buf ?r = route_wire False key ?a" "ro_state ?r = StReady"
    by (simp_all add: ro_new_from_def ro_new_eq assms
        ro_set_reverse_address_eq [where ?nw0.0 = False and key = key])
  then have w: "ro_wf ?r" using assms(2) by (intro ro_wfI)
  have p: "ro_pending nw ?r = route_wire nw key ?a"
    using ro_pending_ready [OF w r(2)] ro_buf_order(3) [OF r(1) assms(2)]
      ro_address_eq [OF r(1) assms(2)] by (simp add: ro_addr_def)
  then have "ro_pending nw ?r \<noteq> []" by (metis length_route_wire list.size(3) zero_neq_numeral)
  then show ?thesis
    using ro_writer.drive_windows [OF w, of nw ns] assms(3) unfolding p by auto
qed

theorem route_reply_copied_out_witness:
  "\<exists>r'. drive (ro_buf_step True) (ro_new_from (replicate 32 170) 0
      (Some \<lparr>from_serv_id = 1, from_cli_id = 12345, to_serv_id = 2, to_cli_id = 9\<rparr>)) [7, 30] =
    Some (Ready, route_wire True 0
      \<lparr>from_serv_id = 2, from_cli_id = 9, to_serv_id = 1, to_cli_id = 12345\<rparr>, r') \<and>
    ro_state r' = StReady"
  using route_reply_copied_out [of "replicate 32 170" 0 "[7, 30]" True
      "\<lparr>from_serv_id = 1, from_cli_id = 12345, to_serv_id = 2, to_cli_id = 9\<rparr>"] by simp

text \<open>
  Over a descriptor that takes any part of what it is offered, repeated \<open>copy_to_fd_*\<close>
  calls on a routing object never answer \<open>Error\<close>; what is written is always a prefix of its
  serialisation in the order asked for, and all of it once they answer \<open>Ready\<close>.
\<close>

theorem route_copy_to_fd_prefix:
  assumes "ro_wf r" "ro_state r = StReady" "\<forall>e \<in> set es. soft e"
  shows "\<exists>res out r'. drive (ro_fd_step nw) r es = Some (res, out, r') \<and> res \<noteq> Error \<and>
    (\<exists>k. out = take k (route_wire nw (ro_key r) (ro_addr r))) \<and>
    (res = Ready \<longrightarrow> out = route_wire nw (ro_key r) (ro_addr r) \<and> ro_state r' = StReady)"
proof -
  note p = ro_pending_ready [OF assms(1,2), of nw]
  from ro_fd_writer.drive_delivers_prefix [OF assms(1,3), of nw] show ?thesis unfolding p by blast
qed

theorem route_copy_to_fd_prefix_witness:
  "\<exists>res out r'. drive (ro_fd_step False) (ro_new (replicate 32 0) 5) [[WrTake 3], [], [WrTake 100]] =
      Some (res, out, r') \<and> res \<noteq> Error \<and>
    (\<exists>k. out = take k (route_wire False (ro_key (ro_new (replicate 32 0) 5)) (ro_addr (ro_new (replicate 32 0) 5)))) \<and>
    (res = Ready \<longrightarrow> out = route_wire False (ro_key (ro_new (replicate 32 0) 5))
       (ro_addr (ro_new (replicate 32 0) 5)) \<and> ro_state r' = StReady)"
proof (rule route_copy_to_fd_prefix)
  have e: "ro_new (replicate 32 0) 5 = \<lparr>ro_buf = route_wire False 5
      \<lparr>from_serv_id = 0, from_cli_id = 0, to_serv_id = 0, to_cli_id = 0\<rparr>,
    ro_state = StReady, ro_offset = 0\<rparr>"
    by (simp add: ro_new_eq)
  show "ro_wf (ro_new (replicate 32 0) 5)" unfolding e
    by (rule ro_wfI [of _ False 5
          "\<lparr>from_serv_id = 0, from_cli_id = 0, to_serv_id = 0, to_cli_id = 0\<rparr>"]) simp_all
  show "ro_state (ro_new (replicate 32 0) 5) = StReady" unfolding e by simp
  show "\<forall>e \<in> set [[WrTake 3], [], [WrTake 100]]. soft e" by (simp add: soft_call_def)
qed

end
