(* ===== verification/Dson_Core.thy ===== *)
theory Dson_Core
  imports Converters Key_Map String_Obj Route_Obj
begin

text \<open>
  The class \<open>Dson\<close> of \<open>include/dson/dson.h\<close>: its fields, header access, allocation, the
  parsing of a loaded buffer into views, and the container operations (\<open>init\<close>, \<open>emplace\<close>,
  \<open>get\<close>, \<open>map\<close>, \<open>clear\<close>).

  A \<open>Dson\<close> is its scalar fields (the record \<open>dson\<close>) and its \<open>key_to_val_map_\<close>, whose values
  are objects of any class derived from \<open>DsonObj\<close>.  Operations take and return the memory,
  the fields and the map.  The code is taken as a release build runs it: \<open>assert\<close> does
  nothing.
\<close>

section \<open>State\<close>

datatype dson_kind = DsonContainer | DataBufNeedParse | OneObjectInDataBuf

record dson =
  d_header :: "byte list"      \<comment> \<open>\<open>header_\<close>\<close>
  d_buf :: "ptr option"        \<comment> \<open>\<open>buf_\<close>\<close>
  d_buf_size :: i32            \<comment> \<open>\<open>buf_size_\<close>\<close>
  d_was_alloc :: bool          \<comment> \<open>\<open>was_buf_allocation_\<close>\<close>
  d_kind :: dson_kind          \<comment> \<open>\<open>dson_kind_\<close>\<close>
  d_iter :: "nat option"       \<comment> \<open>\<open>copy_iter_\<close>: the position in the map, none when never set\<close>
  d_state :: obj_state         \<comment> \<open>\<open>state_\<close>\<close>
  d_offset :: i32              \<comment> \<open>\<open>offset_\<close>\<close>

datatype dson_obj =
  ObjDson dson "(i32 \<times> dson_obj) list"
| ObjString string_obj
| ObjRoute route_obj

type_synonym kvmap = "(i32 \<times> dson_obj) list"

definition max_dson_ram_size :: i32 where "max_dson_ram_size = 1024 * 1024 * 1024"

text \<open>Storage no constructor initialises holds anything; the memory says what.\<close>

definition raw_header :: "mem \<Rightarrow> byte list" where
  "raw_header m = map (malloc_fill m) [0..<16]"

definition dson_fields :: "byte list \<Rightarrow> dson" where
  "dson_fields header = \<lparr>d_header = header, d_buf = None, d_buf_size = 0, d_was_alloc = False,
     d_kind = DsonContainer, d_iter = None, d_state = StReady, d_offset = 0\<rparr>"

section \<open>The header\<close>

text \<open>
  Where the header lies: in the object (none), or at the start of the external buffer of a
  view.
\<close>

definition header_loc :: "dson \<Rightarrow> ptr option" where
  "header_loc d = (if d_was_alloc d then None else d_buf d)"

definition hdr_get :: "mem \<Rightarrow> dson \<Rightarrow> nat \<Rightarrow> u32 option" where
  "hdr_get m d i = (case header_loc d of
     None \<Rightarrow> Some (get32 (d_header d) i)
   | Some p \<Rightarrow> mread32 m (padd p (4 * i)))"

definition hdr_put :: "mem \<Rightarrow> dson \<Rightarrow> nat \<Rightarrow> u32 \<Rightarrow> (mem \<times> dson) option" where
  "hdr_put m d i w = (case header_loc d of
     None \<Rightarrow> Some (m, d\<lparr>d_header := set32 (d_header d) i w\<rparr>)
   | Some p \<Rightarrow> do { m \<leftarrow> mwrite32 m (padd p (4 * i)) w; Some (m, d) })"

definition hdr_bytes :: "mem \<Rightarrow> dson \<Rightarrow> byte list option" where
  "hdr_bytes m d = (case header_loc d of None \<Rightarrow> Some (d_header d) | Some p \<Rightarrow> mread m p 16)"

definition is_host_order :: "mem \<Rightarrow> dson \<Rightarrow> bool option" where
  "is_host_order m d = do { w \<leftarrow> hdr_get m d 0; Some (w = mark_host_order) }"

definition is_network_order :: "mem \<Rightarrow> dson \<Rightarrow> bool option" where
  "is_network_order m d = do { w \<leftarrow> hdr_get m d 0; Some (w = mark_network_order) }"

text \<open>Reading and writing a field in the order the mark says, as the accessors do.\<close>

definition hdr_read_field :: "mem \<Rightarrow> dson \<Rightarrow> nat \<Rightarrow> i32 option" where
  "hdr_read_field m d i = do {
     mark \<leftarrow> hdr_get m d 0;
     w \<leftarrow> hdr_get m d i;
     Some (if mark = mark_host_order then to_i32 w else int32_to_host w)
   }"

definition hdr_write_field :: "mem \<Rightarrow> dson \<Rightarrow> nat \<Rightarrow> i32 \<Rightarrow> (mem \<times> dson) option" where
  "hdr_write_field m d i v = do {
     mark \<leftarrow> hdr_get m d 0;
     hdr_put m d i (if mark = mark_host_order then of_i32 v else int32_to_network v)
   }"

definition dson_key :: "mem \<Rightarrow> dson \<Rightarrow> i32 option" where
  "dson_key m d = hdr_read_field m d 2"

definition dson_set_key :: "mem \<Rightarrow> dson \<Rightarrow> i32 \<Rightarrow> (mem \<times> dson) option" where
  "dson_set_key m d k = hdr_write_field m d 2 k"

definition dson_data_type :: "mem \<Rightarrow> dson \<Rightarrow> i32 option" where
  "dson_data_type m d =
     (if d_state d = StError then Some (types_map T_Empty) else hdr_read_field m d 3)"

definition set_data_type_internal :: "mem \<Rightarrow> dson \<Rightarrow> i32 \<Rightarrow> (mem \<times> dson) option" where
  "set_data_type_internal m d ty = hdr_write_field m d 3 ty"

definition set_data_size_internal :: "mem \<Rightarrow> dson \<Rightarrow> i32 \<Rightarrow> (mem \<times> dson) option" where
  "set_data_size_internal m d sz = hdr_write_field m d 1 sz"

text \<open>The size of the data: of a container, the sum over its objects and their headers.\<close>

fun obj_data_size :: "mem \<Rightarrow> dson_obj \<Rightarrow> i32 option"
  and data_size_loop :: "mem \<Rightarrow> kvmap \<Rightarrow> i32 \<Rightarrow> i32 option" where
  "obj_data_size m (ObjDson d kv) = (case d_kind d of
     DsonContainer \<Rightarrow> data_size_loop m kv 0
   | _ \<Rightarrow> hdr_read_field m d 1)"
| "obj_data_size m (ObjString s) = Some (so_data_size s)"
| "obj_data_size m (ObjRoute r) = Some (ro_data_size r)"
| "data_size_loop m [] re = Some re"
| "data_size_loop m ((k, obj) # kv) re = do {
     sz \<leftarrow> obj_data_size m obj;
     t \<leftarrow> i32_add sz (int header_size);
     re \<leftarrow> i32_add re t;
     data_size_loop m kv re
   }"

definition dson_data_size :: "mem \<Rightarrow> dson \<Rightarrow> kvmap \<Rightarrow> i32 option" where
  "dson_data_size m d kv = obj_data_size m (ObjDson d kv)"

text \<open>\<open>data()\<close>\<close>

definition data_ptr :: "dson \<Rightarrow> ptr option" where
  "data_ptr d = (if d_state d = StError then None
     else if d_was_alloc d then d_buf d else map_option (\<lambda>p. padd p header_size) (d_buf d))"

definition clear_header :: "mem \<Rightarrow> dson \<Rightarrow> (mem \<times> dson) option" where
  "clear_header m d = do {
     (m, d) \<leftarrow> hdr_put m d 0 mark_host_order;
     (m, d) \<leftarrow> hdr_put m d 1 0;
     (m, d) \<leftarrow> hdr_put m d 2 0;
     hdr_put m d 3 (of_i32 (types_map T_Empty))
   }"

text \<open>\<open>Dson()\<close>\<close>

definition dson_new :: "mem \<Rightarrow> (mem \<times> dson) option" where
  "dson_new m = clear_header m (dson_fields (raw_header m))"

definition header_to_host :: "mem \<Rightarrow> dson \<Rightarrow> (mem \<times> dson) option" where
  "header_to_host m d = do {
     host \<leftarrow> is_host_order m d;
     if host then Some (m, d) else (case header_loc d of
       None \<Rightarrow> Some (m, d\<lparr>d_header := words_loop ntohl 0 header_array_len (d_header d)\<rparr>)
     | Some p \<Rightarrow> do { m \<leftarrow> mem_words_loop ntohl m p 0 header_array_len; Some (m, d) })
   }"

definition header_to_network :: "mem \<Rightarrow> dson \<Rightarrow> (mem \<times> dson) option" where
  "header_to_network m d = do {
     network \<leftarrow> is_network_order m d;
     if network then Some (m, d) else (case header_loc d of
       None \<Rightarrow> Some (m, d\<lparr>d_header := words_loop htonl 0 header_array_len (d_header d)\<rparr>)
     | Some p \<Rightarrow> do { m \<leftarrow> mem_words_loop htonl m p 0 header_array_len; Some (m, d) })
   }"

section \<open>Allocation and destruction\<close>

definition free_buf :: "mem \<Rightarrow> dson \<Rightarrow> mem option" where
  "free_buf m d = (case d_buf d of None \<Rightarrow> Some m | Some p \<Rightarrow> mfree m p)"

text \<open>The destructors: \<open>~Dson\<close> runs \<open>clear\<close>, which frees an own buffer and drops the map.\<close>

fun obj_destroy :: "mem \<Rightarrow> dson_obj \<Rightarrow> mem option"
  and map_destroy :: "mem \<Rightarrow> kvmap \<Rightarrow> mem option" where
  "obj_destroy m (ObjDson d kv) = do {
     m \<leftarrow> (if d_was_alloc d then free_buf m d else Some m);
     map_destroy m kv
   }"
| "obj_destroy m (ObjString s) = Some m"
| "obj_destroy m (ObjRoute r) = Some m"
| "map_destroy m [] = Some m"
| "map_destroy m ((k, obj) # kv) = do { m \<leftarrow> obj_destroy m obj; map_destroy m kv }"

definition dson_clear :: "mem \<Rightarrow> dson \<Rightarrow> kvmap \<Rightarrow> (mem \<times> dson \<times> kvmap) option" where
  "dson_clear m d kv = do {
     m \<leftarrow> (if d_was_alloc d then free_buf m d else Some m);
     let d = (if d_was_alloc d then d\<lparr>d_buf := None, d_was_alloc := False\<rparr> else d);
     m \<leftarrow> map_destroy m kv;
     Some (m, d\<lparr>d_buf_size := 0, d_kind := DsonContainer, d_iter := None, d_state := StReady\<rparr>, [])
   }"

text \<open>\<open>allocate\<close>: the pointer returned, null when the size is not positive or memory is short.\<close>

definition allocate :: "mem \<Rightarrow> dson \<Rightarrow> i32 \<Rightarrow> (ptr option \<times> mem \<times> dson) option" where
  "allocate m d buf_size =
     (if buf_size \<le> 0 then Some (None, m, d) else do {
        m \<leftarrow> (if d_buf d \<noteq> None \<and> d_was_alloc d then free_buf m d else Some m);
        case malloc m (nat buf_size) of
          (None, m) \<Rightarrow> Some (None, m, d\<lparr>d_buf := None\<rparr>)
        | (Some p, m) \<Rightarrow> Some (Some p, m, d\<lparr>d_buf := Some p, d_was_alloc := True, d_buf_size := buf_size\<rparr>)
      })"

definition dson_reset_state :: "mem \<Rightarrow> dson \<Rightarrow> kvmap \<Rightarrow> (mem \<times> dson \<times> kvmap) option" where
  "dson_reset_state m d kv =
     (if d_state d = StError then dson_clear m d kv else Some (m, d\<lparr>d_state := StReady\<rparr>, kv))"

text \<open>\<open>init(data_type, data_size)\<close> and \<open>init(key, data_type, data_size)\<close>\<close>

definition dson_init :: "mem \<Rightarrow> dson \<Rightarrow> kvmap \<Rightarrow> i32 \<Rightarrow> i32 \<Rightarrow>
    (ptr option \<times> mem \<times> dson \<times> kvmap) option" where
  "dson_init m d kv data_type data_size = do {
     (m, d, kv) \<leftarrow> dson_clear m d kv;
     (ptr, m, d) \<leftarrow> allocate m d data_size;
     case ptr of None \<Rightarrow> Some (None, m, d, kv)
     | Some p \<Rightarrow> do {
         (m, d) \<leftarrow> hdr_put m d 0 mark_host_order;
         (m, d) \<leftarrow> hdr_put m d 3 (of_i32 data_type);
         (m, d) \<leftarrow> hdr_put m d 1 (of_i32 data_size);
         Some (Some p, m, d\<lparr>d_kind := OneObjectInDataBuf\<rparr>, kv)
       }
   }"

definition dson_init_key :: "mem \<Rightarrow> dson \<Rightarrow> kvmap \<Rightarrow> i32 \<Rightarrow> i32 \<Rightarrow> i32 \<Rightarrow>
    (ptr option \<times> mem \<times> dson \<times> kvmap) option" where
  "dson_init_key m d kv key data_type data_size = do {
     (m, d, kv) \<leftarrow> dson_clear m d kv;
     (ptr, m, d) \<leftarrow> allocate m d data_size;
     case ptr of None \<Rightarrow> Some (None, m, d, kv)
     | Some p \<Rightarrow> do {
         (m, d) \<leftarrow> hdr_put m d 0 mark_host_order;
         (m, d) \<leftarrow> hdr_put m d 2 (of_i32 key);
         (m, d) \<leftarrow> hdr_put m d 3 (of_i32 data_type);
         (m, d) \<leftarrow> hdr_put m d 1 (of_i32 data_size);
         Some (Some p, m, d\<lparr>d_kind := OneObjectInDataBuf\<rparr>, kv)
       }
   }"

text \<open>
  The constructors from a value: \<open>init\<close>, then the value is stored at the start of the
  buffer.  For a string the size of the buffer is that of the string, converted to
  \<open>std::int32_t\<close>; storing nothing does not need a buffer.
\<close>

definition dson_of_bytes :: "mem \<Rightarrow> lib_type \<Rightarrow> i32 \<Rightarrow> byte list \<Rightarrow> (mem \<times> dson) option" where
  "dson_of_bytes m ty data_size xs = do {
     (ptr, m, d, kv) \<leftarrow> dson_init m (dson_fields (raw_header m)) [] (types_map ty) data_size;
     case ptr of
       None \<Rightarrow> if xs = [] then Some (m, d) else None
     | Some p \<Rightarrow> do { m \<leftarrow> mwrite m p xs; Some (m, d) }
   }"

definition dson_of_uint32 :: "mem \<Rightarrow> u32 \<Rightarrow> (mem \<times> dson) option" where
  "dson_of_uint32 m w = dson_of_bytes m T_uint32 4 (store32 w)"

definition dson_of_int32 :: "mem \<Rightarrow> i32 \<Rightarrow> (mem \<times> dson) option" where
  "dson_of_int32 m x = dson_of_bytes m T_int32 4 (store32 (of_i32 x))"

definition dson_of_string :: "mem \<Rightarrow> byte list \<Rightarrow> (mem \<times> dson) option" where
  "dson_of_string m s = dson_of_bytes m T_string (to_i32 (word_of_nat (length s))) s"

definition dson_of_double :: "mem \<Rightarrow> dbl \<Rightarrow> (mem \<times> dson) option" where
  "dson_of_double m x = dson_of_bytes m T_double (int buf_size_for_double) (store64 x)"

end
