(* ===== verification/Dson_Map.thy ===== *)
theory Dson_Map
  imports Dson_Core
begin

text \<open>
  A \<open>Dson\<close> as a map from keys to objects: views on a loaded buffer and \<open>parse_buf\<close>,
  \<open>one_object_buf_to_container\<close>, \<open>emplace\<close>, \<open>get\<close>, \<open>map\<close> and the conversion of the objects
  handed out to host order.
\<close>

section \<open>Views on a buffer\<close>

text \<open>\<open>pre_parse_buf\<close> and the constructor \<open>Dson(char *)\<close>, a view on a header and its data.\<close>

definition pre_parse_buf :: "mem \<Rightarrow> dson \<Rightarrow> dson option" where
  "pre_parse_buf m d = do {
     sz \<leftarrow> dson_data_size m d [];
     if sz < 0 \<or> max_dson_ram_size < sz then Some (d\<lparr>d_state := StError\<rparr>)
     else do {
       ty \<leftarrow> dson_data_type m d;
       if ty = types_map T_DsonContainer then Some (d\<lparr>d_kind := DataBufNeedParse\<rparr>)
       else Some (d\<lparr>d_kind := OneObjectInDataBuf\<rparr>)
     }
   }"

definition dson_view :: "mem \<Rightarrow> ptr \<Rightarrow> dson option" where
  "dson_view m p = pre_parse_buf m
     ((dson_fields (raw_header m))\<lparr>d_buf := Some p, d_kind := DataBufNeedParse\<rparr>)"

text \<open>\<open>Dson(char * header, char * buf)\<close> for \<open>one_object_buf_to_container\<close>.\<close>

definition dson_header_buf :: "byte list \<Rightarrow> ptr \<Rightarrow> dson" where
  "dson_header_buf header p =
     (dson_fields header)\<lparr>d_buf := Some p, d_kind := OneObjectInDataBuf\<rparr>"

text \<open>\<open>insert_or_assign\<close>: the object of the key, if there is one, is destroyed.\<close>

definition map_put :: "mem \<Rightarrow> i32 \<Rightarrow> dson_obj \<Rightarrow> kvmap \<Rightarrow> (mem \<times> kvmap) option" where
  "map_put m k obj kv = do {
     m \<leftarrow> (case kv_find k kv of None \<Rightarrow> Some m | Some old \<Rightarrow> obj_destroy m old);
     Some (m, kv_insert_or_assign k obj kv)
   }"

text \<open>
  The loop of \<open>parse_buf\<close>: a view per object, as long as a header fits; the result holds
  the number of bytes not used.
\<close>

function parse_loop :: "mem \<Rightarrow> ptr \<Rightarrow> i32 \<Rightarrow> kvmap \<Rightarrow> (mem \<times> i32 \<times> kvmap) option" where
  "parse_loop m ptr not_used kv =
     (if not_used < int header_size then Some (m, not_used, kv) else do {
        obj \<leftarrow> dson_view m ptr;
        key \<leftarrow> dson_key m obj;
        if key < 0 then Some (m, not_used, kv) else do {
          buf_size \<leftarrow> dson_data_size m obj [];
          if buf_size < 0 then Some (m, not_used, kv) else do {
            total \<leftarrow> i32_add buf_size (int header_size);
            (m, kv) \<leftarrow> map_put m key (ObjDson obj []) kv;
            if total < int header_size then None
            else parse_loop m (padd ptr (nat total)) (not_used - total) kv
          }
        }
      })"
  by pat_completeness auto
termination
  by (relation "measure (\<lambda>(m, ptr, not_used, kv). nat not_used)") (auto simp: header_size_def)

declare parse_loop.simps [simp del]

definition parse_buf :: "mem \<Rightarrow> dson \<Rightarrow> kvmap \<Rightarrow> (mem \<times> dson \<times> kvmap) option" where
  "parse_buf m d kv = do {
     ty \<leftarrow> dson_data_type m d;
     if ty \<noteq> types_map T_DsonContainer then Some (m, d\<lparr>d_kind := OneObjectInDataBuf\<rparr>, kv)
     else do {
       (m, not_used, kv) \<leftarrow> (case data_ptr d of
          None \<Rightarrow> if d_buf_size d < int header_size then Some (m, d_buf_size d, kv) else None
        | Some ptr \<Rightarrow> parse_loop m ptr (d_buf_size d) kv);
       if not_used \<noteq> 0 then Some (m, d\<lparr>d_state := StError\<rparr>, kv)
       else Some (m, d\<lparr>d_kind := DsonContainer\<rparr>, kv)
     }
   }"

definition one_object_buf_to_container :: "mem \<Rightarrow> dson \<Rightarrow> kvmap \<Rightarrow> (mem \<times> dson \<times> kvmap) option" where
  "one_object_buf_to_container m d kv = (case data_ptr d of
     None \<Rightarrow> Some (m, d\<lparr>d_state := StError\<rparr>, kv)
   | Some ptr \<Rightarrow> do {
       header \<leftarrow> hdr_bytes m d;
       let obj = dson_header_buf header ptr;
       key \<leftarrow> dson_key m obj;
       if key < 0 then Some (m, d\<lparr>d_state := StError\<rparr>, kv)
       else do {
         (m, kv) \<leftarrow> map_put m key (ObjDson obj []) kv;
         (m, d) \<leftarrow> set_data_type_internal m (d\<lparr>d_kind := DsonContainer\<rparr>) (types_map T_DsonContainer);
         Some (m, d, kv)
       }
     })"

text \<open>The switch both \<open>insert_internal\<close> and \<open>map\<close> start with.\<close>

definition to_container :: "mem \<Rightarrow> dson \<Rightarrow> kvmap \<Rightarrow> (mem \<times> dson \<times> kvmap) option" where
  "to_container m d kv = (case d_kind d of
     DataBufNeedParse \<Rightarrow> parse_buf m d kv
   | OneObjectInDataBuf \<Rightarrow> one_object_buf_to_container m d kv
   | DsonContainer \<Rightarrow> Some (m, d, kv))"

section \<open>Conversion to host and to network order\<close>

text \<open>A converter works on the memory from \<open>data\<close> on.\<close>

definition run_converter :: "converter \<Rightarrow> i32 \<Rightarrow> mem \<Rightarrow> ptr \<Rightarrow> mem option" where
  "run_converter converter sz m p = (case heap m (fst p) of
     None \<Rightarrow> None
   | Some bs \<Rightarrow> if length bs < snd p then None else do {
       t \<leftarrow> converter sz (drop (snd p) bs);
       Some (upd_block m (fst p) (take (snd p) bs @ t))
     })"

definition to_host_internal :: "converter \<Rightarrow> mem \<Rightarrow> dson \<Rightarrow> (mem \<times> dson) option" where
  "to_host_internal converter m d = do {
     (m, d) \<leftarrow> header_to_host m d;
     case data_ptr d of
       None \<Rightarrow> Some (m, d)
     | Some p \<Rightarrow> do {
         sz \<leftarrow> hdr_get m d 1;
         m \<leftarrow> run_converter converter (to_i32 sz) m p;
         Some (m, d)
       }
   }"

definition to_network_internal :: "converter \<Rightarrow> mem \<Rightarrow> dson \<Rightarrow> (mem \<times> dson) option" where
  "to_network_internal converter m d = (case data_ptr d of
     None \<Rightarrow> Some (m, d)
   | Some p \<Rightarrow> do {
       sz \<leftarrow> hdr_get m d 1;
       m \<leftarrow> run_converter converter (to_i32 sz) m p;
       header_to_network m d
     })"

definition to_host :: "converters \<Rightarrow> mem \<Rightarrow> dson \<Rightarrow> (mem \<times> dson) option" where
  "to_host cv m d = do {
     host \<leftarrow> is_host_order m d;
     if host then Some (m, d) else do {
       ty \<leftarrow> dson_data_type m d;
       case to_host_order cv (of_i32 ty) of
         None \<Rightarrow> Some (m, d)
       | Some converter \<Rightarrow> to_host_internal converter m d
     }
   }"

definition to_network :: "converters \<Rightarrow> mem \<Rightarrow> dson \<Rightarrow> (mem \<times> dson) option" where
  "to_network cv m d = do {
     network \<leftarrow> is_network_order m d;
     if network then Some (m, d) else do {
       ty \<leftarrow> dson_data_type m d;
       case to_network_order cv (of_i32 ty) of
         None \<Rightarrow> Some (m, d)
       | Some converter \<Rightarrow> to_network_internal converter m d
     }
   }"

text \<open>\<open>dynamic_cast<Dson *>\<close>: only objects of class \<open>Dson\<close> are converted.\<close>

definition obj_to_host :: "converters \<Rightarrow> mem \<Rightarrow> dson_obj \<Rightarrow> (mem \<times> dson_obj) option" where
  "obj_to_host cv m obj = (case obj of
     ObjDson d kv \<Rightarrow> do { (m, d) \<leftarrow> to_host cv m d; Some (m, ObjDson d kv) }
   | _ \<Rightarrow> Some (m, obj))"

section \<open>Adding and finding objects\<close>

definition obj_key :: "mem \<Rightarrow> dson_obj \<Rightarrow> i32 option" where
  "obj_key m obj = (case obj of
     ObjDson d kv \<Rightarrow> dson_key m d
   | ObjString s \<Rightarrow> Some (so_key s)
   | ObjRoute r \<Rightarrow> Some (ro_key r))"

definition obj_set_key :: "mem \<Rightarrow> dson_obj \<Rightarrow> i32 \<Rightarrow> (mem \<times> dson_obj) option" where
  "obj_set_key m obj k = (case obj of
     ObjDson d kv \<Rightarrow> do { (m, d) \<leftarrow> dson_set_key m d k; Some (m, ObjDson d kv) }
   | ObjString s \<Rightarrow> Some (m, ObjString (so_set_key s k))
   | ObjRoute r \<Rightarrow> Some (m, ObjRoute (ro_set_key r k)))"

definition insert_internal :: "mem \<Rightarrow> dson \<Rightarrow> kvmap \<Rightarrow> i32 \<Rightarrow> dson_obj \<Rightarrow>
    (mem \<times> dson \<times> kvmap) option" where
  "insert_internal m d kv key obj = do {
     (m, d, kv) \<leftarrow> (if d_state d \<noteq> StReady then dson_reset_state m d kv else Some (m, d, kv));
     (m, d, kv) \<leftarrow> to_container m d kv;
     if d_state d \<noteq> StReady then do { m \<leftarrow> obj_destroy m obj; Some (m, d, kv) }
     else do {
       (m, kv) \<leftarrow> map_put m key obj kv;
       (m, d) \<leftarrow> set_data_type_internal m d (types_map T_DsonContainer);
       Some (m, d, kv)
     }
   }"

text \<open>\<open>emplace(std::unique_ptr<DsonObj>)\<close>\<close>

definition emplace_ptr :: "mem \<Rightarrow> dson \<Rightarrow> kvmap \<Rightarrow> dson_obj option \<Rightarrow> (mem \<times> dson \<times> kvmap) option" where
  "emplace_ptr m d kv obj = (case obj of
     None \<Rightarrow> Some (m, d, kv)
   | Some obj \<Rightarrow> do { key \<leftarrow> obj_key m obj; insert_internal m d kv key obj })"

text \<open>
  The move constructor \<open>Dson(Dson &&)\<close>, the branch of \<open>move_from_other\<close> a new object
  takes: the fields of the other one, which is left in state \<open>Error\<close> without buffer and map.
\<close>

definition dson_move_construct :: "mem \<Rightarrow> dson \<Rightarrow> kvmap \<Rightarrow> (dson \<times> kvmap) \<times> (dson \<times> kvmap)" where
  "dson_move_construct m other kv =
     (((dson_fields (raw_header m))\<lparr>d_header := d_header other, d_state := d_state other,
         d_buf := d_buf other, d_buf_size := d_buf_size other, d_was_alloc := d_was_alloc other,
         d_kind := d_kind other, d_offset := d_offset other, d_iter := d_iter other\<rparr>, kv),
      (other\<lparr>d_state := StError, d_buf := None, d_iter := None\<rparr>, []))"

text \<open>
  \<open>emplace(K, Dson)\<close>: the argument gets the key, is moved into a new object and destroyed;
  \<open>emplace(K, T)\<close> does the same with another class.
\<close>

definition emplace_dson :: "mem \<Rightarrow> dson \<Rightarrow> kvmap \<Rightarrow> i32 \<Rightarrow> dson \<times> kvmap \<Rightarrow>
    (mem \<times> dson \<times> kvmap) option" where
  "emplace_dson m d kv key arg = do {
     (m, od) \<leftarrow> dson_set_key m (fst arg) key;
     let (obj, moved) = dson_move_construct m od (snd arg);
     (m, d, kv) \<leftarrow> insert_internal m d kv key (ObjDson (fst obj) (snd obj));
     m \<leftarrow> obj_destroy m (ObjDson (fst moved) (snd moved));
     Some (m, d, kv)
   }"

definition emplace_obj :: "mem \<Rightarrow> dson \<Rightarrow> kvmap \<Rightarrow> i32 \<Rightarrow> dson_obj \<Rightarrow> (mem \<times> dson \<times> kvmap) option" where
  "emplace_obj m d kv key obj = do {
     (m, obj) \<leftarrow> obj_set_key m obj key;
     insert_internal m d kv key obj
   }"

text \<open>The pointer \<open>get\<close> returns: null, the object itself, or the object of a key.\<close>

datatype found = NotFound | Self | Child i32

definition get_internal :: "converters \<Rightarrow> mem \<Rightarrow> dson \<Rightarrow> kvmap \<Rightarrow> i32 \<Rightarrow>
    (found \<times> mem \<times> dson \<times> kvmap) option" where
  "get_internal cv m d kv key = do {
     (m, d, kv) \<leftarrow> (if d_state d \<noteq> StReady then dson_reset_state m d kv else Some (m, d, kv));
     case kv_find key kv of
       None \<Rightarrow> Some (NotFound, m, d, kv)
     | Some obj \<Rightarrow> do {
         (m, obj) \<leftarrow> obj_to_host cv m obj;
         Some (Child key, m, d, kv_insert_or_assign key obj kv)
       }
   }"

definition dson_get :: "converters \<Rightarrow> mem \<Rightarrow> dson \<Rightarrow> kvmap \<Rightarrow> i32 \<Rightarrow>
    (found \<times> mem \<times> dson \<times> kvmap) option" where
  "dson_get cv m d kv k = do {
     (m, d, kv) \<leftarrow> (if d_kind d = DataBufNeedParse then parse_buf m d kv else Some (m, d, kv));
     if d_state d \<noteq> StReady then Some (NotFound, m, d, kv)
     else (case d_kind d of
       OneObjectInDataBuf \<Rightarrow> do {
         key \<leftarrow> dson_key m d;
         if key = k then do { (m, d) \<leftarrow> to_host cv m d; Some (Self, m, d, kv) }
         else Some (NotFound, m, d, kv)
       }
     | DsonContainer \<Rightarrow> get_internal cv m d kv k
     | DataBufNeedParse \<Rightarrow> Some (NotFound, m, d, kv))
   }"

text \<open>\<open>map()\<close>: every object of class \<open>Dson\<close> is brought to host order.\<close>

fun map_to_host :: "converters \<Rightarrow> mem \<Rightarrow> kvmap \<Rightarrow> (mem \<times> kvmap) option" where
  "map_to_host cv m [] = Some (m, [])"
| "map_to_host cv m ((k, obj) # kv) = do {
     (m, obj) \<leftarrow> obj_to_host cv m obj;
     (m, kv) \<leftarrow> map_to_host cv m kv;
     Some (m, (k, obj) # kv)
   }"

definition dson_map :: "converters \<Rightarrow> mem \<Rightarrow> dson \<Rightarrow> kvmap \<Rightarrow> (mem \<times> dson \<times> kvmap) option" where
  "dson_map cv m d kv =
     (if d_state d \<noteq> StReady then Some (m, d, kv) else do {
        (m, d, kv) \<leftarrow> to_container m d kv;
        (m, kv) \<leftarrow> map_to_host cv m kv;
        Some (m, d, kv)
      })"

end
