(* ===== verification/Dson_Load.thy ===== *)
theory Dson_Load
  imports Dson_Map Resumable_IO
begin

text \<open>
  Loading a \<open>Dson\<close>: \<open>load_from_stream\<close>, \<open>load_from_fd\<close> and \<open>load_from_buf\<close>, the state
  machine Ready, LoadingHeader, LoadingData, Ready, and what it does with a message that
  arrives in any portions.
\<close>

section \<open>Operations\<close>

text \<open>Storing the bytes read at \<open>header_ + offset_\<close>; more than the array holds is undefined.\<close>

definition store_header :: "dson \<Rightarrow> byte list \<Rightarrow> dson option" where
  "store_header d xs =
     (if 0 \<le> d_offset d \<and> nat (d_offset d) + length xs \<le> length (d_header d)
      then Some (d\<lparr>d_header := patch (d_header d) (nat (d_offset d)) xs\<rparr>) else None)"

text \<open>Storing at \<open>buf_ + offset_\<close>.\<close>

definition store_data :: "mem \<Rightarrow> dson \<Rightarrow> byte list \<Rightarrow> mem option" where
  "store_data m d xs = (case d_buf d of
     None \<Rightarrow> None
   | Some p \<Rightarrow> if 0 \<le> d_offset d then mwrite m (padd p (nat (d_offset d))) xs else None)"

text \<open>The start of a load, from any state but the loading ones.\<close>

definition load_begin :: "mem \<Rightarrow> dson \<Rightarrow> kvmap \<Rightarrow> (mem \<times> dson \<times> kvmap) option" where
  "load_begin m d kv =
     (if d_state d \<in> {StLoadingHeader, StLoadingData} then Some (m, d, kv) else do {
        (m, d, kv) \<leftarrow> dson_clear m d kv;
        Some (m, d\<lparr>d_offset := 0, d_state := StLoadingHeader, d_kind := DataBufNeedParse\<rparr>, kv)
      })"

text \<open>
  After a whole header: a size out of range or memory that cannot be had is an error, an
  empty object is complete, and otherwise the data follows.  The result says whether the
  call returns here.
\<close>

definition header_loaded :: "mem \<Rightarrow> dson \<Rightarrow> kvmap \<Rightarrow> (result option \<times> mem \<times> dson) option" where
  "header_loaded m d kv = do {
     sz \<leftarrow> dson_data_size m d kv;
     if sz < 0 \<or> max_dson_ram_size < sz then Some (Some Error, m, d\<lparr>d_state := StError\<rparr>)
     else if sz = 0 then Some (Some Ready, m, d\<lparr>d_state := StReady, d_kind := DsonContainer\<rparr>)
     else do {
       (buf, m, d) \<leftarrow> allocate m d sz;
       if buf = None then Some (Some Error, m, d\<lparr>d_state := StError\<rparr>)
       else Some (None, m, d\<lparr>d_offset := 0, d_state := StLoadingData\<rparr>)
     }
   }"

definition load_data_fd :: "mem \<Rightarrow> dson \<Rightarrow> kvmap \<Rightarrow> rfd \<Rightarrow>
    (result \<times> mem \<times> dson \<times> kvmap \<times> rfd) option" where
  "load_data_fd m d kv fd =
     (if d_buf_size d \<le> d_offset d then Some (Error, m, d, kv, fd)
      else case read_from_fd fd (nat (d_buf_size d - d_offset d)) of (readed, xs, fd) \<Rightarrow>
        if readed < 0 then Some (Error, m, d\<lparr>d_state := StError\<rparr>, kv, fd)
        else do {
          m \<leftarrow> store_data m d xs;
          let d = d\<lparr>d_offset := d_offset d + readed\<rparr>;
          if d_offset d = d_buf_size d then Some (Ready, m, d\<lparr>d_state := StReady\<rparr>, kv, fd)
          else Some (InProcess, m, d, kv, fd)
        })"

definition load_header_fd :: "mem \<Rightarrow> dson \<Rightarrow> kvmap \<Rightarrow> rfd \<Rightarrow>
    (result \<times> mem \<times> dson \<times> kvmap \<times> rfd) option" where
  "load_header_fd m d kv fd =
     (if int header_size \<le> d_offset d then Some (Error, m, d\<lparr>d_state := StError\<rparr>, kv, fd)
      else case read_from_fd fd (nat (int header_size - d_offset d)) of (readed, xs, fd) \<Rightarrow>
        if readed < 0 then Some (Error, m, d\<lparr>d_state := StError\<rparr>, kv, fd)
        else do {
          d \<leftarrow> store_header d xs;
          let d = d\<lparr>d_offset := d_offset d + readed\<rparr>;
          if d_offset d < int header_size then Some (InProcess, m, d, kv, fd)
          else do {
            (r, m, d) \<leftarrow> header_loaded m d kv;
            case r of Some r \<Rightarrow> Some (r, m, d, kv, fd) | None \<Rightarrow> load_data_fd m d kv fd
          }
        })"

definition load_from_fd :: "mem \<Rightarrow> dson \<Rightarrow> kvmap \<Rightarrow> rfd \<Rightarrow>
    (result \<times> mem \<times> dson \<times> kvmap \<times> rfd) option" where
  "load_from_fd m d kv fd = do {
     (m, d, kv) \<leftarrow> load_begin m d kv;
     if d_state d = StLoadingHeader then load_header_fd m d kv fd else load_data_fd m d kv fd
   }"

text \<open>
  \<open>load_from_buf(buf, buf_size)\<close>: \<open>buf\<close> is what the buffer of the caller holds.  Copying
  more than that, or a negative amount, is undefined.
\<close>

definition take_buf :: "byte list \<Rightarrow> i32 \<Rightarrow> byte list option" where
  "take_buf buf n = (if 0 \<le> n \<and> n \<le> int (length buf) then Some (take (nat n) buf) else None)"

definition load_data_buf :: "mem \<Rightarrow> dson \<Rightarrow> kvmap \<Rightarrow> byte list \<Rightarrow> i32 \<Rightarrow>
    (result \<times> mem \<times> dson \<times> kvmap) option" where
  "load_data_buf m d kv buf buf_size =
     (if d_buf_size d \<le> d_offset d then Some (Error, m, d, kv)
      else do {
        let readed = (if buf_size < d_buf_size d - d_offset d then buf_size
                      else d_buf_size d - d_offset d);
        xs \<leftarrow> take_buf buf readed;
        m \<leftarrow> store_data m d xs;
        let d = d\<lparr>d_offset := d_offset d + readed\<rparr>;
        if d_offset d = d_buf_size d then Some (Ready, m, d\<lparr>d_state := StReady\<rparr>, kv)
        else Some (InProcess, m, d, kv)
      })"

definition load_header_buf :: "mem \<Rightarrow> dson \<Rightarrow> kvmap \<Rightarrow> byte list \<Rightarrow> i32 \<Rightarrow>
    (result \<times> mem \<times> dson \<times> kvmap) option" where
  "load_header_buf m d kv buf buf_size =
     (if int header_size \<le> d_offset d then Some (Error, m, d\<lparr>d_state := StError\<rparr>, kv)
      else do {
        let readed = (if buf_size < int header_size - d_offset d then buf_size
                      else int header_size - d_offset d);
        xs \<leftarrow> take_buf buf readed;
        d \<leftarrow> store_header d xs;
        let d = d\<lparr>d_offset := d_offset d + readed\<rparr>;
        if d_offset d < int header_size then Some (InProcess, m, d, kv)
        else do {
          (r, m, d) \<leftarrow> header_loaded m d kv;
          case r of
            Some r \<Rightarrow> Some (r, m, d, kv)
          | None \<Rightarrow>
              if buf_size - readed = 0 then Some (InProcess, m, d, kv)
              else load_data_buf m d kv (drop (nat readed) buf) (buf_size - readed)
        }
      })"

definition load_from_buf :: "mem \<Rightarrow> dson \<Rightarrow> kvmap \<Rightarrow> byte list \<Rightarrow> i32 \<Rightarrow>
    (result \<times> mem \<times> dson \<times> kvmap) option" where
  "load_from_buf m d kv buf buf_size = do {
     (m, d, kv) \<leftarrow> load_begin m d kv;
     if d_state d = StLoadingHeader then load_header_buf m d kv buf buf_size
     else load_data_buf m d kv buf buf_size
   }"

text \<open>
  \<open>std::ifstream::read\<close>: it stores what is there; with fewer bytes than asked for the
  stream fails.
\<close>

definition stream_read :: "byte list \<Rightarrow> nat \<Rightarrow> bool \<times> byte list \<times> byte list" where
  "stream_read input n = (n \<le> length input, take n input, drop n input)"

definition load_from_stream :: "mem \<Rightarrow> dson \<Rightarrow> kvmap \<Rightarrow> byte list \<Rightarrow>
    (mem \<times> dson \<times> kvmap \<times> byte list) option" where
  "load_from_stream m d kv input = do {
     (m, d, kv) \<leftarrow> dson_clear m d kv;
     let (ok, xs, input) = stream_read input header_size;
     let d = d\<lparr>d_header := patch (d_header d) 0 xs\<rparr>;
     if \<not> ok then Some (m, d\<lparr>d_state := StError\<rparr>, kv, input) else do {
       let d = d\<lparr>d_kind := DataBufNeedParse\<rparr>;
       sz \<leftarrow> dson_data_size m d kv;
       if sz < 0 \<or> max_dson_ram_size < sz then Some (m, d\<lparr>d_state := StError\<rparr>, kv, input)
       else if sz = 0 then Some (m, d\<lparr>d_state := StReady, d_kind := DsonContainer\<rparr>, kv, input)
       else do {
         (buf, m, d) \<leftarrow> allocate m d sz;
         case buf of
           None \<Rightarrow> Some (m, d\<lparr>d_state := StError\<rparr>, kv, input)
         | Some p \<Rightarrow> do {
             let (ok, xs, input) = stream_read input (nat sz);
             m \<leftarrow> mwrite m p xs;
             if \<not> ok then Some (m, d\<lparr>d_state := StError\<rparr>, kv, input)
             else Some (m, d\<lparr>d_state := StReady\<rparr>, kv, input)
           }
       }
     }
   }"

end
