(* ===== verification/Dson_Copy.thy ===== *)
theory Dson_Copy
  imports Dson_Load
begin

text \<open>
  Copying a \<open>Dson\<close> out: \<open>copy_to_fd_*\<close>, \<open>copy_to_buf_*\<close>, \<open>copy_to_stream_*\<close>, and the
  operations built on them (\<open>to_buf_host_order\<close>, \<open>move_from_other\<close>).

  \<open>copy_to_fd_internal\<close> and \<open>copy_to_buf_internal\<close> are the same state machine over two
  destinations, a descriptor and a window of memory; it is written once over a record of
  what a destination offers and instantiated with both.  The recursion through the objects
  of containers is counted down by a fuel that the depth of the object bounds.
\<close>

section \<open>Destinations\<close>

record 'c sink =
  sk_put :: "'c \<Rightarrow> byte list \<Rightarrow> (int \<times> 'c) option"
  sk_string :: "bool \<Rightarrow> string_obj \<Rightarrow> 'c \<Rightarrow> (result \<times> 'c \<times> string_obj) option"
  sk_route :: "bool \<Rightarrow> route_obj \<Rightarrow> 'c \<Rightarrow> (result \<times> 'c \<times> route_obj) option"

text \<open>\<open>writed = std::min(buf_size, \<dots>)\<close> and the \<open>memcpy\<close>, which a negative amount breaks.\<close>

definition buf_put :: "cur \<Rightarrow> byte list \<Rightarrow> (int \<times> cur) option" where
  "buf_put c xs =
     (let writed = min (c_room c) (int (length xs)) in
      if writed < 0 then None else Some (writed, cur_put c (take (nat writed) xs)))"

definition buf_sink :: "cur sink" where
  "buf_sink = \<lparr>sk_put = buf_put, sk_string = so_copy_to_buf, sk_route = ro_copy_to_buf\<rparr>"

definition fd_sink :: "wfd sink" where
  "fd_sink = \<lparr>sk_put = (\<lambda>fd xs. Some (write_to_fd fd xs)),
     sk_string = (\<lambda>nw s fd. Some (so_copy_to_fd nw s fd)),
     sk_route = (\<lambda>nw r fd. Some (ro_copy_to_fd nw r fd))\<rparr>"

section \<open>The state machine\<close>

text \<open>The branch of state \<open>Ready\<close>: bring the header (of a single object the data too) to the order asked for.\<close>

definition copy_parse :: "bool \<Rightarrow> mem \<Rightarrow> dson \<Rightarrow> kvmap \<Rightarrow> (mem \<times> dson \<times> kvmap) option" where
  "copy_parse nw m d kv = (if d_kind d = DataBufNeedParse then do {
       host \<leftarrow> is_host_order m d;
       network \<leftarrow> is_network_order m d;
       if (host \<and> nw) \<or> (network \<and> \<not> nw) then parse_buf m d kv else Some (m, d, kv)
     } else Some (m, d, kv))"

definition copy_begin :: "converters \<Rightarrow> bool \<Rightarrow> mem \<Rightarrow> dson \<Rightarrow> kvmap \<Rightarrow> (mem \<times> dson \<times> kvmap) option" where
  "copy_begin cv nw m d kv = do {
     (m, d, kv) \<leftarrow> copy_parse nw m d kv;
     (m, d) \<leftarrow> (if d_kind d = DsonContainer then do {
         sz \<leftarrow> dson_data_size m d kv;
         set_data_size_internal m d sz
       } else Some (m, d));
     (m, d) \<leftarrow> (if d_kind d = OneObjectInDataBuf
       then if nw then to_network cv m d else to_host cv m d
       else if nw then header_to_network m d else header_to_host m d);
     Some (m, d\<lparr>d_offset := 0, d_state := StCopyingHeader\<rparr>, kv)
   }"

definition buf_size_without_header :: "dson \<Rightarrow> i32" where
  "buf_size_without_header d =
     (if d_was_alloc d then d_buf_size d else d_buf_size d - int header_size)"

definition copy_buf_data :: "'c sink \<Rightarrow> mem \<Rightarrow> dson \<Rightarrow> 'c \<Rightarrow> (result \<times> 'c \<times> dson) option" where
  "copy_buf_data sk m d c =
     (let n = buf_size_without_header d in
      if n \<le> d_offset d then Some (Error, c, d)
      else case data_ptr d of
        None \<Rightarrow> None
      | Some p \<Rightarrow> if d_offset d < 0 then None else do {
          xs \<leftarrow> mread m (padd p (nat (d_offset d))) (nat (n - d_offset d));
          (writed, c) \<leftarrow> sk_put sk c xs;
          if writed < 0 then Some (Error, c, d\<lparr>d_state := StReady\<rparr>)
          else do {
            let d = d\<lparr>d_offset := d_offset d + writed\<rparr>;
            if d_offset d = n then Some (Ready, c, d\<lparr>d_state := StReady\<rparr>)
            else Some (InProcess, c, d)
          }
        })"

text \<open>
  \<open>while (copy_iter_ != end)\<close>: the objects from the iterator on; the number says how far
  the iterator moved.
\<close>

fun copy_map_loop :: "(mem \<Rightarrow> dson_obj \<Rightarrow> 'c \<Rightarrow> (result \<times> 'c \<times> mem \<times> dson_obj) option) \<Rightarrow>
    mem \<Rightarrow> kvmap \<Rightarrow> 'c \<Rightarrow> (result \<times> 'c \<times> mem \<times> kvmap \<times> nat) option" where
  "copy_map_loop step m [] c = Some (Ready, c, m, [], 0)"
| "copy_map_loop step m ((k, obj) # kv) c = do {
     (res, c, m, obj) \<leftarrow> step m obj c;
     if res \<noteq> Ready then Some (res, c, m, (k, obj) # kv, 0)
     else do {
       (res, c, m, kv, i) \<leftarrow> copy_map_loop step m kv c;
       Some (res, c, m, (k, obj) # kv, Suc i)
     }
   }"

definition copy_map :: "(mem \<Rightarrow> dson_obj \<Rightarrow> 'c \<Rightarrow> (result \<times> 'c \<times> mem \<times> dson_obj) option) \<Rightarrow>
    mem \<Rightarrow> dson \<Rightarrow> kvmap \<Rightarrow> 'c \<Rightarrow> (result \<times> 'c \<times> mem \<times> dson \<times> kvmap) option" where
  "copy_map step m d kv c = (case d_iter d of
     None \<Rightarrow> None
   | Some i \<Rightarrow> if length kv < i then None else do {
       (res, c, m, kv', j) \<leftarrow> copy_map_loop step m (drop i kv) c;
       let d = d\<lparr>d_iter := Some (i + j)\<rparr>;
       Some (res, c, m, if res = Ready then d\<lparr>d_state := StReady\<rparr> else d, take i kv @ kv')
     })"

definition copy_data :: "'c sink \<Rightarrow> (mem \<Rightarrow> dson_obj \<Rightarrow> 'c \<Rightarrow> (result \<times> 'c \<times> mem \<times> dson_obj) option) \<Rightarrow>
    mem \<Rightarrow> dson \<Rightarrow> kvmap \<Rightarrow> 'c \<Rightarrow> (result \<times> 'c \<times> mem \<times> dson \<times> kvmap) option" where
  "copy_data sk step m d kv c =
     (if d_kind d = DsonContainer then copy_map step m d kv c
      else do { (res, c, d) \<leftarrow> copy_buf_data sk m d c; Some (res, c, m, d, kv) })"

definition copy_header :: "'c sink \<Rightarrow> (mem \<Rightarrow> dson_obj \<Rightarrow> 'c \<Rightarrow> (result \<times> 'c \<times> mem \<times> dson_obj) option) \<Rightarrow>
    mem \<Rightarrow> dson \<Rightarrow> kvmap \<Rightarrow> 'c \<Rightarrow> (result \<times> 'c \<times> mem \<times> dson \<times> kvmap) option" where
  "copy_header sk step m d kv c =
     (if int header_size \<le> d_offset d then Some (Error, c, m, d, kv)
      else if d_offset d < 0 then None
      else do {
        header \<leftarrow> hdr_bytes m d;
        (writed, c) \<leftarrow> sk_put sk c (drop (nat (d_offset d)) header);
        if writed < 0 then Some (Error, c, m, d\<lparr>d_state := StReady\<rparr>, kv)
        else do {
          let d = d\<lparr>d_offset := d_offset d + writed\<rparr>;
          if d_offset d < int header_size then Some (InProcess, c, m, d, kv)
          else copy_data sk step m
            ((if d_kind d = DsonContainer then d\<lparr>d_iter := Some 0\<rparr> else d\<lparr>d_offset := 0\<rparr>)
               \<lparr>d_state := StCopyingData\<rparr>) kv c
        }
      })"

text \<open>\<open>copy_to_fd_internal<network_order>\<close> and \<open>copy_to_buf_internal<network_order>\<close>\<close>

definition copy_internal :: "'c sink \<Rightarrow> (mem \<Rightarrow> dson_obj \<Rightarrow> 'c \<Rightarrow> (result \<times> 'c \<times> mem \<times> dson_obj) option) \<Rightarrow>
    converters \<Rightarrow> bool \<Rightarrow> mem \<Rightarrow> dson \<Rightarrow> kvmap \<Rightarrow> 'c \<Rightarrow>
    (result \<times> 'c \<times> mem \<times> dson \<times> kvmap) option" where
  "copy_internal sk step cv nw m d kv c = (case d_state d of
     StReady \<Rightarrow> do {
       (m, d, kv) \<leftarrow> copy_begin cv nw m d kv;
       copy_header sk step m d kv c
     }
   | StCopyingHeader \<Rightarrow> copy_header sk step m d kv c
   | StCopyingData \<Rightarrow> copy_data sk step m d kv c
   | _ \<Rightarrow> Some (Error, c, m, d, kv))"

text \<open>The virtual call \<open>copy_to_*\<close> on an object of any class.\<close>

fun copy_obj :: "nat \<Rightarrow> 'c sink \<Rightarrow> converters \<Rightarrow> bool \<Rightarrow> mem \<Rightarrow> dson_obj \<Rightarrow> 'c \<Rightarrow>
    (result \<times> 'c \<times> mem \<times> dson_obj) option" where
  "copy_obj fuel sk cv nw m (ObjString s) c = do {
     (res, c, s) \<leftarrow> sk_string sk nw s c;
     Some (res, c, m, ObjString s)
   }"
| "copy_obj fuel sk cv nw m (ObjRoute r) c = do {
     (res, c, r) \<leftarrow> sk_route sk nw r c;
     Some (res, c, m, ObjRoute r)
   }"
| "copy_obj 0 sk cv nw m (ObjDson d kv) c = None"
| "copy_obj (Suc fuel) sk cv nw m (ObjDson d kv) c = do {
     (res, c, m, d, kv) \<leftarrow> copy_internal sk (copy_obj fuel sk cv nw) cv nw m d kv c;
     Some (res, c, m, ObjDson d kv)
   }"

text \<open>
  The nesting of an object, counting the views a parse would add: the views of
  \<open>parse_buf\<close> have no objects of their own.
\<close>

fun obj_depth :: "dson_obj \<Rightarrow> nat" and map_depth :: "kvmap \<Rightarrow> nat" where
  "obj_depth (ObjDson d kv) = (if d_kind d = DataBufNeedParse then 2 else 1) + map_depth kv"
| "obj_depth (ObjString s) = 0"
| "obj_depth (ObjRoute r) = 0"
| "map_depth [] = 0"
| "map_depth ((k, obj) # kv) = max (obj_depth obj) (map_depth kv)"

definition copy_to_buf :: "converters \<Rightarrow> bool \<Rightarrow> mem \<Rightarrow> dson_obj \<Rightarrow> cur \<Rightarrow>
    (result \<times> cur \<times> mem \<times> dson_obj) option" where
  "copy_to_buf cv nw m obj c = copy_obj (obj_depth obj) buf_sink cv nw m obj c"

definition copy_to_fd :: "converters \<Rightarrow> bool \<Rightarrow> mem \<Rightarrow> dson_obj \<Rightarrow> wfd \<Rightarrow>
    (result \<times> wfd \<times> mem \<times> dson_obj) option" where
  "copy_to_fd cv nw m obj fd = copy_obj (obj_depth obj) fd_sink cv nw m obj fd"

end
