(* ===== verification/Dson_Objects.thy ===== *)
theory Dson_Objects
  imports Dson_Copy
begin

text \<open>
  Well-formed objects that can be copied out, the bytes they have pending, the memory they
  own, and the reference serialisation of an object at rest.
\<close>

section \<open>Objects whose header is local\<close>

text \<open>A view keeps its header in the external buffer; every other object keeps it itself.\<close>

named_theorems local_simps \<open>operations on an object with a local header\<close>

lemma local_access [local_simps]:
  assumes "header_loc d = None"
  shows "hdr_get m d i = Some (get32 (d_header d) i)"
    "hdr_put m d i w = Some (m, d\<lparr>d_header := set32 (d_header d) i w\<rparr>)"
    "hdr_bytes m d = Some (d_header d)"
  using assms by (simp_all add: hdr_get_def hdr_put_def hdr_bytes_def)

lemma local_order [local_simps]:
  assumes "header_loc d = None"
  shows "is_host_order m d = Some (hdr_is_host (d_header d))"
    "is_network_order m d = Some (hdr_is_network (d_header d))"
  using assms by (simp_all add: is_host_order_def is_network_order_def local_access hdr_is_host_def
      hdr_is_network_def)

lemma local_fields [local_simps]:
  assumes "header_loc d = None"
  shows "hdr_read_field m d i = Some (hdr_field (d_header d) i)"
    "hdr_write_field m d i v = Some (m, d\<lparr>d_header := hdr_set_field (d_header d) i v\<rparr>)"
  using assms by (simp_all add: hdr_read_field_def hdr_write_field_def local_access hdr_field_def
      hdr_set_field_def hdr_is_host_def)

lemma local_convert [local_simps]:
  assumes "header_loc d = None"
  shows "header_to_host m d = Some (m, d\<lparr>d_header := hdr_to_host (d_header d)\<rparr>)"
    "header_to_network m d = Some (m, d\<lparr>d_header := hdr_to_network (d_header d)\<rparr>)"
  using assms by (simp_all add: header_to_host_def header_to_network_def local_order
      hdr_to_host_def hdr_to_network_def)

lemma header_loc_simps [simp]:
  "header_loc (d\<lparr>d_header := h\<rparr>) = header_loc d" "header_loc (d\<lparr>d_kind := k\<rparr>) = header_loc d"
  "header_loc (d\<lparr>d_state := s\<rparr>) = header_loc d" "header_loc (d\<lparr>d_offset := i\<rparr>) = header_loc d"
  "header_loc (d\<lparr>d_iter := it\<rparr>) = header_loc d" "header_loc (d\<lparr>d_buf_size := n\<rparr>) = header_loc d"
  by (simp_all add: header_loc_def)

lemma header_loc_owned [simp]: "d_was_alloc d \<Longrightarrow> header_loc d = None"
  by (simp add: header_loc_def)

lemma header_loc_no_buf [simp]: "d_buf d = None \<Longrightarrow> header_loc d = None"
  by (simp add: header_loc_def)

section \<open>Sizes and owned memory\<close>

fun obj_size :: "dson_obj \<Rightarrow> i32" and map_size :: "kvmap \<Rightarrow> i32" where
  "obj_size (ObjDson d kv) =
     (if d_kind d = DsonContainer then map_size kv else hdr_field (d_header d) 1)"
| "obj_size (ObjString s) = so_data_size s"
| "obj_size (ObjRoute r) = ro_data_size r"
| "map_size [] = 0"
| "map_size ((k, obj) # kv) = obj_size obj + int header_size + map_size kv"

text \<open>The blocks an object frees when it is destroyed.\<close>

definition own_blocks :: "dson \<Rightarrow> nat list" where
  "own_blocks d = (if d_was_alloc d then (case d_buf d of None \<Rightarrow> [] | Some p \<Rightarrow> [fst p]) else [])"

fun obj_blocks :: "dson_obj \<Rightarrow> nat list" and map_blocks :: "kvmap \<Rightarrow> nat list" where
  "obj_blocks (ObjDson d kv) = own_blocks d @ map_blocks kv"
| "obj_blocks (ObjString s) = []"
| "obj_blocks (ObjRoute r) = []"
| "map_blocks [] = []"
| "map_blocks ((k, obj) # kv) = obj_blocks obj @ map_blocks kv"

text \<open>The keys and classes of an object and of all in it, which no copy changes.\<close>

datatype shape = Dson_Shape "(i32 \<times> shape) list" | String_Shape | Route_Shape

fun obj_shape :: "dson_obj \<Rightarrow> shape" and map_shape :: "kvmap \<Rightarrow> (i32 \<times> shape) list" where
  "obj_shape (ObjDson d kv) = Dson_Shape (map_shape kv)"
| "obj_shape (ObjString s) = String_Shape"
| "obj_shape (ObjRoute r) = Route_Shape"
| "map_shape [] = []"
| "map_shape ((k, obj) # kv) = (k, obj_shape obj) # map_shape kv"

lemma map_shape_append [simp]: "map_shape (xs @ ys) = map_shape xs @ map_shape ys"
  by (induction xs) auto

lemma own_blocks_simps [simp]:
  "own_blocks (d\<lparr>d_header := h\<rparr>) = own_blocks d" "own_blocks (d\<lparr>d_kind := k\<rparr>) = own_blocks d"
  "own_blocks (d\<lparr>d_state := s\<rparr>) = own_blocks d" "own_blocks (d\<lparr>d_offset := i\<rparr>) = own_blocks d"
  "own_blocks (d\<lparr>d_iter := it\<rparr>) = own_blocks d"
  by (simp_all add: own_blocks_def)

lemma map_blocks_append [simp]: "map_blocks (xs @ ys) = map_blocks xs @ map_blocks ys"
  by (induction xs) auto

text \<open>The contents of the own buffer.\<close>

definition own_data :: "mem \<Rightarrow> dson \<Rightarrow> byte list" where
  "own_data m d = (case d_buf d of None \<Rightarrow> [] | Some p \<Rightarrow>
     (case heap m (fst p) of None \<Rightarrow> [] | Some bs \<Rightarrow> bs))"

section \<open>What can be copied out\<close>

text \<open>
  \<open>data_ok ty network sz bs\<close> says that \<open>bs\<close> is data of type \<open>ty\<close> in the one or the other
  order, so that the converters of the type work on it.

  An object over its own buffer: the buffer holds exactly the \<open>data_size_\<close> bytes of the
  header.  A loaded container that was not parsed yet goes out as it is, so only in the
  order it came in (\<open>nw\<close>).
\<close>

type_synonym data_pred = "i32 \<Rightarrow> bool \<Rightarrow> i32 \<Rightarrow> byte list \<Rightarrow> bool"

definition buf_state_ok :: "dson \<Rightarrow> bool" where
  "buf_state_ok d \<longleftrightarrow> (case d_state d of
     StReady \<Rightarrow> True
   | StCopyingHeader \<Rightarrow> 0 \<le> d_offset d \<and> d_offset d < 16
   | StCopyingData \<Rightarrow> 0 \<le> d_offset d \<and> d_offset d < d_buf_size d
   | _ \<Rightarrow> False)"

definition buf_ok :: "data_pred \<Rightarrow> bool \<Rightarrow> mem \<Rightarrow> dson \<Rightarrow> bool" where
  "buf_ok data_ok nw m d \<longleftrightarrow> d_was_alloc d \<and> hdr_valid (d_header d) \<and> 0 < d_buf_size d \<and>
     hdr_field (d_header d) 1 = d_buf_size d \<and>
     (\<exists>b bs. d_buf d = Some (b, 0) \<and> heap m b = Some bs \<and> length bs = nat (d_buf_size d) \<and>
        data_ok (hdr_field (d_header d) 3) (hdr_is_network (d_header d)) (d_buf_size d) bs) \<and>
     (d_kind d = DataBufNeedParse \<longrightarrow>
        hdr_is_network (d_header d) = nw \<or> hdr_field (d_header d) 3 \<noteq> types_map T_DsonContainer) \<and>
     buf_state_ok d"

fun obj_rest :: "dson_obj \<Rightarrow> bool" and map_rest :: "kvmap \<Rightarrow> bool" where
  "obj_rest (ObjDson d kv) \<longleftrightarrow> d_state d = StReady \<and> map_rest kv"
| "obj_rest (ObjString s) \<longleftrightarrow> so_state s = StReady"
| "obj_rest (ObjRoute r) \<longleftrightarrow> ro_state r = StReady"
| "map_rest [] \<longleftrightarrow> True"
| "map_rest ((k, obj) # kv) \<longleftrightarrow> obj_rest obj \<and> map_rest kv"

text \<open>While a container is copied, only the object the iterator is at may be in the middle of it.\<close>

definition container_ok :: "dson \<Rightarrow> kvmap \<Rightarrow> bool" where
  "container_ok d kv \<longleftrightarrow> header_loc d = None \<and> hdr_valid (d_header d) \<and> (case d_state d of
     StReady \<Rightarrow> map_rest kv
   | StCopyingHeader \<Rightarrow> 0 \<le> d_offset d \<and> d_offset d < 16 \<and> map_rest kv
   | StCopyingData \<Rightarrow> (\<exists>i \<le> length kv. d_iter d = Some i \<and>
       map_rest (take i kv) \<and> map_rest (drop (Suc i) kv))
   | _ \<Rightarrow> False)"

fun obj_ok :: "data_pred \<Rightarrow> bool \<Rightarrow> mem \<Rightarrow> dson_obj \<Rightarrow> bool"
  and map_ok :: "data_pred \<Rightarrow> bool \<Rightarrow> mem \<Rightarrow> kvmap \<Rightarrow> bool" where
  "obj_ok data_ok nw m (ObjDson d kv) =
     (if d_kind d = DsonContainer
      then container_ok d kv \<and> map_size kv \<le> i32_max \<and> map_ok data_ok nw m kv
      else buf_ok data_ok nw m d \<and> kv = [])"
| "obj_ok data_ok nw m (ObjString s) = so_sendable s"
| "obj_ok data_ok nw m (ObjRoute r) = ro_wf r"
| "map_ok data_ok nw m [] = True"
| "map_ok data_ok nw m ((k, obj) # kv) = (obj_ok data_ok nw m obj \<and> map_ok data_ok nw m kv)"

section \<open>Pending bytes\<close>

text \<open>
  Header and data of an object over its own buffer in the order asked for.  A type without
  converter keeps both as they are.
\<close>

definition buf_out :: "converters \<Rightarrow> bool \<Rightarrow> byte list \<Rightarrow> byte list \<Rightarrow> byte list \<times> byte list" where
  "buf_out cv nw h bs =
     (if hdr_is_network h = nw then (h, bs)
      else case (if nw then to_network_order cv else to_host_order cv) (of_i32 (hdr_field h 3)) of
        None \<Rightarrow> (h, bs)
      | Some f \<Rightarrow> (hdr_order nw h, the (f (hdr_field h 1) bs)))"

definition buf_pending :: "converters \<Rightarrow> bool \<Rightarrow> mem \<Rightarrow> dson \<Rightarrow> byte list" where
  "buf_pending cv nw m d = (case d_state d of
     StReady \<Rightarrow> (let (h, bs) = buf_out cv nw (d_header d) (own_data m d) in h @ bs)
   | StCopyingHeader \<Rightarrow> drop (nat (d_offset d)) (d_header d) @ own_data m d
   | StCopyingData \<Rightarrow> drop (nat (d_offset d)) (own_data m d)
   | _ \<Rightarrow> [])"

fun obj_pending :: "converters \<Rightarrow> bool \<Rightarrow> mem \<Rightarrow> dson_obj \<Rightarrow> byte list"
  and map_pending :: "converters \<Rightarrow> bool \<Rightarrow> mem \<Rightarrow> nat \<Rightarrow> kvmap \<Rightarrow> byte list" where
  "obj_pending cv nw m (ObjDson d kv) =
     (if d_kind d = DsonContainer then (case d_state d of
          StReady \<Rightarrow> hdr_order nw (hdr_set_field (d_header d) 1 (map_size kv)) @ map_pending cv nw m 0 kv
        | StCopyingHeader \<Rightarrow> drop (nat (d_offset d)) (d_header d) @ map_pending cv nw m 0 kv
        | StCopyingData \<Rightarrow> map_pending cv nw m (case d_iter d of None \<Rightarrow> 0 | Some i \<Rightarrow> i) kv
        | _ \<Rightarrow> [])
      else buf_pending cv nw m d)"
| "obj_pending cv nw m (ObjString s) = so_pending nw s"
| "obj_pending cv nw m (ObjRoute r) = ro_pending nw r"
| "map_pending cv nw m n [] = []"
| "map_pending cv nw m (Suc n) ((k, obj) # kv) = map_pending cv nw m n kv"
| "map_pending cv nw m 0 ((k, obj) # kv) = obj_pending cv nw m obj @ map_pending cv nw m 0 kv"

lemma map_pending_drop: "map_pending cv nw m n kv = map_pending cv nw m 0 (drop n kv)"
proof (induction n arbitrary: kv)
  case (Suc n)
  then show ?case by (cases kv) auto
qed simp

section \<open>The serialisation\<close>

text \<open>
  What an object is on the wire, whatever it is doing: header and data of every object in
  the order of the keys, each container with the sum of its sizes.
\<close>

fun obj_wire :: "converters \<Rightarrow> bool \<Rightarrow> mem \<Rightarrow> dson_obj \<Rightarrow> byte list"
  and map_wire :: "converters \<Rightarrow> bool \<Rightarrow> mem \<Rightarrow> kvmap \<Rightarrow> byte list" where
  "obj_wire cv nw m (ObjDson d kv) =
     (if d_kind d = DsonContainer
      then hdr_for nw (map_size kv) (hdr_field (d_header d) 2) (hdr_field (d_header d) 3) @
        map_wire cv nw m kv
      else (let (h, bs) = buf_out cv nw (d_header d) (own_data m d) in h @ bs))"
| "obj_wire cv nw m (ObjString s) = string_wire nw (so_key s) (so_object s)"
| "obj_wire cv nw m (ObjRoute r) = route_wire nw (ro_key r) (ro_addr r)"
| "map_wire cv nw m [] = []"
| "map_wire cv nw m ((k, obj) # kv) = obj_wire cv nw m obj @ map_wire cv nw m kv"

section \<open>Lemmas\<close>

lemma hdr_valid_host_iff: "hdr_valid h \<Longrightarrow> hdr_is_host h \<longleftrightarrow> \<not> hdr_is_network h"
  using marks_differ by (auto simp: hdr_valid_def hdr_is_host_def hdr_is_network_def)

lemma hdr_order_same: "hdr_valid h \<Longrightarrow> hdr_is_network h = nw \<Longrightarrow> hdr_order nw h = h"
  by (auto simp: hdr_order_def hdr_to_network_def hdr_to_host_def hdr_valid_host_iff)

lemma hdr_validE:
  assumes "hdr_valid h"
  obtains nw sz k ty where "h = hdr_for nw sz k ty" "i32_ok sz" "i32_ok k" "i32_ok ty"
  using hdr_valid_cases [OF assms] hdr_field_ok by metis

lemma hdr_set_field_valid:
  "hdr_valid h \<Longrightarrow> i \<in> {1, 2, 3} \<Longrightarrow> hdr_valid (hdr_set_field h i v)"
  by (erule hdr_validE) (auto simp: hdr_simps)

lemma hdr_set_size:
  assumes "hdr_valid h" "i32_ok v"
  shows "hdr_field (hdr_set_field h (Suc 0) v) (Suc 0) = v"
    "hdr_field (hdr_set_field h (Suc 0) v) 2 = hdr_field h 2"
    "hdr_field (hdr_set_field h (Suc 0) v) 3 = hdr_field h 3"
  using assms by (auto elim!: hdr_validE simp: hdr_simps)

text \<open>Well-formedness and pending bytes depend only on the memory an object owns.\<close>

lemma buf_ok_frame:
  "\<forall>b \<in> set (own_blocks d). heap m' b = heap m b \<Longrightarrow>
   buf_ok data_ok nw m' d = buf_ok data_ok nw m d \<and> (d_was_alloc d \<longrightarrow> own_data m' d = own_data m d)"
proof (cases "d_was_alloc d \<and> d_buf d \<noteq> None")
  case True
  then obtain b i where "d_buf d = Some (b, i)" "d_was_alloc d" by auto
  moreover assume "\<forall>b \<in> set (own_blocks d). heap m' b = heap m b"
  ultimately show ?thesis by (auto simp: buf_ok_def own_blocks_def own_data_def)
next
  case False
  then show ?thesis by (auto simp: buf_ok_def own_data_def split: option.splits)
qed

lemma obj_frame:
  "\<forall>b \<in> set (obj_blocks obj). heap m' b = heap m b \<Longrightarrow>
   obj_ok data_ok nw m' obj = obj_ok data_ok nw m obj \<and>
   (obj_ok data_ok nw m obj \<longrightarrow> obj_pending cv nw m' obj = obj_pending cv nw m obj \<and>
      obj_wire cv nw m' obj = obj_wire cv nw m obj)"
  and map_frame:
  "\<forall>b \<in> set (map_blocks kv). heap m' b = heap m b \<Longrightarrow>
   map_ok data_ok nw m' kv = map_ok data_ok nw m kv \<and>
   (map_ok data_ok nw m kv \<longrightarrow> (\<forall>n. map_pending cv nw m' n kv = map_pending cv nw m n kv) \<and>
      map_wire cv nw m' kv = map_wire cv nw m kv)"
proof (induction obj and kv rule: obj_blocks_map_blocks.induct)
  case (1 d kv)
  have "buf_ok data_ok nw m' d = buf_ok data_ok nw m d \<and>
      (d_was_alloc d \<longrightarrow> own_data m' d = own_data m d)"
    using 1 by (intro buf_ok_frame) simp
  moreover have "buf_ok data_ok nw m d \<Longrightarrow> d_was_alloc d" by (simp add: buf_ok_def)
  ultimately show ?case using 1 by (auto simp: buf_pending_def split: obj_state.splits)
next
  case (5 k obj kv)
  have "map_pending cv nw m' n ((k, obj) # kv) = map_pending cv nw m n ((k, obj) # kv)"
    if "map_ok data_ok nw m ((k, obj) # kv)" for n
    using 5 that by (cases n) auto
  then show ?case using 5 by auto
qed simp_all

text \<open>The recursive size computed by the code is the sum of the sizes, without overflow.\<close>

lemma so_size_nonneg: "so_wf s \<Longrightarrow> 0 \<le> so_data_size s"
  by (simp add: so_wf_def)

lemma obj_size_ok:
  "obj_ok data_ok nw m obj \<Longrightarrow> obj_data_size m obj = Some (obj_size obj) \<and> 0 \<le> obj_size obj"
  and map_size_ok:
  "map_ok data_ok nw m kv \<Longrightarrow> 0 \<le> map_size kv \<and>
   (\<forall>re. 0 \<le> re \<longrightarrow> re + map_size kv \<le> i32_max \<longrightarrow> data_size_loop m kv re = Some (re + map_size kv))"
proof (induction obj and kv rule: obj_size_map_size.induct)
  case (1 d kv)
  show ?case
  proof (cases "d_kind d = DsonContainer")
    case True
    with 1 show ?thesis by simp
  next
    case False
    with 1 show ?thesis by (cases "d_kind d") (auto simp: buf_ok_def local_simps)
  qed
next
  case (2 s)
  then show ?case by (simp add: so_sendable_def so_size_nonneg)
next
  case (3 r)
  then show ?case by (simp add: ro_data_size_def address_size_def)
next
  case 4
  then show ?case by simp
next
  case (5 k obj kv)
  let ?z = "obj_size obj"
  have z: "obj_data_size m obj = Some ?z" "0 \<le> ?z" and kv: "0 \<le> map_size kv"
    using 5 by simp_all
  have "data_size_loop m ((k, obj) # kv) re = Some (re + map_size ((k, obj) # kv))"
    if "0 \<le> re" "re + map_size ((k, obj) # kv) \<le> i32_max" for re
  proof -
    have "i32_add ?z (int header_size) = Some (?z + int header_size)"
      "i32_add re (?z + int header_size) = Some (re + (?z + int header_size))"
      using that z kv by (simp_all add: ub_simps i32_ok_def i32_min_def header_size_def)
    moreover have "0 \<le> re + (?z + int header_size)" "re + (?z + int header_size) + map_size kv \<le> i32_max"
      using that z by (simp_all add: header_size_def)
    ultimately show ?thesis using 5 z by (simp add: add_ac)
  qed
  then show ?case using z kv by (simp add: header_size_def)
qed

lemma hdr_order_set_size:
  assumes "hdr_valid h" "i32_ok v"
  shows "hdr_order nw (hdr_set_field h (Suc 0) v) = hdr_for nw v (hdr_field h 2) (hdr_field h 3)"
  using assms hdr_set_field_valid [of h 1 v] by (simp add: hdr_order_valid hdr_set_size)

text \<open>At rest, the whole serialisation is pending.\<close>

lemma obj_rest_pending:
  "obj_ok data_ok nw m obj \<Longrightarrow> obj_rest obj \<Longrightarrow> obj_pending cv nw m obj = obj_wire cv nw m obj"
  and map_rest_pending:
  "map_ok data_ok nw m kv \<Longrightarrow> map_rest kv \<Longrightarrow> map_pending cv nw m 0 kv = map_wire cv nw m kv"
proof (induction obj and kv rule: obj_size_map_size.induct)
  case (1 d kv)
  show ?case
  proof (cases "d_kind d = DsonContainer")
    case True
    with 1 have "i32_ok (map_size kv)"
      using map_size_ok [of data_ok nw m kv] by (simp add: i32_ok_def i32_min_def)
    with True 1 show ?thesis
      by (simp add: container_ok_def hdr_order_set_size)
  next
    case False
    with 1 show ?thesis by (simp add: buf_pending_def)
  qed
next
  case (2 s)
  then show ?case by (simp add: so_sendable_def so_pending_ready del: so_pending.simps)
next
  case (3 r)
  then show ?case by (simp add: ro_pending_ready del: ro_pending.simps)
qed simp_all

text \<open>The map split at the iterator.\<close>

lemma map_ok_append [simp]: "map_ok data_ok nw m (xs @ ys) \<longleftrightarrow> map_ok data_ok nw m xs \<and> map_ok data_ok nw m ys"
  by (induction xs) auto

lemma map_rest_append [simp]: "map_rest (xs @ ys) \<longleftrightarrow> map_rest xs \<and> map_rest ys"
  by (induction xs) auto

lemma map_size_append [simp]: "map_size (xs @ ys) = map_size xs + map_size ys"
  by (induction xs) auto

lemma map_wire_append [simp]: "map_wire cv nw m (xs @ ys) = map_wire cv nw m xs @ map_wire cv nw m ys"
  by (induction xs) auto

lemma map_take_drop:
  "map_size (take i kv) + map_size (drop i kv) = map_size kv"
  "map_blocks (take i kv) @ map_blocks (drop i kv) = map_blocks kv"
  "map_wire cv nw m (take i kv) @ map_wire cv nw m (drop i kv) = map_wire cv nw m kv"
  "map_shape (take i kv) @ map_shape (drop i kv) = map_shape kv"
  by (metis append_take_drop_id map_size_append, metis append_take_drop_id map_blocks_append,
    metis append_take_drop_id map_wire_append, metis append_take_drop_id map_shape_append)

lemma map_pending_append:
  "map_pending cv nw m (length xs + j) (xs @ ys) = map_pending cv nw m j ys"
  by (simp add: map_pending_drop [of _ _ _ "length xs + j"] map_pending_drop [of _ _ _ j])

lemma map_depth_mem: "(k, obj) \<in> set kv \<Longrightarrow> obj_depth obj \<le> map_depth kv"
  by (induction kv) auto

lemma map_blocks_mem: "(k, obj) \<in> set kv \<Longrightarrow> set (obj_blocks obj) \<subseteq> set (map_blocks kv)"
  by (induction kv) auto

lemma map_blocks_distinct: "(k, obj) \<in> set kv \<Longrightarrow> distinct (map_blocks kv) \<Longrightarrow> distinct (obj_blocks obj)"
  by (induction kv) auto

end
