(* ===== verification/Dson_Memory.thy ===== *)
theory Dson_Memory
  imports Dson_Objects
begin

text \<open>
  Ownership: destroying or clearing an object frees exactly the blocks it owns, each once.
\<close>

definition free_blocks :: "mem \<Rightarrow> nat list \<Rightarrow> mem" where
  "free_blocks m bs = m\<lparr>heap := (\<lambda>b. if b \<in> set bs then None else heap m b)\<rparr>"

text \<open>Every own buffer is the start of a live block.\<close>

fun obj_owned :: "mem \<Rightarrow> dson_obj \<Rightarrow> bool" and map_owned :: "mem \<Rightarrow> kvmap \<Rightarrow> bool" where
  "obj_owned m (ObjDson d kv) \<longleftrightarrow>
     (d_was_alloc d \<longrightarrow> (\<forall>p. d_buf d = Some p \<longrightarrow> snd p = 0 \<and> heap m (fst p) \<noteq> None)) \<and> map_owned m kv"
| "obj_owned m (ObjString s) \<longleftrightarrow> True"
| "obj_owned m (ObjRoute r) \<longleftrightarrow> True"
| "map_owned m [] \<longleftrightarrow> True"
| "map_owned m ((k, obj) # kv) \<longleftrightarrow> obj_owned m obj \<and> map_owned m kv"

lemma free_blocks_Nil [simp]: "free_blocks m [] = m"
  by (simp add: free_blocks_def)

lemma free_blocks_append [simp]: "free_blocks (free_blocks m xs) ys = free_blocks m (xs @ ys)"
  by (auto simp: free_blocks_def fun_eq_iff)

lemma free_blocks_sel [simp]:
  "next_block (free_blocks m bs) = next_block m" "malloc_limit (free_blocks m bs) = malloc_limit m"
  "malloc_fill (free_blocks m bs) = malloc_fill m"
  "heap (free_blocks m bs) b = (if b \<in> set bs then None else heap m b)"
  by (simp_all add: free_blocks_def)

lemma obj_owned_frame:
  "\<forall>b \<in> set (obj_blocks obj). heap m' b = heap m b \<Longrightarrow> obj_owned m' obj = obj_owned m obj"
  and map_owned_frame:
  "\<forall>b \<in> set (map_blocks kv). heap m' b = heap m b \<Longrightarrow> map_owned m' kv = map_owned m kv"
proof (induction obj and kv rule: obj_blocks_map_blocks.induct)
  case (1 d kv)
  then show ?case by (cases "d_was_alloc d"; cases "d_buf d") (simp_all add: own_blocks_def)
qed simp_all

lemma map_owned_append [simp]: "map_owned m (xs @ ys) \<longleftrightarrow> map_owned m xs \<and> map_owned m ys"
  by (induction xs) auto

text \<open>No live block is gone and nothing was allocated.\<close>

definition same_alloc :: "mem \<Rightarrow> mem \<Rightarrow> bool" where
  "same_alloc m m' \<longleftrightarrow> next_block m' = next_block m \<and> malloc_limit m' = malloc_limit m \<and> malloc_fill m' = malloc_fill m"

lemma same_alloc_refl [simp]: "same_alloc m m"
  by (simp add: same_alloc_def)

lemma same_alloc_trans: "same_alloc m m1 \<Longrightarrow> same_alloc m1 m2 \<Longrightarrow> same_alloc m m2"
  by (simp add: same_alloc_def)

lemma same_alloc_simps [simp]: "same_alloc m (free_blocks m bs)" "same_alloc m (upd_block m b xs)"
  by (simp_all add: same_alloc_def)

definition still_live :: "mem \<Rightarrow> mem \<Rightarrow> bool" where
  "still_live m m' \<longleftrightarrow> (\<forall>b. heap m b \<noteq> None \<longrightarrow> heap m' b \<noteq> None) \<and> same_alloc m m'"

lemma still_live_refl [simp]: "still_live m m"
  by (simp add: still_live_def)

lemma still_live_trans: "still_live m m1 \<Longrightarrow> still_live m1 m2 \<Longrightarrow> still_live m m2"
  by (auto simp: still_live_def intro: same_alloc_trans)

lemma obj_owned_live: "obj_owned m obj \<Longrightarrow> still_live m m' \<Longrightarrow> obj_owned m' obj"
  and map_owned_live: "map_owned m kv \<Longrightarrow> still_live m m' \<Longrightarrow> map_owned m' kv"
  by (induction obj and kv rule: obj_blocks_map_blocks.induct) (auto simp: still_live_def)

lemma buf_ok_owned: "buf_ok data_ok nw m d \<Longrightarrow> obj_owned m (ObjDson d [])"
  by (auto simp: buf_ok_def)

lemma own_blocks_live: "obj_owned m (ObjDson d kv) \<Longrightarrow> b \<in> set (own_blocks d) \<Longrightarrow> heap m b \<noteq> None"
  by (cases "d_was_alloc d"; cases "d_buf d") (simp_all add: own_blocks_def)

lemma obj_owned_blocks: "obj_owned m obj \<Longrightarrow> b \<in> set (obj_blocks obj) \<Longrightarrow> heap m b \<noteq> None"
  and map_owned_blocks: "map_owned m kv \<Longrightarrow> b \<in> set (map_blocks kv) \<Longrightarrow> heap m b \<noteq> None"
proof (induction obj and kv rule: obj_blocks_map_blocks.induct)
  case (1 d kv)
  then show ?case using own_blocks_live [of m d kv b] by auto
qed auto

lemma free_buf_own:
  assumes "d_was_alloc d \<longrightarrow> (\<forall>p. d_buf d = Some p \<longrightarrow> snd p = 0 \<and> heap m (fst p) \<noteq> None)"
  shows "(if d_was_alloc d then free_buf m d else Some m) = Some (free_blocks m (own_blocks d))"
  using assms
  by (cases "d_was_alloc d"; cases "d_buf d")
    (simp_all add: free_buf_def mfree_def own_blocks_def free_blocks_def fun_eq_iff)

lemma obj_destroy_frees:
  "obj_owned m obj \<Longrightarrow> distinct (obj_blocks obj) \<Longrightarrow>
   obj_destroy m obj = Some (free_blocks m (obj_blocks obj))"
  and map_destroy_frees:
  "map_owned m kv \<Longrightarrow> distinct (map_blocks kv) \<Longrightarrow>
   map_destroy m kv = Some (free_blocks m (map_blocks kv))"
proof (induction obj and kv arbitrary: m and m rule: obj_blocks_map_blocks.induct)
  case (1 d kv)
  have "map_owned (free_blocks m (own_blocks d)) kv"
    using 1 by (subst map_owned_frame [of kv _ m]) auto
  then show ?case using 1 free_buf_own [of d m] by simp
next
  case (5 k obj kv)
  have "map_owned (free_blocks m (obj_blocks obj)) kv"
    using 5 by (subst map_owned_frame [of kv _ m]) auto
  then show ?case using 5 by simp
qed simp_all

text \<open>
  C14: destroying a message of any nesting is defined (no block is freed twice, no pointer
  that is not the start of a live block is freed) and frees exactly the blocks it owns.
\<close>

theorem destroy_frees_owned:
  assumes "obj_owned m obj" "distinct (obj_blocks obj)"
  shows "\<exists>m'. obj_destroy m obj = Some m' \<and>
    (\<forall>b. heap m' b = (if b \<in> set (obj_blocks obj) then None else heap m b))"
  using obj_destroy_frees [OF assms] by simp

lemma destroy_frees_owned_witness:
  "\<exists>m'. obj_destroy \<lparr>heap = [3 \<mapsto> [1], 4 \<mapsto> [2]], next_block = 5, malloc_limit = 9, malloc_fill = (\<lambda>_. 0)\<rparr>
      (ObjDson (dson_fields [])
        [(1, ObjDson ((dson_fields [])\<lparr>d_buf := Some (4, 0), d_was_alloc := True\<rparr>) [])]) = Some m' \<and>
    (\<forall>b. heap m' b = (if b \<in> set (obj_blocks (ObjDson (dson_fields [])
        [(1, ObjDson ((dson_fields [])\<lparr>d_buf := Some (4, 0), d_was_alloc := True\<rparr>) [])])) then None
      else heap \<lparr>heap = [3 \<mapsto> [1], 4 \<mapsto> [2]], next_block = 5, malloc_limit = 9, malloc_fill = (\<lambda>_. 0)\<rparr> b))"
  by (rule destroy_frees_owned) (simp_all add: dson_fields_def own_blocks_def)

text \<open>\<open>clear\<close> leaves an empty container at rest; a view keeps its pointer.\<close>

definition cleared :: "dson \<Rightarrow> dson" where
  "cleared d = d\<lparr>d_buf := if d_was_alloc d then None else d_buf d, d_was_alloc := False,
     d_buf_size := 0, d_kind := DsonContainer, d_iter := None, d_state := StReady\<rparr>"

lemma dson_clear_eq:
  assumes "obj_owned m (ObjDson d kv)" "distinct (obj_blocks (ObjDson d kv))"
  shows "dson_clear m d kv = Some (free_blocks m (obj_blocks (ObjDson d kv)), cleared d, [])"
proof -
  have "map_owned (free_blocks m (own_blocks d)) kv"
    using assms by (subst map_owned_frame [of kv _ m]) auto
  then show ?thesis
    using assms free_buf_own [of d m] map_destroy_frees [of "free_blocks m (own_blocks d)" kv]
    by (simp add: dson_clear_def cleared_def)
qed

end
