(* ===== verification/Dson_Receive.thy ===== *)
theory Dson_Receive
  imports Dson_Memory
begin

text \<open>
  Correctness of loading: a message of header \<open>h\<close> and data \<open>dat\<close> that arrives in any
  portions is stored exactly, the load answers \<open>Ready\<close> with its last byte and not before,
  and no byte after it is consumed.
\<close>

section \<open>A load in progress\<close>

type_synonym dson_state = "mem \<times> dson \<times> kvmap"

definition msg_fits :: "mem \<Rightarrow> byte list \<Rightarrow> byte list \<Rightarrow> bool" where
  "msg_fits m h dat \<longleftrightarrow> length h = 16 \<and> hdr_field h 1 = int (length dat) \<and>
     int (length dat) \<le> max_dson_ram_size \<and> length dat \<le> malloc_limit m"

text \<open>An object that is not a view and owns its memory properly can start a load from any state.\<close>

definition can_load :: "mem \<Rightarrow> dson \<Rightarrow> kvmap \<Rightarrow> bool" where
  "can_load m d kv \<longleftrightarrow> header_loc d = None \<and> obj_owned m (ObjDson d kv) \<and>
     distinct (obj_blocks (ObjDson d kv))"

definition header_part :: "byte list \<Rightarrow> dson \<Rightarrow> kvmap \<Rightarrow> bool" where
  "header_part h d kv \<longleftrightarrow> d_kind d = DataBufNeedParse \<and> kv = [] \<and> d_buf d = None \<and> \<not> d_was_alloc d \<and>
     0 \<le> d_offset d \<and> d_offset d < 16 \<and>
     take (nat (d_offset d)) (d_header d) = take (nat (d_offset d)) h"

definition data_part :: "byte list \<Rightarrow> byte list \<Rightarrow> mem \<Rightarrow> dson \<Rightarrow> kvmap \<Rightarrow> bool" where
  "data_part h dat m d kv \<longleftrightarrow> d_kind d = DataBufNeedParse \<and> kv = [] \<and> d_was_alloc d \<and> d_header d = h \<and>
     d_buf_size d = int (length dat) \<and> 0 \<le> d_offset d \<and> d_offset d < d_buf_size d \<and>
     (\<exists>b bs. d_buf d = Some (b, 0) \<and> heap m b = Some bs \<and> length bs = length dat \<and>
        take (nat (d_offset d)) bs = take (nat (d_offset d)) dat)"

text \<open>\<open>rest\<close> is what is still to come.\<close>

definition loading :: "byte list \<Rightarrow> byte list \<Rightarrow> dson_state \<Rightarrow> byte list \<Rightarrow> bool" where
  "loading h dat s rest \<longleftrightarrow> (case s of (m, d, kv) \<Rightarrow>
     msg_fits m h dat \<and> mem_ok m \<and> length (d_header d) = 16 \<and>
     (case d_state d of
        StLoadingHeader \<Rightarrow> header_part h d kv \<and> rest = drop (nat (d_offset d)) h @ dat
      | StLoadingData \<Rightarrow> data_part h dat m d kv \<and> rest = drop (nat (d_offset d)) dat
      | _ \<Rightarrow> can_load m d kv \<and> rest = h @ dat))"

text \<open>The complete message; an empty one is an empty container.\<close>

definition loaded_msg :: "byte list \<Rightarrow> byte list \<Rightarrow> dson_state \<Rightarrow> bool" where
  "loaded_msg h dat s \<longleftrightarrow> (case s of (m, d, kv) \<Rightarrow>
     mem_ok m \<and> d_state d = StReady \<and> kv = [] \<and> d_header d = h \<and>
     (if dat = [] then d_kind d = DsonContainer \<and> d_buf d = None \<and> \<not> d_was_alloc d
      else d_kind d = DataBufNeedParse \<and> d_was_alloc d \<and> d_buf_size d = int (length dat) \<and>
        (\<exists>b. d_buf d = Some (b, 0) \<and> heap m b = Some dat)))"

section \<open>Start and header\<close>

lemma mem_ok_free_blocks: "mem_ok m \<Longrightarrow> mem_ok (free_blocks m bs)"
  by (simp add: mem_ok_def)

lemma load_begin_loading:
  assumes "loading h dat (m, d, kv) rest" "d_state d \<noteq> StLoadingHeader" "d_state d \<noteq> StLoadingData"
  obtains m' d' where "load_begin m d kv = Some (m', d', [])" "d_state d' = StLoadingHeader"
    "loading h dat (m', d', []) rest"
proof -
  have c: "can_load m d kv" "rest = h @ dat" "msg_fits m h dat" "mem_ok m" "length (d_header d) = 16"
    using assms by (cases "d_state d"; simp add: loading_def)+
  let ?m = "free_blocks m (obj_blocks (ObjDson d kv))"
  let ?d = "(cleared d)\<lparr>d_offset := 0, d_state := StLoadingHeader, d_kind := DataBufNeedParse\<rparr>"
  have "d_buf ?d = None" "\<not> d_was_alloc ?d"
    using c(1) by (auto simp: can_load_def cleared_def header_loc_def)
  then have "loading h dat (?m, ?d, []) rest"
    using c by (simp add: loading_def header_part_def msg_fits_def mem_ok_free_blocks cleared_def)
  moreover have "load_begin m d kv = Some (?m, ?d, [])"
    using assms c dson_clear_eq [of m d kv] by (simp add: load_begin_def can_load_def)
  ultimately show ?thesis using that by simp
qed

lemma take_patch_prefix:
  "take i hs = take i h \<Longrightarrow> i + length xs \<le> length hs \<Longrightarrow> length hs \<le> length h \<Longrightarrow> xs = take (length xs) (drop i h) \<Longrightarrow>
   take (i + length xs) (patch hs i xs) = take (i + length xs) h"
  by (simp add: patch_def take_add)

text \<open>Some bytes of the header: the load goes on with the rest.\<close>

lemma store_header_part:
  assumes l: "loading h dat (m, d, kv) rest" "d_state d = StLoadingHeader"
    and xs: "xs = take (length xs) (drop (nat (d_offset d)) h)"
  defines "d' \<equiv> d\<lparr>d_header := patch (d_header d) (nat (d_offset d)) xs, d_offset := d_offset d + int (length xs)\<rparr>"
  shows "store_header d xs = Some (d\<lparr>d_header := patch (d_header d) (nat (d_offset d)) xs\<rparr>)"
    "d_offset d + int (length xs) < 16 \<Longrightarrow> loading h dat (m, d', kv) (drop (length xs) rest)"
    "d_offset d + int (length xs) = 16 \<Longrightarrow> d_header d' = h"
    "d_offset d + int (length xs) \<le> 16"
proof -
  let ?i = "nat (d_offset d)"
  have hp: "header_part h d kv" "rest = drop ?i h @ dat" "msg_fits m h dat" "mem_ok m" "length (d_header d) = 16"
    using l by (simp_all add: loading_def)
  have off: "0 \<le> d_offset d" "d_offset d < 16" and lh: "length h = 16"
    using hp by (simp_all add: header_part_def msg_fits_def)
  have lx: "length xs \<le> 16 - ?i" using xs lh by (metis length_drop length_take min.cobounded1)
  then show le: "d_offset d + int (length xs) \<le> 16" using off by simp
  have fits: "?i + length xs \<le> length (d_header d)" using lx off hp(5) by simp
  then show "store_header d xs = Some (d\<lparr>d_header := patch (d_header d) ?i xs\<rparr>)"
    using off by (simp add: store_header_def)
  have t: "take (?i + length xs) (patch (d_header d) ?i xs) = take (?i + length xs) h"
    by (rule take_patch_prefix) (use hp lh xs fits in \<open>auto simp: header_part_def\<close>)
  have n: "nat (d_offset d + int (length xs)) = ?i + length xs" using off by (simp add: nat_add_distrib)
  have len: "length (patch (d_header d) ?i xs) = 16" using fits hp(5) by simp
  show "loading h dat (m, d', kv) (drop (length xs) rest)" if "d_offset d + int (length xs) < 16"
    using that hp off l(2) t n len lx lh
    by (simp add: loading_def d'_def header_part_def add.commute)
  show "d_header d' = h" if "d_offset d + int (length xs) = 16"
  proof -
    have "?i + length xs = 16" using that off by simp
    then show ?thesis using t len lh by (simp add: d'_def)
  qed
qed

text \<open>A whole header.\<close>

lemma header_loaded_ok:
  assumes "msg_fits m h dat" "mem_ok m" "d_kind d = DataBufNeedParse" "d_buf d = None" "\<not> d_was_alloc d"
    "d_header d = h"
  shows "if dat = [] then \<exists>d'. header_loaded m d [] = Some (Some Ready, m, d') \<and> loaded_msg h dat (m, d', [])
    else \<exists>m' d'. header_loaded m d [] = Some (None, m', d') \<and> d_state d' = StLoadingData \<and>
      d_offset d' = 0 \<and> loading h dat (m', d', []) dat"
proof -
  have loc: "header_loc d = None" using assms by simp
  have sz: "dson_data_size m d [] = Some (int (length dat))"
    using assms loc by (simp add: dson_data_size_def local_simps msg_fits_def)
  have range: "\<not> int (length dat) < 0" "\<not> max_dson_ram_size < int (length dat)"
    using assms(1) by (simp_all add: msg_fits_def)
  show ?thesis
  proof (cases "dat = []")
    case True
    then show ?thesis using assms sz range
      by (simp add: header_loaded_def loaded_msg_def)
  next
    case False
    let ?b = "next_block m"
    let ?m = "m\<lparr>heap := (heap m)(?b := Some (map (malloc_fill m) [0..<length dat])),
                 next_block := Suc ?b\<rparr>"
    let ?d = "d\<lparr>d_buf := Some (?b, 0), d_was_alloc := True, d_buf_size := int (length dat)\<rparr>"
    have "malloc m (length dat) = (Some (?b, 0), ?m)"
      using assms(1) by (simp add: malloc_def msg_fits_def)
    then have al: "allocate m d (int (length dat)) = Some (Some (?b, 0), ?m, ?d)"
      using False assms by (simp add: allocate_def)
    have "mem_ok ?m" using assms(2) by (auto simp: mem_ok_def)
    then have "loading h dat (?m, ?d\<lparr>d_offset := 0, d_state := StLoadingData\<rparr>, []) dat"
      using assms False by (simp add: loading_def data_part_def msg_fits_def)
    then show ?thesis using False sz range al by (simp add: header_loaded_def)
  qed
qed

section \<open>Data\<close>

lemma store_data_part:
  assumes l: "loading h dat (m, d, kv) rest" "d_state d = StLoadingData"
    and xs: "xs = take (length xs) rest"
  obtains m' where "store_data m d xs = Some m'"
    "d_offset d + int (length xs) < d_buf_size d \<Longrightarrow>
       loading h dat (m', d\<lparr>d_offset := d_offset d + int (length xs)\<rparr>, kv) (drop (length xs) rest)"
    "d_offset d + int (length xs) = d_buf_size d \<Longrightarrow>
       loaded_msg h dat (m', d\<lparr>d_offset := d_offset d + int (length xs), d_state := StReady\<rparr>, kv)"
    "d_offset d + int (length xs) \<le> d_buf_size d" "int (length rest) = d_buf_size d - d_offset d"
    "d_offset d < d_buf_size d"
proof -
  let ?i = "nat (d_offset d)"
  have dp: "data_part h dat m d kv" "rest = drop ?i dat" "msg_fits m h dat" "mem_ok m"
    using l by (simp_all add: loading_def)
  obtain b bs where b: "d_buf d = Some (b, 0)" "heap m b = Some bs" "length bs = length dat"
    "take ?i bs = take ?i dat" "0 \<le> d_offset d" "d_offset d < d_buf_size d" "d_buf_size d = int (length dat)"
    using dp(1) by (auto simp: data_part_def)
  have lr: "int (length rest) = d_buf_size d - d_offset d" using dp(2) b by simp
  have lx: "length xs \<le> length rest" using xs by (metis length_take min.cobounded1)
  then have le: "d_offset d + int (length xs) \<le> d_buf_size d" using lr by simp
  have fits: "?i + length xs \<le> length bs" using le b by simp
  let ?bs = "patch bs ?i xs"
  let ?m = "upd_block m b ?bs"
  have st: "store_data m d xs = Some ?m"
    using b fits by (simp add: store_data_def mwrite_eq [of _ _ bs])
  have t: "take (?i + length xs) ?bs = take (?i + length xs) dat"
    by (rule take_patch_prefix) (use b fits xs dp(2) in auto)
  have n: "nat (d_offset d + int (length xs)) = ?i + length xs" using b by (simp add: nat_add_distrib)
  have ok: "mem_ok ?m" using dp(4) b(2) by (rule mem_ok_upd_block)
  have len: "length ?bs = length dat" using fits b by simp
  have part: "loading h dat (?m, d\<lparr>d_offset := d_offset d + int (length xs)\<rparr>, kv) (drop (length xs) rest)"
    if "d_offset d + int (length xs) < d_buf_size d"
    using that l(2) dp b ok n t len
    by (simp add: loading_def data_part_def msg_fits_def add.commute)
  have full: "loaded_msg h dat (?m, d\<lparr>d_offset := d_offset d + int (length xs), d_state := StReady\<rparr>, kv)"
    if "d_offset d + int (length xs) = d_buf_size d"
  proof -
    have "?i + length xs = length dat" using that b by simp
    then have "?bs = dat" using t len by simp
    moreover have "dat \<noteq> []" using b by auto
    ultimately show ?thesis using dp(1) b ok by (simp add: loaded_msg_def data_part_def)
  qed
  show ?thesis using that [OF st part full le lr b(6)] .
qed

section \<open>Loading from buffers\<close>

definition buf_load_step :: "dson_state \<Rightarrow> byte list \<Rightarrow> (result \<times> dson_state) option" where
  "buf_load_step s xs = (case s of (m, d, kv) \<Rightarrow> load_from_buf m d kv xs (int (length xs)))"

text \<open>What a call that got \<open>xs\<close> of the bytes still missing must have done.\<close>

definition load_progress :: "byte list \<Rightarrow> byte list \<Rightarrow> byte list \<Rightarrow> (result \<times> dson_state) option \<Rightarrow> bool" where
  "load_progress h dat ys res \<longleftrightarrow>
     (if ys = [] then \<exists>s'. res = Some (Ready, s') \<and> loaded_msg h dat s'
      else \<exists>s'. res = Some (InProcess, s') \<and> loading h dat s' ys)"

lemma load_data_buf_progress:
  assumes "loading h dat (m, d, kv) (xs @ ys)" "d_state d = StLoadingData"
  shows "load_progress h dat ys (load_data_buf m d kv xs (int (length xs)))"
proof -
  obtain m' where st: "store_data m d xs = Some m'"
    and part: "d_offset d + int (length xs) < d_buf_size d \<Longrightarrow>
       loading h dat (m', d\<lparr>d_offset := d_offset d + int (length xs)\<rparr>, kv) (drop (length xs) (xs @ ys))"
    and full: "d_offset d + int (length xs) = d_buf_size d \<Longrightarrow>
       loaded_msg h dat (m', d\<lparr>d_offset := d_offset d + int (length xs), d_state := StReady\<rparr>, kv)"
    and le: "d_offset d + int (length xs) \<le> d_buf_size d"
      "int (length (xs @ ys)) = d_buf_size d - d_offset d" "d_offset d < d_buf_size d"
    by (rule store_data_part [OF assms, of xs]) auto
  have r: "(if int (length xs) < d_buf_size d - d_offset d then int (length xs)
      else d_buf_size d - d_offset d) = int (length xs)" using le by simp
  have iff: "d_offset d + int (length xs) = d_buf_size d \<longleftrightarrow> ys = []" using le(2) by (cases ys) auto
  show ?thesis
    using st part full le iff r
    by (cases "ys = []") (simp_all add: load_data_buf_def load_progress_def take_buf_def)
qed

lemma load_header_buf_progress:
  assumes l: "loading h dat (m, d, kv) (xs @ ys)" "d_state d = StLoadingHeader" and ne: "xs \<noteq> []"
  shows "load_progress h dat ys (load_header_buf m d kv xs (int (length xs)))"
proof -
  let ?i = "nat (d_offset d)"
  have hp: "header_part h d kv" "xs @ ys = drop ?i h @ dat" "msg_fits m h dat" "mem_ok m"
    using l by (simp_all add: loading_def)
  have off: "0 \<le> d_offset d" "d_offset d < 16" and lh: "length h = 16" and kv: "kv = []"
    using hp by (simp_all add: header_part_def msg_fits_def)
  define n where "n = min (length xs) (16 - ?i)"
  let ?ts = "take n xs"
  have nle: "n \<le> length xs" and lt: "length ?ts = n" by (simp_all add: n_def)
  have "?ts = take n (drop ?i h @ dat)" unfolding hp(2) [symmetric] by (simp add: n_def)
  also have "\<dots> = take n (drop ?i h)" using lh by (simp add: n_def)
  finally have ts: "?ts = take (length ?ts) (drop ?i h)" unfolding lt .
  note sh = store_header_part [OF l ts]
  let ?d = "d\<lparr>d_header := patch (d_header d) ?i ?ts, d_offset := d_offset d + int n\<rparr>"
  have readed: "(if int (length xs) < int header_size - d_offset d then int (length xs)
      else int header_size - d_offset d) = int n"
    using off by (auto simp: n_def min_def header_size_def)
  have e: "load_header_buf m d kv xs (int (length xs)) =
      (if d_offset d + int n < 16 then Some (InProcess, m, ?d, kv)
       else do {
         (r, m, d) \<leftarrow> header_loaded m ?d kv;
         case r of
           Some r \<Rightarrow> Some (r, m, d, kv)
         | None \<Rightarrow>
             if int (length xs) - int n = 0 then Some (InProcess, m, d, kv)
             else load_data_buf m d kv (drop (nat (int n)) xs) (int (length xs) - int n)
       })"
    using sh(1) off nle
    by (simp only: load_header_buf_def readed Let_def) (simp add: take_buf_def header_size_def)
  show ?thesis
  proof (cases "d_offset d + int n < 16")
    case True
    then have "n = length xs" using off by (auto simp: n_def min_def split: if_splits)
    moreover from this True have "ys \<noteq> []"
      using arg_cong [OF hp(2), of length] lh off by auto
    ultimately show ?thesis using e True sh(2) lt by (simp add: load_progress_def)
  next
    case False
    then have n16: "d_offset d + int n = 16" using sh(4) lt by simp
    then have ni: "n = 16 - ?i" using off by simp
    have hd: "d_header ?d = h" using sh(3) n16 lt by simp
    have rest: "drop n xs @ ys = dat"
      using arg_cong [OF hp(2), of "drop n"] nle ni lh by simp
    have base: "d_kind ?d = DataBufNeedParse" "d_buf ?d = None" "\<not> d_was_alloc ?d"
      using hp(1) by (simp_all add: header_part_def)
    note hl = header_loaded_ok [OF hp(3,4) base hd]
    show ?thesis
    proof (cases "dat = []")
      case True
      then obtain d' where "header_loaded m ?d [] = Some (Some Ready, m, d')" "loaded_msg h dat (m, d', [])"
        using hl by auto
      moreover have "ys = []" using rest True by simp
      ultimately show ?thesis using e n16 kv by (simp add: load_progress_def)
    next
      case False
      then obtain m' d' where d': "header_loaded m ?d [] = Some (None, m', d')"
        "d_state d' = StLoadingData" "loading h dat (m', d', []) dat"
        using hl by auto
      show ?thesis
      proof (cases "n = length xs")
        case True
        then have "ys = dat" using rest by simp
        then show ?thesis using e n16 kv d' True False by (simp add: load_progress_def)
      next
        case False
        have "loading h dat (m', d', []) (drop n xs @ ys)" using d'(3) rest by simp
        from load_data_buf_progress [OF this d'(2)]
        show ?thesis using e n16 kv d' False nle by (simp add: of_nat_diff)
      qed
    qed
  qed
qed

lemma buf_load_progress:
  assumes l: "loading h dat s (xs @ ys)" and ne: "xs \<noteq> []"
  shows "load_progress h dat ys (buf_load_step s xs)"
proof -
  obtain m d kv where s: "s = (m, d, kv)" by (cases s)
  have eq: "buf_load_step s xs = load_from_buf m d kv xs (int (length xs))"
    by (simp add: buf_load_step_def s)
  consider "d_state d = StLoadingHeader" | "d_state d = StLoadingData"
    | "d_state d \<noteq> StLoadingHeader" "d_state d \<noteq> StLoadingData" by blast
  then show ?thesis
  proof cases
    case 1
    then show ?thesis unfolding eq using load_header_buf_progress l ne
      by (simp add: s load_from_buf_def load_begin_def)
  next
    case 2
    then show ?thesis unfolding eq using load_data_buf_progress l
      by (simp add: s load_from_buf_def load_begin_def)
  next
    case 3
    obtain m' d' where b: "load_begin m d kv = Some (m', d', [])" "d_state d' = StLoadingHeader"
      "loading h dat (m', d', []) (xs @ ys)"
      using load_begin_loading [OF l [unfolded s] 3] by blast
    then show ?thesis using load_header_buf_progress [OF b(3,2) ne] by (simp add: eq load_from_buf_def)
  qed
qed

interpretation buf_reader: resumable_reader buf_load_step "loading h dat" "\<lambda>s xs t. loaded_msg h dat t"
  for h dat
proof
  show "\<exists>s'. buf_load_step s xs = Some (InProcess, s') \<and> loading h dat s' ys \<and>
      (\<forall>t. loaded_msg h dat t \<longrightarrow> loaded_msg h dat t)"
    if "loading h dat s (xs @ ys)" "xs \<noteq> []" "ys \<noteq> []" for s xs ys
    using buf_load_progress [OF that(1,2)] that(3) by (auto simp: load_progress_def)
  show "\<exists>s'. buf_load_step s xs = Some (Ready, s') \<and> loaded_msg h dat s'"
    if "loading h dat s xs" "xs \<noteq> []" for s xs
    using buf_load_progress [of h dat s xs "[]"] that by (simp add: load_progress_def)
qed

text \<open>
  C3: a message that arrives in non-empty portions of any sizes is loaded exactly.  From any
  state that is not a load (a finished, a failed or an interrupted operation), the calls of
  \<open>load_from_buf\<close> answer \<open>InProcess\<close> up to the last portion and then \<open>Ready\<close>; the object
  then holds the header, and the data in a buffer of its own of exactly that size.
\<close>

theorem load_from_buf_any_portions:
  assumes "length h = 16" "hdr_field h 1 = int (length dat)" "int (length dat) \<le> max_dson_ram_size"
    and "length dat \<le> malloc_limit m" "mem_ok m" "length (d_header d) = 16"
    and "d_state d \<notin> {StLoadingHeader, StLoadingData}" "can_load m d kv"
    and "concat portions = h @ dat" "\<forall>xs \<in> set portions. xs \<noteq> []"
  shows "\<exists>s. feed buf_load_step (m, d, kv) portions = Some (Ready, s) \<and> loaded_msg h dat s"
proof -
  have "loading h dat (m, d, kv) (concat portions)"
    using assms by (cases "d_state d") (simp_all add: loading_def msg_fits_def)
  moreover have "portions \<noteq> []" using assms(1,9) by auto
  ultimately show ?thesis using buf_reader.feed_complete assms(10) by blast
qed

lemma load_from_buf_any_portions_witness:
  "\<exists>s. feed buf_load_step (\<lparr>heap = Map.empty, next_block = 0, malloc_limit = 10, malloc_fill = (\<lambda>_. 0)\<rparr>,
        dson_fields (replicate 16 0), []) [take 5 (net_hdr 2 1 2 @ [7, 8]), drop 5 (net_hdr 2 1 2 @ [7, 8])] =
      Some (Ready, s) \<and> loaded_msg (net_hdr 2 1 2) [7, 8] s"
proof (rule load_from_buf_any_portions)
  have "net_hdr 2 1 2 \<noteq> []" by (metis length_hdrs(2) list.size(3) zero_neq_numeral)
  then show "\<forall>xs \<in> set [take 5 (net_hdr 2 1 2 @ [7, 8]), drop 5 (net_hdr 2 1 2 @ [7, 8])]. xs \<noteq> []"
    by simp
  show "hdr_field (net_hdr 2 1 2) 1 = int (length [7, 8 :: byte])"
    using hdr_field_for(1) [of 2 True 1 2] by (simp add: hdr_for_def)
qed (simp_all add: max_dson_ram_size_def mem_ok_def dson_fields_def can_load_def own_blocks_def)

section \<open>Loading from a descriptor\<close>

definition soft_reads :: "rcall list \<Rightarrow> bool" where
  "soft_reads script \<longleftrightarrow> (\<forall>c \<in> set script. case c of
     RdGive n \<Rightarrow> True | RdFail e \<Rightarrow> e = EAGAIN \<or> e = EWOULDBLOCK)"

lemma read_from_fd_soft:
  assumes "soft_reads (r_script fd)"
  obtains k fd' where "read_from_fd fd n = (int k, take k (r_data fd), fd')" "k \<le> n"
    "k \<le> length (r_data fd)" "r_data fd' = drop k (r_data fd)" "soft_reads (r_script fd')"
proof (cases "r_script fd")
  case Nil
  then show ?thesis using that [of 0 fd] assms by (simp add: read_from_fd_def sys_read_def)
next
  case (Cons c script)
  show ?thesis
  proof (cases c)
    case (RdGive k)
    then show ?thesis
      using that [of "min (min k n) (length (r_data fd))"
          "fd\<lparr>r_script := script, r_data := drop (min k n) (r_data fd)\<rparr>"] Cons assms
      by (simp add: read_from_fd_def sys_read_def min_def soft_reads_def)
  next
    case (RdFail e)
    then show ?thesis
      using that [of 0] Cons assms by (simp add: read_from_fd_def sys_read_def soft_reads_def)
  qed
qed

text \<open>
  Of the missing bytes \<open>rest\<close> a call reads some; \<open>extra\<close>, what follows in the stream, it
  never touches.
\<close>

definition fd_progress :: "byte list \<Rightarrow> byte list \<Rightarrow> byte list \<Rightarrow> byte list \<Rightarrow>
    (result \<times> mem \<times> dson \<times> kvmap \<times> rfd) option \<Rightarrow> bool" where
  "fd_progress h dat rest extra res \<longleftrightarrow> (\<exists>k r m d kv fd. res = Some (r, m, d, kv, fd) \<and>
     k \<le> length rest \<and> r_data fd = drop k rest @ extra \<and> soft_reads (r_script fd) \<and>
     (if k = length rest then r = Ready \<and> loaded_msg h dat (m, d, kv)
      else r = InProcess \<and> loading h dat (m, d, kv) (drop k rest)))"

lemma load_data_fd_progress:
  assumes l: "loading h dat (m, d, kv) rest" "d_state d = StLoadingData"
    and fd: "r_data fd = rest @ extra" "soft_reads (r_script fd)"
  shows "fd_progress h dat rest extra (load_data_fd m d kv fd)"
proof -
  obtain k fd' where rd: "read_from_fd fd (nat (d_buf_size d - d_offset d)) = (int k, take k (r_data fd), fd')"
    "k \<le> nat (d_buf_size d - d_offset d)" "r_data fd' = drop k (r_data fd)" "soft_reads (r_script fd')"
    using read_from_fd_soft [OF fd(2)] by metis
  have bs: "int (length rest) = d_buf_size d - d_offset d" "d_offset d < d_buf_size d"
    by (rule store_data_part [OF l, of "[]"], simp, simp)+
  have kl: "k \<le> length rest" using rd(2) bs by simp
  then have x: "take k (r_data fd) = take k rest" "length (take k rest) = k" using fd(1) by simp_all
  obtain m' where st: "store_data m d (take k rest) = Some m'"
    and part: "d_offset d + int k < d_buf_size d \<Longrightarrow>
       loading h dat (m', d\<lparr>d_offset := d_offset d + int k\<rparr>, kv) (drop k rest)"
    and full: "d_offset d + int k = d_buf_size d \<Longrightarrow>
       loaded_msg h dat (m', d\<lparr>d_offset := d_offset d + int k, d_state := StReady\<rparr>, kv)"
    by (rule store_data_part [OF l, of "take k rest"]) (use x in auto)
  have iff: "d_offset d + int k = d_buf_size d \<longleftrightarrow> k = length rest" using bs by auto
  have e: "load_data_fd m d kv fd = (if k = length rest
      then Some (Ready, m', d\<lparr>d_offset := d_offset d + int k, d_state := StReady\<rparr>, kv, fd')
      else Some (InProcess, m', d\<lparr>d_offset := d_offset d + int k\<rparr>, kv, fd'))"
    using bs(2) rd(1) st x iff by (simp add: load_data_fd_def)
  have "r_data fd' = drop k rest @ extra" using rd(3) fd(1) kl by simp
  then show ?thesis
    using e part full iff kl bs rd(4) unfolding fd_progress_def by (cases "k = length rest") auto
qed

lemma load_header_fd_progress:
  assumes l: "loading h dat (m, d, kv) rest" "d_state d = StLoadingHeader"
    and fd: "r_data fd = rest @ extra" "soft_reads (r_script fd)"
  shows "fd_progress h dat rest extra (load_header_fd m d kv fd)"
proof -
  let ?i = "nat (d_offset d)"
  have hp: "header_part h d kv" "rest = drop ?i h @ dat" "msg_fits m h dat" "mem_ok m"
    using l by (simp_all add: loading_def)
  have off: "0 \<le> d_offset d" "d_offset d < 16" and lh: "length h = 16" and kv: "kv = []"
    using hp by (simp_all add: header_part_def msg_fits_def)
  obtain k fd' where rd: "read_from_fd fd (nat (int header_size - d_offset d)) = (int k, take k (r_data fd), fd')"
    "k \<le> nat (int header_size - d_offset d)" "r_data fd' = drop k (r_data fd)" "soft_reads (r_script fd')"
    using read_from_fd_soft [OF fd(2)] by metis
  have k16: "k \<le> 16 - ?i" using rd(2) off by (simp add: header_size_def)
  have lr: "length rest = 16 - ?i + length dat" using hp(2) lh by simp
  then have kl: "k \<le> length rest" using k16 by simp
  let ?ts = "take k rest"
  have lt: "length ?ts = k" using kl by simp
  have ts: "?ts = take (length ?ts) (drop ?i h)" unfolding lt hp(2) using k16 lh by simp
  have x: "take k (r_data fd) = ?ts" using kl fd(1) by simp
  note sh = store_header_part [OF l ts, unfolded lt]
  let ?d = "d\<lparr>d_header := patch (d_header d) ?i ?ts, d_offset := d_offset d + int k\<rparr>"
  have data: "r_data fd' = drop k rest @ extra" using rd(3) fd(1) kl by simp
  have e: "load_header_fd m d kv fd =
      (if d_offset d + int k < 16 then Some (InProcess, m, ?d, kv, fd')
       else do {
         (r, m, d) \<leftarrow> header_loaded m ?d kv;
         case r of Some r \<Rightarrow> Some (r, m, d, kv, fd') | None \<Rightarrow> load_data_fd m d kv fd'
       })"
    using sh(1) off rd(1) x by (simp add: load_header_fd_def header_size_def)
  show ?thesis
  proof (cases "d_offset d + int k < 16")
    case True
    then have "k \<noteq> length rest" using lr off by auto
    then show ?thesis using e True sh(2) kl data rd(4) unfolding fd_progress_def by auto
  next
    case False
    then have n16: "d_offset d + int k = 16" using sh(4) by simp
    have rest: "drop k rest = dat" using hp(2) n16 lh off by simp
    have base: "d_kind ?d = DataBufNeedParse" "d_buf ?d = None" "\<not> d_was_alloc ?d" "d_header ?d = h"
      using hp(1) sh(3) n16 by (simp_all add: header_part_def)
    note hl = header_loaded_ok [OF hp(3,4) base]
    show ?thesis
    proof (cases "dat = []")
      case True
      then obtain d' where "header_loaded m ?d [] = Some (Some Ready, m, d')" "loaded_msg h dat (m, d', [])"
        using hl by auto
      moreover have "k = length rest" using rest True kl by simp
      ultimately show ?thesis using e n16 kv data rd(4) unfolding fd_progress_def by auto
    next
      case False
      then obtain m' d' where d': "header_loaded m ?d [] = Some (None, m', d')"
        "d_state d' = StLoadingData" "loading h dat (m', d', []) dat"
        using hl by auto
      have "fd_progress h dat dat extra (load_data_fd m' d' [] fd')"
        by (rule load_data_fd_progress [OF d'(3,2)]) (use data rest rd(4) in simp_all)
      then obtain j r m2 d2 kv2 fd2 where j: "load_data_fd m' d' [] fd' = Some (r, m2, d2, kv2, fd2)"
        "j \<le> length dat" "r_data fd2 = drop j dat @ extra" "soft_reads (r_script fd2)"
        "if j = length dat then r = Ready \<and> loaded_msg h dat (m2, d2, kv2)
         else r = InProcess \<and> loading h dat (m2, d2, kv2) (drop j dat)"
        unfolding fd_progress_def by blast
      have "length rest = k + length dat" "drop (k + j) rest = drop j dat"
        using rest kl by (metis le_add_diff_inverse length_drop, metis add.commute drop_drop rest)
      then show ?thesis
        using e n16 kv d'(1) j unfolding fd_progress_def
        by (intro exI [of _ "k + j"] exI [of _ r] exI [of _ m2] exI [of _ d2] exI [of _ kv2] exI [of _ fd2]) auto
    qed
  qed
qed

lemma load_from_fd_fd_progress:
  assumes "loading h dat (m, d, kv) rest" "r_data fd = rest @ extra" "soft_reads (r_script fd)"
  shows "fd_progress h dat rest extra (load_from_fd m d kv fd)"
proof -
  consider "d_state d = StLoadingHeader" | "d_state d = StLoadingData"
    | "d_state d \<noteq> StLoadingHeader" "d_state d \<noteq> StLoadingData" by blast
  then show ?thesis
  proof cases
    case 1
    then show ?thesis using load_header_fd_progress assms by (simp add: load_from_fd_def load_begin_def)
  next
    case 2
    then show ?thesis using load_data_fd_progress assms by (simp add: load_from_fd_def load_begin_def)
  next
    case 3
    obtain m' d' where b: "load_begin m d kv = Some (m', d', [])" "d_state d' = StLoadingHeader"
      "loading h dat (m', d', []) rest"
      using load_begin_loading [OF assms(1) 3] by blast
    then show ?thesis using load_header_fd_progress [OF b(3,2) assms(2,3)] by (simp add: load_from_fd_def)
  qed
qed

text \<open>
  C13: loading from a descriptor that gives its bytes in any pieces, or none for now.  A call
  made while \<open>rest\<close> is missing, followed in the stream by \<open>extra\<close>, reads a first part of
  \<open>rest\<close> and nothing of \<open>extra\<close>; it answers \<open>Ready\<close>, with the message complete, exactly
  when it read all of \<open>rest\<close>, and otherwise \<open>InProcess\<close>, the load waiting for what is left.
\<close>

theorem load_from_fd_progress:
  assumes "loading h dat (m, d, kv) rest" "r_data fd = rest @ extra" "soft_reads (r_script fd)"
  shows "\<exists>k r m' d' kv' fd'. load_from_fd m d kv fd = Some (r, m', d', kv', fd') \<and>
    k \<le> length rest \<and> r_data fd' = drop k rest @ extra \<and>
    (if k = length rest then r = Ready \<and> loaded_msg h dat (m', d', kv')
     else r = InProcess \<and> loading h dat (m', d', kv') (drop k rest))"
  using load_from_fd_fd_progress [OF assms] unfolding fd_progress_def by blast

lemma load_from_fd_progress_witness:
  "\<exists>k r m' d' kv' fd'. load_from_fd \<lparr>heap = Map.empty, next_block = 0, malloc_limit = 10, malloc_fill = (\<lambda>_. 0)\<rparr>
      (dson_fields (replicate 16 0)) [] \<lparr>r_script = [RdGive 16, RdGive 1], r_data = (net_hdr 2 1 2 @ [7, 8]) @ [9]\<rparr> =
      Some (r, m', d', kv', fd') \<and>
    k \<le> length (net_hdr 2 1 2 @ [7, 8]) \<and> r_data fd' = drop k (net_hdr 2 1 2 @ [7, 8]) @ [9] \<and>
    (if k = length (net_hdr 2 1 2 @ [7, 8]) then r = Ready \<and> loaded_msg (net_hdr 2 1 2) [7, 8] (m', d', kv')
     else r = InProcess \<and> loading (net_hdr 2 1 2) [7, 8] (m', d', kv') (drop k (net_hdr 2 1 2 @ [7, 8])))"
proof (rule load_from_fd_progress)
  have "hdr_field (net_hdr 2 1 2) 1 = int (length [7, 8 :: byte])"
    using hdr_field_for(1) [of 2 True 1 2] by (simp add: hdr_for_def)
  then show "loading (net_hdr 2 1 2) [7, 8]
      (\<lparr>heap = Map.empty, next_block = 0, malloc_limit = 10, malloc_fill = (\<lambda>_. 0)\<rparr>,
       dson_fields (replicate 16 0), []) (net_hdr 2 1 2 @ [7, 8])"
    by (simp add: loading_def msg_fits_def max_dson_ram_size_def mem_ok_def dson_fields_def can_load_def
        own_blocks_def)
qed (simp_all add: soft_reads_def)

section \<open>Loading from a stream\<close>

lemma load_from_stream_complete:
  assumes "length h = 16" "hdr_field h 1 = int (length dat)" "int (length dat) \<le> max_dson_ram_size"
    and "length dat \<le> malloc_limit m" "mem_ok m" "length (d_header d) = 16" "can_load m d kv"
  shows "\<exists>m' d' kv'. load_from_stream m d kv (h @ dat @ extra) = Some (m', d', kv', extra) \<and>
    loaded_msg h dat (m', d', kv')"
proof -
  let ?m = "free_blocks m (obj_blocks (ObjDson d kv))"
  have c: "dson_clear m d kv = Some (?m, cleared d, [])"
    using dson_clear_eq [of m d kv] assms(7) by (simp add: can_load_def)
  have f: "d_buf (cleared d) = None" "\<not> d_was_alloc (cleared d)" "length (d_header (cleared d)) = 16"
    using assms(6,7) by (auto simp: can_load_def cleared_def header_loc_def)
  have ok: "mem_ok ?m" using assms(5) by (rule mem_ok_free_blocks)
  let ?d = "(cleared d)\<lparr>d_header := h, d_kind := DataBufNeedParse\<rparr>"
  have p: "patch (d_header (cleared d)) 0 h = h" using f(3) assms(1) by (simp add: patch_all)
  have sz: "dson_data_size ?m ?d [] = Some (int (length dat))"
    using f assms(2) by (simp add: dson_data_size_def local_simps)
  have r: "\<not> int (length dat) < 0" "\<not> max_dson_ram_size < int (length dat)" using assms(3) by simp_all
  show ?thesis
  proof (cases "dat = []")
    case True
    have "load_from_stream m d kv (h @ dat @ extra) =
        Some (?m, ?d\<lparr>d_state := StReady, d_kind := DsonContainer\<rparr>, [], extra)"
      using c sz r True assms(1) p
      by (simp add: load_from_stream_def stream_read_def header_size_def)
    moreover have "loaded_msg h dat (?m, ?d\<lparr>d_state := StReady, d_kind := DsonContainer\<rparr>, [])"
      using True ok f by (simp add: loaded_msg_def)
    ultimately show ?thesis by blast
  next
    case False
    let ?b = "next_block ?m"
    let ?m1 = "?m\<lparr>heap := (heap ?m)(?b := Some (map (malloc_fill ?m) [0..<length dat])), next_block := Suc ?b\<rparr>"
    let ?d1 = "?d\<lparr>d_buf := Some (?b, 0), d_was_alloc := True, d_buf_size := int (length dat)\<rparr>"
    let ?m2 = "upd_block ?m1 ?b dat"
    have "malloc ?m (length dat) = (Some (?b, 0), ?m1)" using assms(4) by (simp add: malloc_def)
    then have al: "allocate ?m ?d (int (length dat)) = Some (Some (?b, 0), ?m1, ?d1)"
      using False f by (simp add: allocate_def)
    have w: "mwrite ?m1 (?b, 0) dat = Some ?m2"
      by (subst mwrite_eq [of _ _ "map (malloc_fill ?m) [0..<length dat]"]) (simp_all add: patch_all)
    have "load_from_stream m d kv (h @ dat @ extra) = Some (?m2, ?d1\<lparr>d_state := StReady\<rparr>, [], extra)"
      using c sz r False assms(1) p al w
      by (simp add: load_from_stream_def stream_read_def header_size_def)
    moreover have "mem_ok ?m2" using ok by (auto simp: mem_ok_def)
    then have "loaded_msg h dat (?m2, ?d1\<lparr>d_state := StReady\<rparr>, [])"
      using False by (simp add: loaded_msg_def)
    ultimately show ?thesis by blast
  qed
qed

text \<open>
  \<open>load_from_stream\<close> takes exactly one message off the stream when it is there, and
  leaves the rest.
\<close>

theorem load_from_stream_one_message:
  assumes "length h = 16" "hdr_field h 1 = int (length dat)" "int (length dat) \<le> max_dson_ram_size"
    and "length dat \<le> malloc_limit m" "mem_ok m" "length (d_header d) = 16" "can_load m d kv"
  shows "\<exists>m' d' kv'. load_from_stream m d kv (h @ dat @ extra) = Some (m', d', kv', extra) \<and>
    loaded_msg h dat (m', d', kv')"
  using load_from_stream_complete [OF assms] .

lemma load_from_stream_one_message_witness:
  "\<exists>m' d' kv'. load_from_stream \<lparr>heap = Map.empty, next_block = 0, malloc_limit = 10, malloc_fill = (\<lambda>_. 0)\<rparr>
      (dson_fields (replicate 16 0)) [] (net_hdr 2 1 2 @ [7, 8] @ [9, 9]) = Some (m', d', kv', [9, 9]) \<and>
    loaded_msg (net_hdr 2 1 2) [7, 8] (m', d', kv')"
proof (rule load_from_stream_one_message)
  show "hdr_field (net_hdr 2 1 2) 1 = int (length [7, 8 :: byte])"
    using hdr_field_for(1) [of 2 True 1 2] by (simp add: hdr_for_def)
qed (simp_all add: max_dson_ram_size_def mem_ok_def dson_fields_def can_load_def own_blocks_def)

text \<open>A stream that ends inside the header.\<close>

lemma load_from_stream_short:
  assumes "length short < 16" "can_load m d kv"
  shows "\<exists>d'. load_from_stream m d kv short = Some (free_blocks m (obj_blocks (ObjDson d kv)), d', [], []) \<and>
    d_state d' = StError"
  using assms dson_clear_eq [of m d kv]
  by (simp add: load_from_stream_def stream_read_def header_size_def can_load_def)

section \<open>Messages that are refused, and interrupted loads\<close>

text \<open>
  A header that announces a negative size or more than \<open>MAX_DSON_RAM_SIZE\<close> is refused:
  the load answers \<open>Error\<close>, the object is in state \<open>Error\<close>, and nothing was allocated for it.
\<close>

theorem load_refuses_bad_size:
  assumes "length h = 16" "hdr_field h 1 < 0 \<or> max_dson_ram_size < hdr_field h 1"
    and "d_state d \<notin> {StLoadingHeader, StLoadingData}" "can_load m d kv" "length (d_header d) = 16"
  shows "\<exists>d'. load_from_buf m d kv (h @ dat) (int (length (h @ dat))) =
      Some (Error, free_blocks m (obj_blocks (ObjDson d kv)), d', []) \<and>
    d_state d' = StError \<and> d_buf d' = None"
proof -
  let ?m = "free_blocks m (obj_blocks (ObjDson d kv))"
  let ?d = "(cleared d)\<lparr>d_offset := 0, d_state := StLoadingHeader, d_kind := DataBufNeedParse\<rparr>"
  have f: "d_buf ?d = None" "\<not> d_was_alloc ?d" "length (d_header ?d) = 16"
    using assms(4,5) by (auto simp: can_load_def cleared_def header_loc_def)
  have b: "load_begin m d kv = Some (?m, ?d, [])"
    using assms dson_clear_eq [of m d kv] by (auto simp: load_begin_def can_load_def)
  let ?d1 = "?d\<lparr>d_header := h, d_offset := 16\<rparr>"
  have "patch (d_header ?d) 0 h = h" using f(3) assms(1) by (simp add: patch_all)
  then have st: "store_header ?d h = Some (?d\<lparr>d_header := h\<rparr>)"
    using f(3) assms(1) by (simp add: store_header_def)
  have "dson_data_size ?m ?d1 [] = Some (hdr_field h 1)"
    using f by (simp add: dson_data_size_def local_simps)
  then have hl: "header_loaded ?m ?d1 [] = Some (Some Error, ?m, ?d1\<lparr>d_state := StError\<rparr>)"
    using assms(2) by (auto simp: header_loaded_def)
  have "take_buf (h @ dat) 16 = Some h" using assms(1) by (simp add: take_buf_def)
  then have "load_from_buf m d kv (h @ dat) (int (length (h @ dat))) = Some (Error, ?m, ?d1\<lparr>d_state := StError\<rparr>, [])"
    using b st hl assms(1) by (simp add: load_from_buf_def load_header_buf_def header_size_def)
  then show ?thesis using f by simp
qed

lemma load_refuses_bad_size_witness:
  "\<exists>d'. load_from_buf \<lparr>heap = Map.empty, next_block = 0, malloc_limit = 10, malloc_fill = (\<lambda>_. 0)\<rparr>
      (dson_fields (replicate 16 0)) [] (net_hdr (-5) 1 2 @ []) (int (length (net_hdr (-5) 1 2 @ []))) =
      Some (Error, free_blocks \<lparr>heap = Map.empty, next_block = 0, malloc_limit = 10, malloc_fill = (\<lambda>_. 0)\<rparr>
        (obj_blocks (ObjDson (dson_fields (replicate 16 0)) [])), d', []) \<and>
    d_state d' = StError \<and> d_buf d' = None"
proof (rule load_refuses_bad_size)
  show "hdr_field (net_hdr (-5) 1 2) 1 < 0 \<or> max_dson_ram_size < hdr_field (net_hdr (-5) 1 2) 1"
    using hdr_field_for(1) [of "-5" True 1 2] by (simp add: hdr_for_def)
qed (simp_all add: dson_fields_def can_load_def own_blocks_def)

text \<open>
  \<open>reset_state\<close> in the middle of a load makes the object \<open>Ready\<close> with the part that has
  arrived: the rest of its buffer is whatever the memory held, and it will be parsed and
  sent as if it were the message.
\<close>

theorem reset_during_load_keeps_partial:
  assumes "loading h dat (m, d, kv) rest" "d_state d = StLoadingData"
  shows "\<exists>d'. dson_reset_state m d kv = Some (m, d', kv) \<and> d_state d' = StReady \<and>
    d_kind d' = DataBufNeedParse \<and> d_buf_size d' = int (length dat) \<and> d_buf d' = d_buf d \<and> rest \<noteq> []"
  using assms by (auto simp: loading_def data_part_def dson_reset_state_def)

lemma reset_during_load_keeps_partial_witness:
  "\<exists>d'. dson_reset_state \<lparr>heap = [0 \<mapsto> [7, 99]], next_block = 1, malloc_limit = 10, malloc_fill = (\<lambda>_. 0)\<rparr>
      ((dson_fields (net_hdr 2 1 2))\<lparr>d_buf := Some (0, 0), d_was_alloc := True, d_buf_size := 2,
         d_kind := DataBufNeedParse, d_offset := 1, d_state := StLoadingData\<rparr>) [] =
      Some (\<lparr>heap = [0 \<mapsto> [7, 99]], next_block = 1, malloc_limit = 10, malloc_fill = (\<lambda>_. 0)\<rparr>, d', []) \<and>
    d_state d' = StReady \<and> d_kind d' = DataBufNeedParse \<and> d_buf_size d' = int (length [7, 8 :: byte]) \<and>
    d_buf d' = d_buf ((dson_fields (net_hdr 2 1 2))\<lparr>d_buf := Some (0, 0), d_was_alloc := True, d_buf_size := 2,
         d_kind := DataBufNeedParse, d_offset := 1, d_state := StLoadingData\<rparr>) \<and> [8 :: byte] \<noteq> []"
proof (rule reset_during_load_keeps_partial)
  have "hdr_field (net_hdr 2 1 2) 1 = 2" using hdr_field_for(1) [of 2 True 1 2] by (simp add: hdr_for_def)
  then show "loading (net_hdr 2 1 2) [7, 8]
      (\<lparr>heap = [0 \<mapsto> [7, 99]], next_block = 1, malloc_limit = 10, malloc_fill = (\<lambda>_. 0)\<rparr>,
       (dson_fields (net_hdr 2 1 2))\<lparr>d_buf := Some (0, 0), d_was_alloc := True, d_buf_size := 2,
         d_kind := DataBufNeedParse, d_offset := 1, d_state := StLoadingData\<rparr>, []) [8]"
    by (simp add: loading_def data_part_def msg_fits_def max_dson_ram_size_def mem_ok_def dson_fields_def)
qed (simp add: dson_fields_def)

end
