(* ===== verification/Dson_Parse.thy ===== *)
theory Dson_Parse
  imports Dson_Receive
begin

text \<open>
  Parsing a loaded container: the views \<open>parse_buf\<close> makes, what it refuses, and finding an
  object by its key.
\<close>

section \<open>Views\<close>

definition view_rec :: "mem \<Rightarrow> ptr \<Rightarrow> dson_kind \<Rightarrow> dson" where
  "view_rec m p k = (dson_fields (raw_header m))\<lparr>d_buf := Some p, d_kind := k\<rparr>"

lemma view_rec_sel [simp]:
  "header_loc (view_rec m p k) = Some p" "d_buf (view_rec m p k) = Some p" "\<not> d_was_alloc (view_rec m p k)"
  "d_kind (view_rec m p k) = k" "d_state (view_rec m p k) = StReady" "d_buf_size (view_rec m p k) = 0"
  by (simp_all add: view_rec_def dson_fields_def header_loc_def)

text \<open>The header of a view is read from the buffer.\<close>

lemma view_get:
  assumes "header_loc d = Some p" "heap m (fst p) = Some bs" "snd p + 16 \<le> length bs" "i < 4"
  shows "hdr_get m d i = Some (get32 (seg bs (snd p) 16) i)"
  using assms by (simp add: hdr_get_def mread32_def mread_eq [of _ _ bs] get32_def seg_seg)

lemma view_read:
  assumes "header_loc d = Some p" "heap m (fst p) = Some bs" "snd p + 16 \<le> length bs" "i < 4"
  shows "hdr_read_field m d i = Some (hdr_field (seg bs (snd p) 16) i)"
  using assms view_get [OF assms(1-3), of 0] view_get [OF assms]
  by (simp add: hdr_read_field_def hdr_field_def hdr_is_host_def)

lemma view_order:
  assumes "header_loc d = Some p" "heap m (fst p) = Some bs" "snd p + 16 \<le> length bs"
  shows "is_host_order m d = Some (hdr_is_host (seg bs (snd p) 16))"
    "is_network_order m d = Some (hdr_is_network (seg bs (snd p) 16))"
  using view_get [OF assms, of 0]
  by (simp_all add: is_host_order_def is_network_order_def hdr_is_host_def hdr_is_network_def)

definition view_kind :: "byte list \<Rightarrow> dson_kind" where
  "view_kind h = (if hdr_field h 3 = types_map T_DsonContainer then DataBufNeedParse else OneObjectInDataBuf)"

lemma dson_view_eq:
  assumes "heap m (fst p) = Some bs" "snd p + 16 \<le> length bs"
    and "h = seg bs (snd p) 16" "0 \<le> hdr_field h 1" "hdr_field h 1 \<le> max_dson_ram_size"
  shows "dson_view m p = Some (view_rec m p (view_kind h))"
proof -
  let ?d = "view_rec m p DataBufNeedParse"
  note rd = view_read [OF view_rec_sel(1) [of m p DataBufNeedParse] assms(1,2), folded assms(3)]
  have v: "dson_view m p = pre_parse_buf m ?d" by (simp add: dson_view_def view_rec_def)
  have k: "?d\<lparr>d_kind := k\<rparr> = view_rec m p k" for k by (simp add: view_rec_def)
  show ?thesis
    unfolding v pre_parse_buf_def
    using assms(4,5) rd [of 1] rd [of 3]
    by (simp add: dson_data_size_def dson_data_type_def view_kind_def k)
qed

section \<open>Parsing\<close>

text \<open>An entry of the buffer: a header and its data.\<close>

definition entry_ok :: "byte list \<times> byte list \<Rightarrow> bool" where
  "entry_ok e \<longleftrightarrow> length (fst e) = 16 \<and> hdr_field (fst e) 1 = int (length (snd e)) \<and>
     int (length (snd e)) \<le> max_dson_ram_size \<and> 0 \<le> hdr_field (fst e) 2"

definition entries_wire :: "(byte list \<times> byte list) list \<Rightarrow> byte list" where
  "entries_wire es = concat (map (\<lambda>(h, x). h @ x) es)"

fun entry_views :: "mem \<Rightarrow> nat \<Rightarrow> nat \<Rightarrow> (byte list \<times> byte list) list \<Rightarrow> kvmap" where
  "entry_views m b off [] = []"
| "entry_views m b off ((h, x) # es) =
     (hdr_field h 2, ObjDson (view_rec m (b, off) (view_kind h)) []) #
     entry_views m b (off + 16 + length x) es"

lemma entries_wire_simps [simp]:
  "entries_wire [] = []" "entries_wire ((h, x) # es) = h @ x @ entries_wire es"
  by (simp_all add: entries_wire_def)

lemma entry_views_keys: "map fst (entry_views m b off es) = map (\<lambda>e. hdr_field (fst e) 2) es"
  by (induction es arbitrary: off) auto

text \<open>Replacing a view does not free anything.\<close>

definition views_only :: "kvmap \<Rightarrow> bool" where
  "views_only kv \<longleftrightarrow> (\<forall>obj \<in> snd ` set kv. \<exists>d. obj = ObjDson d [] \<and> \<not> d_was_alloc d)"

lemma views_only_Nil [simp]: "views_only []"
  by (simp add: views_only_def)

lemma views_only_insert:
  "views_only kv \<Longrightarrow> \<not> d_was_alloc d \<Longrightarrow> views_only (kv_insert_or_assign k (ObjDson d []) kv)"
  using kv_insert_set [of k "ObjDson d []" kv] by (fastforce simp: views_only_def)

lemma map_put_views: "views_only kv \<Longrightarrow> map_put m k obj kv = Some (m, kv_insert_or_assign k obj kv)"
proof (cases "kv_find k kv")
  case (Some old)
  assume "views_only kv"
  moreover have "old \<in> snd ` set kv" using kv_find_set [OF Some] by force
  ultimately obtain d where "old = ObjDson d []" "\<not> d_was_alloc d" unfolding views_only_def by blast
  then show ?thesis using Some by (simp add: map_put_def)
qed (simp add: map_put_def)

lemma parse_loop_entries:
  "heap m b = Some bs \<Longrightarrow> \<forall>e \<in> set es. entry_ok e \<Longrightarrow> off + length (entries_wire es) \<le> length bs \<Longrightarrow>
   seg bs off (length (entries_wire es)) = entries_wire es \<Longrightarrow> views_only kv \<Longrightarrow>
   parse_loop m (b, off) (int (length (entries_wire es))) kv =
     Some (m, 0, kv.insert_all (entry_views m b off es) kv)"
proof (induction es arbitrary: off kv)
  case Nil
  then show ?case by (simp add: parse_loop.simps header_size_def)
next
  case (Cons e es)
  obtain h x where e: "e = (h, x)" by (cases e)
  let ?w = "entries_wire es" and ?n = "length x"
  have ok: "length h = 16" "hdr_field h 1 = int ?n" "int ?n \<le> max_dson_ram_size" "0 \<le> hdr_field h 2"
    using Cons.prems(2) by (simp_all add: entry_ok_def e)
  have len: "off + 16 + ?n + length ?w \<le> length bs" using Cons.prems(3) ok(1) by (simp add: e)
  have sg: "seg bs off (16 + (?n + length ?w)) = h @ x @ ?w" using Cons.prems(4) ok(1) by (simp add: e)
  have h: "seg bs off 16 = h"
    using arg_cong [OF sg, of "take 16"] ok(1) by (simp add: seg_def min_def)
  have w: "seg bs (off + 16 + ?n) (length ?w) = ?w"
    using arg_cong [OF sg, of "drop (16 + ?n)"] ok(1) by (simp add: seg_def drop_take add_ac)
  let ?p = "(b, off)"
  let ?v = "view_rec m ?p (view_kind h)"
  let ?kv = "kv_insert_or_assign (hdr_field h 2) (ObjDson ?v []) kv"
  have fst: "heap m (fst ?p) = Some bs" "snd ?p + 16 \<le> length bs" using Cons.prems(1) len by simp_all
  have view: "dson_view m ?p = Some ?v"
    using dson_view_eq [OF fst] h ok by simp
  have rd: "hdr_read_field m ?v i = Some (hdr_field h i)" if "i < 4" for i
    using view_read [OF view_rec_sel(1) fst that] h by simp
  have key: "dson_key m ?v = Some (hdr_field h 2)" using rd by (simp add: dson_key_def)
  have "d_kind ?v \<noteq> DsonContainer" by (simp add: view_kind_def)
  then have sz: "dson_data_size m ?v [] = Some (int ?n)"
    using rd [of 1] ok(2) by (cases "d_kind ?v") (simp_all add: dson_data_size_def)
  have add: "i32_add (int ?n) 16 = Some (int ?n + 16)"
    using ok(3) by (simp add: i32_add_Some i32_ok_iff max_dson_ram_size_def)
  have "int (length (entries_wire (e # es))) = int ?n + 16 + int (length ?w)" using ok(1) by (simp add: e)
  then have "parse_loop m ?p (int (length (entries_wire (e # es)))) kv =
      parse_loop m (b, off + 16 + ?n) (int (length ?w)) ?kv"
    using view key sz add ok Cons.prems(5)
    by (subst parse_loop.simps)
      (simp add: header_size_def map_put_views padd_def nat_add_distrib add_ac del: of_nat_add)
  also have "\<dots> = Some (m, 0, kv.insert_all (entry_views m b (off + 16 + ?n) es) ?kv)"
    using Cons.IH [of "off + 16 + ?n" ?kv] Cons.prems len w views_only_insert by simp
  finally show ?case by (simp add: e)
qed

text \<open>\<open>parse_buf\<close> on a loaded container.\<close>

lemma parse_buf_entries:
  assumes l: "loaded_msg h (entries_wire es) (m, d, kv)" and ne: "entries_wire es \<noteq> []"
    and ty: "hdr_field h 3 = types_map T_DsonContainer" and es: "\<forall>e \<in> set es. entry_ok e"
  obtains b where "d_buf d = Some (b, 0)" "heap m b = Some (entries_wire es)"
    "parse_buf m d kv = Some (m, d\<lparr>d_kind := DsonContainer\<rparr>, kv.insert_all (entry_views m b 0 es) [])"
proof -
  obtain b where b: "d_buf d = Some (b, 0)" "heap m b = Some (entries_wire es)" "d_was_alloc d"
    "d_state d = StReady" "kv = []" "d_header d = h" "d_buf_size d = int (length (entries_wire es))"
    using l ne by (auto simp: loaded_msg_def)
  have "dson_data_type m d = Some (types_map T_DsonContainer)"
    using b ty by (simp add: dson_data_type_def local_simps)
  moreover have "parse_loop m (b, 0) (int (length (entries_wire es))) [] =
      Some (m, 0, kv.insert_all (entry_views m b 0 es) [])"
    by (rule parse_loop_entries [OF b(2) es]) simp_all
  moreover have "data_ptr d = Some (b, 0)" using b by (simp add: data_ptr_def)
  ultimately show ?thesis using that b by (simp add: parse_buf_def)
qed

lemma entry_views_append:
  "entry_views m b off (xs @ ys) = entry_views m b off xs @ entry_views m b (off + length (entries_wire xs)) ys"
  if "\<forall>e \<in> set xs. entry_ok e"
  using that by (induction xs arbitrary: off) (auto simp: entry_ok_def add_ac)

lemma entries_wire_append [simp]: "entries_wire (xs @ ys) = entries_wire xs @ entries_wire ys"
  by (simp add: entries_wire_def)

text \<open>The key of an entry leads to the view on it.\<close>

lemma find_entry:
  assumes "\<forall>e \<in> set (xs @ (h, x) # ys). entry_ok e"
    "distinct (map (\<lambda>e. hdr_field (fst e) 2) (xs @ (h, x) # ys))"
  shows "kv_find (hdr_field h 2) (kv.insert_all (entry_views m b 0 (xs @ (h, x) # ys)) []) =
    Some (ObjDson (view_rec m (b, length (entries_wire xs)) (view_kind h)) [])"
proof (rule kv.find_insert_all_distinct)
  show "distinct (map fst (entry_views m b 0 (xs @ (h, x) # ys)))"
    using assms(2) by (simp only: entry_views_keys)
  have "\<forall>e \<in> set xs. entry_ok e" using assms(1) by simp
  from entry_views_append [OF this, of m b 0 "(h, x) # ys"]
  show "(hdr_field h 2, ObjDson (view_rec m (b, length (entries_wire xs)) (view_kind h)) [])
      \<in> set (entry_views m b 0 (xs @ (h, x) # ys))" by simp
qed simp

text \<open>
  C7: parsing a loaded container succeeds on every well-formed message: every object is
  found under its key, as a view whose header and data are the bytes that arrived, and there
  is no other key.
\<close>

theorem parse_finds_every_object:
  assumes "loaded_msg h (entries_wire es) (m, d, kv)" "entries_wire es \<noteq> []"
    and "hdr_field h 3 = types_map T_DsonContainer" "\<forall>e \<in> set es. entry_ok e"
    and "distinct (map (\<lambda>e. hdr_field (fst e) 2) es)"
  shows "\<exists>kv'. parse_buf m d kv = Some (m, d\<lparr>d_kind := DsonContainer\<rparr>, kv') \<and>
    (\<forall>(h, x) \<in> set es. \<exists>v p. kv_find (hdr_field h 2) kv' = Some (ObjDson v []) \<and> d_state v = StReady \<and>
       d_kind v = view_kind h \<and> header_loc v = Some p \<and>
       mread m p 16 = Some h \<and> data_ptr v = Some (padd p 16) \<and> mread m (padd p 16) (length x) = Some x) \<and>
    (\<forall>k. k \<notin> (\<lambda>e. hdr_field (fst e) 2) ` set es \<longrightarrow> kv_find k kv' = None)"
proof -
  obtain b where b: "d_buf d = Some (b, 0)" "heap m b = Some (entries_wire es)"
    "parse_buf m d kv = Some (m, d\<lparr>d_kind := DsonContainer\<rparr>, kv.insert_all (entry_views m b 0 es) [])"
    using parse_buf_entries [OF assms(1-4)] by blast
  let ?kv = "kv.insert_all (entry_views m b 0 es) []"
  have "\<exists>v p. kv_find (hdr_field h 2) ?kv = Some (ObjDson v []) \<and> d_state v = StReady \<and>
       d_kind v = view_kind h \<and> header_loc v = Some p \<and>
       mread m p 16 = Some h \<and> data_ptr v = Some (padd p 16) \<and> mread m (padd p 16) (length x) = Some x"
    if mem: "(h, x) \<in> set es" for h x
  proof -
    obtain xs ys where es: "es = xs @ (h, x) # ys" using split_list [OF mem] by blast
    have "length h = 16" using assms(4) mem by (auto simp: entry_ok_def)
    then have "mread m (b, length (entries_wire xs)) 16 = Some h"
      "mread m (b, length (entries_wire xs) + 16) (length x) = Some x"
      using b(2) es by (simp_all add: mread_eq [of _ _ "entries_wire es"] seg_def)
    then show ?thesis using find_entry [of xs h x ys m b] assms(4,5) es
      by (intro exI [of _ "view_rec m (b, length (entries_wire xs)) (view_kind h)"]
          exI [of _ "(b, length (entries_wire xs))"]) (simp add: data_ptr_def header_size_def padd_def)
  qed
  moreover have "kv_find k ?kv = None" if "k \<notin> (\<lambda>e. hdr_field (fst e) 2) ` set es" for k
  proof -
    have "set (map fst (entry_views m b 0 es)) = (\<lambda>e. hdr_field (fst e) 2) ` set es"
      by (simp only: entry_views_keys set_map)
    then have "k \<notin> fst ` set (entry_views m b 0 es)" using that by simp
    then show ?thesis by (simp add: kv.find_insert_all_other)
  qed
  ultimately show ?thesis using b(3) by blast
qed

text \<open>Two objects, an integer and two letters.\<close>

definition sample_entries :: "(byte list \<times> byte list) list" where
  "sample_entries = [(net_hdr 4 5 (types_map T_uint32), [0, 0, 1, 2]), (host_hdr 2 7 (types_map T_string), [104, 105])]"

lemma sample_hdr_fields:
  "hdr_field (net_hdr 4 5 (types_map t)) (Suc 0) = 4" "hdr_field (net_hdr 4 5 (types_map t)) 2 = 5"
  "hdr_field (net_hdr 4 5 (types_map t)) 3 = types_map t"
  "hdr_field (host_hdr 2 7 (types_map t)) (Suc 0) = 2" "hdr_field (host_hdr 2 7 (types_map t)) 2 = 7"
  "hdr_field (host_hdr 2 7 (types_map t)) 3 = types_map t"
  using hdr_field_for [of _ True] hdr_field_for [of _ False] by (simp_all add: hdr_for_def)

lemma sample_entries_ok:
  "\<forall>e \<in> set sample_entries. entry_ok e" "distinct (map (\<lambda>e. hdr_field (fst e) 2) sample_entries)"
  by (simp_all add: sample_entries_def entry_ok_def sample_hdr_fields max_dson_ram_size_def)

lemma length_sample_entries: "length (entries_wire sample_entries) = 38"
  by (simp add: sample_entries_def)

definition sample_rx_mem :: mem where
  "sample_rx_mem = \<lparr>heap = [0 \<mapsto> entries_wire sample_entries], next_block = 1, malloc_limit = 1000,
     malloc_fill = (\<lambda>_. 0)\<rparr>"

definition sample_rx :: dson where
  "sample_rx = (dson_fields (hdr_for True 38 0 (types_map T_DsonContainer)))
     \<lparr>d_buf := Some (0, 0), d_was_alloc := True, d_buf_size := 38, d_kind := DataBufNeedParse, d_offset := 38\<rparr>"

lemma sample_rx_loaded:
  "loaded_msg (hdr_for True 38 0 (types_map T_DsonContainer)) (entries_wire sample_entries)
     (sample_rx_mem, sample_rx, [])" "entries_wire sample_entries \<noteq> []"
proof -
  show "entries_wire sample_entries \<noteq> []" using length_sample_entries by auto
  then show "loaded_msg (hdr_for True 38 0 (types_map T_DsonContainer)) (entries_wire sample_entries)
     (sample_rx_mem, sample_rx, [])"
    using length_sample_entries
    by (simp add: loaded_msg_def sample_rx_def sample_rx_mem_def dson_fields_def mem_ok_def)
qed

lemma parse_finds_every_object_witness:
  "\<exists>kv'. parse_buf sample_rx_mem sample_rx [] = Some (sample_rx_mem, sample_rx\<lparr>d_kind := DsonContainer\<rparr>, kv') \<and>
    (\<forall>(h, x) \<in> set sample_entries. \<exists>v p. kv_find (hdr_field h 2) kv' = Some (ObjDson v []) \<and> d_state v = StReady \<and>
       d_kind v = view_kind h \<and> header_loc v = Some p \<and>
       mread sample_rx_mem p 16 = Some h \<and> data_ptr v = Some (padd p 16) \<and>
       mread sample_rx_mem (padd p 16) (length x) = Some x) \<and>
    (\<forall>k. k \<notin> (\<lambda>e. hdr_field (fst e) 2) ` set sample_entries \<longrightarrow> kv_find k kv' = None)"
  by (rule parse_finds_every_object [OF sample_rx_loaded _ sample_entries_ok])
    (simp add: hdr_simps)

section \<open>How much a message can make the receiver store\<close>

lemma map_put_length: "map_put m k obj kv = Some (m', kv') \<Longrightarrow> length kv' \<le> Suc (length kv)"
proof -
  assume "map_put m k obj kv = Some (m', kv')"
  then have "kv' = kv_insert_or_assign k obj kv" by (auto simp: map_put_def ub_simps)
  moreover have "length (kv_insert_or_assign k obj kv) \<le> Suc (length kv)"
    by (induction k obj kv rule: kv_insert_or_assign.induct) auto
  ultimately show ?thesis by simp
qed

lemma parse_loop_length:
  "parse_loop m p n kv = Some (m', n', kv') \<Longrightarrow> int (length kv') \<le> int (length kv) + max 0 n div 16"
proof (induction m p n kv arbitrary: m' n' kv' rule: parse_loop.induct)
  case (1 m p n kv)
  show ?case
  proof (cases "n' = n \<and> kv' = kv")
    case True
    then show ?thesis by simp
  next
    case False
    from 1(2) False obtain obj key bs total m1 kv1 where
      s: "dson_view m p = Some obj" "dson_key m obj = Some key" "\<not> key < 0" "dson_data_size m obj [] = Some bs" "\<not> bs < 0"
        "i32_add bs (int header_size) = Some total" "map_put m key (ObjDson obj []) kv = Some (m1, kv1)"
        "\<not> total < int header_size" "parse_loop m1 (padd p (nat total)) (n - total) kv1 = Some (m', n', kv')"
        "\<not> n < int header_size"
      by (subst (asm) parse_loop.simps) (auto simp: ub_simps split: if_splits)
    have "int (length kv') \<le> int (length kv1) + max 0 (n - total) div 16"
      using 1(1) [OF s(10,1,2,3,4,5,6,7) refl s(8,9)] .
    moreover have "max 0 (n - total) div 16 + 1 \<le> max 0 n div 16"
    proof -
      have "max 0 (n - total) \<le> n - 16" using s(8,10) by (auto simp: header_size_def)
      then have "max 0 (n - total) div 16 \<le> (n - 16) div 16" by (rule zdiv_mono1) simp
      also have "(n - 16) div 16 + 1 = n div 16" using div_add_self2 [of 16 "n - 16"] by simp
      finally show ?thesis using s(10) by (simp add: header_size_def max_def)
    qed
    ultimately show ?thesis using map_put_length [OF s(7)] by linarith
  qed
qed



end
