(* ===== verification/Dson_Transfer.thy ===== *)
theory Dson_Transfer
  imports Dson_Memory
begin

text \<open>
  Correctness of \<open>copy_to_fd_*\<close> and \<open>copy_to_buf_*\<close> of a \<open>Dson\<close>: the interfaces of a
  converter table and of a destination, one call of the state machine on an object of any
  nesting, and the transfers that repeat calls.
\<close>

section \<open>The interface of a converter table\<close>

locale converter_table =
  fixes cv :: converters
    and data_ok :: data_pred
  assumes to_network_table: "data_ok ty False sz bs \<Longrightarrow> to_network_order cv (of_i32 ty) = Some f \<Longrightarrow>
      \<exists>n. f sz bs = Some n \<and> length n = length bs \<and> data_ok ty True sz n"
    and to_host_table: "data_ok ty True sz bs \<Longrightarrow> to_host_order cv (of_i32 ty) = Some f \<Longrightarrow>
      \<exists>n. f sz bs = Some n \<and> length n = length bs \<and> data_ok ty False sz n"

begin

definition table :: "bool \<Rightarrow> converters_map" where
  "table nw = (if nw then to_network_order cv else to_host_order cv)"

lemma table_step:
  "data_ok ty (\<not> nw) sz bs \<Longrightarrow> table nw (of_i32 ty) = Some f \<Longrightarrow>
   \<exists>n. f sz bs = Some n \<and> length n = length bs \<and> data_ok ty nw sz n"
  using to_network_table [of ty sz bs f] to_host_table [of ty sz bs f]
  by (cases nw) (simp_all add: table_def)

end

section \<open>Start of a copy\<close>

lemma buf_okE:
  assumes "buf_ok data_ok nw m d"
  obtains b bs where "d_was_alloc d" "hdr_valid (d_header d)" "0 < d_buf_size d"
    "hdr_field (d_header d) (Suc 0) = d_buf_size d" "d_buf d = Some (b, 0)" "heap m b = Some bs"
    "length bs = nat (d_buf_size d)" "own_data m d = bs" "own_blocks d = [b]"
    "data_ok (hdr_field (d_header d) 3) (hdr_is_network (d_header d)) (d_buf_size d) bs"
  using assms by (auto simp: buf_ok_def own_data_def own_blocks_def)

lemma run_converter_owned:
  "heap m b = Some bs \<Longrightarrow> f sz bs = Some n \<Longrightarrow> run_converter f sz m (b, 0) = Some (upd_block m b n)"
  by (simp add: run_converter_def)

text \<open>The object and memory after the start of a copy of an object over its own buffer.\<close>

lemma copy_begin_same:
  assumes "buf_ok data_ok nw m d" "d_state d = StReady" "d_kind d \<noteq> DsonContainer"
    "hdr_is_network (d_header d) = nw"
  shows "copy_begin cv nw m d kv = Some (m, d\<lparr>d_offset := 0, d_state := StCopyingHeader\<rparr>, kv)"
proof -
  have h: "header_loc d = None" "hdr_valid (d_header d)" using assms by (auto elim!: buf_okE)
  have s: "d\<lparr>d_header := d_header d\<rparr> = d" by simp
  show ?thesis
    using assms h hdr_order_same [OF h(2) assms(4)]
    by (cases nw; cases "d_kind d")
      (simp_all add: copy_begin_def copy_parse_def local_simps hdr_valid_host_iff to_network_def
        to_host_def hdr_order_def)
qed

lemma parse_buf_single:
  assumes "header_loc d = None" "d_state d = StReady" "hdr_field (d_header d) 3 \<noteq> types_map T_DsonContainer"
  shows "parse_buf m d kv = Some (m, d\<lparr>d_kind := OneObjectInDataBuf\<rparr>, kv)"
  using assms by (simp add: parse_buf_def dson_data_type_def local_simps)

context converter_table
begin

lemma to_order_other:
  assumes "buf_ok data_ok nw m d" "d_state d = StReady" "hdr_is_network (d_header d) \<noteq> nw"
    "d_kind d = OneObjectInDataBuf"
  shows "\<exists>m' h. (if nw then to_network cv m d else to_host cv m d) = Some (m', d\<lparr>d_header := h\<rparr>) \<and>
    buf_ok data_ok nw m' (d\<lparr>d_header := h\<rparr>) \<and>
    (h, own_data m' d) = buf_out cv nw (d_header d) (own_data m d) \<and>
    buf_out cv nw h (own_data m' d) = (h, own_data m' d) \<and>
    (\<forall>b. b \<notin> set (own_blocks d) \<longrightarrow> heap m' b = heap m b) \<and> same_alloc m m' \<and>
    hdr_field h (Suc 0) = hdr_field (d_header d) (Suc 0)"
proof -
  obtain b bs where d: "d_was_alloc d" "hdr_valid (d_header d)" "0 < d_buf_size d"
    "hdr_field (d_header d) (Suc 0) = d_buf_size d" "d_buf d = Some (b, 0)" "heap m b = Some bs"
    "length bs = nat (d_buf_size d)" "own_data m d = bs" "own_blocks d = [b]"
    "data_ok (hdr_field (d_header d) 3) (\<not> nw) (d_buf_size d) bs"
    using assms(1,3) by (elim buf_okE) auto
  let ?h = "d_header d"
  have o: "hdr_is_network ?h = (\<not> nw)" using assms(3) by auto
  show ?thesis
  proof (cases "table nw (of_i32 (hdr_field ?h 3))")
    case None
    then have "(if nw then to_network cv m d else to_host cv m d) = Some (m, d)"
      using d o assms(2) by (cases nw) (simp_all add: to_network_def to_host_def local_simps
          dson_data_type_def table_def hdr_valid_host_iff)
    moreover have "buf_out cv nw ?h bs = (?h, bs)" using None o by (simp add: buf_out_def table_def)
    ultimately show ?thesis using d assms(1) by (intro exI [of _ m] exI [of _ ?h]) simp
  next
    case (Some f)
    obtain n where n: "f (d_buf_size d) bs = Some n" "length n = length bs"
      "data_ok (hdr_field ?h 3) nw (d_buf_size d) n"
      using table_step [OF d(10) Some] by blast
    let ?m = "upd_block m b n" and ?h' = "hdr_order nw ?h"
    have sz: "to_i32 (get32 (hdr_to_host ?h) (Suc 0)) = d_buf_size d"
    proof -
      have "hdr_is_host (hdr_to_host ?h)" using hdr_order_laws(6) [OF d(2), of False]
        by (simp add: hdr_order_def)
      then have "to_i32 (get32 (hdr_to_host ?h) (Suc 0)) = hdr_field (hdr_to_host ?h) (Suc 0)"
        by (simp add: hdr_field_def)
      also have "\<dots> = d_buf_size d"
        using hdr_order_laws(2) [OF d(2), of False] d(4) by (simp add: hdr_order_def)
      finally show ?thesis .
    qed
    have "(if nw then to_network cv m d else to_host cv m d) = Some (?m, d\<lparr>d_header := ?h'\<rparr>)"
    proof (cases nw)
      case True
      then have "hdr_to_host ?h = ?h" using hdr_order_same [OF d(2), of False] o
        by (simp add: hdr_order_def)
      then show ?thesis
        using True d o n Some sz assms(2)
        by (simp add: to_network_def local_simps dson_data_type_def table_def to_network_internal_def
            data_ptr_def run_converter_owned hdr_order_def)
    next
      case False
      then show ?thesis
        using d o n Some sz assms(2)
        by (simp add: to_host_def local_simps dson_data_type_def table_def to_host_internal_def
            data_ptr_def run_converter_owned hdr_order_def hdr_valid_host_iff)
    qed
    moreover have "own_data ?m d = n" using d by (simp add: own_data_def)
    moreover have "buf_out cv nw ?h bs = (?h', n)" using Some o d n by (simp add: buf_out_def table_def)
    moreover have "buf_ok data_ok nw ?m (d\<lparr>d_header := ?h'\<rparr>)"
      using d n assms(2,4) by (simp add: buf_ok_def buf_state_ok_def)
    ultimately show ?thesis
      using d by (intro exI [of _ ?m] exI [of _ ?h']) (simp add: buf_out_def)
  qed
qed

lemma buf_begin:
  assumes "buf_ok data_ok nw m d" "d_state d = StReady" "d_kind d \<noteq> DsonContainer"
  obtains m' d' where "copy_begin cv nw m d kv = Some (m', d', kv)" "d_kind d' \<noteq> DsonContainer"
    "d_state d' = StCopyingHeader" "d_offset d' = 0" "buf_ok data_ok nw m' d'"
    "(d_header d', own_data m' d') = buf_out cv nw (d_header d) (own_data m d)"
    "buf_out cv nw (d_header d') (own_data m' d') = (d_header d', own_data m' d')"
    "own_blocks d' = own_blocks d" "\<forall>b. b \<notin> set (own_blocks d) \<longrightarrow> heap m' b = heap m b"
    "hdr_field (d_header d') (Suc 0) = hdr_field (d_header d) (Suc 0)" "same_alloc m m'"
proof (cases "hdr_is_network (d_header d) = nw")
  case True
  have o: "buf_out cv nw (d_header d) bs = (d_header d, bs)" for bs
    using True by (simp add: buf_out_def)
  have "own_data m (d\<lparr>d_offset := 0, d_state := StCopyingHeader\<rparr>) = own_data m d"
    by (simp add: own_data_def)
  moreover have "buf_ok data_ok nw m (d\<lparr>d_offset := 0, d_state := StCopyingHeader\<rparr>)"
    using assms by (simp add: buf_ok_def buf_state_ok_def)
  ultimately show ?thesis
    using that [OF copy_begin_same [OF assms True]] assms(3) o by simp
next
  case False
  let ?d = "d\<lparr>d_kind := OneObjectInDataBuf\<rparr>"
  have l: "header_loc d = None" "hdr_valid (d_header d)" using assms(1) by (auto elim!: buf_okE)
  have ok: "buf_ok data_ok nw m ?d"
    using assms(1,2) by (simp add: buf_ok_def buf_state_ok_def)
  have "copy_parse nw m d kv = Some (m, ?d, kv)"
  proof (cases "d_kind d")
    case DataBufNeedParse
    then have "hdr_field (d_header d) 3 \<noteq> types_map T_DsonContainer"
      using assms(1) False by (simp add: buf_ok_def)
    then show ?thesis using parse_buf_single [OF l(1) assms(2)] DataBufNeedParse l False
      by (auto simp: copy_parse_def local_simps hdr_valid_host_iff)
  next
    case OneObjectInDataBuf
    then have "?d = d" by simp
    then show ?thesis by (simp add: copy_parse_def OneObjectInDataBuf)
  qed (use assms(3) in simp)
  moreover have "d_state ?d = StReady" "hdr_is_network (d_header ?d) \<noteq> nw" "d_kind ?d = OneObjectInDataBuf"
    using assms(2) False by simp_all
  from to_order_other [OF ok this]
  obtain m' h where "(if nw then to_network cv m ?d else to_host cv m ?d) =
      Some (m', ?d\<lparr>d_header := h\<rparr>)" "buf_ok data_ok nw m' (?d\<lparr>d_header := h\<rparr>)"
      "(h, own_data m' ?d) = buf_out cv nw (d_header ?d) (own_data m ?d)"
      "buf_out cv nw h (own_data m' ?d) = (h, own_data m' ?d)"
      "\<forall>b. b \<notin> set (own_blocks ?d) \<longrightarrow> heap m' b = heap m b" "same_alloc m m'"
      "hdr_field h (Suc 0) = hdr_field (d_header ?d) (Suc 0)"
    by blast
  moreover from this(2) have "buf_ok data_ok nw m' (?d\<lparr>d_header := h, d_offset := 0, d_state := StCopyingHeader\<rparr>)"
    by (simp add: buf_ok_def buf_state_ok_def)
  moreover have "own_data m'' (?d\<lparr>d_header := h, d_offset := 0, d_state := StCopyingHeader\<rparr>) = own_data m'' ?d"
    "own_data m'' ?d = own_data m'' d" for m''
    by (simp_all add: own_data_def)
  ultimately show ?thesis
    using that [of m' "?d\<lparr>d_header := h, d_offset := 0, d_state := StCopyingHeader\<rparr>"]
    by (simp add: copy_begin_def)
qed

end

section \<open>The interface of a destination\<close>

text \<open>
  A call took the first \<open>k\<close> of the pending bytes \<open>P\<close>; when it stops before the end, the
  destination is full for now.
\<close>

definition handed :: "('c \<Rightarrow> byte list) \<Rightarrow> ('c \<Rightarrow> bool) \<Rightarrow> ('c \<Rightarrow> bool) \<Rightarrow> byte list \<Rightarrow> 'c \<Rightarrow>
    result \<Rightarrow> 'c \<Rightarrow> byte list \<Rightarrow> bool \<Rightarrow> bool" where
  "handed out ok full P c r c' Q d \<longleftrightarrow> (\<exists>k. advances P k r Q d \<and> out c' = out c @ take k P) \<and>
     ok c' \<and> (r = InProcess \<longrightarrow> full c')"

lemma handedI: "advances P k r Q d \<Longrightarrow> out c' = out c @ take k P \<Longrightarrow> ok c' \<Longrightarrow>
    (r = InProcess \<Longrightarrow> full c') \<Longrightarrow> handed out ok full P c r c' Q d"
  by (auto simp: handed_def)

lemma handed_cong: "handed out ok full P c r c' Q d \<Longrightarrow> P = P' \<Longrightarrow> Q = Q' \<or> r \<noteq> InProcess \<Longrightarrow> d = d' \<Longrightarrow>
    handed out ok full P' c r c' Q' d'"
  by (auto simp: handed_def advances_def split: if_splits)

lemma handed_second:
  assumes "handed out ok full P2 c1 r c' Q d" "out c1 = out c @ P1"
  shows "handed out ok full (P1 @ P2) c r c' Q d"
proof -
  obtain k where k: "advances P2 k r Q d" "out c' = out c1 @ take k P2"
    using assms(1) by (auto simp: handed_def)
  then have "advances (P1 @ P2) (length P1 + k) r Q d" "out c' = out c @ take (length P1 + k) (P1 @ P2)"
    using assms(2) by (simp_all add: advances_second)
  then show ?thesis using assms(1) unfolding handed_def by blast
qed

lemma handed_first:
  assumes "k < length P1" "out c' = out c @ take k P1" "ok c'" "full c'"
  shows "handed out ok full (P1 @ P2) c InProcess c' (drop k P1 @ P2) False"
  using assms advances_first [of k P1 _ P2 False]
  by (auto simp: handed_def intro!: exI [of _ k])

lemma handed_stop:
  "handed out ok full P1 c InProcess c' Q1 d1 \<Longrightarrow> handed out ok full (P1 @ P2) c InProcess c' (Q1 @ P2) False"
proof -
  assume h: "handed out ok full P1 c InProcess c' Q1 d1"
  then obtain k where "k < length P1" "Q1 = drop k P1" "out c' = out c @ take k P1" "ok c'" "full c'"
    by (auto simp: handed_def advances_in_process)
  then show ?thesis using handed_first by metis
qed

lemma handed_ready: "handed out ok full P c Ready c' Q d \<Longrightarrow> out c' = out c @ P \<and> ok c' \<and> d"
  by (auto simp: handed_def advances_ready)

lemma handed_result: "handed out ok full P c r c' Q d \<Longrightarrow> r \<noteq> Error"
  by (auto simp: handed_def)

locale writer_sink =
  fixes sk :: "'c sink"
    and out :: "'c \<Rightarrow> byte list"
    and ok :: "'c \<Rightarrow> bool"
    and full :: "'c \<Rightarrow> bool"
  assumes put: "ok c \<Longrightarrow> xs \<noteq> [] \<Longrightarrow> \<exists>k c'. sk_put sk c xs = Some (int k, c') \<and> k \<le> length xs \<and>
      out c' = out c @ take k xs \<and> ok c' \<and> (k < length xs \<longrightarrow> full c')"
    and put_string: "ok c \<Longrightarrow> so_sendable s \<Longrightarrow> \<exists>r c' s'. sk_string sk nw s c = Some (r, c', s') \<and>
      handed out ok full (so_pending nw s) c r c' (so_pending nw s') (so_state s' = StReady) \<and>
      so_sendable s' \<and> so_key s' = so_key s \<and> so_object s' = so_object s"
    and put_route: "ok c \<Longrightarrow> ro_wf t \<Longrightarrow> \<exists>r c' t'. sk_route sk nw t c = Some (r, c', t') \<and>
      handed out ok full (ro_pending nw t) c r c' (ro_pending nw t') (ro_state t' = StReady) \<and>
      ro_wf t' \<and> ro_key t' = ro_key t \<and> ro_addr t' = ro_addr t"

abbreviation window_of :: "int \<Rightarrow> cur \<Rightarrow> bool" where
  "window_of n c \<equiv> 0 \<le> c_room c \<and> int (length (c_out c)) + c_room c = n"

lemma handed_window:
  assumes "window_of n c" "advances P (min (nat (c_room c)) (length P)) r Q d"
  shows "handed c_out (window_of n) (\<lambda>c. c_room c = 0) P c r
    (cur_put c (take (nat (c_room c)) P)) Q d"
proof (rule handedI [OF assms(2)])
  let ?k = "min (nat (c_room c)) (length P)"
  have t: "take (nat (c_room c)) P = take ?k P" by (simp add: min_def)
  show "c_out (cur_put c (take (nat (c_room c)) P)) = c_out c @ take ?k P" by (simp only: cur_put_sel t)
  show "window_of n (cur_put c (take (nat (c_room c)) P))" using assms(1) by auto
  assume "r = InProcess"
  then have "?k < length P" using assms(2) by (simp add: advances_in_process)
  then show "c_room (cur_put c (take (nat (c_room c)) P)) = 0" using assms(1) by (auto simp: min_def split: if_splits)
qed

text \<open>A window of memory of \<open>n\<close> bytes, and a descriptor that does not fail.\<close>

interpretation buf_sink: writer_sink buf_sink c_out "window_of n" "\<lambda>c. c_room c = 0" for n
proof
  fix c :: cur and xs :: "byte list"
  assume c: "window_of n c"
  let ?k = "min (nat (c_room c)) (length xs)"
  have "buf_put c xs = Some (int ?k, cur_put c (take ?k xs))"
    using c by (auto simp: buf_put_def Let_def min_def)
  then show "\<exists>k c'. sk_put buf_sink c xs = Some (int k, c') \<and> k \<le> length xs \<and>
      c_out c' = c_out c @ take k xs \<and> window_of n c' \<and> (k < length xs \<longrightarrow> c_room c' = 0)"
    using c by (intro exI [of _ ?k] exI [of _ "cur_put c (take ?k xs)"]) (auto simp: buf_sink_def min_def)
next
  fix c :: cur and s nw
  assume c: "window_of n c" and s: "so_sendable s"
  have room: "0 \<le> c_room c" using c by simp
  show "\<exists>r c' s'. sk_string buf_sink nw s c = Some (r, c', s') \<and>
      handed c_out (window_of n) (\<lambda>c. c_room c = 0) (so_pending nw s) c r c' (so_pending nw s')
        (so_state s' = StReady) \<and>
      so_sendable s' \<and> so_key s' = so_key s \<and> so_object s' = so_object s"
  proof (rule so_copy_to_buf_spec [OF s room, of nw])
    fix r s'
    assume "so_copy_to_buf nw s c = Some (r, cur_put c (take (nat (c_room c)) (so_pending nw s)), s')"
      "advances (so_pending nw s) (min (nat (c_room c)) (length (so_pending nw s))) r
        (so_pending nw s') (so_state s' = StReady)"
      "so_sendable s'" "so_key s' = so_key s" "so_object s' = so_object s"
    with handed_window [OF c this(2)] show ?thesis
      by (simp add: buf_sink_def del: so_pending.simps)
  qed
next
  fix c :: cur and t nw
  assume c: "window_of n c" and t: "ro_wf t"
  have room: "0 \<le> c_room c" using c by simp
  show "\<exists>r c' t'. sk_route buf_sink nw t c = Some (r, c', t') \<and>
      handed c_out (window_of n) (\<lambda>c. c_room c = 0) (ro_pending nw t) c r c' (ro_pending nw t')
        (ro_state t' = StReady) \<and>
      ro_wf t' \<and> ro_key t' = ro_key t \<and> ro_addr t' = ro_addr t"
  proof (rule ro_copy_to_buf_spec [OF t room, of nw])
    fix r t'
    assume "ro_copy_to_buf nw t c = Some (r, cur_put c (take (nat (c_room c)) (ro_pending nw t)), t')"
      "advances (ro_pending nw t) (min (nat (c_room c)) (length (ro_pending nw t))) r
        (ro_pending nw t') (ro_state t' = StReady)"
      "ro_wf t'" "ro_key t' = ro_key t" "ro_addr t' = ro_addr t"
    with handed_window [OF c this(2)] show ?thesis
      by (simp add: buf_sink_def del: ro_pending.simps)
  qed
qed

interpretation fd_sink: writer_sink fd_sink w_data "\<lambda>fd. soft (w_script fd)" "\<lambda>_. True"
proof
  fix fd :: wfd and xs
  assume "soft (w_script fd)"
  then show "\<exists>k fd'. sk_put fd_sink fd xs = Some (int k, fd') \<and> k \<le> length xs \<and>
      w_data fd' = w_data fd @ take k xs \<and> soft (w_script fd') \<and> (k < length xs \<longrightarrow> True)"
    by (rule write_to_fd_soft [of fd xs]) (auto simp: fd_sink_def)
next
  fix fd :: wfd and s nw
  assume "soft (w_script fd)" "so_sendable s"
  then show "\<exists>r fd' s'. sk_string fd_sink nw s fd = Some (r, fd', s') \<and>
      handed w_data (\<lambda>fd. soft (w_script fd)) (\<lambda>_. True) (so_pending nw s) fd r fd' (so_pending nw s')
        (so_state s' = StReady) \<and>
      so_sendable s' \<and> so_key s' = so_key s \<and> so_object s' = so_object s"
    by - (rule so_copy_to_fd_spec [of s fd nw], auto simp: fd_sink_def simp del: so_pending.simps intro: handedI)
next
  fix fd :: wfd and t nw
  assume "soft (w_script fd)" "ro_wf t"
  then show "\<exists>r fd' t'. sk_route fd_sink nw t fd = Some (r, fd', t') \<and>
      handed w_data (\<lambda>fd. soft (w_script fd)) (\<lambda>_. True) (ro_pending nw t) fd r fd' (ro_pending nw t')
        (ro_state t' = StReady) \<and>
      ro_wf t' \<and> ro_key t' = ro_key t \<and> ro_addr t' = ro_addr t"
    by - (rule ro_copy_to_fd_spec [of t fd nw], auto simp: fd_sink_def simp del: ro_pending.simps intro: handedI)
qed

text \<open>
  A descriptor that takes something: a call that answers \<open>InProcess\<close> has written at least a
  byte.
\<close>

interpretation live_sink: writer_sink fd_sink w_data "\<lambda>fd. soft (w_script fd) \<and> live fd" "\<lambda>fd. w_data fd \<noteq> []"
proof
  fix fd :: wfd and xs :: "byte list"
  assume fd: "soft (w_script fd) \<and> live fd" and xs: "xs \<noteq> []"
  obtain k fd' where w: "write_to_fd fd xs = (int k, fd')" "k \<le> length xs"
    "w_data fd' = w_data fd @ take k xs" "soft (w_script fd')"
    using write_to_fd_soft [of fd xs] fd by blast
  moreover have "w_data fd' \<noteq> []" using write_to_fd_live [OF _ xs w(1)] fd by simp
  ultimately show "\<exists>k fd'. sk_put fd_sink fd xs = Some (int k, fd') \<and> k \<le> length xs \<and>
      w_data fd' = w_data fd @ take k xs \<and> (soft (w_script fd') \<and> live fd') \<and> (k < length xs \<longrightarrow> w_data fd' \<noteq> [])"
    by (intro exI [of _ k] exI [of _ fd']) (simp add: fd_sink_def live_def)
next
  fix fd :: wfd and s nw
  assume fd: "soft (w_script fd) \<and> live fd" and s: "so_sendable s"
  then have sf: "soft (w_script fd)" by simp
  show "\<exists>r fd' s'. sk_string fd_sink nw s fd = Some (r, fd', s') \<and>
      handed w_data (\<lambda>fd. soft (w_script fd) \<and> live fd) (\<lambda>fd. w_data fd \<noteq> []) (so_pending nw s) fd r fd'
        (so_pending nw s') (so_state s' = StReady) \<and>
      so_sendable s' \<and> so_key s' = so_key s \<and> so_object s' = so_object s"
  proof (rule so_copy_to_fd_spec [OF s sf, of nw])
    fix k r fd' s'
    assume *: "so_copy_to_fd nw s fd = (r, fd', s')"
      "advances (so_pending nw s) k r (so_pending nw s') (so_state s' = StReady)"
      "w_data fd' = w_data fd @ take k (so_pending nw s)" "soft (w_script fd')" "so_sendable s'"
      "so_key s' = so_key s" "so_object s' = so_object s"
    have "w_data fd' \<noteq> []" using so_copy_to_fd_live [OF s _ *(1)] fd by simp
    with * show ?thesis
      by (auto simp: fd_sink_def live_def simp del: so_pending.simps intro: handedI)
  qed
next
  fix fd :: wfd and t nw
  assume fd: "soft (w_script fd) \<and> live fd" and t: "ro_wf t"
  then have sf: "soft (w_script fd)" by simp
  show "\<exists>r fd' t'. sk_route fd_sink nw t fd = Some (r, fd', t') \<and>
      handed w_data (\<lambda>fd. soft (w_script fd) \<and> live fd) (\<lambda>fd. w_data fd \<noteq> []) (ro_pending nw t) fd r fd'
        (ro_pending nw t') (ro_state t' = StReady) \<and>
      ro_wf t' \<and> ro_key t' = ro_key t \<and> ro_addr t' = ro_addr t"
  proof (rule ro_copy_to_fd_spec [OF t sf, of nw])
    fix k r fd' t'
    assume *: "ro_copy_to_fd nw t fd = (r, fd', t')"
      "advances (ro_pending nw t) k r (ro_pending nw t') (ro_state t' = StReady)"
      "w_data fd' = w_data fd @ take k (ro_pending nw t)" "soft (w_script fd')" "ro_wf t'"
      "ro_key t' = ro_key t" "ro_addr t' = ro_addr t"
    have "w_data fd' \<noteq> []" using ro_copy_to_fd_live [OF t _ *(1)] fd by simp
    with * show ?thesis
      by (auto simp: fd_sink_def live_def simp del: ro_pending.simps intro: handedI)
  qed
qed

section \<open>One call on an object\<close>

locale copying = converter_table cv data_ok + writer_sink sk out ok full
  for cv data_ok and sk :: "'c sink" and out ok full

begin

text \<open>What a call keeps: well-formedness, size, serialisation, keys and classes, and all memory the object does not own.\<close>

definition kept :: "bool \<Rightarrow> mem \<Rightarrow> dson_obj \<Rightarrow> mem \<Rightarrow> dson_obj \<Rightarrow> bool" where
  "kept nw m obj m' obj' \<longleftrightarrow> obj_ok data_ok nw m' obj' \<and> obj_blocks obj' = obj_blocks obj \<and>
     obj_size obj' = obj_size obj \<and> obj_wire cv nw m' obj' = obj_wire cv nw m obj \<and>
     obj_shape obj' = obj_shape obj \<and> (\<forall>b. b \<notin> set (obj_blocks obj) \<longrightarrow> heap m' b = heap m b) \<and>
     still_live m m' \<and> (obj_owned m obj \<longrightarrow> obj_owned m' obj')"

definition good_call :: "bool \<Rightarrow> mem \<Rightarrow> dson_obj \<Rightarrow> 'c \<Rightarrow>
    (result \<times> 'c \<times> mem \<times> dson_obj) option \<Rightarrow> bool" where
  "good_call nw m obj c res \<longleftrightarrow> (\<exists>r c' m' obj'. res = Some (r, c', m', obj') \<and>
     handed out ok full (obj_pending cv nw m obj) c r c' (obj_pending cv nw m' obj') (obj_rest obj') \<and>
     kept nw m obj m' obj')"

definition loop_good :: "bool \<Rightarrow> mem \<Rightarrow> kvmap \<Rightarrow> 'c \<Rightarrow> result \<Rightarrow> 'c \<Rightarrow> mem \<Rightarrow> kvmap \<Rightarrow> nat \<Rightarrow> bool" where
  "loop_good nw m kv c r c' m' kv' i \<longleftrightarrow>
    handed out ok full (map_pending cv nw m 0 kv) c r c' (map_pending cv nw m' i kv') (r = Ready) \<and>
    map_ok data_ok nw m' kv' \<and> i \<le> length kv' \<and> (r = Ready \<longrightarrow> i = length kv') \<and>
    map_rest (take i kv') \<and> map_rest (drop (Suc i) kv') \<and>
    map_blocks kv' = map_blocks kv \<and> map_size kv' = map_size kv \<and>
    map_wire cv nw m' kv' = map_wire cv nw m kv \<and> map_shape kv' = map_shape kv \<and>
    (\<forall>b. b \<notin> set (map_blocks kv) \<longrightarrow> heap m' b = heap m b) \<and>
    still_live m m' \<and> (map_owned m kv \<longrightarrow> map_owned m' kv')"

lemma loop_goodD:
  assumes "loop_good nw m kv c r c' m' kv' i"
  shows "r = Ready \<longrightarrow> i = length kv'" "i \<le> length kv'" "map_rest (take i kv')" "map_rest (drop (Suc i) kv')"
    "\<forall>b. b \<notin> set (map_blocks kv) \<longrightarrow> heap m' b = heap m b"
  using assms by (simp_all add: loop_good_def)

lemma copy_map_loop_good:
  assumes "map_ok data_ok nw m kv" "distinct (map_blocks kv)" "map_rest (drop 1 kv)" "ok c"
    and "\<And>k obj m c. (k, obj) \<in> set kv \<Longrightarrow> obj_ok data_ok nw m obj \<Longrightarrow> ok c \<Longrightarrow>
      good_call nw m obj c (step m obj c)"
  shows "\<exists>r c' m' kv' i. copy_map_loop step m kv c = Some (r, c', m', kv', i) \<and>
    loop_good nw m kv c r c' m' kv' i"
  using assms
proof (induction kv arbitrary: m c)
  case Nil
  then show ?case by (auto simp: loop_good_def handed_def advances_ready)
next
  case (Cons p kv)
  obtain k obj where p: "p = (k, obj)" by (cases p)
  have ok: "obj_ok data_ok nw m obj" "map_ok data_ok nw m kv" and rest: "map_rest kv"
    and dist: "distinct (map_blocks kv)" "set (obj_blocks obj) \<inter> set (map_blocks kv) = {}"
    using Cons.prems(1-3) by (simp_all add: p)
  have "good_call nw m obj c (step m obj c)"
    by (rule Cons.prems(5)) (use ok Cons.prems(4) p in auto)
  then obtain r c1 m1 obj1 where st: "step m obj c = Some (r, c1, m1, obj1)"
    and h: "handed out ok full (obj_pending cv nw m obj) c r c1 (obj_pending cv nw m1 obj1) (obj_rest obj1)"
    and kept: "kept nw m obj m1 obj1" by (auto simp: good_call_def)
  have k1: "obj_ok data_ok nw m1 obj1" "obj_blocks obj1 = obj_blocks obj" "obj_size obj1 = obj_size obj"
    "obj_wire cv nw m1 obj1 = obj_wire cv nw m obj" "\<forall>b. b \<notin> set (obj_blocks obj) \<longrightarrow> heap m1 b = heap m b"
    "still_live m m1" "obj_owned m obj \<Longrightarrow> obj_owned m1 obj1" "obj_shape obj1 = obj_shape obj"
    using kept by (simp_all add: kept_def)
  have ow1: "map_owned m (p # kv) \<longrightarrow> map_owned m1 ((k, obj1) # kv)"
    using k1(6,7) map_owned_live by (auto simp: p)
  have "\<forall>b \<in> set (map_blocks kv). heap m1 b = heap m b" using k1(5) dist(2) by blast
  from map_frame [OF this, of data_ok nw cv] ok(2)
  have f: "map_ok data_ok nw m1 kv" "\<forall>n. map_pending cv nw m1 n kv = map_pending cv nw m n kv"
    "map_wire cv nw m1 kv = map_wire cv nw m kv" by auto
  show ?case
  proof (cases "r = Ready")
    case False
    then have r: "r = InProcess" using handed_result [OF h] by (cases r) auto
    have hh: "handed out ok full (map_pending cv nw m 0 (p # kv)) c r c1
        (map_pending cv nw m1 0 ((k, obj1) # kv)) (r = Ready)"
      using handed_stop [OF h [unfolded r], of "map_pending cv nw m 0 kv"] f r by (simp add: p)
    have "copy_map_loop step m (p # kv) c = Some (r, c1, m1, (k, obj1) # kv, 0)"
      using st False by (simp add: p)
    moreover from hh have "loop_good nw m (p # kv) c r c1 m1 ((k, obj1) # kv) 0"
      using k1 f rest False ow1 by (auto simp: p loop_good_def)
    ultimately show ?thesis by blast
  next
    case True
    have c1: "out c1 = out c @ obj_pending cv nw m obj" "ok c1" "obj_rest obj1"
      using handed_ready [OF h [unfolded True]] by auto
    have "map_rest (drop 1 kv)" using rest by (cases kv) auto
    moreover have "\<And>k obj m c. (k, obj) \<in> set kv \<Longrightarrow> obj_ok data_ok nw m obj \<Longrightarrow> ok c \<Longrightarrow>
        good_call nw m obj c (step m obj c)"
      by (rule Cons.prems(5)) auto
    ultimately have "\<exists>r c' m' kv' i. copy_map_loop step m1 kv c1 = Some (r, c', m', kv', i) \<and>
        loop_good nw m1 kv c1 r c' m' kv' i"
      by (rule Cons.IH [OF f(1) dist(1) _ c1(2)])
    then obtain r' c2 m2 kv2 i where l: "copy_map_loop step m1 kv c1 = Some (r', c2, m2, kv2, i)"
      and lg: "loop_good nw m1 kv c1 r' c2 m2 kv2 i"
      by blast
    note h2 = lg [unfolded loop_good_def, THEN conjunct1]
      and k2 = lg [unfolded loop_good_def, THEN conjunct2]
    have "\<forall>b. b \<notin> set (map_blocks kv) \<longrightarrow> heap m2 b = heap m1 b"
      using lg by (simp add: loop_good_def)
    with dist(2) have "\<forall>b \<in> set (obj_blocks obj1). heap m2 b = heap m1 b" unfolding k1(2) by blast
    from obj_frame [OF this, of data_ok nw cv] k1(1)
    have g: "obj_ok data_ok nw m2 obj1" "obj_wire cv nw m2 obj1 = obj_wire cv nw m obj"
      using k1(4) by auto
    have "still_live m1 m2" "map_owned m1 kv \<longrightarrow> map_owned m2 kv2" using lg by (simp_all add: loop_good_def)
    then have ow2: "still_live m m2 \<and> (map_owned m (p # kv) \<longrightarrow> map_owned m2 ((k, obj1) # kv2))"
      using ow1 still_live_trans [OF k1(6)] obj_owned_live [of m1 obj1 m2] by simp
    have hh: "handed out ok full (map_pending cv nw m 0 (p # kv)) c r' c2
        (map_pending cv nw m2 (Suc i) ((k, obj1) # kv2)) (r' = Ready)"
      using handed_second [OF h2 c1(1)] f(2) by (simp add: p)
    have "copy_map_loop step m (p # kv) c = Some (r', c2, m2, (k, obj1) # kv2, Suc i)"
      using st True l by (simp add: p)
    moreover have "loop_good nw m (p # kv) c r' c2 m2 ((k, obj1) # kv2) (Suc i)"
      unfolding loop_good_def
      by (intro conjI hh ow2 [THEN conjunct1] ow2 [THEN conjunct2]) (use k1 k2 g f c1(3) in \<open>simp_all add: p\<close>)
    ultimately show ?thesis by blast
  qed
qed

text \<open>The same for the parts of the state machine of \<open>Dson\<close>; \<open>P\<close> are the bytes to hand over.\<close>

definition good_dson :: "bool \<Rightarrow> mem \<Rightarrow> dson \<Rightarrow> kvmap \<Rightarrow> 'c \<Rightarrow> byte list \<Rightarrow>
    (result \<times> 'c \<times> mem \<times> dson \<times> kvmap) option \<Rightarrow> bool" where
  "good_dson nw m d kv c P res \<longleftrightarrow> (\<exists>r c' m' d' kv'. res = Some (r, c', m', d', kv') \<and>
     handed out ok full P c r c' (obj_pending cv nw m' (ObjDson d' kv')) (obj_rest (ObjDson d' kv')) \<and>
     kept nw m (ObjDson d kv) m' (ObjDson d' kv'))"

lemma good_dsonI:
  "res = Some (r, c', m', d', kv') \<Longrightarrow> handed out ok full P c r c' Q rest \<Longrightarrow>
   obj_pending cv nw m' (ObjDson d' kv') = Q \<Longrightarrow> obj_rest (ObjDson d' kv') = rest \<Longrightarrow>
   kept nw m (ObjDson d kv) m' (ObjDson d' kv') \<Longrightarrow> good_dson nw m d kv c P res"
  unfolding good_dson_def by blast

lemma kept_trans:
  "kept nw m obj m1 obj1 \<Longrightarrow> kept nw m1 obj1 m2 obj2 \<Longrightarrow> kept nw m obj m2 obj2"
  using still_live_trans by (auto simp: kept_def)

lemma good_dson_trans:
  "kept nw m (ObjDson d kv) m1 (ObjDson d1 kv1) \<Longrightarrow> good_dson nw m1 d1 kv1 c P res \<Longrightarrow>
   good_dson nw m d kv c P res"
  unfolding good_dson_def using kept_trans by blast

lemma copy_header_good:
  assumes loc: "header_loc d = None" and len: "length (d_header d) = 16"
    and off: "0 \<le> d_offset d" "d_offset d < 16" and c: "ok c"
    and partly: "\<And>i. 0 \<le> i \<Longrightarrow> i < 16 \<Longrightarrow>
      kept nw m (ObjDson d kv) m (ObjDson (d\<lparr>d_offset := i\<rparr>) kv) \<and>
      obj_pending cv nw m (ObjDson (d\<lparr>d_offset := i\<rparr>) kv) = drop (nat i) (d_header d) @ body \<and>
      \<not> obj_rest (ObjDson (d\<lparr>d_offset := i\<rparr>) kv)"
    and data: "\<And>c1. ok c1 \<Longrightarrow> good_dson nw m d kv c1 body (copy_data sk step m
      ((if d_kind d = DsonContainer then d\<lparr>d_offset := 16, d_iter := Some 0\<rparr>
        else d\<lparr>d_offset := 0\<rparr>)\<lparr>d_state := StCopyingData\<rparr>) kv c1)"
  shows "good_dson nw m d kv c (drop (nat (d_offset d)) (d_header d) @ body)
    (copy_header sk step m d kv c)"
proof -
  let ?h = "drop (nat (d_offset d)) (d_header d)"
  have lh: "int (length ?h) = 16 - d_offset d" using len off by simp
  obtain k c1 where w: "sk_put sk c ?h = Some (int k, c1)" "k \<le> length ?h" "out c1 = out c @ take k ?h"
    "ok c1" "k < length ?h \<longrightarrow> full c1"
    using put [OF c, of ?h] lh off by fastforce
  show ?thesis
  proof (cases "k = length ?h")
    case True
    then have e: "d_offset d + int k = 16" using lh by simp
    then have "copy_header sk step m d kv c = copy_data sk step m
        ((if d_kind d = DsonContainer then d\<lparr>d_offset := 16, d_iter := Some 0\<rparr>
          else d\<lparr>d_offset := 0\<rparr>)\<lparr>d_state := StCopyingData\<rparr>) kv c1"
      using off w(1) loc by (simp add: copy_header_def local_access header_size_def)
    moreover have "good_dson nw m d kv c1 body \<dots>" using data [OF w(4)] .
    moreover have "out c1 = out c @ ?h" using w(3) True by simp
    ultimately show ?thesis unfolding good_dson_def by (metis handed_second)
  next
    case False
    then have lt0: "k < length ?h" using w(2) by linarith
    then have "d_offset d + int k < 16" using lh by linarith
    note lt = lt0 this
    let ?d = "d\<lparr>d_offset := d_offset d + int k\<rparr>"
    have ce: "copy_header sk step m d kv c = Some (InProcess, c1, m, ?d, kv)"
      using off w(1) loc lt by (simp add: copy_header_def local_access header_size_def)
    have hd: "handed out ok full (?h @ body) c InProcess c1 (drop k ?h @ body) False"
      by (rule handed_first) (use lt(1) w in simp_all)
    have dr: "drop k ?h = drop (nat (d_offset d + int k)) (d_header d)"
      using off by (simp add: nat_add_distrib add.commute)
    have nn: "0 \<le> d_offset d + int k" using off by simp
    note p = partly [OF nn lt(2)]
    show ?thesis
      by (rule good_dsonI [OF ce hd _ _ p [THEN conjunct1]]) (use p dr in auto)
  qed
qed

end

section \<open>Objects over their own buffer\<close>

lemma own_data_simps [simp]:
  "own_data m (d\<lparr>d_state := s\<rparr>) = own_data m d" "own_data m (d\<lparr>d_offset := i\<rparr>) = own_data m d"
  "own_data m (d\<lparr>d_kind := k\<rparr>) = own_data m d" "own_data m (d\<lparr>d_header := h\<rparr>) = own_data m d"
  "own_data m (d\<lparr>d_iter := it\<rparr>) = own_data m d"
  by (simp_all add: own_data_def)

lemma buf_ok_state:
  "buf_ok data_ok nw m d \<Longrightarrow> buf_state_ok (d\<lparr>d_offset := i, d_state := s\<rparr>) \<Longrightarrow>
   buf_ok data_ok nw m (d\<lparr>d_offset := i, d_state := s\<rparr>)"
  by (simp add: buf_ok_def)

lemma upd_offset_state [simp]: "d\<lparr>d_offset := d_offset d, d_state := d_state d\<rparr> = d"
  by simp

context copying
begin

lemma kept_state:
  assumes "buf_ok data_ok nw m d" "d_kind d \<noteq> DsonContainer"
    "buf_state_ok (d\<lparr>d_offset := i, d_state := s\<rparr>)"
  shows "kept nw m (ObjDson d []) m (ObjDson (d\<lparr>d_offset := i, d_state := s\<rparr>) [])"
  using assms buf_ok_state [OF assms(1,3)] by (simp add: kept_def)

lemma copy_buf_data_good:
  assumes d: "buf_ok data_ok nw m d" "d_kind d \<noteq> DsonContainer" "d_state d = StCopyingData" and c: "ok c"
  shows "good_dson nw m d [] c (drop (nat (d_offset d)) (own_data m d)) (copy_data sk step m d [] c)"
proof -
  obtain b bs where b: "d_was_alloc d" "0 < d_buf_size d" "d_buf d = Some (b, 0)" "heap m b = Some bs"
    "length bs = nat (d_buf_size d)" "own_data m d = bs"
    using buf_okE [OF d(1)] by metis
  have off: "0 \<le> d_offset d" "d_offset d < d_buf_size d"
    using d by (simp_all add: buf_ok_def buf_state_ok_def)
  let ?o = "nat (d_offset d)" and ?P = "drop (nat (d_offset d)) bs"
  have lp: "int (length ?P) = d_buf_size d - d_offset d" using b off by simp
  have rd: "mread m (padd (b, 0) ?o) (nat (d_buf_size d - d_offset d)) = Some ?P"
    using b off by (subst mread_eq [of m _ bs]) (auto simp: seg_def)
  obtain k c' where w: "sk_put sk c ?P = Some (int k, c')" "k \<le> length ?P" "out c' = out c @ take k ?P"
    "ok c'" "k < length ?P \<longrightarrow> full c'"
    using put [OF c, of ?P] lp off by fastforce
  let ?i = "d_offset d + int k"
  let ?s = "if k = length ?P then StReady else StCopyingData"
  let ?d = "d\<lparr>d_offset := ?i, d_state := ?s\<rparr>"
  have end_iff: "?i = d_buf_size d \<longleftrightarrow> k = length ?P" using lp by auto
  have "copy_data sk step m d [] c = Some (if k = length ?P then Ready else InProcess, c', m, ?d, [])"
    using b off d rd w(1) end_iff
    by (cases "k = length ?P") (simp_all add: copy_data_def copy_buf_data_def buf_size_without_header_def
        data_ptr_def)
  moreover have "buf_state_ok ?d"
    using off w(2) lp by (auto simp: buf_state_ok_def)
  moreover from kept_state [OF d(1,2) this] have "kept nw m (ObjDson d []) m (ObjDson ?d [])" .
  moreover have "drop (nat ?i) bs = drop k ?P" using off by (simp add: nat_add_distrib add.commute)
  then have "handed out ok full ?P c (if k = length ?P then Ready else InProcess) c'
      (obj_pending cv nw m (ObjDson ?d [])) (obj_rest (ObjDson ?d []))"
    using w d(2) b by (intro handedI [of _ k]) (auto simp: advances_def buf_pending_def)
  ultimately show ?thesis using b(6) by (auto simp: good_dson_def)
qed

lemma copy_buf_good:
  assumes d: "buf_ok data_ok nw m d" "d_kind d \<noteq> DsonContainer" and c: "ok c"
  shows "good_dson nw m d [] c (obj_pending cv nw m (ObjDson d [])) (copy_internal sk step cv nw m d [] c)"
proof -
  have header: "good_dson nw m d [] c (drop (nat (d_offset d)) (d_header d) @ own_data m d)
      (copy_header sk step m d [] c)"
    if d: "buf_ok data_ok nw m d" "d_kind d \<noteq> DsonContainer" "d_state d = StCopyingHeader" for m d
  proof (rule copy_header_good)
    show "header_loc d = None" "length (d_header d) = 16"
      using d(1) by (auto elim!: buf_okE simp: hdr_valid_length)
    show "0 \<le> d_offset d" "d_offset d < 16" using d by (simp_all add: buf_ok_def buf_state_ok_def)
    show "ok c" by (rule c)
    fix i :: i32
    assume i: "0 \<le> i" "i < 16"
    then have "buf_state_ok (d\<lparr>d_offset := i, d_state := StCopyingHeader\<rparr>)" by (simp add: buf_state_ok_def)
    moreover have "d\<lparr>d_offset := i, d_state := StCopyingHeader\<rparr> = d\<lparr>d_offset := i\<rparr>"
      using d(3) by (cases d) simp
    ultimately have "kept nw m (ObjDson d []) m (ObjDson (d\<lparr>d_offset := i\<rparr>) [])"
      using kept_state [OF d(1,2)] by metis
    then show "kept nw m (ObjDson d []) m (ObjDson (d\<lparr>d_offset := i\<rparr>) []) \<and>
      obj_pending cv nw m (ObjDson (d\<lparr>d_offset := i\<rparr>) []) = drop (nat i) (d_header d) @ own_data m d \<and>
      \<not> obj_rest (ObjDson (d\<lparr>d_offset := i\<rparr>) [])"
      using d(2,3) by (simp add: buf_pending_def)
  next
    fix c1
    assume c1: "ok c1"
    let ?d = "d\<lparr>d_offset := 0, d_state := StCopyingData\<rparr>"
    have "buf_state_ok ?d" using d(1) by (simp add: buf_state_ok_def buf_ok_def)
    note k = kept_state [OF d(1,2) this]
    then have "buf_ok data_ok nw m ?d" using d(2) by (simp add: kept_def)
    from good_dson_trans [OF k copy_buf_data_good [OF this _ _ c1, of step]] d(2)
    show "good_dson nw m d [] c1 (own_data m d) (copy_data sk step m
        ((if d_kind d = DsonContainer then d\<lparr>d_offset := 16, d_iter := Some 0\<rparr>
          else d\<lparr>d_offset := 0\<rparr>)\<lparr>d_state := StCopyingData\<rparr>) [] c1)"
      by simp
  qed
  consider "d_state d = StReady" | "d_state d = StCopyingHeader" | "d_state d = StCopyingData"
    using d(1) by (cases "d_state d") (auto simp: buf_ok_def buf_state_ok_def)
  then show ?thesis
  proof cases
    case 1
    show ?thesis
    proof (rule buf_begin [OF d(1) 1 d(2), of "[]"])
      fix m' d'
      assume b: "copy_begin cv nw m d [] = Some (m', d', [])" "d_kind d' \<noteq> DsonContainer"
        "d_state d' = StCopyingHeader" "d_offset d' = 0" "buf_ok data_ok nw m' d'"
        "(d_header d', own_data m' d') = buf_out cv nw (d_header d) (own_data m d)"
        "buf_out cv nw (d_header d') (own_data m' d') = (d_header d', own_data m' d')"
        "own_blocks d' = own_blocks d" "\<forall>b. b \<notin> set (own_blocks d) \<longrightarrow> heap m' b = heap m b"
        "hdr_field (d_header d') (Suc 0) = hdr_field (d_header d) (Suc 0)" "same_alloc m m'"
      obtain b0 bs0 where "own_blocks d' = [b0]" "heap m' b0 = Some bs0" using buf_okE [OF b(5)] by metis
      then have "heap m' x \<noteq> None" if "x \<in> set (own_blocks d)" for x
        using b(8) that by simp
      then have lv: "still_live m m'" using b(9,11) unfolding still_live_def by metis
      have k: "kept nw m (ObjDson d []) m' (ObjDson d' [])"
        using b d(2) buf_ok_owned [OF b(5)] lv by (simp add: kept_def b(6) [symmetric] del: obj_owned.simps)
      have "obj_pending cv nw m (ObjDson d []) = drop (nat (d_offset d')) (d_header d') @ own_data m' d'"
        using b d(2) 1 by (simp add: buf_pending_def b(6) [symmetric])
      moreover have "copy_internal sk step cv nw m d [] c = copy_header sk step m' d' [] c"
        using b 1 by (simp add: copy_internal_def)
      ultimately show ?thesis using good_dson_trans [OF k header [OF b(5,2,3)]] by simp
    qed
  next
    case 2
    then show ?thesis using header [OF d 2] d(2) by (simp add: copy_internal_def buf_pending_def)
  next
    case 3
    then show ?thesis using copy_buf_data_good [OF d 3 c] d(2)
      by (simp add: copy_internal_def buf_pending_def)
  qed
qed

end

section \<open>Containers\<close>

context copying
begin

lemma copy_map_good:
  assumes d: "d_kind d = DsonContainer" "d_state d = StCopyingData" "container_ok d kv"
    "map_size kv \<le> i32_max" "map_ok data_ok nw m kv" and i: "d_iter d = Some i"
    and dist: "distinct (map_blocks kv)" and c: "ok c"
    and step: "\<And>k obj m c. (k, obj) \<in> set kv \<Longrightarrow> obj_ok data_ok nw m obj \<Longrightarrow> ok c \<Longrightarrow>
      good_call nw m obj c (step m obj c)"
  shows "good_dson nw m d kv c (map_pending cv nw m i kv) (copy_data sk step m d kv c)"
proof -
  let ?a = "take i kv" and ?b = "drop i kv"
  have ab: "kv = ?a @ ?b" by simp
  have il: "i \<le> length kv" and rest: "map_rest ?a" "map_rest (drop (Suc i) kv)"
    using d i by (auto simp: container_ok_def)
  have blocks: "map_blocks kv = map_blocks ?a @ map_blocks ?b" by (metis ab map_blocks_append)
  have ok: "map_ok data_ok nw m ?a" "map_ok data_ok nw m ?b" using d(5) by (metis ab map_ok_append)+
  have db: "distinct (map_blocks ?b)" "set (map_blocks ?a) \<inter> set (map_blocks ?b) = {}"
    using dist unfolding blocks by simp_all
  have "\<exists>r c' m' kv' j. copy_map_loop step m ?b c = Some (r, c', m', kv', j) \<and>
      loop_good nw m ?b c r c' m' kv' j"
    by (rule copy_map_loop_good [OF ok(2) db(1) _ c]) (use rest step in \<open>auto dest: in_set_dropD\<close>)
  then obtain r c' m' kv' j where l: "copy_map_loop step m ?b c = Some (r, c', m', kv', j)"
    and g: "loop_good nw m ?b c r c' m' kv' j" by blast
  note g' = g [unfolded loop_good_def]
  have "\<forall>b \<in> set (map_blocks ?a). heap m' b = heap m b" using g' db(2) by auto
  from map_frame [OF this, of data_ok nw cv] ok(1)
  have fa: "map_ok data_ok nw m' ?a" "map_wire cv nw m' ?a = map_wire cv nw m ?a" by auto
  let ?d = "d\<lparr>d_iter := Some (i + j), d_state := (if r = Ready then StReady else StCopyingData)\<rparr>"
  let ?kv = "?a @ kv'"
  have la: "length ?a = i" using il by simp
  have "d\<lparr>d_iter := Some (i + j), d_state := StCopyingData\<rparr> = d\<lparr>d_iter := Some (i + j)\<rparr>"
    using d(2) by (cases d) simp
  then have ce: "copy_data sk step m d kv c = Some (r, c', m', ?d, ?kv)"
    using d(1) i il l by (simp add: copy_data_def copy_map_def)
  have "map_rest kv'" if "r = Ready"
  proof -
    have "j = length kv'" "map_rest (take j kv')" using loop_goodD [OF g] that by blast+
    then show ?thesis by simp
  qed
  moreover have "take (i + j) ?kv = ?a @ take j kv'" "drop (Suc (i + j)) ?kv = drop (Suc j) kv'"
    using la by simp_all
  ultimately have cok: "container_ok ?d ?kv"
    using d(3) g' rest(1) la by (auto simp: container_ok_def)
  have sz: "map_size ?kv = map_size kv" "map_blocks ?kv = map_blocks kv"
    "map_wire cv nw m' ?kv = map_wire cv nw m kv" "map_shape ?kv = map_shape kv"
    using g' fa(2) by (simp_all add: map_take_drop)
  have "map_owned m kv \<longrightarrow> map_owned m' ?kv"
  proof
    assume "map_owned m kv"
    then have "map_owned m (?a @ ?b)" by simp
    then have "map_owned m ?a" "map_owned m ?b" by (simp_all only: map_owned_append)
    then show "map_owned m' ?kv" using g' map_owned_live by auto
  qed
  then have ow: "still_live m m' \<and> (obj_owned m (ObjDson d kv) \<longrightarrow> obj_owned m' (ObjDson ?d ?kv))"
    using g' by (auto simp: still_live_def)
  have kept: "kept nw m (ObjDson d kv) m' (ObjDson ?d ?kv)"
    using d g' fa cok sz blocks ow by (simp add: kept_def)
  have pend: "handed out ok full (map_pending cv nw m i kv) c r c' (map_pending cv nw m' j kv') (r = Ready)"
    using g' by (simp add: map_pending_drop [of _ _ _ i])
  have q: "obj_pending cv nw m' (ObjDson ?d ?kv) = map_pending cv nw m' j kv'" if "r \<noteq> Ready"
    using that d(1) la map_pending_append [of cv nw m' ?a j kv'] by simp
  have r: "obj_rest (ObjDson ?d ?kv) \<longleftrightarrow> r = Ready" using cok by (auto simp: container_ok_def)
  have "handed out ok full (map_pending cv nw m i kv) c r c' (obj_pending cv nw m' (ObjDson ?d ?kv)) (r = Ready)"
    by (rule handed_cong [OF pend refl _ refl]) (use q in auto)
  from good_dsonI [OF ce this refl r kept] show ?thesis .
qed

lemma kept_container:
  assumes "d_kind d = DsonContainer" "container_ok d kv" "map_size kv \<le> i32_max" "map_ok data_ok nw m kv"
    "d_kind d' = DsonContainer" "container_ok d' kv" "own_blocks d' = own_blocks d"
    "hdr_field (d_header d') 2 = hdr_field (d_header d) 2" "hdr_field (d_header d') 3 = hdr_field (d_header d) 3"
    and "d_was_alloc d' = d_was_alloc d" "d_buf d' = d_buf d"
  shows "kept nw m (ObjDson d kv) m (ObjDson d' kv)"
  using assms by (simp add: kept_def)

lemma copy_container_good:
  assumes d: "d_kind d = DsonContainer" "container_ok d kv" "map_size kv \<le> i32_max"
    "map_ok data_ok nw m kv"
    and dist: "distinct (map_blocks kv)" and c: "ok c"
    and step: "\<And>k obj m c. (k, obj) \<in> set kv \<Longrightarrow> obj_ok data_ok nw m obj \<Longrightarrow> ok c \<Longrightarrow>
      good_call nw m obj c (step m obj c)"
  shows "good_dson nw m d kv c (obj_pending cv nw m (ObjDson d kv)) (copy_internal sk step cv nw m d kv c)"
proof -
  have header: "good_dson nw m d kv c (drop (nat (d_offset d)) (d_header d) @ map_pending cv nw m 0 kv)
      (copy_header sk step m d kv c)"
    if d': "d_kind d = DsonContainer" "container_ok d kv" "d_state d = StCopyingHeader" for d
  proof (rule copy_header_good)
    show "header_loc d = None" "length (d_header d) = 16" "0 \<le> d_offset d" "d_offset d < 16"
      using d' by (simp_all add: container_ok_def hdr_valid_length)
    show "ok c" by (rule c)
    fix i :: i32
    assume i: "0 \<le> i" "i < 16"
    have "kept nw m (ObjDson d kv) m (ObjDson (d\<lparr>d_offset := i\<rparr>) kv)"
      by (rule kept_container [OF d'(1,2) d(3,4)]) (use d' i in \<open>auto simp: container_ok_def\<close>)
    then show "kept nw m (ObjDson d kv) m (ObjDson (d\<lparr>d_offset := i\<rparr>) kv) \<and>
      obj_pending cv nw m (ObjDson (d\<lparr>d_offset := i\<rparr>) kv) =
        drop (nat i) (d_header d) @ map_pending cv nw m 0 kv \<and>
      \<not> obj_rest (ObjDson (d\<lparr>d_offset := i\<rparr>) kv)"
      using d' by simp
  next
    fix c1
    assume c1: "ok c1"
    let ?d = "d\<lparr>d_offset := 16, d_iter := Some 0, d_state := StCopyingData\<rparr>"
    have rest: "map_rest kv" using d' by (simp add: container_ok_def)
    have "map_rest (drop (Suc 0) kv)" using rest by (cases kv) auto
    then have cok: "container_ok ?d kv" using d' by (simp add: container_ok_def)
    have k: "kept nw m (ObjDson d kv) m (ObjDson ?d kv)"
      by (rule kept_container [OF d'(1,2) d(3,4)]) (use d' cok in auto)
    have "good_dson nw m ?d kv c1 (map_pending cv nw m 0 kv) (copy_data sk step m ?d kv c1)"
      by (rule copy_map_good [OF _ _ cok d(3,4) _ dist c1 step]) (use d' in auto)
    from good_dson_trans [OF k this] d'
    show "good_dson nw m d kv c1 (map_pending cv nw m 0 kv) (copy_data sk step m
        ((if d_kind d = DsonContainer then d\<lparr>d_offset := 16, d_iter := Some 0\<rparr>
          else d\<lparr>d_offset := 0\<rparr>)\<lparr>d_state := StCopyingData\<rparr>) kv c1)"
      by simp
  qed
  have valid: "header_loc d = None" "hdr_valid (d_header d)" using d by (simp_all add: container_ok_def)
  consider "d_state d = StReady" | "d_state d = StCopyingHeader" | "d_state d = StCopyingData"
    using d(2) by (cases "d_state d") (auto simp: container_ok_def)
  then show ?thesis
  proof cases
    case 1
    have z: "0 \<le> map_size kv" "data_size_loop m kv 0 = Some (map_size kv)"
      using map_size_ok [OF d(4)] d(3) by simp_all
    then have iok: "i32_ok (map_size kv)" using d(3) by (simp add: i32_ok_def i32_min_def)
    let ?h = "hdr_order nw (hdr_set_field (d_header d) (Suc 0) (map_size kv))"
    have hv: "hdr_valid (hdr_set_field (d_header d) (Suc 0) (map_size kv))"
      using hdr_set_field_valid [OF valid(2), of 1] by simp
    let ?d = "d\<lparr>d_header := ?h, d_offset := 0, d_state := StCopyingHeader\<rparr>"
    have b: "copy_begin cv nw m d kv = Some (m, ?d, kv)"
      using d(1) valid z by (cases nw) (simp_all add: copy_begin_def copy_parse_def dson_data_size_def
          set_data_size_internal_def local_simps hdr_order_def)
    have cok: "container_ok ?d kv" using d(2) 1 hv by (simp add: container_ok_def)
    have k: "kept nw m (ObjDson d kv) m (ObjDson ?d kv)"
      by (rule kept_container [OF d]) (use d hv valid iok cok in \<open>auto simp: hdr_set_size\<close>)
    have "good_dson nw m ?d kv c (drop (nat (d_offset ?d)) (d_header ?d) @ map_pending cv nw m 0 kv)
        (copy_header sk step m ?d kv c)"
      by (rule header) (use d cok in auto)
    from good_dson_trans [OF k this]
    show ?thesis using b 1 d(1) by (simp add: copy_internal_def)
  next
    case 2
    then show ?thesis using header [OF d(1,2) 2] d(1) by (simp add: copy_internal_def)
  next
    case 3
    then obtain i where "d_iter d = Some i" using d(2) by (auto simp: container_ok_def)
    then show ?thesis using copy_map_good [OF d(1) 3 d(2,3,4) _ dist c step] d(1) 3
      by (simp add: copy_internal_def)
  qed
qed

lemma copy_string_good:
  "ok c \<Longrightarrow> so_sendable s \<Longrightarrow> good_call nw m (ObjString s) c (copy_obj fuel sk cv nw m (ObjString s) c)"
  using put_string [of c s nw]
  by (fastforce simp: good_call_def kept_def so_sendable_def so_wf_def simp del: so_pending.simps)

lemma copy_route_good:
  "ok c \<Longrightarrow> ro_wf t \<Longrightarrow> good_call nw m (ObjRoute t) c (copy_obj fuel sk cv nw m (ObjRoute t) c)"
  using put_route [of c t nw]
  by (fastforce simp: good_call_def kept_def ro_data_size_def simp del: ro_pending.simps)

text \<open>One call on an object of any class and nesting; the fuel need only bound the nesting.\<close>

lemma copy_obj_good:
  "obj_ok data_ok nw m obj \<Longrightarrow> distinct (obj_blocks obj) \<Longrightarrow> obj_depth obj \<le> fuel \<Longrightarrow> ok c \<Longrightarrow>
   good_call nw m obj c (copy_obj fuel sk cv nw m obj c)"
proof (induction fuel arbitrary: m obj c)
  case (Suc fuel)
  show ?case
  proof (cases obj)
    case (ObjDson d kv)
    have "good_dson nw m d kv c (obj_pending cv nw m (ObjDson d kv))
        (copy_internal sk (copy_obj fuel sk cv nw) cv nw m d kv c)"
    proof (cases "d_kind d = DsonContainer")
      case True
      show ?thesis
      proof (rule copy_container_good)
        fix k o' m c
        assume o': "(k, o') \<in> set kv" "obj_ok data_ok nw m o'" "ok c"
        have "obj_depth o' \<le> fuel" using map_depth_mem [OF o'(1)] Suc.prems(3) True ObjDson by simp
        moreover have "distinct (obj_blocks o')"
          using map_blocks_distinct [OF o'(1)] Suc.prems(2) ObjDson by simp
        ultimately show "good_call nw m o' c (copy_obj fuel sk cv nw m o' c)"
          using Suc.IH o' by blast
      qed (use Suc.prems True ObjDson in auto)
    next
      case False
      then show ?thesis using copy_buf_good [of nw m d c] Suc.prems ObjDson by simp
    qed
    then show ?thesis by (auto simp: ObjDson good_dson_def good_call_def)
  next
    case (ObjString s)
    then show ?thesis using copy_string_good Suc.prems by simp
  next
    case (ObjRoute t)
    then show ?thesis using copy_route_good Suc.prems by simp
  qed
next
  case 0
  show ?case
  proof (cases obj)
    case (ObjDson d kv)
    then show ?thesis using 0 by (cases "d_kind d = DataBufNeedParse") simp_all
  next
    case (ObjString s)
    then show ?thesis using copy_string_good 0 by simp
  next
    case (ObjRoute t)
    then show ?thesis using copy_route_good 0 by simp
  qed
qed

end

end
