(* ===== verification/Dson_Send.thy ===== *)
theory Dson_Send
  imports Dson_Transfer
begin

text \<open>
  Sending whole messages: the library's converter table as an instance of the interface of
  tables, repeated \<open>copy_to_buf_*\<close> and \<open>copy_to_fd_*\<close> calls as instances of the interfaces
  of resumable writers, and what they deliver.
\<close>

section \<open>The library's table\<close>

definition lib_data :: data_pred where
  "lib_data ty nw sz bs \<longleftrightarrow> (\<forall>t. of_i32 ty = type_key t \<longrightarrow> lib_data_ok t sz bs)"

lemma lib_data_type [simp]: "lib_data (types_map t) nw sz bs \<longleftrightarrow> lib_data_ok t sz bs"
  by (simp add: lib_data_def type_key_def [symmetric])

lemma types_map_inj [simp]: "types_map s = types_map t \<longleftrightarrow> s = t"
  by (metis type_key_def type_key_inj)

lemma lib_table_key:
  "to_network_order lib_converters w = Some f \<Longrightarrow> \<exists>t. w = type_key t"
  "to_host_order lib_converters w = Some f \<Longrightarrow> \<exists>t. w = type_key t"
  unfolding lib_converters_eq by (metis fun_upd_other option.distinct(1))+

lemma lib_table_step:
  assumes "lib_data_ok t sz bs"
  shows "to_network_order lib_converters (type_key t) = Some f \<Longrightarrow>
      \<exists>n. f sz bs = Some n \<and> length n = length bs \<and> lib_data_ok t sz n"
    and "to_host_order lib_converters (type_key t) = Some f \<Longrightarrow>
      \<exists>n. f sz bs = Some n \<and> length n = length bs \<and> lib_data_ok t sz n"
proof -
  show "\<exists>n. f sz bs = Some n \<and> length n = length bs \<and> lib_data_ok t sz n"
    if "to_network_order lib_converters (type_key t) = Some f"
    using that assms cv32.to_net_ok [of sz bs] cv64.to_net_ok [of sz bs] cvdbl.to_net_ok [of sz bs]
      cvvec.to_net_ok [of sz bs]
    by (cases t) (auto simp: lib_converters_eq)
  show "\<exists>n. f sz bs = Some n \<and> length n = length bs \<and> lib_data_ok t sz n"
    if "to_host_order lib_converters (type_key t) = Some f"
    using that assms cv32.to_host_ok [of sz bs] cv64.to_host_ok [of sz bs] cvdbl.to_host_ok [of sz bs]
      cvvec.to_host_ok [of sz bs]
    by (cases t) (auto simp: lib_converters_eq)
qed

interpretation lib_table: converter_table lib_converters lib_data
proof
  show "\<exists>n. f sz bs = Some n \<and> length n = length bs \<and> lib_data ty True sz n"
    if d: "lib_data ty False sz bs" and f: "to_network_order lib_converters (of_i32 ty) = Some f" for ty sz bs f
  proof -
    obtain t where t: "of_i32 ty = type_key t" using lib_table_key(1) [OF f] by blast
    then show ?thesis using lib_table_step(1) [of t sz bs f] d f by (simp add: lib_data_def)
  qed
  show "\<exists>n. f sz bs = Some n \<and> length n = length bs \<and> lib_data ty False sz n"
    if d: "lib_data ty True sz bs" and f: "to_host_order lib_converters (of_i32 ty) = Some f" for ty sz bs f
  proof -
    obtain t where t: "of_i32 ty = type_key t" using lib_table_key(2) [OF f] by blast
    then show ?thesis using lib_table_step(2) [of t sz bs f] d f by (simp add: lib_data_def)
  qed
qed

interpretation lib_buf: copying lib_converters lib_data buf_sink c_out "window_of n" "\<lambda>c. c_room c = 0"
  for n
  by unfold_locales

interpretation lib_fd: copying lib_converters lib_data fd_sink w_data "\<lambda>fd. soft (w_script fd)" "\<lambda>_. True"
  by unfold_locales

interpretation lib_live: copying lib_converters lib_data fd_sink w_data "\<lambda>fd. soft (w_script fd) \<and> live fd"
  "\<lambda>fd. w_data fd \<noteq> []"
  by unfold_locales

section \<open>The client loops\<close>

type_synonym loaded = "mem \<times> dson_obj"

definition buf_step :: "bool \<Rightarrow> loaded \<Rightarrow> nat \<Rightarrow> (result \<times> byte list \<times> loaded) option" where
  "buf_step nw s n = do {
     (r, c, m, obj) \<leftarrow> copy_to_buf lib_converters nw (fst s) (snd s) (window n);
     Some (r, c_out c, (m, obj))
   }"

definition fd_step :: "bool \<Rightarrow> loaded \<Rightarrow> wcall list \<Rightarrow> (result \<times> byte list \<times> loaded) option" where
  "fd_step nw s script = do {
     (r, fd, m, obj) \<leftarrow> copy_to_fd lib_converters nw (fst s) (snd s) \<lparr>w_script = script, w_data = []\<rparr>;
     Some (r, w_data fd, (m, obj))
   }"

text \<open>A message being sent, whose serialisation is \<open>W\<close>.\<close>

definition sending :: "bool \<Rightarrow> byte list \<Rightarrow> loaded \<Rightarrow> bool" where
  "sending nw W s \<longleftrightarrow> obj_ok lib_data nw (fst s) (snd s) \<and> distinct (obj_blocks (snd s)) \<and>
     obj_wire lib_converters nw (fst s) (snd s) = W"

abbreviation to_send :: "bool \<Rightarrow> loaded \<Rightarrow> byte list" where
  "to_send nw s \<equiv> obj_pending lib_converters nw (fst s) (snd s)"

interpretation buf_writer: window_writer "buf_step nw" "sending nw W" "to_send nw" "\<lambda>s. obj_rest (snd s)"
  for nw W
proof
  fix s n
  assume s: "sending nw W s"
  let ?m = "fst s" and ?obj = "snd s"
  have "lib_buf.good_call (int n) nw ?m ?obj (window n)
      (copy_obj (obj_depth ?obj) buf_sink lib_converters nw ?m ?obj (window n))"
    by (rule lib_buf.copy_obj_good) (use s in \<open>simp_all add: sending_def\<close>)
  then obtain r c m' obj' where e: "copy_to_buf lib_converters nw ?m ?obj (window n) = Some (r, c, m', obj')"
    and h: "handed c_out (window_of (int n)) (\<lambda>c. c_room c = 0) (to_send nw s) (window n) r c
      (to_send nw (m', obj')) (obj_rest obj')"
    and k: "lib_buf.kept nw ?m ?obj m' obj'"
    by (auto simp: lib_buf.good_call_def copy_to_buf_def)
  obtain j where j: "advances (to_send nw s) j r (to_send nw (m', obj')) (obj_rest obj')"
    "c_out c = take j (to_send nw s)" "window_of (int n) c" "r = InProcess \<longrightarrow> c_room c = 0"
    using h by (auto simp: handed_def)
  have "j = min n (length (to_send nw s))"
    using j by (cases r) (auto simp: advances_ready advances_in_process)
  moreover from this j(2) have "c_out c = take n (to_send nw s)" by (simp add: min_def split: if_splits)
  moreover have "sending nw W (m', obj')" using s k by (auto simp: sending_def lib_buf.kept_def)
  ultimately show "\<exists>r s'. buf_step nw s n = Some (r, take n (to_send nw s), s') \<and>
      advances (to_send nw s) (min n (length (to_send nw s))) r (to_send nw s') (obj_rest (snd s')) \<and>
      sending nw W s'"
    using e j(1) by (intro exI [of _ r] exI [of _ "(m', obj')"]) (auto simp: buf_step_def)
qed

interpretation fd_writer: resumable_writer "fd_step nw" "sending nw W" "to_send nw" "\<lambda>s. obj_rest (snd s)" soft
  for nw W
proof
  fix s and script :: "wcall list"
  assume s: "sending nw W s" and soft: "soft script"
  let ?m = "fst s" and ?obj = "snd s" and ?fd = "\<lparr>w_script = script, w_data = []\<rparr>"
  have "lib_fd.good_call nw ?m ?obj ?fd (copy_obj (obj_depth ?obj) fd_sink lib_converters nw ?m ?obj ?fd)"
    by (rule lib_fd.copy_obj_good) (use s soft in \<open>simp_all add: sending_def\<close>)
  then obtain r fd m' obj' where e: "copy_to_fd lib_converters nw ?m ?obj ?fd = Some (r, fd, m', obj')"
    and h: "handed w_data (\<lambda>fd. soft (w_script fd)) (\<lambda>_. True) (to_send nw s) ?fd r fd
      (to_send nw (m', obj')) (obj_rest obj')"
    and k: "lib_fd.kept nw ?m ?obj m' obj'"
    by (auto simp: lib_fd.good_call_def copy_to_fd_def)
  obtain j where j: "advances (to_send nw s) j r (to_send nw (m', obj')) (obj_rest obj')"
    "w_data fd = take j (to_send nw s)"
    using h by (auto simp: handed_def)
  moreover have "sending nw W (m', obj')" using s k by (auto simp: sending_def lib_fd.kept_def)
  ultimately show "\<exists>k r s'. fd_step nw s script = Some (r, take k (to_send nw s), s') \<and>
      advances (to_send nw s) k r (to_send nw s') (obj_rest (snd s')) \<and> sending nw W s'"
    using e by (intro exI [of _ j] exI [of _ r] exI [of _ "(m', obj')"]) (auto simp: fd_step_def)
qed

text \<open>The kernel takes at least one byte of the first write of the call.\<close>

definition taking :: "wcall list \<Rightarrow> bool" where
  "taking script \<longleftrightarrow> soft script \<and> (case script of WrTake n # _ \<Rightarrow> 0 < n | _ \<Rightarrow> False)"

interpretation fd_live: live_writer "fd_step nw" "sending nw W" "to_send nw" "\<lambda>s. obj_rest (snd s)" soft taking
  for nw W
proof
  show "soft e" if "taking e" for e using that by (simp add: taking_def)
next
  fix s script r xs s'
  assume s: "sending nw W s" and t: "taking script" and p: "to_send nw s \<noteq> []"
    and st: "fd_step nw s script = Some (r, xs, s')"
  let ?m = "fst s" and ?obj = "snd s" and ?fd = "\<lparr>w_script = script, w_data = []\<rparr>"
  have fd: "soft (w_script ?fd) \<and> live ?fd"
    using t by (auto simp: taking_def live_def gr0_conv_Suc split: list.splits wcall.splits)
  have "lib_live.good_call nw ?m ?obj ?fd (copy_obj (obj_depth ?obj) fd_sink lib_converters nw ?m ?obj ?fd)"
    by (rule lib_live.copy_obj_good) (use s fd in \<open>simp_all add: sending_def\<close>)
  then obtain q where "handed w_data (\<lambda>fd. soft (w_script fd) \<and> live fd) (\<lambda>fd. w_data fd \<noteq> []) (to_send nw s) ?fd r q
      (to_send nw s') (obj_rest (snd s'))" "w_data q = xs"
    using st by (auto simp: lib_live.good_call_def fd_step_def copy_to_fd_def)
  then show "xs \<noteq> []" using p by (cases r) (auto simp: handed_def advances_ready)
qed

lemma length_buf_out: "hdr_valid h \<Longrightarrow> length (fst (buf_out cv nw h bs)) = 16"
  by (auto simp: buf_out_def hdr_valid_length split: option.splits)

lemma take_prefix: "W = xs @ ys \<Longrightarrow> \<exists>k. xs = take k W"
  by (rule exI [of _ "length xs"]) simp

lemma obj_wire_nonempty:
  assumes "obj_ok data_ok nw m obj"
  shows "obj_wire cv nw m obj \<noteq> []"
proof (cases obj)
  case (ObjDson d kv)
  show ?thesis
  proof (cases "d_kind d = DsonContainer")
    case True
    then show ?thesis using ObjDson by (simp add: hdr_for_def host_hdr_def net_hdr_def be32_def store32_def
          store_le_4)
  next
    case False
    then have "hdr_valid (d_header d)" using assms ObjDson by (simp add: buf_ok_def)
    then have "length (fst (buf_out cv nw (d_header d) bs)) = 16" for bs by (rule length_buf_out)
    then have "fst (buf_out cv nw (d_header d) bs) \<noteq> []" for bs
      by (metis list.size(3) zero_neq_numeral)
    then show ?thesis using False ObjDson by (simp add: split_beta)
  qed
qed (simp_all add: string_wire_def route_wire_def hdr_for_def host_hdr_def net_hdr_def be32_def
    store32_def store_le_4)

text \<open>
  C2: a message at rest, of any nesting, copied through any sequence of windows with enough
  room in total, is delivered exactly: the calls end with \<open>Ready\<close>, the bytes handed over are
  the serialisation in the order asked for, and the object is at rest and has the same
  serialisation, so that it can be sent again.
\<close>

theorem dson_copy_to_buf_windows:
  assumes "obj_ok lib_data nw m obj" "distinct (obj_blocks obj)" "obj_rest obj"
    and "length (obj_wire lib_converters nw m obj) \<le> sum_list ns"
  shows "\<exists>m' obj'. drive (buf_step nw) (m, obj) ns =
      Some (Ready, obj_wire lib_converters nw m obj, (m', obj')) \<and>
    obj_rest obj' \<and> obj_ok lib_data nw m' obj' \<and>
    obj_wire lib_converters nw m' obj' = obj_wire lib_converters nw m obj"
proof -
  let ?W = "obj_wire lib_converters nw m obj"
  have p: "to_send nw (m, obj) = ?W" using obj_rest_pending [OF assms(1,3)] by simp
  have "sending nw ?W (m, obj)" using assms by (simp add: sending_def)
  from buf_writer.drive_windows [OF this, of ns] p assms(4) obj_wire_nonempty [OF assms(1)]
  obtain s where "drive (buf_step nw) (m, obj) ns = Some (Ready, ?W, s)" "obj_rest (snd s)"
    "sending nw ?W s" by auto
  then show ?thesis by (intro exI [of _ "fst s"] exI [of _ "snd s"]) (auto simp: sending_def)
qed

text \<open>A container with an integer and a string, the integer's memory in block 0.\<close>

definition sample_mem :: mem where
  "sample_mem = \<lparr>heap = [0 \<mapsto> [1, 2, 3, 4]], next_block = 1, malloc_limit = 1000, malloc_fill = (\<lambda>_. 170)\<rparr>"

definition sample_int :: dson where
  "sample_int = (dson_fields (hdr_for False 4 5 (types_map T_uint32)))
     \<lparr>d_buf := Some (0, 0), d_buf_size := 4, d_was_alloc := True, d_kind := OneObjectInDataBuf\<rparr>"

definition sample_msg :: dson_obj where
  "sample_msg = ObjDson (dson_fields (hdr_for False 0 0 (types_map T_DsonContainer)))
     [(5, ObjDson sample_int []), (7, ObjString (so_new (replicate 16 0) 7 [104, 105]))]"

lemma sample_int_ok: "obj_ok lib_data nw sample_mem (ObjDson sample_int [])"
  by (simp add: sample_int_def sample_mem_def buf_ok_def dson_fields_def hdr_simps fits_def
      buf_state_ok_def)

lemma sample_msg_ok:
  "obj_ok lib_data nw sample_mem sample_msg" "distinct (obj_blocks sample_msg)" "obj_rest sample_msg"
proof -
  have "so_sendable (so_new (replicate 16 0) 7 [104, 105])" "so_data_size (so_new (replicate 16 0) 7 [104, 105]) = 2"
    using so_new_hi by (simp_all add: so_sendable_def so_wf_def)
  moreover have "d_kind sample_int = OneObjectInDataBuf" "hdr_field (d_header sample_int) (Suc 0) = 4"
    by (simp_all add: sample_int_def dson_fields_def hdr_simps)
  ultimately show "obj_ok lib_data nw sample_mem sample_msg"
    using sample_int_ok [of nw]
    by (simp add: sample_msg_def container_ok_def dson_fields_def header_loc_def i32_max_def
        header_size_def) (simp add: sample_int_def dson_fields_def so_new_hi)
  show "distinct (obj_blocks sample_msg)"
    by (simp add: sample_msg_def own_blocks_def dson_fields_def sample_int_def)
  show "obj_rest sample_msg"
    by (simp add: sample_msg_def dson_fields_def sample_int_def so_new_hi)
qed

lemma sample_msg_wire:
  "obj_wire lib_converters True sample_mem sample_msg =
     net_hdr 38 0 (types_map T_DsonContainer) @
     net_hdr 4 5 (types_map T_uint32) @ [4, 3, 2, 1] @ string_wire True 7 [104, 105]"
proof -
  have "store32 (htonl (load32 [1, 2, 3, 4])) = [4, 3, 2, 1]"
    by (simp add: store32_htonl be32_def store_load32)
  then have c: "conv32 htonl 4 [1, 2, 3, 4] = Some [4, 3, 2, 1]"
    by (simp add: conv32_def patch_def seg_def)
  have "map_size [(5, ObjDson sample_int []), (7, ObjString (so_new (replicate 16 0) 7 [104, 105]))] = 38"
    using so_new_hi by (simp add: sample_int_def dson_fields_def hdr_simps header_size_def so_wf_def)
  moreover have "buf_out lib_converters True (d_header sample_int) [1, 2, 3, 4] =
      (net_hdr 4 5 (types_map T_uint32), [4, 3, 2, 1])"
    using c by (simp add: buf_out_def sample_int_def dson_fields_def hdr_simps lib_converters_eq
        type_key_def [symmetric] hdr_order_def)
  moreover have "own_data sample_mem sample_int = [1, 2, 3, 4]" "d_kind sample_int = OneObjectInDataBuf"
    by (simp_all add: own_data_def sample_mem_def sample_int_def dson_fields_def)
  ultimately show ?thesis
    by (simp add: sample_msg_def so_new_hi dson_fields_def hdr_simps) (simp add: hdr_for_def)
qed

lemma dson_copy_to_buf_windows_witness:
  "\<exists>m' obj'. drive (buf_step True) (sample_mem, sample_msg) [10, 30, 50] =
      Some (Ready, obj_wire lib_converters True sample_mem sample_msg, (m', obj')) \<and>
    obj_rest obj' \<and> obj_ok lib_data True m' obj' \<and>
    obj_wire lib_converters True m' obj' = obj_wire lib_converters True sample_mem sample_msg"
  by (rule dson_copy_to_buf_windows)
    (simp_all add: sample_msg_ok sample_msg_wire string_wire_def)

text \<open>
  C12: over a descriptor that takes any part of what it is offered, or nothing for now, but
  does not fail, sending a message at rest of any nesting never answers \<open>Error\<close>; what was
  written is a prefix of the serialisation, and all of it exactly when the answer is
  \<open>Ready\<close>.
\<close>

theorem dson_copy_to_fd_prefix:
  assumes "obj_ok lib_data nw m obj" "distinct (obj_blocks obj)" "obj_rest obj"
    and "\<forall>e \<in> set es. soft e"
  shows "\<exists>r written m' obj'. drive (fd_step nw) (m, obj) es = Some (r, written, (m', obj')) \<and>
    r \<noteq> Error \<and> (\<exists>k. written = take k (obj_wire lib_converters nw m obj)) \<and>
    (r = Ready \<longrightarrow> written = obj_wire lib_converters nw m obj \<and> obj_rest obj') \<and>
    obj_wire lib_converters nw m' obj' = obj_wire lib_converters nw m obj"
proof -
  let ?W = "obj_wire lib_converters nw m obj"
  have p: "to_send nw (m, obj) = ?W" using obj_rest_pending [OF assms(1,3)] by simp
  have "sending nw ?W (m, obj)" using assms by (simp add: sending_def)
  from fd_writer.drive_prefix [OF this assms(4)]
  show ?thesis unfolding p
  proof (elim disjE exE conjE)
    fix s
    assume "drive (fd_step nw) (m, obj) es = Some (Ready, ?W, s)" "obj_rest (snd s)" "sending nw ?W s"
    then show ?thesis
      by (intro exI [of _ Ready] exI [of _ ?W] exI [of _ "fst s"] exI [of _ "snd s"])
        (auto simp: sending_def intro: exI [of _ "length ?W"])
  next
    fix written s
    assume *: "drive (fd_step nw) (m, obj) es = Some (InProcess, written, s)" "sending nw ?W s"
      "?W = written @ to_send nw s"
    have "\<exists>k. written = take k ?W" using *(3) by (rule take_prefix)
    with * show ?thesis
      by (intro exI [of _ InProcess] exI [of _ written] exI [of _ "fst s"] exI [of _ "snd s"])
        (simp add: sending_def)
  qed
qed

lemma dson_copy_to_fd_prefix_witness:
  "\<exists>r written m' obj'. drive (fd_step True) (sample_mem, sample_msg)
      [[WrTake 3], [WrFail EAGAIN], [WrTake 100, WrTake 100, WrTake 7]] = Some (r, written, (m', obj')) \<and>
    r \<noteq> Error \<and> (\<exists>k. written = take k (obj_wire lib_converters True sample_mem sample_msg)) \<and>
    (r = Ready \<longrightarrow> written = obj_wire lib_converters True sample_mem sample_msg \<and> obj_rest obj') \<and>
    obj_wire lib_converters True m' obj' = obj_wire lib_converters True sample_mem sample_msg"
  by (rule dson_copy_to_fd_prefix) (simp_all add: sample_msg_ok soft_call_def)

section \<open>The announced size\<close>

fun obj_key_of :: "dson_obj \<Rightarrow> i32" where
  "obj_key_of (ObjDson d kv) = hdr_field (d_header d) 2"
| "obj_key_of (ObjString s) = so_key s"
| "obj_key_of (ObjRoute r) = ro_key r"

fun obj_type_of :: "dson_obj \<Rightarrow> i32" where
  "obj_type_of (ObjDson d kv) = hdr_field (d_header d) 3"
| "obj_type_of (ObjString s) = types_map T_string"
| "obj_type_of (ObjRoute r) = types_map T_vector_uint32"

lemma buf_out_shape:
  assumes "buf_ok lib_data nw m d"
  shows "length (snd (buf_out lib_converters nw' (d_header d) (own_data m d))) = nat (d_buf_size d)"
    "hdr_field (fst (buf_out lib_converters nw' (d_header d) (own_data m d))) (Suc 0) = d_buf_size d"
    "hdr_field (fst (buf_out lib_converters nw' (d_header d) (own_data m d))) 2 = hdr_field (d_header d) 2"
    "hdr_field (fst (buf_out lib_converters nw' (d_header d) (own_data m d))) 3 = hdr_field (d_header d) 3"
proof -
  obtain b bs where b: "hdr_valid (d_header d)" "hdr_field (d_header d) (Suc 0) = d_buf_size d"
    "length bs = nat (d_buf_size d)" "own_data m d = bs"
    "lib_data (hdr_field (d_header d) 3) (hdr_is_network (d_header d)) (d_buf_size d) bs"
    using buf_okE [OF assms] by metis
  have "length (the (f (d_buf_size d) bs)) = nat (d_buf_size d)"
    if "hdr_is_network (d_header d) \<noteq> nw'"
      "lib_table.table nw' (of_i32 (hdr_field (d_header d) 3)) = Some f" for f
    using lib_table.table_step [of "hdr_field (d_header d) 3" nw' "d_buf_size d" bs f] that b
    by (cases nw') auto
  then show "length (snd (buf_out lib_converters nw' (d_header d) (own_data m d))) = nat (d_buf_size d)"
    using b by (auto simp: buf_out_def lib_table.table_def split: option.splits if_splits)
  show "hdr_field (fst (buf_out lib_converters nw' (d_header d) (own_data m d))) (Suc 0) = d_buf_size d"
    "hdr_field (fst (buf_out lib_converters nw' (d_header d) (own_data m d))) 2 = hdr_field (d_header d) 2"
    "hdr_field (fst (buf_out lib_converters nw' (d_header d) (own_data m d))) 3 = hdr_field (d_header d) 3"
    using b by (auto simp: buf_out_def split: option.splits)
qed

lemma ro_key_ok [simp]: "i32_ok (ro_key r)"
  by (simp add: ro_key_def)

lemma so_key_ok [simp]: "i32_ok (so_key s)"
  by (simp add: so_key_def)

lemma obj_wire_shape:
  "obj_ok lib_data nw m obj \<Longrightarrow> \<exists>h x. obj_wire lib_converters nw m obj = h @ x \<and> length h = 16 \<and>
     int (length x) = obj_size obj \<and> hdr_field h (Suc 0) = obj_size obj \<and>
     hdr_field h 2 = obj_key_of obj \<and> hdr_field h 3 = obj_type_of obj"
  and map_wire_length:
  "map_ok lib_data nw m kv \<Longrightarrow> int (length (map_wire lib_converters nw m kv)) = map_size kv"
proof (induction obj and kv rule: obj_size_map_size.induct)
  case (1 d kv)
  show ?case
  proof (cases "d_kind d = DsonContainer")
    case True
    with 1 have "i32_ok (map_size kv)"
      using map_size_ok [of lib_data nw m kv] by (simp add: i32_ok_def i32_min_def)
    with True 1 show ?thesis
      by (intro exI [of _ "hdr_for nw (map_size kv) (hdr_field (d_header d) 2) (hdr_field (d_header d) 3)"]
          exI [of _ "map_wire lib_converters nw m kv"]) (simp add: hdr_simps)
  next
    case False
    then have b: "buf_ok lib_data nw m d" using 1 by simp
    let ?o = "buf_out lib_converters nw (d_header d) (own_data m d)"
    have "hdr_valid (d_header d)" "0 < d_buf_size d" "hdr_field (d_header d) (Suc 0) = d_buf_size d"
      using b by (simp_all add: buf_ok_def)
    then show ?thesis using False buf_out_shape [OF b, of nw] length_buf_out [of "d_header d"]
      by (intro exI [of _ "fst ?o"] exI [of _ "snd ?o"]) (simp add: split_beta)
  qed
next
  case (2 s)
  then have "so_data_size s = int (length (so_object s))" "length (so_object s) < 2 ^ 31"
    by (simp_all add: so_sendable_def so_wf_def)
  then show ?case
    by (intro exI [of _ "hdr_for nw (int (length (so_object s))) (so_key s) (types_map T_string)"]
        exI [of _ "so_object s"]) (simp add: string_wire_def hdr_simps)
next
  case (3 r)
  show ?case
    by (intro exI [of _ "hdr_for nw 16 (ro_key r) (types_map T_vector_uint32)"]
        exI [of _ "addr_bytes nw (ro_addr r)"])
      (simp add: route_wire_def hdr_simps ro_data_size_def address_size_def)
next
  case (5 k obj kv)
  then obtain h x where "obj_wire lib_converters nw m obj = h @ x" "length h = 16"
    "int (length x) = obj_size obj" by auto
  then show ?case using 5 by (simp add: header_size_def)
qed simp

text \<open>
  The header of a message announces exactly the bytes that follow it, so a receiver that
  reads the header knows where the message ends; this holds for every object inside it too.
\<close>

theorem header_announces_size:
  assumes "obj_ok lib_data nw m obj"
  shows "\<exists>h x. obj_wire lib_converters nw m obj = h @ x \<and> length h = 16 \<and>
    hdr_field h 1 = int (length x) \<and> hdr_field h 2 = obj_key_of obj \<and> hdr_field h 3 = obj_type_of obj \<and>
    obj_data_size m obj = Some (int (length x))"
  using obj_wire_shape [OF assms] obj_size_ok [OF assms] by fastforce

lemma header_announces_size_witness:
  "\<exists>h x. obj_wire lib_converters True sample_mem sample_msg = h @ x \<and> length h = 16 \<and>
    hdr_field h 1 = int (length x) \<and> hdr_field h 2 = obj_key_of sample_msg \<and>
    hdr_field h 3 = obj_type_of sample_msg \<and> obj_data_size sample_mem sample_msg = Some (int (length x))"
  by (rule header_announces_size) (rule sample_msg_ok)

text \<open>
  C19: over a descriptor that takes at least one byte at each call, sending a message completes
  after at most as many calls as the message has bytes, and has then delivered exactly its
  serialisation.
\<close>

theorem dson_copy_to_fd_completes:
  assumes "obj_ok lib_data nw m obj" "distinct (obj_blocks obj)" "obj_rest obj"
    and "\<forall>e \<in> set es. taking e" "length (obj_wire lib_converters nw m obj) \<le> length es"
  shows "\<exists>m' obj'. drive (fd_step nw) (m, obj) es =
      Some (Ready, obj_wire lib_converters nw m obj, (m', obj')) \<and> obj_rest obj'"
proof -
  let ?W = "obj_wire lib_converters nw m obj"
  have p: "to_send nw (m, obj) = ?W" using obj_rest_pending [OF assms(1,3)] by simp
  have "sending nw ?W (m, obj)" using assms by (simp add: sending_def)
  from fd_live.drive_completes [OF this assms(4)] show ?thesis
    unfolding p using obj_wire_nonempty [OF assms(1)] assms(5) by fastforce
qed

lemma dson_copy_to_fd_completes_witness:
  "\<exists>m' obj'. drive (fd_step True) (sample_mem, sample_msg) (replicate 54 [WrTake 1]) =
      Some (Ready, obj_wire lib_converters True sample_mem sample_msg, (m', obj')) \<and> obj_rest obj'"
  by (rule dson_copy_to_fd_completes)
    (simp_all add: sample_msg_ok sample_msg_wire string_wire_def taking_def soft_call_def)

end
