(* ===== verification/Dson_Get.thy ===== *)
theory Dson_Get
  imports Dson_Parse Dson_Send
begin

text \<open>
  Reading a received message: \<open>get\<close> finds the object of a key and brings it to host order in
  place, and what a sender put in arrives with its value.
\<close>

section \<open>Converting a view\<close>

lemma lib_to_host_local:
  assumes "lib_data_ok t sz n" "length n = nat sz" "to_host_order lib_converters (type_key t) = Some f"
  shows "f sz (n @ tail) = map_option (\<lambda>d. d @ tail) (f sz n)"
  using assms cv32.to_host_local [of sz n tail] cv64.to_host_local [of sz n tail]
    cvdbl.to_host_local [of sz n tail] cvvec.to_host_local [of sz n tail]
  by (cases t) (auto simp: lib_converters_eq)

lemma chunk_map_net_hdr: "chunk_map ntohl (net_hdr sz k ty) = host_hdr sz k ty"
  using net_hdr_to_host [of sz k ty] by (simp add: words_loop_all header_array_len_def)

text \<open>The header of a network-order object after \<open>to_host\<close>: types without converter keep theirs.\<close>

definition got_hdr :: "lib_type \<Rightarrow> i32 \<Rightarrow> i32 \<Rightarrow> byte list" where
  "got_hdr t sz k = (if to_host_order lib_converters (type_key t) = None
     then net_hdr sz k (types_map t) else host_hdr sz k (types_map t))"

lemma net_hdr_facts:
  "hdr_is_host (net_hdr sz k ty) = False" "length (net_hdr sz k ty) = 16"
  "i32_ok sz \<Longrightarrow> hdr_field (net_hdr sz k ty) (Suc 0) = sz" "i32_ok k \<Longrightarrow> hdr_field (net_hdr sz k ty) 2 = k"
  "i32_ok ty \<Longrightarrow> hdr_field (net_hdr sz k ty) 3 = ty"
  using hdr_field_for [of _ True] by (simp_all add: hdr_for_def hdr_simps)

lemma host_hdr_size: "i32_ok sz \<Longrightarrow> to_i32 (get32 (host_hdr sz k ty) (Suc 0)) = sz"
  using hdr_field_for(1) [of sz False k ty] by (simp add: hdr_for_def hdr_field_def hdr_simps)

lemma to_host_converted:
  assumes m: "heap m b = Some (pre @ net_hdr sz k ty @ n @ post)"
    and d: "header_loc d = Some (b, length pre)" "d_state d = StReady" "data_ptr d = Some (b, length pre + 16)"
    and n: "i32_ok sz" "i32_ok ty" "to_host_order cv (of_i32 ty) = Some f" "f sz (n @ post) = Some (x @ post)"
  shows "to_host cv m d = Some (upd_block m b (pre @ host_hdr sz k ty @ x @ post), d)"
proof -
  let ?h = "net_hdr sz k ty"
  let ?bs = "pre @ ?h @ n @ post" and ?hs = "pre @ host_hdr sz k ty @ n @ post"
  have loc: "heap m (fst (b, length pre)) = Some ?bs" "snd (b, length pre) + 16 \<le> length ?bs"
    using m by (simp_all add: net_hdr_facts)
  have sg: "seg ?bs (length pre) 16 = ?h" by (simp add: seg_append2 seg_def net_hdr_facts)
  have host: "is_host_order m d = Some False"
    using view_order(1) [OF d(1) loc] sg by (simp add: net_hdr_facts)
  have ty: "dson_data_type m d = Some ty"
    using view_read [OF d(1) loc, of 3] sg d(2) n(2) by (simp add: dson_data_type_def net_hdr_facts)
  let ?m1 = "upd_block m b ?hs"
  have "mem_words_loop ntohl m (b, length pre) 0 header_array_len =
      Some (upd_block m b (patch ?bs (length pre) (chunk_map ntohl (seg ?bs (length pre) 16))))"
    using m by (subst mem_words_loop_eq [of _ _ ?bs]) (simp_all add: header_array_len_def net_hdr_facts)
  also have "patch ?bs (length pre) (chunk_map ntohl (seg ?bs (length pre) 16)) = ?hs"
    unfolding sg chunk_map_net_hdr by (simp add: patch_append2 patch_def net_hdr_facts)
  finally have h1: "header_to_host m d = Some (?m1, d)"
    using host d(1) by (simp add: header_to_host_def)
  have loc1: "heap ?m1 (fst (b, length pre)) = Some ?hs" "snd (b, length pre) + 16 \<le> length ?hs" by simp_all
  have "seg ?hs (length pre) 16 = host_hdr sz k ty" by (simp add: seg_append2 seg_def)
  then have sz: "\<exists>w. hdr_get ?m1 d 1 = Some w \<and> to_i32 w = sz"
    using view_get [OF d(1) loc1, of 1] host_hdr_size [OF n(1)] by simp
  have "run_converter f sz ?m1 (b, length pre + 16) = Some (upd_block m b (pre @ host_hdr sz k ty @ x @ post))"
    using n(4) by (simp add: run_converter_def)
  then show ?thesis using host ty n(3) h1 d(3) sz by (auto simp: to_host_def to_host_internal_def)
qed

lemma to_host_view:
  assumes m: "heap m b = Some (pre @ net_hdr sz k (types_map t) @ n @ post)"
    and d: "header_loc d = Some (b, length pre)" "d_state d = StReady" "data_ptr d = Some (b, length pre + 16)"
    and n: "length n = nat sz" "0 \<le> sz" "i32_ok sz" "lib_data_ok t sz n"
  obtains x where "convert_with (to_host_order lib_converters) (type_key t) sz n = Some x" "length x = length n"
    "to_host lib_converters m d = Some (upd_block m b (pre @ got_hdr t sz k @ x @ post), d)"
proof (cases "to_host_order lib_converters (type_key t)")
  case None
  let ?bs = "pre @ net_hdr sz k (types_map t) @ n @ post"
  have loc: "heap m (fst (b, length pre)) = Some ?bs" "snd (b, length pre) + 16 \<le> length ?bs"
    using m by (simp_all add: net_hdr_facts)
  have sg: "seg ?bs (length pre) 16 = net_hdr sz k (types_map t)" by (simp add: seg_append2 seg_def net_hdr_facts)
  have host: "is_host_order m d = Some False"
    using view_order(1) [OF d(1) loc] sg by (simp add: net_hdr_facts)
  have ty: "dson_data_type m d = Some (types_map t)"
    using view_read [OF d(1) loc, of 3] sg d(2) by (simp add: dson_data_type_def net_hdr_facts)
  have "upd_block m b ?bs = m" using m by (rule upd_block_idem)
  then have "to_host lib_converters m d = Some (upd_block m b (pre @ got_hdr t sz k @ n @ post), d)"
    using host ty None by (simp add: to_host_def got_hdr_def type_key_def [symmetric])
  then show ?thesis using that [of n] None by (simp add: convert_with_def)
next
  case (Some f)
  obtain x where x: "f sz n = Some x" "length x = length n" using lib_table_step(2) [OF n(4) Some] by blast
  have "f sz (n @ post) = Some (x @ post)" using lib_to_host_local [OF n(4,1) Some, of post] x by simp
  then have "to_host lib_converters m d = Some (upd_block m b (pre @ host_hdr sz k (types_map t) @ x @ post), d)"
    using Some by (intro to_host_converted [where f = f, OF m d n(3)]) (simp_all add: type_key_def [symmetric])
  then show ?thesis using that [of x] x Some by (simp add: convert_with_def got_hdr_def)
qed

section \<open>get\<close>

text \<open>\<open>get\<close> in a loaded container: parse, find the view, convert it.\<close>

lemma get_child:
  assumes "loaded_msg h (entries_wire (xs @ (e, n) # ys)) (m, d, kv)" "e \<noteq> []"
    and "hdr_field h 3 = types_map T_DsonContainer" "\<forall>x \<in> set (xs @ (e, n) # ys). entry_ok x"
    and "distinct (map (\<lambda>x. hdr_field (fst x) 2) (xs @ (e, n) # ys))"
  obtains b v where "d_buf d = Some (b, 0)" "heap m b = Some (entries_wire xs @ e @ n @ entries_wire ys)"
    "header_loc v = Some (b, length (entries_wire xs))" "d_state v = StReady" "d_kind v = view_kind e"
    "data_ptr v = Some (b, length (entries_wire xs) + 16)"
    "\<And>m'. to_host cv m v = Some (m', v) \<Longrightarrow>
      \<exists>kv'. dson_get cv m d kv (hdr_field e 2) =
          Some (Child (hdr_field e 2), m', d\<lparr>d_kind := DsonContainer\<rparr>, kv') \<and>
        kv_find (hdr_field e 2) kv' = Some (ObjDson v [])"
proof -
  let ?es = "xs @ (e, n) # ys"
  have ne: "entries_wire ?es \<noteq> []" using assms(2) by simp
  obtain b where b: "d_buf d = Some (b, 0)" "heap m b = Some (entries_wire ?es)"
    "parse_buf m d kv = Some (m, d\<lparr>d_kind := DsonContainer\<rparr>, kv.insert_all (entry_views m b 0 ?es) [])"
    using parse_buf_entries [OF assms(1) ne assms(3,4)] by blast
  let ?kv = "kv.insert_all (entry_views m b 0 ?es) []"
  let ?v = "view_rec m (b, length (entries_wire xs)) (view_kind e)"
  have f: "kv_find (hdr_field e 2) ?kv = Some (ObjDson ?v [])" using find_entry [OF assms(4,5)] .
  have st: "d_state d = StReady" "d_kind d = DataBufNeedParse"
    using assms(1) ne by (auto simp: loaded_msg_def split: if_splits)
  have "\<exists>kv'. dson_get cv m d kv (hdr_field e 2) =
      Some (Child (hdr_field e 2), m', d\<lparr>d_kind := DsonContainer\<rparr>, kv') \<and>
      kv_find (hdr_field e 2) kv' = Some (ObjDson ?v [])"
    if "to_host cv m ?v = Some (m', ?v)" for m'
    using st b(3) f that
    by (intro exI [of _ "kv_insert_or_assign (hdr_field e 2) (ObjDson ?v []) ?kv"])
      (simp add: dson_get_def get_internal_def obj_to_host_def kv_find_insert)
  then show ?thesis
    using that [of b ?v] b(1,2) by (simp add: data_ptr_def header_size_def padd_def)
qed

text \<open>
  C8: in a loaded container, \<open>get\<close> with the key of a network-order entry whose data fits its
  type answers the object of that key; its data has been converted to host order in place,
  and no other byte of the buffer and no other memory has changed.
\<close>

theorem get_converts_in_place:
  assumes "loaded_msg h (entries_wire (xs @ (net_hdr sz k (types_map t), n) # ys)) (m, d, kv)"
    and "hdr_field h 3 = types_map T_DsonContainer"
    and "\<forall>e \<in> set (xs @ (net_hdr sz k (types_map t), n) # ys). entry_ok e"
    and "distinct (map (\<lambda>e. hdr_field (fst e) 2) (xs @ (net_hdr sz k (types_map t), n) # ys))"
    and "i32_ok sz" "i32_ok k" "lib_data_ok t sz n"
  shows "\<exists>b x m' kv'. d_buf d = Some (b, 0) \<and>
    convert_with (to_host_order lib_converters) (type_key t) sz n = Some x \<and>
    dson_get lib_converters m d kv k = Some (Child k, m', d\<lparr>d_kind := DsonContainer\<rparr>, kv') \<and>
    heap m' = (heap m)(b \<mapsto> entries_wire xs @ got_hdr t sz k @ x @ entries_wire ys) \<and>
    (\<exists>v. kv_find k kv' = Some (ObjDson v []) \<and> header_loc v = Some (b, length (entries_wire xs)) \<and>
       data_ptr v = Some (b, length (entries_wire xs) + 16))"
proof -
  let ?h = "net_hdr sz k (types_map t)"
  have ok: "hdr_field ?h 2 = k" "hdr_field ?h (Suc 0) = sz"
    using assms(5,6) by (simp_all add: net_hdr_facts)
  have sz: "sz = int (length n)" using assms(3) ok by (auto simp: entry_ok_def)
  obtain b v where v: "d_buf d = Some (b, 0)" "heap m b = Some (entries_wire xs @ ?h @ n @ entries_wire ys)"
    "header_loc v = Some (b, length (entries_wire xs))" "d_state v = StReady"
    "data_ptr v = Some (b, length (entries_wire xs) + 16)"
    and g: "\<And>m'. to_host lib_converters m v = Some (m', v) \<Longrightarrow>
      \<exists>kv'. dson_get lib_converters m d kv k = Some (Child k, m', d\<lparr>d_kind := DsonContainer\<rparr>, kv') \<and>
        kv_find k kv' = Some (ObjDson v [])"
    using get_child [OF assms(1) hdrs_nonempty(2) assms(2-4)] ok(1) by metis
  obtain x where "convert_with (to_host_order lib_converters) (type_key t) sz n = Some x"
    "to_host lib_converters m v =
      Some (upd_block m b (entries_wire xs @ got_hdr t sz k @ x @ entries_wire ys), v)"
    by (rule to_host_view [OF v(2-5) _ _ assms(5,7)]) (use sz in auto)
  with g [OF this(2)] v show ?thesis by auto
qed

lemma get_converts_in_place_witness:
  "\<exists>b x m' kv'. d_buf sample_rx = Some (b, 0) \<and>
    convert_with (to_host_order lib_converters) (type_key T_uint32) 4 [0, 0, 1, 2] = Some x \<and>
    dson_get lib_converters sample_rx_mem sample_rx [] 5 =
      Some (Child 5, m', sample_rx\<lparr>d_kind := DsonContainer\<rparr>, kv') \<and>
    heap m' = (heap sample_rx_mem)(b \<mapsto> entries_wire [] @ got_hdr T_uint32 4 5 @ x @
      entries_wire [(host_hdr 2 7 (types_map T_string), [104, 105])]) \<and>
    (\<exists>v. kv_find 5 kv' = Some (ObjDson v []) \<and> header_loc v = Some (b, length (entries_wire [])) \<and>
       data_ptr v = Some (b, length (entries_wire []) + 16))"
  by (rule get_converts_in_place [of "hdr_for True 38 0 (types_map T_DsonContainer)"])
    (use sample_rx_loaded sample_entries_ok in \<open>simp_all add: sample_entries_def hdr_simps fits_def\<close>)

section \<open>From the sender's object to the receiver's value\<close>

text \<open>The objects of a container on the wire, as entries of the data a receiver parses.\<close>

definition wire_entry :: "mem \<Rightarrow> dson_obj \<Rightarrow> byte list \<times> byte list" where
  "wire_entry m obj = (let w = obj_wire lib_converters True m obj in (take 16 w, drop 16 w))"

lemma map_wire_entries:
  "map_wire lib_converters True m kv = entries_wire (map (\<lambda>(k, obj). wire_entry m obj) kv)"
  by (induction kv) (auto simp: wire_entry_def Let_def split: prod.splits)

lemma wire_entry_ok:
  assumes "obj_ok lib_data True m obj" "obj_size obj \<le> max_dson_ram_size" "0 \<le> obj_key_of obj"
  shows "entry_ok (wire_entry m obj)" "hdr_field (fst (wire_entry m obj)) 2 = obj_key_of obj"
  using obj_wire_shape [OF assms(1)] assms(2,3) by (auto simp: wire_entry_def entry_ok_def)

lemma map_size_mem:
  "map_ok data_ok nw m kv \<Longrightarrow> (k, obj) \<in> set kv \<Longrightarrow> obj_size obj \<le> map_size kv"
proof (induction kv)
  case (Cons p kv)
  obtain k' obj' where p: "p = (k', obj')" by (cases p)
  have "0 \<le> obj_size obj'" "0 \<le> map_size kv"
    using Cons.prems(1) obj_size_ok [of data_ok nw m obj'] map_size_ok [of data_ok nw m kv] by (auto simp: p)
  then show ?case using Cons by (auto simp: p header_size_def)
qed simp

lemma map_ok_mem: "map_ok data_ok nw m kv \<Longrightarrow> (k, obj) \<in> set kv \<Longrightarrow> obj_ok data_ok nw m obj"
  by (induction kv) auto

text \<open>What a leaf in host order looks like on the wire.\<close>

lemma leaf_wire:
  assumes ok: "buf_ok lib_data True m c" and kind: "d_kind c = OneObjectInDataBuf"
    and host: "\<not> hdr_is_network (d_header c)" and ty: "hdr_field (d_header c) 3 = types_map t"
  defines "k \<equiv> hdr_field (d_header c) 2" and "x \<equiv> own_data m c" and "sz \<equiv> d_buf_size c"
  shows "\<exists>n. wire_entry m (ObjDson c []) =
      ((if to_host_order lib_converters (type_key t) = None then host_hdr sz k (types_map t)
        else net_hdr sz k (types_map t)), n) \<and>
    length n = nat sz \<and> lib_data_ok t sz n \<and>
    (\<exists>y. convert_with (to_host_order lib_converters) (type_key t) sz n = Some y \<and>
       lib_value t sz y = lib_value t sz x)"
proof -
  obtain b where b: "hdr_valid (d_header c)" "hdr_field (d_header c) (Suc 0) = sz" "0 < sz"
    "length x = nat sz" "lib_data_ok t sz x"
    using buf_okE [OF ok] ty by (metis lib_data_type sz_def x_def)
  have h: "d_header c = host_hdr sz k (types_map t)"
    using hdr_valid_cases [OF b(1)] host b(2) ty by (simp add: hdr_for_def k_def)
  obtain n y where n: "convert_with (to_network_order lib_converters) (type_key t) sz x = Some n"
    "convert_with (to_host_order lib_converters) (type_key t) sz n = Some y"
    "lib_value t sz y = lib_value t sz x"
    using lib_network_host [OF b(5)] by blast
  show ?thesis
  proof (cases "to_network_order lib_converters (type_key t)")
    case None
    then have "to_host_order lib_converters (type_key t) = None"
      by (cases t) (simp_all add: lib_converters_eq)
    moreover from None have "buf_out lib_converters True (d_header c) x = (d_header c, x)"
      using host ty by (simp add: buf_out_def type_key_def [symmetric])
    ultimately show ?thesis
      using b kind h n None by (auto simp: wire_entry_def x_def [symmetric] convert_with_def)
  next
    case (Some f)
    then have "to_host_order lib_converters (type_key t) \<noteq> None"
      by (cases t) (auto simp: lib_converters_eq)
    moreover obtain n' where n': "f sz x = Some n'" "length n' = length x" "lib_data_ok t sz n'"
      using lib_table_step(1) [OF b(5) Some] by blast
    moreover have "n' = n" using n(1) n'(1) Some by (simp add: convert_with_def)
    moreover from Some n' have "buf_out lib_converters True (d_header c) x = (net_hdr sz k (types_map t), n')"
      using host ty b by (simp add: buf_out_def type_key_def [symmetric] hdr_order_valid k_def hdr_for_def)
    ultimately show ?thesis using kind b(4) n(2,3) by (auto simp: wire_entry_def x_def [symmetric])
  qed
qed

text \<open>Reading one entry of a loaded container back, in either order of its header.\<close>

lemma got_hdr_fields:
  assumes "i32_ok sz" "i32_ok k"
  shows "hdr_field (got_hdr t sz k) 2 = k" "hdr_field (got_hdr t sz k) 3 = types_map t"
    "hdr_field (got_hdr t sz k) (Suc 0) = sz" "length (got_hdr t sz k) = 16"
  using assms hdr_field_for [of _ True] hdr_field_for [of _ False]
  by (simp_all add: got_hdr_def hdr_for_def)

text \<open>The header of an entry: a type without converter travels in the order of its sender.\<close>

definition sent_hdr :: "lib_type \<Rightarrow> i32 \<Rightarrow> i32 \<Rightarrow> byte list" where
  "sent_hdr t sz k = (if to_host_order lib_converters (type_key t) = None
     then host_hdr sz k (types_map t) else net_hdr sz k (types_map t))"

lemma sent_hdr_facts:
  "length (sent_hdr t sz k) = 16" "sent_hdr t sz k \<noteq> []" "i32_ok k \<Longrightarrow> hdr_field (sent_hdr t sz k) 2 = k"
  using hdr_field_for(2) [of k True] hdr_field_for(2) [of k False]
  by (simp_all add: sent_hdr_def hdr_for_def)

lemma read_entry_back:
  assumes l: "loaded_msg h (entries_wire (xs @ (sent_hdr t sz k, n) # ys)) (m, d, kv)"
    and ty: "hdr_field h 3 = types_map T_DsonContainer"
    and es: "\<forall>e \<in> set (xs @ (sent_hdr t sz k, n) # ys). entry_ok e"
      "distinct (map (\<lambda>e. hdr_field (fst e) 2) (xs @ (sent_hdr t sz k, n) # ys))"
    and n: "length n = nat sz" "0 \<le> sz" "i32_ok sz" "i32_ok k" "lib_data_ok t sz n"
    and y: "convert_with (to_host_order lib_converters) (type_key t) sz n = Some y"
  obtains m' d' kv' v p where
    "dson_get lib_converters m d kv k = Some (Child k, m', d', kv')" "kv_find k kv' = Some (ObjDson v [])"
    "data_ptr v = Some p" "mread m' p (nat sz) = Some y" "dson_data_type m' v = Some (types_map t)"
    "is_host_order m' v = Some True" "dson_data_size m' v [] = Some sz"
proof -
  let ?h = "sent_hdr t sz k" and ?o = "length (entries_wire xs)"
  note hf = sent_hdr_facts(3) [OF n(4), of t sz]
  obtain b v where v: "heap m b = Some (entries_wire xs @ ?h @ n @ entries_wire ys)"
    "header_loc v = Some (b, ?o)" "d_state v = StReady" "d_kind v = view_kind ?h" "data_ptr v = Some (b, ?o + 16)"
    and g: "\<And>m'. to_host lib_converters m v = Some (m', v) \<Longrightarrow>
      \<exists>kv'. dson_get lib_converters m d kv k = Some (Child k, m', d\<lparr>d_kind := DsonContainer\<rparr>, kv') \<and>
        kv_find k kv' = Some (ObjDson v [])"
    using get_child [OF l sent_hdr_facts(2) ty es] unfolding hf by metis
  have "\<exists>m' h'. to_host lib_converters m v = Some (m', v) \<and> length y = length n \<and> length h' = 16 \<and>
      heap m' b = Some (entries_wire xs @ h' @ y @ entries_wire ys) \<and>
      hdr_field h' 3 = types_map t \<and> hdr_field h' (Suc 0) = sz \<and> hdr_is_host h'"
  proof (cases "to_host_order lib_converters (type_key t)")
    case None
    have loc: "heap m (fst (b, ?o)) = Some (entries_wire xs @ ?h @ n @ entries_wire ys)"
      "snd (b, ?o) + 16 \<le> length (entries_wire xs @ ?h @ n @ entries_wire ys)"
      using v(1) by (simp_all add: sent_hdr_facts)
    have "seg (entries_wire xs @ ?h @ n @ entries_wire ys) ?o 16 = ?h"
      by (simp add: seg_append2 seg_def sent_hdr_facts)
    then have "is_host_order m v = Some True"
      using view_order(1) [OF v(2) loc] None by (simp add: sent_hdr_def hdr_simps)
    moreover have "y = n" using y None by (simp add: convert_with_def)
    moreover have "hdr_field ?h 3 = types_map t" "hdr_field ?h (Suc 0) = sz" "hdr_is_host ?h"
      using None hdr_field_for [of _ False] n(3) by (simp_all add: sent_hdr_def hdr_for_def hdr_simps)
    ultimately show ?thesis using v(1)
      by (intro exI [of _ m] exI [of _ ?h]) (simp add: to_host_def sent_hdr_facts)
  next
    case (Some f)
    then have "?h = net_hdr sz k (types_map t)" by (simp add: sent_hdr_def)
    then obtain x where "convert_with (to_host_order lib_converters) (type_key t) sz n = Some x" "length x = length n"
      "to_host lib_converters m v = Some (upd_block m b (entries_wire xs @ got_hdr t sz k @ x @ entries_wire ys), v)"
      using to_host_view [of m b "entries_wire xs" sz k t n "entries_wire ys" v thesis] v n by metis
    moreover have "hdr_is_host (got_hdr t sz k)" using Some by (simp add: got_hdr_def hdr_simps)
    ultimately show ?thesis using y got_hdr_fields [OF n(3,4), of t]
      by (intro exI [of _ "upd_block m b (entries_wire xs @ got_hdr t sz k @ x @ entries_wire ys)"]
          exI [of _ "got_hdr t sz k"]) simp
  qed
  then obtain m' h' where m': "to_host lib_converters m v = Some (m', v)" "length y = length n" "length h' = 16"
    "heap m' b = Some (entries_wire xs @ h' @ y @ entries_wire ys)"
    "hdr_field h' 3 = types_map t" "hdr_field h' (Suc 0) = sz" "hdr_is_host h'" by blast
  have loc: "heap m' (fst (b, ?o)) = Some (entries_wire xs @ h' @ y @ entries_wire ys)"
    "snd (b, ?o) + 16 \<le> length (entries_wire xs @ h' @ y @ entries_wire ys)"
    using m' by simp_all
  have sg: "seg (entries_wire xs @ h' @ y @ entries_wire ys) ?o 16 = h'"
    using m'(3) by (simp add: seg_append2 seg_def)
  obtain kv' where kv': "dson_get lib_converters m d kv k = Some (Child k, m', d\<lparr>d_kind := DsonContainer\<rparr>, kv')"
    "kv_find k kv' = Some (ObjDson v [])" using g [OF m'(1)] by blast
  have "mread m' (b, ?o + 16) (nat sz) = Some y"
    using m' n by (subst mread_eq [of _ _ "entries_wire xs @ h' @ y @ entries_wire ys"]) (simp_all add: seg_def)
  moreover have "dson_data_type m' v = Some (types_map t)"
    using view_read [OF v(2) loc, of 3] sg m'(5) v(3) by (simp add: dson_data_type_def)
  moreover have "dson_data_size m' v [] = Some sz"
    using view_read [OF v(2) loc, of 1] sg m'(6) v(4)
    by (simp add: dson_data_size_def view_kind_def split: if_splits)
  moreover have "is_host_order m' v = Some True"
    using view_order(1) [OF v(2) loc] sg m'(7) by simp
  ultimately show ?thesis using that kv' v(5) by blast
qed

section \<open>End to end\<close>

text \<open>The container \<open>ObjDson d kv\<close> at rest, ready to be sent, its children under their own keys.\<close>

definition message_ok :: "mem \<Rightarrow> dson \<Rightarrow> kvmap \<Rightarrow> bool" where
  "message_ok m d kv \<longleftrightarrow> obj_ok lib_data True m (ObjDson d kv) \<and> distinct (obj_blocks (ObjDson d kv)) \<and>
     obj_rest (ObjDson d kv) \<and> d_kind d = DsonContainer \<and>
     hdr_field (d_header d) 3 = types_map T_DsonContainer \<and> map_size kv \<le> max_dson_ram_size \<and>
     kv_sorted kv \<and> (\<forall>(k, obj) \<in> set kv. obj_key_of obj = k \<and> 0 \<le> k)"

lemma message_okD:
  assumes "message_ok m d kv"
  shows "obj_ok lib_data True m (ObjDson d kv)" "distinct (obj_blocks (ObjDson d kv))"
    "obj_rest (ObjDson d kv)" "d_kind d = DsonContainer"
    "hdr_field (d_header d) 3 = types_map T_DsonContainer" "map_size kv \<le> max_dson_ram_size" "kv_sorted kv"
    "(k, obj) \<in> set kv \<Longrightarrow> obj_key_of obj = k" "(k, obj) \<in> set kv \<Longrightarrow> 0 \<le> k"
    "map_ok lib_data True m kv"
  using assms by (auto simp: message_ok_def)

lemma message_wire:
  assumes "message_ok m d kv"
  defines "h \<equiv> hdr_for True (map_size kv) (hdr_field (d_header d) 2) (types_map T_DsonContainer)"
    and "es \<equiv> map (\<lambda>(k, obj). wire_entry m obj) kv"
  shows "obj_wire lib_converters True m (ObjDson d kv) = h @ entries_wire es"
    "length h = 16" "hdr_field h (Suc 0) = int (length (entries_wire es))" "hdr_field h 3 = types_map T_DsonContainer"
    "\<forall>e \<in> set es. entry_ok e" "distinct (map (\<lambda>e. hdr_field (fst e) 2) es)"
proof -
  note ok = message_okD [OF assms(1)]
  show "obj_wire lib_converters True m (ObjDson d kv) = h @ entries_wire es"
    using ok(4,5) by (simp add: h_def es_def map_wire_entries)
  show "length h = 16" "hdr_field h 3 = types_map T_DsonContainer" by (simp_all add: h_def hdr_simps)
  have "i32_ok (map_size kv)"
    using ok(1,4) map_size_ok [OF ok(10)] by (simp add: i32_ok_def i32_min_def)
  then show "hdr_field h (Suc 0) = int (length (entries_wire es))"
    using map_wire_length [OF ok(10)] by (simp add: h_def es_def map_wire_entries hdr_simps)
  have e: "entry_ok (wire_entry m obj) \<and> hdr_field (fst (wire_entry m obj)) 2 = k" if "(k, obj) \<in> set kv" for k obj
    using wire_entry_ok [OF map_ok_mem [OF ok(10) that]] map_size_mem [OF ok(10) that] ok(6) ok(8,9) [OF that]
    by simp
  then show "\<forall>e \<in> set es. entry_ok e" by (auto simp: es_def)
  have "map (\<lambda>e. hdr_field (fst e) 2) es = map fst kv" using e by (auto simp: es_def)
  then show "distinct (map (\<lambda>e. hdr_field (fst e) 2) es)" using ok(7) by (simp add: kv_sorted_def strict_sorted_iff)
qed

lemma sent_leaf_read_back:
  assumes ok: "message_ok m d kv" and c: "(k, ObjDson c []) \<in> set kv" "d_kind c = OneObjectInDataBuf"
    and host: "\<not> hdr_is_network (d_header c)" and ty: "hdr_field (d_header c) 3 = types_map t"
    and l: "loaded_msg h (entries_wire (map (\<lambda>(k, obj). wire_entry m obj) kv)) (m2, d2, kv2)"
    and h: "hdr_field h 3 = types_map T_DsonContainer"
  obtains m' d' kv' v p y where
    "dson_get lib_converters m2 d2 kv2 k = Some (Child k, m', d', kv')" "kv_find k kv' = Some (ObjDson v [])"
    "data_ptr v = Some p" "mread m' p (nat (d_buf_size c)) = Some y" "dson_data_type m' v = Some (types_map t)"
    "is_host_order m' v = Some True" "lib_data_ok t (d_buf_size c) y"
    "lib_value t (d_buf_size c) y = lib_value t (d_buf_size c) (own_data m c)"
proof -
  let ?es = "map (\<lambda>(k, obj). wire_entry m obj) kv" and ?sz = "d_buf_size c"
  have b: "buf_ok lib_data True m c" using map_ok_mem [OF message_okD(10) [OF ok] c(1)] c(2) by simp
  have key: "hdr_field (d_header c) 2 = k" using message_okD(8) [OF ok c(1)] by simp
  obtain n y where n: "wire_entry m (ObjDson c []) = (sent_hdr t ?sz k, n)" "length n = nat ?sz" "lib_data_ok t ?sz n"
    "convert_with (to_host_order lib_converters) (type_key t) ?sz n = Some y"
    "lib_value t ?sz y = lib_value t ?sz (own_data m c)"
    using leaf_wire [OF b c(2) host ty] unfolding key sent_hdr_def by blast
  have y: "lib_data_ok t ?sz y"
    using n(3,4) lib_table_step(2) [OF n(3)] by (fastforce simp: convert_with_def split: option.splits)
  obtain xs ys where kv: "kv = xs @ (k, ObjDson c []) # ys" using split_list [OF c(1)] by blast
  let ?f = "\<lambda>(k, obj). wire_entry m obj"
  have es: "?es = map ?f xs @ (sent_hdr t ?sz k, n) # map ?f ys" using kv n(1) by simp
  note w = message_wire(5,6) [OF ok]
  have sz: "0 \<le> ?sz" "i32_ok ?sz" using b hdr_field_ok [of "d_header c" 1] by (auto simp: buf_ok_def)
  have k: "i32_ok k" using key hdr_field_ok [of "d_header c" 2] by simp
  show ?thesis
    using read_entry_back [OF l [unfolded es] h w [unfolded es] n(2) sz k n(3,4)] that n(5) y by metis
qed

text \<open>A message copied through windows and fed in portions is loaded.\<close>

lemma message_transported:
  assumes "message_ok m d kv" "length (obj_wire lib_converters True m (ObjDson d kv)) \<le> sum_list windows"
    and "can_load m2 d2 kv2" "mem_ok m2" "d_state d2 = StReady" "length (d_header d2) = 16"
    and "nat (map_size kv) \<le> malloc_limit m2"
  defines "es \<equiv> map (\<lambda>(k, obj). wire_entry m obj) kv"
    and "h \<equiv> hdr_for True (map_size kv) (hdr_field (d_header d) 2) (types_map T_DsonContainer)"
  shows "\<exists>bytes s. drive (buf_step True) (m, ObjDson d kv) windows = Some (Ready, bytes, s) \<and>
    (\<forall>portions. concat portions = bytes \<longrightarrow> (\<forall>xs \<in> set portions. xs \<noteq> []) \<longrightarrow>
      (\<exists>s2. feed buf_load_step (m2, d2, kv2) portions = Some (Ready, s2) \<and> loaded_msg h (entries_wire es) s2))"
proof -
  let ?W = "obj_wire lib_converters True m (ObjDson d kv)"
  note ok = message_okD [OF assms(1)] and w = message_wire [OF assms(1), folded es_def h_def]
  have size: "int (length (entries_wire es)) = map_size kv"
    using map_wire_length [OF ok(10)] by (simp add: es_def map_wire_entries)
  have "sending True ?W (m, ObjDson d kv)" using ok(1,2) by (simp add: sending_def)
  from buf_writer.drive_windows [OF this, of windows] obj_rest_pending [OF ok(1,3)] assms(2)
    obj_wire_nonempty [OF ok(1)]
  obtain s where s: "drive (buf_step True) (m, ObjDson d kv) windows = Some (Ready, ?W, s)" by auto
  have "\<exists>s2. feed buf_load_step (m2, d2, kv2) portions = Some (Ready, s2) \<and> loaded_msg h (entries_wire es) s2"
    if p: "concat portions = ?W" "\<forall>xs \<in> set portions. xs \<noteq> []" for portions
  proof -
    have "loading h (entries_wire es) (m2, d2, kv2) (concat portions)"
      using assms(3-7) w(1-3) size ok(6) p(1) by (simp add: loading_def msg_fits_def)
    moreover have "portions \<noteq> []" using p(1) obj_wire_nonempty [OF ok(1), of lib_converters] by (metis concat.simps(1))
    ultimately show ?thesis using buf_reader.feed_complete p(2) by blast
  qed
  then show ?thesis using s by blast
qed

text \<open>
  C1: what is put in is got out.  A container at rest with a value of any type of the library
  under the key \<open>k\<close>, serialised in network order through windows of any sizes, and fed
  in non-empty portions of any sizes to a receiver, arrives completely, and \<open>get\<close> with
  \<open>k\<close> in the received object finds an object of that type whose data, read in host order,
  has the value the sender stored.
\<close>

theorem send_receive_get:
  assumes "message_ok m d kv" "(k, ObjDson c []) \<in> set kv" "d_kind c = OneObjectInDataBuf"
    and "\<not> hdr_is_network (d_header c)" "hdr_field (d_header c) 3 = types_map t"
    and "length (obj_wire lib_converters True m (ObjDson d kv)) \<le> sum_list windows"
    and "can_load m2 d2 kv2" "mem_ok m2" "d_state d2 = StReady" "length (d_header d2) = 16"
    and "nat (map_size kv) \<le> malloc_limit m2"
  shows "\<exists>bytes m1 obj1. drive (buf_step True) (m, ObjDson d kv) windows = Some (Ready, bytes, (m1, obj1)) \<and>
    (\<forall>portions. concat portions = bytes \<longrightarrow> (\<forall>xs \<in> set portions. xs \<noteq> []) \<longrightarrow>
      (\<exists>m3 d3 kv3 m4 d4 kv4 v p y.
         feed buf_load_step (m2, d2, kv2) portions = Some (Ready, (m3, d3, kv3)) \<and>
         dson_get lib_converters m3 d3 kv3 k = Some (Child k, m4, d4, kv4) \<and>
         kv_find k kv4 = Some (ObjDson v []) \<and> dson_data_type m4 v = Some (types_map t) \<and>
         data_ptr v = Some p \<and> mread m4 p (nat (d_buf_size c)) = Some y \<and>
         lib_value t (d_buf_size c) y = lib_value t (d_buf_size c) (own_data m c)))"
proof -
  note w = message_wire [OF assms(1)]
  obtain bytes s where s: "drive (buf_step True) (m, ObjDson d kv) windows = Some (Ready, bytes, s)"
    and f: "\<And>portions. concat portions = bytes \<Longrightarrow> \<forall>xs \<in> set portions. xs \<noteq> [] \<Longrightarrow>
      \<exists>s2. feed buf_load_step (m2, d2, kv2) portions = Some (Ready, s2) \<and>
        loaded_msg (hdr_for True (map_size kv) (hdr_field (d_header d) 2) (types_map T_DsonContainer))
          (entries_wire (map (\<lambda>(k, obj). wire_entry m obj) kv)) s2"
    using message_transported [OF assms(1,6-11)] by blast
  have "\<exists>m3 d3 kv3 m4 d4 kv4 v p y.
         feed buf_load_step (m2, d2, kv2) portions = Some (Ready, (m3, d3, kv3)) \<and>
         dson_get lib_converters m3 d3 kv3 k = Some (Child k, m4, d4, kv4) \<and>
         kv_find k kv4 = Some (ObjDson v []) \<and> dson_data_type m4 v = Some (types_map t) \<and>
         data_ptr v = Some p \<and> mread m4 p (nat (d_buf_size c)) = Some y \<and>
         lib_value t (d_buf_size c) y = lib_value t (d_buf_size c) (own_data m c)"
    if "concat portions = bytes" "\<forall>xs \<in> set portions. xs \<noteq> []" for portions
    using f [OF that] sent_leaf_read_back [OF assms(1-5) _ w(4)] by (metis prod_cases3)
  then show ?thesis using s by (metis prod.exhaust_sel)
qed

lemma sample_message_ok:
  defines "kv \<equiv> [(5, ObjDson sample_int []), (7, ObjString (so_new (replicate 16 0) 7 [104, 105]))]"
  shows "message_ok sample_mem (dson_fields (hdr_for False 0 0 (types_map T_DsonContainer))) kv" "map_size kv = 38"
proof -
  have k: "d_kind sample_int = OneObjectInDataBuf" "hdr_field (d_header sample_int) 2 = 5"
    "hdr_field (d_header sample_int) (Suc 0) = 4"
    by (simp_all add: sample_int_def dson_fields_def hdr_simps)
  show sz: "map_size kv = 38" using k so_new_hi by (simp add: kv_def header_size_def so_wf_def)
  show "message_ok sample_mem (dson_fields (hdr_for False 0 0 (types_map T_DsonContainer))) kv"
    using sample_msg_ok sz k so_new_hi unfolding kv_def
    by (simp add: message_ok_def sample_msg_def [symmetric])
      (simp add: dson_fields_def hdr_simps max_dson_ram_size_def kv_sorted_def)
qed

lemma send_receive_get_witness:
  "\<exists>bytes m1 obj1. drive (buf_step True) (sample_mem, sample_msg) [10, 30, 50] = Some (Ready, bytes, (m1, obj1)) \<and>
    (\<forall>portions. concat portions = bytes \<longrightarrow> (\<forall>xs \<in> set portions. xs \<noteq> []) \<longrightarrow>
      (\<exists>m3 d3 kv3 m4 d4 kv4 v p y.
         feed buf_load_step (\<lparr>heap = Map.empty, next_block = 0, malloc_limit = 50, malloc_fill = (\<lambda>_. 0)\<rparr>,
           dson_fields (replicate 16 0), []) portions = Some (Ready, (m3, d3, kv3)) \<and>
         dson_get lib_converters m3 d3 kv3 5 = Some (Child 5, m4, d4, kv4) \<and>
         kv_find 5 kv4 = Some (ObjDson v []) \<and> dson_data_type m4 v = Some (types_map T_uint32) \<and>
         data_ptr v = Some p \<and> mread m4 p (nat (d_buf_size sample_int)) = Some y \<and>
         lib_value T_uint32 (d_buf_size sample_int) y =
           lib_value T_uint32 (d_buf_size sample_int) (own_data sample_mem sample_int)))"
proof -
  have k: "d_kind sample_int = OneObjectInDataBuf" "\<not> hdr_is_network (d_header sample_int)"
    "hdr_field (d_header sample_int) 3 = types_map T_uint32"
    by (simp_all add: sample_int_def dson_fields_def hdr_simps)
  have "length (obj_wire lib_converters True sample_mem sample_msg) \<le> sum_list [10, 30, 50]"
    by (simp add: sample_msg_wire string_wire_def)
  then show ?thesis
    unfolding sample_msg_def
    by (intro send_receive_get [OF sample_message_ok(1) _ k(1-3)])
      (simp_all add: sample_message_ok(2) can_load_def own_blocks_def mem_ok_def dson_fields_def del: map_size.simps)
qed

end
