(* ===== verification/Dson_Stream.thy ===== *)
theory Dson_Stream
  imports Dson_Send
begin

text \<open>
  \<open>copy_to_stream_host_order\<close> and \<open>copy_to_stream_network_order\<close> of a \<open>Dson\<close>: the whole
  object in one call, through \<open>std::ostream_iterator\<close>.  The stream is the bytes written so
  far; the recursion through containers is counted down as in the other copies.
\<close>

section \<open>Operations\<close>

definition copy_to_stream_header_internal :: "mem \<Rightarrow> dson \<Rightarrow> i32 \<Rightarrow> byte list \<Rightarrow>
    (byte list \<times> mem \<times> dson) option" where
  "copy_to_stream_header_internal m d data_size out = do {
     (m, d) \<leftarrow> (if d_kind d = DsonContainer then set_data_size_internal m d data_size else Some (m, d));
     header \<leftarrow> hdr_bytes m d;
     Some (out @ header, m, d)
   }"

text \<open>\<open>std::copy(buf, buf + data_size, \<dots>)\<close>: from a null pointer only nothing can be copied.\<close>

definition copy_to_stream_data_internal :: "mem \<Rightarrow> dson \<Rightarrow> i32 \<Rightarrow> byte list \<Rightarrow> byte list option" where
  "copy_to_stream_data_internal m d data_size out =
     (if data_size < 0 then None
      else case data_ptr d of
        None \<Rightarrow> if data_size = 0 then Some out else None
      | Some p \<Rightarrow> do { xs \<leftarrow> mread m p (nat data_size); Some (out @ xs) })"

fun stream_loop :: "(mem \<Rightarrow> dson_obj \<Rightarrow> byte list \<Rightarrow> (byte list \<times> mem \<times> dson_obj) option) \<Rightarrow>
    mem \<Rightarrow> kvmap \<Rightarrow> byte list \<Rightarrow> (byte list \<times> mem \<times> kvmap) option" where
  "stream_loop step m [] out = Some (out, m, [])"
| "stream_loop step m ((k, obj) # kv) out = do {
     (out, m, obj) \<leftarrow> step m obj out;
     (out, m, kv) \<leftarrow> stream_loop step m kv out;
     Some (out, m, (k, obj) # kv)
   }"

definition stream_one :: "converters \<Rightarrow> bool \<Rightarrow> mem \<Rightarrow> dson \<Rightarrow> kvmap \<Rightarrow> byte list \<Rightarrow>
    (byte list \<times> mem \<times> dson \<times> kvmap) option" where
  "stream_one cv nw m d kv out = do {
     (sz, m, d) \<leftarrow> (if nw
       then do { sz \<leftarrow> dson_data_size m d kv; (m, d) \<leftarrow> to_network cv m d; Some (sz, m, d) }
       else do { (m, d) \<leftarrow> to_host cv m d; sz \<leftarrow> dson_data_size m d kv; Some (sz, m, d) });
     (out, m, d) \<leftarrow> copy_to_stream_header_internal m d sz out;
     out \<leftarrow> copy_to_stream_data_internal m d sz out;
     Some (out, m, d, kv)
   }"

definition stream_container :: "(mem \<Rightarrow> dson_obj \<Rightarrow> byte list \<Rightarrow> (byte list \<times> mem \<times> dson_obj) option) \<Rightarrow>
    bool \<Rightarrow> mem \<Rightarrow> dson \<Rightarrow> kvmap \<Rightarrow> byte list \<Rightarrow> (byte list \<times> mem \<times> dson \<times> kvmap) option" where
  "stream_container step nw m d kv out = do {
     (sz, m, d) \<leftarrow> (if nw
       then do { sz \<leftarrow> dson_data_size m d kv; (m, d) \<leftarrow> header_to_network m d; Some (sz, m, d) }
       else do { (m, d) \<leftarrow> header_to_host m d; sz \<leftarrow> dson_data_size m d kv; Some (sz, m, d) });
     (out, m, d) \<leftarrow> copy_to_stream_header_internal m d sz out;
     (out, m, kv) \<leftarrow> stream_loop step m kv out;
     Some (out, m, d, kv)
   }"

text \<open>
  A loaded container that nobody parsed goes out as it is when its order is the one asked
  for, and is parsed first otherwise.
\<close>

definition stream_begin :: "bool \<Rightarrow> mem \<Rightarrow> dson \<Rightarrow> bool option" where
  "stream_begin nw m d = (if d_kind d = DataBufNeedParse
     then (if nw then is_network_order m d else is_host_order m d) else Some False)"

definition copy_to_stream_dson :: "(mem \<Rightarrow> dson_obj \<Rightarrow> byte list \<Rightarrow> (byte list \<times> mem \<times> dson_obj) option) \<Rightarrow>
    converters \<Rightarrow> bool \<Rightarrow> mem \<Rightarrow> dson \<Rightarrow> kvmap \<Rightarrow> byte list \<Rightarrow>
    (byte list \<times> mem \<times> dson \<times> kvmap) option" where
  "copy_to_stream_dson step cv nw m d kv out =
     (if d_state d \<noteq> StReady then Some (out, m, d, kv) else do {
        as_is \<leftarrow> stream_begin nw m d;
        if as_is then do {
          sz \<leftarrow> dson_data_size m d kv;
          (out, m, d) \<leftarrow> copy_to_stream_header_internal m d sz out;
          out \<leftarrow> copy_to_stream_data_internal m d sz out;
          Some (out, m, d, kv)
        } else do {
          (m, d, kv) \<leftarrow> (if d_kind d = DataBufNeedParse then parse_buf m d kv else Some (m, d, kv));
          case d_kind d of
            OneObjectInDataBuf \<Rightarrow> stream_one cv nw m d kv out
          | DsonContainer \<Rightarrow> stream_container step nw m d kv out
          | DataBufNeedParse \<Rightarrow> Some (out, m, d, kv)
        }
      })"

fun stream_obj :: "nat \<Rightarrow> converters \<Rightarrow> bool \<Rightarrow> mem \<Rightarrow> dson_obj \<Rightarrow> byte list \<Rightarrow>
    (byte list \<times> mem \<times> dson_obj) option" where
  "stream_obj fuel cv nw m (ObjString s) out =
     (let (out, s) = so_copy_to_stream nw s out in Some (out, m, ObjString s))"
| "stream_obj fuel cv nw m (ObjRoute r) out =
     (let (out, r) = ro_copy_to_stream nw r out in Some (out, m, ObjRoute r))"
| "stream_obj 0 cv nw m (ObjDson d kv) out = None"
| "stream_obj (Suc fuel) cv nw m (ObjDson d kv) out = do {
     (out, m, d, kv) \<leftarrow> copy_to_stream_dson (stream_obj fuel cv nw) cv nw m d kv out;
     Some (out, m, ObjDson d kv)
   }"

definition copy_to_stream :: "converters \<Rightarrow> bool \<Rightarrow> mem \<Rightarrow> dson_obj \<Rightarrow> byte list \<Rightarrow>
    (byte list \<times> mem \<times> dson_obj) option" where
  "copy_to_stream cv nw m obj out = stream_obj (obj_depth obj) cv nw m obj out"

section \<open>What is written\<close>

text \<open>
  A good stream copy: the serialisation is appended, the object is at rest with the same
  serialisation, and memory it does not own is untouched.
\<close>

definition streamed :: "converters \<Rightarrow> data_pred \<Rightarrow> bool \<Rightarrow> mem \<Rightarrow> dson_obj \<Rightarrow> byte list \<Rightarrow>
    (byte list \<times> mem \<times> dson_obj) option \<Rightarrow> bool" where
  "streamed cv data_ok nw m obj out res \<longleftrightarrow> (\<exists>m' obj'. res = Some (out @ obj_wire cv nw m obj, m', obj') \<and>
     obj_ok data_ok nw m' obj' \<and> obj_rest obj' \<and> obj_blocks obj' = obj_blocks obj \<and>
     obj_size obj' = obj_size obj \<and> obj_wire cv nw m' obj' = obj_wire cv nw m obj \<and>
     (\<forall>b. b \<notin> set (obj_blocks obj) \<longrightarrow> heap m' b = heap m b))"

definition map_streamed :: "converters \<Rightarrow> data_pred \<Rightarrow> bool \<Rightarrow> mem \<Rightarrow> kvmap \<Rightarrow> byte list \<Rightarrow>
    (byte list \<times> mem \<times> kvmap) option \<Rightarrow> bool" where
  "map_streamed cv data_ok nw m kv out res \<longleftrightarrow> (\<exists>m' kv'. res = Some (out @ map_wire cv nw m kv, m', kv') \<and>
     map_ok data_ok nw m' kv' \<and> map_rest kv' \<and> map_blocks kv' = map_blocks kv \<and>
     map_size kv' = map_size kv \<and> map_wire cv nw m' kv' = map_wire cv nw m kv \<and>
     (\<forall>b. b \<notin> set (map_blocks kv) \<longrightarrow> heap m' b = heap m b))"

lemma stream_loop_good:
  assumes "map_ok data_ok nw m kv" "distinct (map_blocks kv)" "map_rest kv"
    and "\<And>k obj m out. (k, obj) \<in> set kv \<Longrightarrow> obj_ok data_ok nw m obj \<Longrightarrow> obj_rest obj \<Longrightarrow>
      streamed cv data_ok nw m obj out (step m obj out)"
  shows "map_streamed cv data_ok nw m kv out (stream_loop step m kv out)"
  using assms
proof (induction kv arbitrary: m out)
  case Nil
  then show ?case by (simp add: map_streamed_def)
next
  case (Cons p kv)
  obtain k obj where p: "p = (k, obj)" by (cases p)
  have ok: "obj_ok data_ok nw m obj" "obj_rest obj" "map_ok data_ok nw m kv" "map_rest kv"
    and dist: "distinct (map_blocks kv)" "set (obj_blocks obj) \<inter> set (map_blocks kv) = {}"
    using Cons.prems(1-3) by (simp_all add: p)
  have "streamed cv data_ok nw m obj out (step m obj out)"
    by (rule Cons.prems(4) [of k]) (simp_all add: p ok)
  then obtain m1 obj1 where s: "step m obj out = Some (out @ obj_wire cv nw m obj, m1, obj1)"
    and k1: "obj_ok data_ok nw m1 obj1" "obj_rest obj1" "obj_blocks obj1 = obj_blocks obj"
    "obj_size obj1 = obj_size obj" "obj_wire cv nw m1 obj1 = obj_wire cv nw m obj"
    "\<forall>b. b \<notin> set (obj_blocks obj) \<longrightarrow> heap m1 b = heap m b"
    unfolding streamed_def by blast
  have "\<forall>b \<in> set (map_blocks kv). heap m1 b = heap m b" using k1(6) dist(2) by blast
  from map_frame [OF this, of data_ok nw cv] ok(3)
  have f: "map_ok data_ok nw m1 kv" "map_wire cv nw m1 kv = map_wire cv nw m kv" by auto
  have "map_streamed cv data_ok nw m1 kv (out @ obj_wire cv nw m obj)
      (stream_loop step m1 kv (out @ obj_wire cv nw m obj))"
    by (rule Cons.IH [OF f(1) dist(1) ok(4)]) (use Cons.prems(4) in auto)
  then obtain m2 kv2 where l: "stream_loop step m1 kv (out @ obj_wire cv nw m obj) =
      Some ((out @ obj_wire cv nw m obj) @ map_wire cv nw m1 kv, m2, kv2)"
    and k2: "map_ok data_ok nw m2 kv2" "map_rest kv2" "map_blocks kv2 = map_blocks kv"
    "map_size kv2 = map_size kv" "map_wire cv nw m2 kv2 = map_wire cv nw m1 kv"
    "\<forall>b. b \<notin> set (map_blocks kv) \<longrightarrow> heap m2 b = heap m1 b"
    unfolding map_streamed_def by blast
  have "\<forall>b \<in> set (obj_blocks obj1). heap m2 b = heap m1 b" using k2(6) dist(2) unfolding k1(3) by blast
  from obj_frame [OF this, of data_ok nw cv] k1
  have "obj_ok data_ok nw m2 obj1" "obj_wire cv nw m2 obj1 = obj_wire cv nw m obj" by auto
  then show ?case
    using s l k1 k2 f by (auto simp: p map_streamed_def)
qed

lemma stream_string_good:
  assumes "so_sendable s" "so_state s = StReady"
  shows "streamed cv data_ok nw m (ObjString s) out (stream_obj fuel cv nw m (ObjString s) out)"
proof -
  let ?s = "s\<lparr>so_header := hdr_order nw (so_header s)\<rparr>"
  have v: "hdr_valid (so_header s)" "so_data_size s = int (length (so_object s))" "so_data_type s = types_map T_string"
    using assms(1) by (simp_all add: so_sendable_def so_wf_def)
  have k: "so_key ?s = so_key s" "so_data_size ?s = so_data_size s"
    using v(1) by (simp_all add: so_accessors_hdr)
  have w: "hdr_order nw (so_header s) @ so_object s = string_wire nw (so_key s) (so_object s)"
    using v by (simp add: string_wire_def so_accessors_hdr hdr_order_valid)
  have "so_copy_to_stream nw s out = (out @ string_wire nw (so_key s) (so_object s), ?s)"
    unfolding w [symmetric] by (simp add: so_copy_to_stream_def so_accessors_hdr hdr_order_def)
  moreover have "so_sendable ?s" using assms v by (auto simp: so_sendable_def so_wf_def so_accessors_hdr)
  ultimately show ?thesis using assms(2) k by (simp add: streamed_def)
qed

lemma stream_route_good:
  assumes "ro_wf r" "ro_state r = StReady"
  shows "streamed cv data_ok nw m (ObjRoute r) out (stream_obj fuel cv nw m (ObjRoute r) out)"
proof -
  obtain nw0 key a where r: "i32_ok key" "ro_buf r = route_wire nw0 key a"
    using assms(1) by (auto simp: ro_wf_def)
  let ?r = "r\<lparr>ro_buf := route_wire nw key a\<rparr>"
  have k: "ro_key r = key" "ro_addr r = a" "ro_key ?r = key" "ro_addr ?r = a"
    using ro_buf_order(3) [OF r(2,1)] ro_buf_order(3) [of ?r nw key a]
      ro_address_eq [OF r(2,1)] ro_address_eq [of ?r nw key a] r(1) by (simp_all add: ro_addr_def)
  have "ro_copy_to_stream nw r out = (out @ route_wire nw key a, ?r)"
    using ro_buf_order(1,2) [OF r(2,1)] by (simp add: ro_copy_to_stream_def)
  moreover have "ro_wf ?r" using assms r(1) by (auto simp: ro_wf_def)
  ultimately show ?thesis using assms(2) k by (simp add: streamed_def ro_data_size_def)
qed

text \<open>An object over its own buffer whose header and data are in the order asked for by now.\<close>

lemma stream_tail:
  assumes "buf_ok data_ok nw m d" "d_kind d \<noteq> DsonContainer" "d_state d = StReady"
  shows "dson_data_size m d [] = Some (d_buf_size d)"
    "copy_to_stream_header_internal m d sz out = Some (out @ d_header d, m, d)"
    "copy_to_stream_data_internal m d (d_buf_size d) out = Some (out @ own_data m d)"
proof -
  obtain b bs where b: "d_was_alloc d" "0 < d_buf_size d" "hdr_field (d_header d) (Suc 0) = d_buf_size d"
    "d_buf d = Some (b, 0)" "heap m b = Some bs" "length bs = nat (d_buf_size d)" "own_data m d = bs"
    using buf_okE [OF assms(1)] by metis
  show "dson_data_size m d [] = Some (d_buf_size d)"
    using b assms(2) by (cases "d_kind d") (simp_all add: dson_data_size_def local_simps)
  show "copy_to_stream_header_internal m d sz out = Some (out @ d_header d, m, d)"
    using b assms(2) by (simp add: copy_to_stream_header_internal_def local_simps)
  have "mread m (b, 0) (nat (d_buf_size d)) = Some bs"
    using b by (subst mread_eq [of _ _ bs]) (simp_all add: seg_def)
  then show "copy_to_stream_data_internal m d (d_buf_size d) out = Some (out @ own_data m d)"
    using b assms(3) by (simp add: copy_to_stream_data_internal_def data_ptr_def)
qed

context converter_table
begin

lemma to_order_any:
  assumes "buf_ok data_ok nw m d" "d_state d = StReady" "d_kind d = OneObjectInDataBuf"
  shows "\<exists>m' h. (if nw then to_network cv m d else to_host cv m d) = Some (m', d\<lparr>d_header := h\<rparr>) \<and>
    buf_ok data_ok nw m' (d\<lparr>d_header := h\<rparr>) \<and>
    (h, own_data m' d) = buf_out cv nw (d_header d) (own_data m d) \<and>
    buf_out cv nw h (own_data m' d) = (h, own_data m' d) \<and>
    (\<forall>b. b \<notin> set (own_blocks d) \<longrightarrow> heap m' b = heap m b) \<and> same_alloc m m' \<and>
    hdr_field h (Suc 0) = hdr_field (d_header d) (Suc 0)"
proof (cases "hdr_is_network (d_header d) = nw")
  case True
  have "header_loc d = None" "hdr_valid (d_header d)" using assms(1) by (auto elim!: buf_okE)
  then have "(if nw then to_network cv m d else to_host cv m d) = Some (m, d)"
    using True by (cases nw) (simp_all add: to_network_def to_host_def local_simps hdr_valid_host_iff)
  then show ?thesis using assms(1) True by (intro exI [of _ m] exI [of _ "d_header d"]) (simp add: buf_out_def)
next
  case False
  show ?thesis by (rule to_order_other [OF assms(1,2) False assms(3)])
qed

lemma stream_one_good:
  assumes d: "buf_ok data_ok nw m d" "d_state d = StReady" "d_kind d = OneObjectInDataBuf"
  shows "\<exists>m' h. stream_one cv nw m d [] out = Some (out @ obj_wire cv nw m (ObjDson d []), m', d\<lparr>d_header := h\<rparr>, []) \<and>
    buf_ok data_ok nw m' (d\<lparr>d_header := h\<rparr>) \<and> obj_wire cv nw m' (ObjDson (d\<lparr>d_header := h\<rparr>) []) =
      obj_wire cv nw m (ObjDson d []) \<and> hdr_field h (Suc 0) = hdr_field (d_header d) (Suc 0) \<and>
    (\<forall>b. b \<notin> set (own_blocks d) \<longrightarrow> heap m' b = heap m b)"
proof -
  obtain m' h where c: "(if nw then to_network cv m d else to_host cv m d) = Some (m', d\<lparr>d_header := h\<rparr>)"
    "buf_ok data_ok nw m' (d\<lparr>d_header := h\<rparr>)"
    "(h, own_data m' d) = buf_out cv nw (d_header d) (own_data m d)"
    "buf_out cv nw h (own_data m' d) = (h, own_data m' d)"
    "\<forall>b. b \<notin> set (own_blocks d) \<longrightarrow> heap m' b = heap m b"
    "hdr_field h (Suc 0) = hdr_field (d_header d) (Suc 0)"
    using to_order_any [OF d] by blast
  let ?d = "d\<lparr>d_header := h\<rparr>"
  have k: "d_kind d \<noteq> DsonContainer" "d_kind ?d \<noteq> DsonContainer" "d_state ?d = StReady" using d by simp_all
  have sz: "dson_data_size m d [] = Some (d_buf_size d)" "dson_data_size m' ?d [] = Some (d_buf_size d)"
    using stream_tail(1) [OF d(1) k(1) d(2)] stream_tail(1) [OF c(2) k(2,3)] by simp_all
  have "stream_one cv nw m d [] out = Some ((out @ h) @ own_data m' d, m', ?d, [])"
    using c(1) sz stream_tail(2) [OF c(2) k(2,3)] stream_tail(3) [OF c(2) k(2,3)]
    by (cases nw) (simp_all add: stream_one_def)
  moreover have "obj_wire cv nw m (ObjDson d []) = h @ own_data m' d"
    "obj_wire cv nw m' (ObjDson ?d []) = h @ own_data m' d"
    using c(3,4) d(3) by (simp_all flip: c(3))
  ultimately show ?thesis using c by auto
qed

end

context converter_table
begin

lemma stream_buf_good:
  assumes d: "buf_ok data_ok nw m d" "d_state d = StReady" "d_kind d \<noteq> DsonContainer"
  shows "streamed cv data_ok nw m (ObjDson d []) out (stream_obj (Suc fuel) cv nw m (ObjDson d []) out)"
proof -
  have l: "header_loc d = None" "hdr_valid (d_header d)" using d(1) by (auto elim!: buf_okE)
  note t = stream_tail [OF d(1,3,2)]
  show ?thesis
  proof (cases "hdr_is_network (d_header d) = nw \<and> d_kind d = DataBufNeedParse")
    case True
    then have "stream_begin nw m d = Some True"
      using l by (cases nw) (simp_all add: stream_begin_def local_simps hdr_valid_host_iff)
    then have "stream_obj (Suc fuel) cv nw m (ObjDson d []) out =
        Some (out @ d_header d @ own_data m d, m, ObjDson d [])"
      using t d(2) by (simp add: copy_to_stream_dson_def)
    then show ?thesis using d True by (simp add: streamed_def buf_out_def)
  next
    case False
    let ?d = "d\<lparr>d_kind := OneObjectInDataBuf\<rparr>"
    have ok: "buf_ok data_ok nw m ?d" using d(1,2) by (simp add: buf_ok_def buf_state_ok_def)
    obtain m' h where o: "stream_one cv nw m ?d [] out =
        Some (out @ obj_wire cv nw m (ObjDson ?d []), m', ?d\<lparr>d_header := h\<rparr>, [])"
      "buf_ok data_ok nw m' (?d\<lparr>d_header := h\<rparr>)"
      "obj_wire cv nw m' (ObjDson (?d\<lparr>d_header := h\<rparr>) []) = obj_wire cv nw m (ObjDson ?d [])"
      "hdr_field h (Suc 0) = hdr_field (d_header ?d) (Suc 0)"
      "\<forall>b. b \<notin> set (own_blocks ?d) \<longrightarrow> heap m' b = heap m b"
      using stream_one_good [OF ok] d(2) by fastforce
    have "copy_to_stream_dson step cv nw m d [] out = stream_one cv nw m ?d [] out" for step
    proof (cases "d_kind d")
      case DataBufNeedParse
      then have "hdr_field (d_header d) 3 \<noteq> types_map T_DsonContainer" "stream_begin nw m d = Some False"
        using d(1) False l by (cases nw; simp add: buf_ok_def stream_begin_def local_simps hdr_valid_host_iff)+
      then show ?thesis using parse_buf_single [OF l(1) d(2)] DataBufNeedParse d(2)
        by (simp add: copy_to_stream_dson_def)
    next
      case OneObjectInDataBuf
      then have e: "?d = d" by simp
      show ?thesis unfolding e using d(2) OneObjectInDataBuf by (simp add: copy_to_stream_dson_def stream_begin_def)
    qed (use d(3) in simp)
    moreover have "obj_wire cv nw m (ObjDson ?d []) = obj_wire cv nw m (ObjDson d [])" using d(3) by simp
    moreover have "obj_size (ObjDson (?d\<lparr>d_header := h\<rparr>) []) = obj_size (ObjDson d [])"
      using o(4) d(3) by simp
    ultimately show ?thesis using o d(2) by (simp add: streamed_def del: obj_wire.simps)
  qed
qed

lemma stream_container_good:
  assumes d: "d_kind d = DsonContainer" "d_state d = StReady" "container_ok d kv" "map_size kv \<le> i32_max"
    "map_ok data_ok nw m kv" "distinct (map_blocks kv)"
    and step: "\<And>k obj m out. (k, obj) \<in> set kv \<Longrightarrow> obj_ok data_ok nw m obj \<Longrightarrow> obj_rest obj \<Longrightarrow>
      streamed cv data_ok nw m obj out (step m obj out)"
  shows "\<exists>m' d' kv'. copy_to_stream_dson step cv nw m d kv out = Some (out @ obj_wire cv nw m (ObjDson d kv), m', d', kv') \<and>
    streamed cv data_ok nw m (ObjDson d kv) out (Some (out @ obj_wire cv nw m (ObjDson d kv), m', ObjDson d' kv'))"
proof -
  have l: "header_loc d = None" "hdr_valid (d_header d)" "map_rest kv"
    using d(2,3) by (simp_all add: container_ok_def)
  have z: "0 \<le> map_size kv" "data_size_loop m kv 0 = Some (map_size kv)"
    using map_size_ok [OF d(5)] d(4) by simp_all
  then have iok: "i32_ok (map_size kv)" using d(4) by (simp add: i32_ok_def i32_min_def)
  let ?h = "hdr_set_field (hdr_order nw (d_header d)) (Suc 0) (map_size kv)"
  let ?d = "d\<lparr>d_header := ?h\<rparr>"
  have v: "hdr_valid (hdr_order nw (d_header d))" using l(2) by simp
  have hv: "hdr_valid ?h" using hdr_set_field_valid [OF v, of 1] by simp
  have f: "hdr_field ?h 2 = hdr_field (d_header d) 2" "hdr_field ?h 3 = hdr_field (d_header d) 3"
    using hdr_set_size [OF v iok] l(2) by simp_all
  have w: "?h = hdr_for nw (map_size kv) (hdr_field (d_header d) 2) (hdr_field (d_header d) 3)"
    using l(2) iok by (simp add: hdr_order_valid hdr_simps)
  have "map_streamed cv data_ok nw m kv (out @ ?h) (stream_loop step m kv (out @ ?h))"
    by (rule stream_loop_good [OF d(5,6) l(3) step])
  then obtain m' kv' where s: "stream_loop step m kv (out @ ?h) = Some ((out @ ?h) @ map_wire cv nw m kv, m', kv')"
    "map_ok data_ok nw m' kv'" "map_rest kv'" "map_blocks kv' = map_blocks kv" "map_size kv' = map_size kv"
    "map_wire cv nw m' kv' = map_wire cv nw m kv" "\<forall>b. b \<notin> set (map_blocks kv) \<longrightarrow> heap m' b = heap m b"
    unfolding map_streamed_def by blast
  have "copy_to_stream_dson step cv nw m d kv out = Some ((out @ ?h) @ map_wire cv nw m kv, m', ?d, kv')"
    using d(1,2) l z s(1) by (cases nw) (simp_all add: copy_to_stream_dson_def stream_begin_def stream_container_def
        dson_data_size_def copy_to_stream_header_internal_def set_data_size_internal_def local_simps hdr_order_def)
  moreover have "obj_wire cv nw m (ObjDson d kv) = ?h @ map_wire cv nw m kv"
    using d(1) by (simp add: w)
  moreover have "container_ok ?d kv'" using d(2,3) hv s(3) by (simp add: container_ok_def)
  then have "streamed cv data_ok nw m (ObjDson d kv) out
      (Some (out @ obj_wire cv nw m (ObjDson d kv), m', ObjDson ?d kv'))"
    using d s f by (simp add: streamed_def)
  ultimately show ?thesis by (intro exI [of _ m'] exI [of _ ?d] exI [of _ kv']) simp
qed

text \<open>An object of any class and nesting; the fuel need only bound the nesting.\<close>

lemma stream_obj_good:
  "obj_ok data_ok nw m obj \<Longrightarrow> distinct (obj_blocks obj) \<Longrightarrow> obj_rest obj \<Longrightarrow> obj_depth obj \<le> fuel \<Longrightarrow>
   streamed cv data_ok nw m obj out (stream_obj fuel cv nw m obj out)"
proof (induction fuel arbitrary: m obj out)
  case 0
  then show ?case
  proof (cases obj)
    case (ObjDson d kv)
    with 0 show ?thesis by (cases "d_kind d = DataBufNeedParse") simp_all
  next
    case (ObjString s)
    with 0 show ?thesis using stream_string_good by simp
  next
    case (ObjRoute r)
    with 0 show ?thesis using stream_route_good by simp
  qed
next
  case (Suc fuel)
  show ?case
  proof (cases obj)
    case (ObjString s)
    with Suc.prems show ?thesis using stream_string_good by simp
  next
    case (ObjRoute r)
    with Suc.prems show ?thesis using stream_route_good by simp
  next
    case (ObjDson d kv)
    show ?thesis
    proof (cases "d_kind d = DsonContainer")
      case False
      with Suc.prems show ?thesis using stream_buf_good [of nw m d out fuel] by (simp add: ObjDson)
    next
      case True
      have "streamed cv data_ok nw m o' out (stream_obj fuel cv nw m o' out)"
        if o': "(k, o') \<in> set kv" "obj_ok data_ok nw m o'" "obj_rest o'" for k o' m out
      proof -
        have "obj_depth o' \<le> fuel" using map_depth_mem [OF o'(1)] Suc.prems(4) True ObjDson by simp
        moreover have "distinct (obj_blocks o')" using map_blocks_distinct [OF o'(1)] Suc.prems(2) ObjDson by simp
        ultimately show ?thesis using Suc.IH o' by blast
      qed
      then obtain m' d' kv' where "copy_to_stream_dson (stream_obj fuel cv nw) cv nw m d kv out =
          Some (out @ obj_wire cv nw m (ObjDson d kv), m', d', kv')"
        "streamed cv data_ok nw m (ObjDson d kv) out
          (Some (out @ obj_wire cv nw m (ObjDson d kv), m', ObjDson d' kv'))"
        using stream_container_good [of d kv nw m "stream_obj fuel cv nw" out] Suc.prems True ObjDson by auto
      then show ?thesis by (simp add: ObjDson del: obj_wire.simps)
    qed
  qed
qed

end

text \<open>
  A message at rest, of any nesting, copied to a stream in one order or the other, is
  appended as exactly its serialisation, in one call; the object is at rest and can be sent
  again with the same serialisation.
\<close>

theorem copy_to_stream_appends:
  assumes "obj_ok lib_data nw m obj" "distinct (obj_blocks obj)" "obj_rest obj"
  shows "\<exists>m' obj'. copy_to_stream lib_converters nw m obj out =
      Some (out @ obj_wire lib_converters nw m obj, m', obj') \<and>
    obj_rest obj' \<and> obj_ok lib_data nw m' obj' \<and>
    obj_wire lib_converters nw m' obj' = obj_wire lib_converters nw m obj"
  using lib_table.stream_obj_good [OF assms order_refl, of out]
  by (auto simp: copy_to_stream_def streamed_def)

lemma copy_to_stream_appends_witness:
  "\<exists>m' obj'. copy_to_stream lib_converters True sample_mem sample_msg [9] =
      Some ([9] @ obj_wire lib_converters True sample_mem sample_msg, m', obj') \<and>
    obj_rest obj' \<and> obj_ok lib_data True m' obj' \<and>
    obj_wire lib_converters True m' obj' = obj_wire lib_converters True sample_mem sample_msg"
  by (rule copy_to_stream_appends) (simp_all only: sample_msg_ok)

section \<open>The ways of copying agree\<close>

text \<open>
  C20: the state machine of \<open>copy_to_buf_*\<close> refines a queue of bytes.  For every object at rest,
  of any nesting, and every sequence of windows, answers and bytes are those of the queue that
  holds the serialisation of the object: nothing is lost, repeated or reordered at any
  boundary, and \<open>Ready\<close> is answered exactly by the call that empties it.
\<close>

theorem dson_copy_refines_queue:
  assumes "obj_ok lib_data nw m obj" "distinct (obj_blocks obj)" "obj_rest obj"
  shows "map_option (\<lambda>(r, out, s). (r, out)) (drive (buf_step nw) (m, obj) ns) =
    Some (queue_run (obj_wire lib_converters nw m obj) ns)"
proof -
  have p: "to_send nw (m, obj) = obj_wire lib_converters nw m obj" using obj_rest_pending [OF assms(1,3)] by simp
  have "sending nw (obj_wire lib_converters nw m obj) (m, obj)" using assms by (simp add: sending_def)
  from buf_writer.drive_queue [OF this, of ns] show ?thesis unfolding p using obj_wire_nonempty [OF assms(1)] by simp
qed

lemma dson_copy_refines_queue_witness:
  "map_option (\<lambda>(r, out, s). (r, out)) (drive (buf_step True) (sample_mem, sample_msg) [10, 0, 7]) =
    Some (queue_run (obj_wire lib_converters True sample_mem sample_msg) [10, 0, 7])"
  by (rule dson_copy_refines_queue) (simp_all add: sample_msg_ok)



end
