(* ===== verification/From_Dson.thy ===== *)
theory From_Dson
  imports Dson_Get Dson_Stream
begin

text \<open>
  Reading the value of an object: \<open>to_uint32\<close>, \<open>to_int32\<close>, \<open>to_uint64\<close>, \<open>to_int64\<close>,
  \<open>to_double\<close>, \<open>to_string_view\<close> and \<open>to_string\<close> of
  \<open>include/dson/from_dson_converters.h\<close>.
\<close>

section \<open>Doubles and integers\<close>

text \<open>Comparison of a double with an integer, false for a NaN.\<close>

definition mag_le :: "nat \<Rightarrow> nat \<Rightarrow> bool" where
  "mag_le n k = (let (m, q) = mag_decode n in
     if 0 \<le> q then m * 2 ^ nat q \<le> k else m \<le> k * 2 ^ nat (- q))"

definition mag_ge :: "nat \<Rightarrow> nat \<Rightarrow> bool" where
  "mag_ge n k = (let (m, q) = mag_decode n in
     if 0 \<le> q then k \<le> m * 2 ^ nat q else k * 2 ^ nat (- q) \<le> m)"

definition dbl_le_int :: "dbl \<Rightarrow> int \<Rightarrow> bool" where
  "dbl_le_int x k = (\<not> dbl_isnan x \<and>
     (if dbl_sign x then 0 \<le> k \<or> mag_ge (dbl_mag x) (nat (- k)) else 0 \<le> k \<and> mag_le (dbl_mag x) (nat k)))"

definition int_le_dbl :: "int \<Rightarrow> dbl \<Rightarrow> bool" where
  "int_le_dbl k x = (\<not> dbl_isnan x \<and>
     (if dbl_sign x then k \<le> 0 \<and> mag_le (dbl_mag x) (nat (- k)) else k \<le> 0 \<or> mag_ge (dbl_mag x) (nat k)))"

text \<open>
  The value without its fraction, and the conversion to an integer type, which is undefined
  when that does not fit.
\<close>

definition dbl_trunc :: "dbl \<Rightarrow> int" where
  "dbl_trunc x = (if dbl_sign x then - int (mag_trunc (dbl_mag x)) else int (mag_trunc (dbl_mag x)))"

definition dbl_cast :: "int \<Rightarrow> int \<Rightarrow> dbl \<Rightarrow> int option" where
  "dbl_cast lo hi x = (if lo \<le> dbl_trunc x \<and> dbl_trunc x \<le> hi then Some (dbl_trunc x) else None)"

definition dbl_of_int :: "int \<Rightarrow> dbl" where
  "dbl_of_int v = mk_dbl (v < 0) (mag_encode (nat \<bar>v\<bar>) 0)"

section \<open>The data of an object\<close>

text \<open>\<open>switch (obj->data_type())\<close> with the read of \<open>data()\<close>; none is the default branch.\<close>

datatype num = NumU32 u32 | NumI32 i32 | NumU64 u64 | NumI64 int | NumDbl dbl

definition read_number :: "mem \<Rightarrow> dson \<Rightarrow> num option option" where
  "read_number m d = do {
     ty \<leftarrow> dson_data_type m d;
     if ty = types_map T_uint32 then do { p \<leftarrow> data_ptr d; w \<leftarrow> mread32 m p; Some (Some (NumU32 w)) }
     else if ty = types_map T_int32 then do { p \<leftarrow> data_ptr d; w \<leftarrow> mread32 m p; Some (Some (NumI32 (to_i32 w))) }
     else if ty = types_map T_uint64 then do { p \<leftarrow> data_ptr d; w \<leftarrow> mread64 m p; Some (Some (NumU64 w)) }
     else if ty = types_map T_int64 then do { p \<leftarrow> data_ptr d; w \<leftarrow> mread64 m p; Some (Some (NumI64 (sint w))) }
     else if ty = types_map T_double then do { p \<leftarrow> data_ptr d; w \<leftarrow> mread64 m p; Some (Some (NumDbl w)) }
     else Some None
   }"

definition number_of :: "converters \<Rightarrow> mem \<Rightarrow> dson \<Rightarrow> (num option \<times> mem \<times> dson) option" where
  "number_of cv m d = do {
     host \<leftarrow> is_host_order m d;
     (m, d) \<leftarrow> (if host then Some (m, d) else to_host cv m d);
     n \<leftarrow> read_number m d;
     Some (n, m, d)
   }"

section \<open>The branches of the conversions\<close>

definition u32_max :: int where "u32_max = 2 ^ 32 - 1"
definition i64_min :: int where "i64_min = - (2 ^ 63)"
definition i64_max :: int where "i64_max = 2 ^ 63 - 1"
definition u64_max :: int where "u64_max = 2 ^ 64 - 1"

fun num_to_uint32 :: "u32 \<Rightarrow> num \<Rightarrow> u32 option" where
  "num_to_uint32 def (NumU32 w) = Some w"
| "num_to_uint32 def (NumI32 re) = Some (if 0 \<le> re then word_of_int re else def)"
| "num_to_uint32 def (NumU64 w) = Some (if uint w \<le> u32_max then ucast w else def)"
| "num_to_uint32 def (NumI64 re) = Some (if 0 \<le> re \<and> re \<le> u32_max then word_of_int re else def)"
| "num_to_uint32 def (NumDbl x) = (if int_le_dbl 0 x \<and> dbl_le_int x u32_max
     then map_option word_of_int (dbl_cast 0 u32_max x) else Some def)"

fun num_to_int32 :: "i32 \<Rightarrow> num \<Rightarrow> i32 option" where
  "num_to_int32 def (NumI32 re) = Some re"
| "num_to_int32 def (NumU32 w) = Some (if uint w \<le> i32_max then uint w else def)"
| "num_to_int32 def (NumU64 w) = Some (if uint w \<le> i32_max then uint w else def)"
| "num_to_int32 def (NumI64 re) = Some (if i32_min \<le> re \<and> re \<le> i32_max then re else def)"
| "num_to_int32 def (NumDbl x) = (if int_le_dbl i32_min x \<and> dbl_le_int x i32_max
     then dbl_cast i32_min i32_max x else Some def)"

text \<open>
  The bound of the double branch is \<open>UINT64_MAX\<close> converted to \<open>double\<close>, which is
  \<open>2 ^ 64\<close>; that of the \<open>std::int64_t\<close> branch compares unsigned.
\<close>

fun num_to_uint64 :: "u64 \<Rightarrow> num \<Rightarrow> u64 option" where
  "num_to_uint64 def (NumU32 w) = Some (ucast w)"
| "num_to_uint64 def (NumI32 re) = Some (if 0 \<le> re then word_of_int re else def)"
| "num_to_uint64 def (NumU64 w) = Some w"
| "num_to_uint64 def (NumI64 re) = Some (if 0 \<le> re \<and> re mod 2 ^ 64 \<le> u64_max then word_of_int re else def)"
| "num_to_uint64 def (NumDbl x) = (if int_le_dbl 0 x \<and> dbl_le_int x (2 ^ 64)
     then map_option word_of_int (dbl_cast 0 u64_max x) else Some def)"

fun num_to_int64 :: "int \<Rightarrow> num \<Rightarrow> int option" where
  "num_to_int64 def (NumI32 re) = Some re"
| "num_to_int64 def (NumU32 w) = Some (uint w)"
| "num_to_int64 def (NumU64 w) = Some (if uint w \<le> i64_max then uint w else def)"
| "num_to_int64 def (NumI64 re) = Some re"
| "num_to_int64 def (NumDbl x) = (if int_le_dbl i64_min x \<and> dbl_le_int x i32_max
     then dbl_cast i64_min i64_max x else Some def)"

fun num_to_double :: "dbl \<Rightarrow> num \<Rightarrow> dbl option" where
  "num_to_double def (NumI32 re) = Some (dbl_of_int re)"
| "num_to_double def (NumU32 w) = Some (dbl_of_int (uint w))"
| "num_to_double def (NumU64 w) = Some (dbl_of_int (uint w))"
| "num_to_double def (NumI64 re) = Some (dbl_of_int re)"
| "num_to_double def (NumDbl x) = Some x"

section \<open>The functions\<close>

text \<open>The common frame: default for objects that hold no number.\<close>

definition from_number :: "('a \<Rightarrow> num \<Rightarrow> 'a option) \<Rightarrow> converters \<Rightarrow> mem \<Rightarrow> dson \<Rightarrow> 'a \<Rightarrow>
    ('a \<times> mem \<times> dson) option" where
  "from_number conv cv m d def = do {
     (n, m, d) \<leftarrow> number_of cv m d;
     v \<leftarrow> (case n of None \<Rightarrow> Some def | Some n \<Rightarrow> conv def n);
     Some (v, m, d)
   }"

definition to_uint32 :: "converters \<Rightarrow> mem \<Rightarrow> dson \<Rightarrow> u32 \<Rightarrow> (u32 \<times> mem \<times> dson) option" where
  "to_uint32 = from_number num_to_uint32"

definition to_int32 :: "converters \<Rightarrow> mem \<Rightarrow> dson \<Rightarrow> i32 \<Rightarrow> (i32 \<times> mem \<times> dson) option" where
  "to_int32 = from_number num_to_int32"

definition to_uint64 :: "converters \<Rightarrow> mem \<Rightarrow> dson \<Rightarrow> u64 \<Rightarrow> (u64 \<times> mem \<times> dson) option" where
  "to_uint64 = from_number num_to_uint64"

definition to_int64 :: "converters \<Rightarrow> mem \<Rightarrow> dson \<Rightarrow> int \<Rightarrow> (int \<times> mem \<times> dson) option" where
  "to_int64 = from_number num_to_int64"

definition to_double :: "converters \<Rightarrow> mem \<Rightarrow> dson \<Rightarrow> dbl \<Rightarrow> (dbl \<times> mem \<times> dson) option" where
  "to_double = from_number num_to_double"

text \<open>
  The overloads for \<open>DsonObj *\<close>: null and objects of other classes give the default.  The
  argument is the pointer, its target is returned as the call leaves it.
\<close>

definition of_obj :: "(mem \<Rightarrow> dson \<Rightarrow> 'a \<Rightarrow> ('a \<times> mem \<times> dson) option) \<Rightarrow> mem \<Rightarrow> dson_obj option \<Rightarrow> 'a \<Rightarrow>
    ('a \<times> mem \<times> dson_obj option) option" where
  "of_obj f m obj def = (case obj of
     Some (ObjDson d kv) \<Rightarrow> do { (v, m, d) \<leftarrow> f m d def; Some (v, m, Some (ObjDson d kv)) }
   | _ \<Rightarrow> Some (def, m, obj))"

definition to_string_view_dson :: "mem \<Rightarrow> dson \<Rightarrow> kvmap \<Rightarrow> byte list option" where
  "to_string_view_dson m d kv = do {
     ty \<leftarrow> dson_data_type m d;
     if ty \<noteq> types_map T_string then Some [] else do {
       sz \<leftarrow> dson_data_size m d kv;
       case data_ptr d of
         None \<Rightarrow> if sz = 0 then Some [] else None
       | Some p \<Rightarrow> mread m p (unat (of_i32 sz))
     }
   }"

definition to_string_view :: "mem \<Rightarrow> dson_obj option \<Rightarrow> byte list option" where
  "to_string_view m obj = (case obj of
     None \<Rightarrow> Some []
   | Some (ObjDson d kv) \<Rightarrow> to_string_view_dson m d kv
   | Some (ObjString s) \<Rightarrow> Some (so_object s)
   | Some (ObjRoute r) \<Rightarrow> Some [])"

text \<open>\<open>std::to_string\<close>\<close>

fun decimal :: "nat \<Rightarrow> byte list" where
  "decimal n = (if n < 10 then [word_of_nat (48 + n)] else decimal (n div 10) @ [word_of_nat (48 + n mod 10)])"

declare decimal.simps [simp del]

definition decimal_int :: "int \<Rightarrow> byte list" where
  "decimal_int v = (if v < 0 then 45 # decimal (nat (- v)) else decimal (nat v))"

definition unknown_type_text :: "byte list" where
  "unknown_type_text = map of_char ''unknown dson data_type():''"

definition obj_data_type :: "mem \<Rightarrow> dson_obj \<Rightarrow> i32 option" where
  "obj_data_type m obj = (case obj of
     ObjDson d kv \<Rightarrow> dson_data_type m d
   | ObjString s \<Rightarrow> Some (so_data_type s)
   | ObjRoute r \<Rightarrow> Some (ro_data_type r))"

definition to_string :: "converters \<Rightarrow> mem \<Rightarrow> dson_obj option \<Rightarrow> (byte list \<times> mem \<times> dson_obj option) option" where
  "to_string cv m obj = (case obj of None \<Rightarrow> Some ([], m, None) | Some ob \<Rightarrow> do {
     ty \<leftarrow> obj_data_type m ob;
     if ty = types_map T_uint32 then do {
       (v, m, obj) \<leftarrow> of_obj (to_uint32 cv) m obj 0; Some (decimal_int (uint v), m, obj) }
     else if ty = types_map T_int32 then do {
       (v, m, obj) \<leftarrow> of_obj (to_int32 cv) m obj 0; Some (decimal_int v, m, obj) }
     else if ty = types_map T_uint64 then do {
       (v, m, obj) \<leftarrow> of_obj (to_uint64 cv) m obj 0; Some (decimal_int (uint v), m, obj) }
     else if ty = types_map T_int64 then do {
       (v, m, obj) \<leftarrow> of_obj (to_int64 cv) m obj 0; Some (decimal_int v, m, obj) }
     else if ty = types_map T_string then do {
       xs \<leftarrow> to_string_view m obj; Some (xs, m, obj) }
     else Some (unknown_type_text @ decimal_int ty, m, obj)
   })"

end
