(* ===== verification/Dson_Build.thy ===== *)
theory Dson_Build
  imports Dson_Get
begin

text \<open>
  Building messages: what the constructors from values and \<open>emplace\<close> make, that they keep
  objects well formed, and that \<open>get\<close> finds what was emplaced last under a key.
\<close>

section \<open>Constructors\<close>

lemma length_raw_header [simp]: "length (raw_header m) = 16"
  by (simp add: raw_header_def)

lemma set_three_words:
  assumes "length h = 16"
  shows "set32 (set32 (set32 h 0 mark_host_order) 3 (of_i32 ty)) (Suc 0) (of_i32 sz) =
    host_hdr sz (to_i32 (get32 h 2)) ty"
proof -
  let ?h = "set32 (set32 (set32 h 0 mark_host_order) 3 (of_i32 ty)) (Suc 0) (of_i32 sz)"
  have "length ?h = 16" using assms by simp
  then have "?h = store32 (get32 ?h 0) @ store32 (get32 ?h 1) @ store32 (get32 ?h 2) @ store32 (get32 ?h 3)"
    by (rule bytes16_words)
  with assms show ?thesis by (simp add: host_hdr_def)
qed

text \<open>The object a constructor makes: the key is whatever the storage held.\<close>

definition built :: "mem \<Rightarrow> lib_type \<Rightarrow> i32 \<Rightarrow> dson" where
  "built m ty sz = (dson_fields (host_hdr sz (to_i32 (get32 (raw_header m) 2)) (types_map ty)))
     \<lparr>d_buf := Some (next_block m, 0), d_was_alloc := True, d_buf_size := sz, d_kind := OneObjectInDataBuf\<rparr>"

definition fresh :: "mem \<Rightarrow> byte list \<Rightarrow> mem" where
  "fresh m bs = m\<lparr>heap := (heap m)(next_block m \<mapsto> bs), next_block := Suc (next_block m)\<rparr>"

lemma fresh_sel [simp]:
  "heap (fresh m bs) = (heap m)(next_block m \<mapsto> bs)" "next_block (fresh m bs) = Suc (next_block m)"
  "malloc_limit (fresh m bs) = malloc_limit m" "malloc_fill (fresh m bs) = malloc_fill m"
  by (simp_all add: fresh_def)

lemma mem_ok_fresh: "mem_ok m \<Longrightarrow> mem_ok (fresh m bs)"
  by (simp add: mem_ok_def)

lemma dson_init_eq:
  assumes "0 < sz" "nat sz \<le> malloc_limit m" "length h = 16"
  shows "dson_init m (dson_fields h) [] ty sz = Some (Some (next_block m, 0),
    fresh m (map (malloc_fill m) [0..<nat sz]),
    (dson_fields (host_hdr sz (to_i32 (get32 h 2)) ty))
      \<lparr>d_buf := Some (next_block m, 0), d_was_alloc := True, d_buf_size := sz, d_kind := OneObjectInDataBuf\<rparr>, [])"
proof -
  let ?raw = "map (malloc_fill m) [0..<nat sz]"
  let ?d = "(dson_fields h)\<lparr>d_buf := Some (next_block m, 0), d_was_alloc := True, d_buf_size := sz\<rparr>"
  have al: "allocate m (dson_fields h) sz = Some (Some (next_block m, 0), fresh m ?raw, ?d)"
    using assms by (simp add: allocate_def malloc_def fresh_def dson_fields_def)
  have cl: "dson_clear m (dson_fields h) [] = Some (m, dson_fields h, [])"
    by (simp add: dson_clear_def dson_fields_def)
  show ?thesis
    using set_three_words [OF assms(3), of ty sz]
    by (simp add: dson_init_def cl al hdr_put_def header_loc_def) (simp add: dson_fields_def)
qed

lemma dson_of_bytes_eq:
  assumes "0 < sz" "nat sz \<le> malloc_limit m" "length xs \<le> nat sz"
  shows "dson_of_bytes m ty sz xs =
    Some (fresh m (xs @ map (malloc_fill m) [length xs..<nat sz]), built m ty sz)"
proof -
  let ?raw = "map (malloc_fill m) [0..<nat sz]"
  have "mwrite (fresh m ?raw) (next_block m, 0) xs = Some (upd_block (fresh m ?raw) (next_block m) (patch ?raw 0 xs))"
    using assms by (subst mwrite_eq [of _ _ ?raw]) simp_all
  moreover have "patch ?raw 0 xs = xs @ map (malloc_fill m) [length xs..<nat sz]"
    using assms(3) by (simp add: patch_def drop_map)
  moreover have "upd_block (fresh m a) (next_block m) b = fresh m b" for a b
    by (simp add: upd_block_def fresh_def)
  ultimately show ?thesis
    using dson_init_eq [OF assms(1,2), of "raw_header m" "types_map ty"] by (simp add: dson_of_bytes_def built_def)
qed

lemma built_ok:
  assumes "length bs = nat sz" "0 < sz" "i32_ok sz" "lib_data_ok ty sz bs"
  shows "buf_ok lib_data nw (fresh m bs) (built m ty sz)"
    "own_data (fresh m bs) (built m ty sz) = bs"
  using assms hdr_field_for(1,3) [of _ False]
  by (simp_all add: buf_ok_def built_def dson_fields_def own_data_def buf_state_ok_def hdr_simps hdr_valid_def
      hdr_for_def)



section \<open>Emplacing\<close>

text \<open>A container at rest that owns its memory, its objects under their own keys.\<close>

definition building :: "mem \<Rightarrow> dson \<Rightarrow> kvmap \<Rightarrow> bool" where
  "building m d kv \<longleftrightarrow> obj_ok lib_data True m (ObjDson d kv) \<and> obj_owned m (ObjDson d kv) \<and>
     distinct (obj_blocks (ObjDson d kv)) \<and> obj_rest (ObjDson d kv) \<and> d_kind d = DsonContainer \<and>
     map_size kv \<le> max_dson_ram_size \<and> kv_sorted kv \<and>
     (\<forall>(k, obj) \<in> set kv. obj_key_of obj = k \<and> 0 \<le> k)"

text \<open>An object that can be put into it.\<close>

definition can_insert :: "mem \<Rightarrow> dson \<Rightarrow> kvmap \<Rightarrow> dson_obj \<Rightarrow> bool" where
  "can_insert m d kv obj \<longleftrightarrow> obj_ok lib_data True m obj \<and> obj_owned m obj \<and> distinct (obj_blocks obj) \<and>
     obj_rest obj \<and> set (obj_blocks obj) \<inter> set (obj_blocks (ObjDson d kv)) = {} \<and>
     map_size kv + int header_size + obj_size obj \<le> max_dson_ram_size"

lemma max_ram_i32: "max_dson_ram_size \<le> i32_max"
  by (simp add: max_dson_ram_size_def i32_max_def)

text \<open>The map after the insertion, in the memory without the replaced object.\<close>

lemma insert_internal_ok:
  assumes b: "building m d kv" and c: "can_insert m d kv obj" and k: "obj_key_of obj = key" "0 \<le> key"
  obtains m' d' where "insert_internal m d kv key obj = Some (m', d', kv_insert_or_assign key obj kv)"
    "building m' d' (kv_insert_or_assign key obj kv)" "message_ok m' d' (kv_insert_or_assign key obj kv)"
    "\<forall>x. x \<notin> set (obj_blocks (ObjDson d kv)) \<longrightarrow> heap m' x = heap m x"
proof -
  have bd: "container_ok d kv" "map_ok lib_data True m kv" "obj_owned m (ObjDson d kv)" "map_owned m kv"
    "distinct (own_blocks d @ map_blocks kv)" "map_rest kv" "d_state d = StReady" "d_kind d = DsonContainer"
    "kv_sorted kv" "\<forall>(k, obj) \<in> set kv. obj_key_of obj = k \<and> 0 \<le> k" "map_size kv \<le> max_dson_ram_size"
    using b by (auto simp: building_def)
  have oc: "obj_ok lib_data True m obj" "obj_owned m obj" "distinct (obj_blocks obj)" "obj_rest obj"
    "set (obj_blocks obj) \<inter> (set (own_blocks d) \<union> set (map_blocks kv)) = {}"
    "map_size kv + int header_size + obj_size obj \<le> max_dson_ram_size"
    using c by (auto simp: can_insert_def)
  define os where "os = (case kv_find key kv of None \<Rightarrow> [] | Some old \<Rightarrow> [(key, old)])"
  obtain xs ys where ins: "kv_insert_or_assign key obj kv = xs @ (key, obj) # ys" and kv: "kv = xs @ os @ ys"
    using kv_insert_split [OF bd(9), of key obj] unfolding os_def by blast
  let ?m = "free_blocks m (map_blocks os)"
  let ?h = "hdr_set_field (d_header d) 3 (types_map T_DsonContainer)"
  let ?d = "d\<lparr>d_header := ?h\<rparr>" and ?kv = "xs @ (key, obj) # ys"
  have put: "map_put m key obj kv = Some (?m, ?kv)"
  proof (cases "kv_find key kv")
    case (Some old)
    then have os: "os = [(key, old)]" by (simp add: os_def)
    have "obj_owned m old" "distinct (obj_blocks old)" using bd(4,5) kv os by auto
    then show ?thesis using Some os ins by (simp add: map_put_def obj_destroy_frees)
  qed (simp add: os_def map_put_def ins)
  have hl: "header_loc d = None" "hdr_valid (d_header d)" using bd(1) by (simp_all add: container_ok_def)
  have call: "insert_internal m d kv key obj = Some (?m, ?d, ?kv)"
    using bd(7,8) put hl by (simp add: insert_internal_def to_container_def set_data_type_internal_def local_simps)
  have hv: "hdr_valid ?h" using hdr_set_field_valid [OF hl(2), of 3] by simp
  have ty: "hdr_field ?h 3 = types_map T_DsonContainer" using hl(2) by (auto elim!: hdr_validE simp: hdr_simps)
  have dj: "set (map_blocks os) \<inter> set (map_blocks xs @ map_blocks ys @ obj_blocks obj @ own_blocks d) = {}"
    using bd(5) oc(5) kv by auto
  then have same: "\<forall>x \<in> set (map_blocks xs @ map_blocks ys @ obj_blocks obj @ own_blocks d). heap ?m x = heap m x"
    by auto
  have fr: "map_ok lib_data True ?m xs" "map_ok lib_data True ?m ys" "obj_ok lib_data True ?m obj"
    "map_owned ?m xs" "map_owned ?m ys" "obj_owned ?m obj"
    using map_frame [of xs ?m m lib_data True lib_converters] map_frame [of ys ?m m lib_data True lib_converters]
      obj_frame [of obj ?m m lib_data True lib_converters] map_owned_frame [of xs ?m m] map_owned_frame [of ys ?m m]
      obj_owned_frame [of obj ?m m] same bd(2,4) oc(1,2) kv by auto
  have own: "obj_owned ?m (ObjDson ?d ?kv)"
    using bd(3) fr same obj_owned_frame [of "ObjDson d []" ?m m] by (simp add: kv)
  have os0: "0 \<le> map_size os" using map_size_ok [of lib_data True m os] bd(2) kv by simp
  then have sz: "map_size ?kv \<le> max_dson_ram_size" using oc(6) kv by simp
  have rest: "map_rest ?kv" using bd(6) oc(4) kv by simp
  have dist: "distinct (obj_blocks (ObjDson ?d ?kv))" using bd(5) oc(3,5) kv by auto
  have keys: "\<forall>(k, obj) \<in> set ?kv. obj_key_of obj = k \<and> 0 \<le> k" using bd(10) k kv by auto
  have srt: "kv_sorted ?kv" using kv_sorted_insert [OF bd(9), of key obj] ins by simp
  have "container_ok ?d ?kv" using bd(7) hl(1) hv rest by (simp add: container_ok_def)
  then have okd: "obj_ok lib_data True ?m (ObjDson ?d ?kv)"
    using bd(8) fr sz max_ram_i32 by simp
  have rd: "obj_rest (ObjDson ?d ?kv)" using bd(7) rest by simp
  have "building ?m ?d ?kv" using okd own dist rd bd(8) sz srt keys by (simp add: building_def del: obj_ok.simps obj_owned.simps obj_blocks.simps obj_rest.simps)
  moreover have "message_ok ?m ?d ?kv"
    using okd dist rd bd(8) sz srt keys ty by (simp add: message_ok_def del: obj_ok.simps obj_owned.simps obj_blocks.simps obj_rest.simps)
  moreover have "\<forall>x. x \<notin> set (obj_blocks (ObjDson d kv)) \<longrightarrow> heap ?m x = heap m x" using kv by auto
  ultimately show ?thesis using that call ins by simp
qed

text \<open>The object \<open>emplace(K, Dson)\<close> stores: the argument under the key.\<close>

definition keyed :: "i32 \<Rightarrow> dson \<Rightarrow> dson" where
  "keyed key a = a\<lparr>d_header := hdr_set_field (d_header a) 2 key\<rparr>"

lemma keyed_sel [simp]:
  "d_buf (keyed key a) = d_buf a" "d_kind (keyed key a) = d_kind a" "d_state (keyed key a) = d_state a"
  "d_was_alloc (keyed key a) = d_was_alloc a" "d_buf_size (keyed key a) = d_buf_size a"
  "own_blocks (keyed key a) = own_blocks a" "own_data m (keyed key a) = own_data m a"
  "header_loc (keyed key a) = header_loc a" "d_iter (keyed key a) = d_iter a" "d_offset (keyed key a) = d_offset a"
  by (simp_all add: keyed_def)

lemma keyed_header:
  assumes "hdr_valid (d_header a)" "i32_ok key"
  shows "hdr_valid (d_header (keyed key a))" "hdr_field (d_header (keyed key a)) 2 = key"
    "hdr_field (d_header (keyed key a)) (Suc 0) = hdr_field (d_header a) (Suc 0)"
    "hdr_field (d_header (keyed key a)) 3 = hdr_field (d_header a) 3"
    "hdr_is_network (d_header (keyed key a)) = hdr_is_network (d_header a)"
  using assms by (auto elim!: hdr_validE simp: keyed_def hdr_simps)

lemma buf_ok_keyed:
  "buf_ok data_ok nw m a \<Longrightarrow> i32_ok key \<Longrightarrow> buf_ok data_ok nw m (keyed key a)"
  using keyed_header [of a key] by (cases "d_state a") (simp_all add: buf_ok_def buf_state_ok_def)

lemma move_construct_eq: "dson_move_construct m a kv = ((a, kv), (a\<lparr>d_state := StError, d_buf := None, d_iter := None\<rparr>, []))"
  by (cases a) (simp add: dson_move_construct_def dson_fields_def)

lemma emplace_dson_ok:
  assumes b: "building m d kv" and a: "buf_ok lib_data True m a" "d_kind a \<noteq> DsonContainer" "d_state a = StReady"
    and c: "set (own_blocks a) \<inter> set (obj_blocks (ObjDson d kv)) = {}"
    "map_size kv + int header_size + d_buf_size a \<le> max_dson_ram_size"
    and k: "0 \<le> key" "i32_ok key"
  obtains m' d' where
    "emplace_dson m d kv key (a, []) = Some (m', d', kv_insert_or_assign key (ObjDson (keyed key a) []) kv)"
    "building m' d' (kv_insert_or_assign key (ObjDson (keyed key a) []) kv)"
    "message_ok m' d' (kv_insert_or_assign key (ObjDson (keyed key a) []) kv)"
    "own_data m' (keyed key a) = own_data m a"
proof -
  let ?a = "keyed key a"
  obtain x bs where x: "d_was_alloc a" "hdr_valid (d_header a)" "d_buf a = Some (x, 0)" "heap m x = Some bs"
    "hdr_field (d_header a) (Suc 0) = d_buf_size a" "own_blocks a = [x]"
    using buf_okE [OF a(1)] by metis
  note kh = keyed_header [OF x(2) k(2)]
  have "obj_key_of (ObjDson ?a []) = key" using kh(2) by simp
  moreover have "can_insert m d kv (ObjDson ?a [])"
    using buf_ok_keyed [OF a(1) k(2)] a(2,3) c x kh(3) by (simp add: can_insert_def)
  ultimately obtain m' d' where i: "insert_internal m d kv key (ObjDson ?a []) =
      Some (m', d', kv_insert_or_assign key (ObjDson ?a []) kv)"
    "building m' d' (kv_insert_or_assign key (ObjDson ?a []) kv)"
    "message_ok m' d' (kv_insert_or_assign key (ObjDson ?a []) kv)"
    "\<forall>x. x \<notin> set (obj_blocks (ObjDson d kv)) \<longrightarrow> heap m' x = heap m x"
    using insert_internal_ok [OF b _ _ k(1)] by metis
  have "dson_set_key m a key = Some (m, ?a)" using x(1) by (simp add: dson_set_key_def local_simps keyed_def)
  then have "emplace_dson m d kv key (a, []) = Some (m', d', kv_insert_or_assign key (ObjDson ?a []) kv)"
    using i(1) by (simp add: emplace_dson_def move_construct_eq free_buf_def)
  moreover have "x \<notin> set (obj_blocks (ObjDson d kv))" using c(1) x(6) by auto
  then have "own_data m' ?a = own_data m a" using i(4) x(3) by (simp add: own_data_def)
  ultimately show ?thesis using that i(2,3) by blast
qed


text \<open>An empty container made by \<open>Dson()\<close> is one to build in.\<close>

lemma dson_new_eq: "dson_new m = Some (m, dson_fields (host_hdr 0 0 (types_map T_Empty)))"
proof -
  have l: "header_loc (dson_fields h) = None" for h by (simp add: header_loc_def dson_fields_def)
  have "set32 (set32 (set32 (set32 (raw_header m) 0 mark_host_order) (Suc 0) 0) 2 0) 3 (of_i32 (types_map T_Empty)) =
      host_hdr 0 0 (types_map T_Empty)"
    by (subst set32_all_words) (simp_all add: host_hdr_def)
  moreover have "(dson_fields (raw_header m))\<lparr>d_header := x\<rparr> = dson_fields x" for x by (simp add: dson_fields_def)
  ultimately show ?thesis
    by (simp add: dson_new_def clear_header_def hdr_put_def l) (simp add: dson_fields_def)
qed

lemma dson_new_building: "\<exists>d. dson_new m = Some (m, d) \<and> building m d []"
  using hdr_for_valid [of False 0 0 "types_map T_Empty"]
  by (simp add: dson_new_eq building_def container_ok_def dson_fields_def header_loc_def own_blocks_def hdr_for_def
      i32_max_def max_dson_ram_size_def)


end
