(* ===== verification/Dson_Values.thy ===== *)
theory Dson_Values
  imports From_Dson Dson_Build
begin

text \<open>
  What the readers of \<open>from_dson_converters.h\<close> answer: exact values where they fit, the
  default where they do not, decimal notation, and the cases the code misses.
\<close>

section \<open>An object in host order\<close>

text \<open>\<open>bs\<close> is the data of an object of type \<open>t\<close>, own or seen through a view.\<close>

definition host_leaf :: "mem \<Rightarrow> dson \<Rightarrow> lib_type \<Rightarrow> byte list \<Rightarrow> bool" where
  "host_leaf m d t bs \<longleftrightarrow> is_host_order m d = Some True \<and> dson_data_type m d = Some (types_map t) \<and>
     (\<exists>p. data_ptr d = Some p \<and> mread m p (length bs) = Some bs)"

definition num_at :: "lib_type \<Rightarrow> byte list \<Rightarrow> num option" where
  "num_at t bs =
     (if t = T_uint32 then Some (NumU32 (load32 (seg bs 0 4)))
      else if t = T_int32 then Some (NumI32 (to_i32 (load32 (seg bs 0 4))))
      else if t = T_uint64 then Some (NumU64 (load64 (seg bs 0 8)))
      else if t = T_int64 then Some (NumI64 (sint (load64 (seg bs 0 8))))
      else if t = T_double then Some (NumDbl (load64 (seg bs 0 8)))
      else None)"

lemma mread_part:
  "mread m p n = Some bs \<Longrightarrow> k \<le> n \<Longrightarrow> mread m p k = Some (seg bs 0 k)"
  by (auto simp: mread_Some_iff seg_seg)

lemma number_of_host_leaf:
  assumes "host_leaf m d t bs" "lib_data_ok t sz bs"
  shows "number_of cv m d = Some (num_at t bs, m, d)"
proof -
  obtain p where p: "data_ptr d = Some p" "mread m p (length bs) = Some bs"
    and h: "is_host_order m d = Some True" "dson_data_type m d = Some (types_map t)"
    using assms(1) by (auto simp: host_leaf_def)
  have "mread m p 4 = Some (seg bs 0 4)" if "t \<in> {T_uint32, T_int32}"
    using mread_part [OF p(2), of 4] assms(2) that by (auto simp: fits_def)
  moreover have "mread m p 8 = Some (seg bs 0 8)" if "t \<in> {T_uint64, T_int64, T_double}"
    using mread_part [OF p(2), of 8] assms(2) that by (auto simp: fits_def)
  ultimately show ?thesis
    using h p(1) by (cases t) (simp_all add: number_of_def read_number_def num_at_def mread32_def mread64_def)
qed

text \<open>The mathematical integer of an object of an integer type.\<close>

definition integer_types :: "lib_type set" where
  "integer_types = {T_int32, T_uint32, T_int64, T_uint64}"

definition lib_int :: "lib_type \<Rightarrow> byte list \<Rightarrow> int" where
  "lib_int t bs =
     (if t = T_int32 then to_i32 (load32 (seg bs 0 4))
      else if t = T_uint32 then uint (load32 (seg bs 0 4))
      else if t = T_int64 then sint (load64 (seg bs 0 8))
      else uint (load64 (seg bs 0 8)))"

lemma unat_inj: "unat x = unat y \<Longrightarrow> x = y"
  by (simp add: word_unat_eq_iff)

lemma lib_int_value:
  assumes "t \<in> integer_types" "lib_value t sz x = lib_value t sz y"
  shows "lib_int t x = lib_int t y"
  using assms by (auto simp: integer_types_def lib_value_def lib_int_def dest!: unat_inj)

lemma word_ranges:
  fixes w :: u32 and v :: u64
  shows "0 \<le> uint w" "uint w \<le> u32_max" "i32_min \<le> sint w" "sint w \<le> i32_max"
    "0 \<le> uint v" "uint v \<le> u64_max" "i64_min \<le> sint v" "sint v \<le> i64_max"
  using uint_lt2p [of w] uint_lt2p [of v] sint_range_size [of w] sint_range_size [of v]
  by (simp_all add: u32_max_def u64_max_def i32_min_def i32_max_def i64_min_def i64_max_def word_size)

lemma u32_max_small: "u32_max \<le> i64_max" "u32_max \<le> u64_max" "i32_max \<le> u32_max" "i32_max \<le> i64_max"
  "i64_min \<le> i32_min" "i32_min < 0" "i64_max \<le> u64_max"
  by (simp_all add: u32_max_def u64_max_def i64_max_def i32_max_def i32_min_def i64_min_def)

lemma from_number_leaf:
  assumes "host_leaf m d t bs" "lib_data_ok t sz bs" "num_at t bs = Some n" "conv def n = Some v"
  shows "from_number conv cv m d def = Some (v, m, d)"
  using number_of_host_leaf [OF assms(1,2), of cv] assms(3,4) by (simp add: from_number_def)

lemma num_at_integer:
  assumes "t \<in> integer_types" and v_def: "v = lib_int t bs"
  obtains n where "num_at t bs = Some n"
    "num_to_uint32 def n = Some (if 0 \<le> v \<and> v \<le> u32_max then word_of_int v else def)"
    "num_to_int32 idef n = Some (if i32_min \<le> v \<and> v \<le> i32_max then v else idef)"
    "num_to_uint64 ldef n = Some (if 0 \<le> v \<and> v \<le> u64_max then word_of_int v else ldef)"
    "num_to_int64 jdef n = Some (if i64_min \<le> v \<and> v \<le> i64_max then v else jdef)"
proof -
  have "i32_min \<le> 0" "i64_min \<le> 0" by (simp_all add: i32_min_def i64_min_def)
  then have s: "i32_min \<le> uint w" "i64_min \<le> uint w" "i32_min \<le> uint x" "i64_min \<le> uint x" for w :: u32 and x :: u64
    by (auto intro: order_trans [of _ 0])
  note r = word_ranges(1-4) [of "load32 (seg bs 0 4)"] word_ranges(5-8) [of "load64 (seg bs 0 8)"] u32_max_small
  consider "t = T_int32" | "t = T_uint32" | "t = T_int64" | "t = T_uint64"
    using assms by (auto simp: integer_types_def)
  then show ?thesis
  proof cases
    case 1
    then show ?thesis using r by (intro that [of "NumI32 v"]) (auto simp: num_at_def v_def lib_int_def)
  next
    case 2
    then show ?thesis using r by (intro that [of "NumU32 (load32 (seg bs 0 4))"])
      (simp_all add: num_at_def v_def lib_int_def s)
  next
    case 3
    then show ?thesis using r by (intro that [of "NumI64 v"])
      (auto simp: num_at_def v_def lib_int_def u64_max_def)
  next
    case 4
    then show ?thesis using r by (intro that [of "NumU64 (load64 (seg bs 0 8))"])
      (auto simp: num_at_def v_def lib_int_def s)
  qed
qed

lemma integers_convert:
  assumes "host_leaf m d t bs" "lib_data_ok t sz bs" "t \<in> integer_types"
  shows "to_uint32 cv m d def = Some (if 0 \<le> lib_int t bs \<and> lib_int t bs \<le> u32_max
      then word_of_int (lib_int t bs) else def, m, d) \<and>
    to_int32 cv m d idef = Some (if i32_min \<le> lib_int t bs \<and> lib_int t bs \<le> i32_max
      then lib_int t bs else idef, m, d) \<and>
    to_uint64 cv m d ldef = Some (if 0 \<le> lib_int t bs \<and> lib_int t bs \<le> u64_max
      then word_of_int (lib_int t bs) else ldef, m, d) \<and>
    to_int64 cv m d jdef = Some (if i64_min \<le> lib_int t bs \<and> lib_int t bs \<le> i64_max
      then lib_int t bs else jdef, m, d)"
proof -
  obtain n where n: "num_at t bs = Some n"
    "num_to_uint32 def n = Some (if 0 \<le> lib_int t bs \<and> lib_int t bs \<le> u32_max then word_of_int (lib_int t bs) else def)"
    "num_to_int32 idef n = Some (if i32_min \<le> lib_int t bs \<and> lib_int t bs \<le> i32_max then lib_int t bs else idef)"
    "num_to_uint64 ldef n = Some (if 0 \<le> lib_int t bs \<and> lib_int t bs \<le> u64_max then word_of_int (lib_int t bs) else ldef)"
    "num_to_int64 jdef n = Some (if i64_min \<le> lib_int t bs \<and> lib_int t bs \<le> i64_max then lib_int t bs else jdef)"
    using num_at_integer [OF assms(3) refl, of bs def idef ldef jdef] by blast
  note f = from_number_leaf [OF assms(1,2) n(1)]
  show ?thesis
    unfolding to_uint32_def to_int32_def to_uint64_def to_int64_def
    using f [where conv = num_to_uint32, OF n(2)] f [where conv = num_to_int32, OF n(3)]
      f [where conv = num_to_uint64, OF n(4)] f [where conv = num_to_int64, OF n(5)] by simp
qed


lemma sample_host_leaf: "host_leaf sample_mem sample_int T_uint32 [1, 2, 3, 4]"
  by (simp add: host_leaf_def sample_int_def sample_mem_def dson_fields_def is_host_order_def hdr_get_def
      header_loc_def dson_data_type_def hdr_read_field_def data_ptr_def mread_def seg_def)
    (simp add: hdr_for_def host_hdr_def numeral_eq_Suc hdr_simps to_i32_of_i32)


section \<open>Doubles that hold integers\<close>

lemma mag_encode_int:
  assumes "0 < n" "n < 2 ^ 53"
  shows "mag_decode (mag_encode n 0) = (n * 2 ^ (53 - bitlen n), int (bitlen n) - 53)" "mag_encode n 0 < inf_mag"
proof -
  have l: "bitlen n \<le> 53" "0 < bitlen n" using bitlen_le [OF assms(2)] assms(1) bitlen_pos by auto
  let ?M = "n * 2 ^ (53 - bitlen n)" and ?q = "int (bitlen n) - 53"
  note r = norm_mantissa_range [OF assms]
  have q: "-1074 \<le> ?q" "?q \<le> 971" using l by simp_all
  note e = mag_encode_normal [OF r q]
  have i: "nat (53 - int (bitlen n)) = 53 - bitlen n" using l by simp
  have "mag_encode n 0 = min (nat (?q + 1074) * 2 ^ 52 + ?M) inf_mag"
    using l assms by (simp add: mag_encode_def Let_def i)
  also have "\<dots> = mag_encode ?M ?q" using e(1,3) by simp
  finally have eq: "mag_encode n 0 = mag_encode ?M ?q" .
  show "mag_decode (mag_encode n 0) = (?M, ?q)" "mag_encode n 0 < inf_mag" unfolding eq using e(2,3) by simp_all
qed

lemma mag_encode_0 [simp]: "mag_encode 0 q = 0" "mag_decode 0 = (0, - 1074)"
  by (simp_all add: mag_encode_def mag_decode_def)

lemma mag_int_facts:
  assumes "n < 2 ^ 53"
  shows "(mag_le (mag_encode n 0) k \<longleftrightarrow> n \<le> k) \<and> (mag_ge (mag_encode n 0) k \<longleftrightarrow> k \<le> n) \<and>
    mag_trunc (mag_encode n 0) = n \<and> mag_encode n 0 < inf_mag"
proof (cases "n = 0")
  case True
  then show ?thesis by (simp add: mag_le_def mag_ge_def mag_trunc_def inf_mag_def)
next
  case False
  let ?s = "53 - bitlen n"
  have l: "bitlen n \<le> 53" using bitlen_le [OF assms] .
  note d = mag_encode_int [OF _ assms]
  have n: "nat (53 - int (bitlen n)) = ?s" using l by simp
  have z: "0 \<le> int (bitlen n) - 53 \<longleftrightarrow> ?s = 0" using l by auto
  show ?thesis
    using d False l n z by (cases "?s = 0") (simp_all add: mag_le_def mag_ge_def mag_trunc_def)
qed

lemma mk_dbl_parts:
  assumes "n < inf_mag"
  shows "dbl_sign (mk_dbl s n) = s" "dbl_mag (mk_dbl s n) = n" "\<not> dbl_isnan (mk_dbl s n)"
proof -
  have l: "n < 2 ^ 63" using assms by (simp add: inf_mag_def)
  then have "unat (mk_dbl s n) = (if s then 2 ^ 63 else 0) + n"
    unfolding mk_dbl_def by (subst unat_of_nat) simp
  then show "dbl_sign (mk_dbl s n) = s" "dbl_mag (mk_dbl s n) = n"
    using l by (simp_all add: dbl_sign_def dbl_mag_def)
  then show "\<not> dbl_isnan (mk_dbl s n)" using assms by (simp add: dbl_isnan_def)
qed

text \<open>Integers of up to 53 bits are held exactly.\<close>

lemma dbl_of_int_facts:
  assumes "\<bar>v\<bar> < 2 ^ 53"
  shows "dbl_trunc (dbl_of_int v) = v" "int_le_dbl k (dbl_of_int v) \<longleftrightarrow> k \<le> v" "dbl_le_int (dbl_of_int v) k \<longleftrightarrow> v \<le> k"
proof -
  obtain n where v: "v = (if v < 0 then - int n else int n)" and nv: "nat \<bar>v\<bar> = n"
    by (rule that [of "nat \<bar>v\<bar>"]) simp_all
  have n: "n < 2 ^ 53" using assms by (simp add: nat_less_iff flip: nv)
  note f = mag_int_facts [OF n]
  have lt: "mag_encode n 0 < inf_mag" using f by blast
  have p: "dbl_sign (dbl_of_int v) = (v < 0)" "dbl_mag (dbl_of_int v) = mag_encode n 0" "\<not> dbl_isnan (dbl_of_int v)"
    unfolding dbl_of_int_def nv using mk_dbl_parts [OF lt] by simp_all
  have pos: "v = int n" if "\<not> v < 0" using v that by simp
  have neg: "v = - int n" if "v < 0" using v that by simp
  show "dbl_trunc (dbl_of_int v) = v" using p f pos neg by (cases "v < 0") (simp_all add: dbl_trunc_def)
  show "int_le_dbl k (dbl_of_int v) \<longleftrightarrow> k \<le> v"
    using p f [of "nat (- k)"] f [of "nat k"] pos neg by (cases "v < 0") (auto simp: int_le_dbl_def)
  show "dbl_le_int (dbl_of_int v) k \<longleftrightarrow> v \<le> k"
    using p f [of "nat k"] f [of "nat (- k)"] pos neg by (cases "v < 0") (auto simp: dbl_le_int_def)
qed

lemma double_leaf:
  assumes "host_leaf m d T_double bs" "lib_data_ok T_double sz bs" "conv def (NumDbl (load64 (seg bs 0 8))) = Some v"
  shows "from_number conv cv m d def = Some (v, m, d)"
  using number_of_host_leaf [OF assms(1,2), of cv] assms(3) by (simp add: from_number_def num_at_def)

text \<open>
  Reading a double that holds an integer of up to 53 bits.  \<open>to_uint32\<close>, \<open>to_int32\<close> and
  \<open>to_uint64\<close> give that integer when it is in their range and the default otherwise.
  \<open>to_int64\<close> gives it only up to the greatest 32-bit integer: above, the code compares with
  the bound of the wrong width and gives the default.
\<close>

theorem doubles_read_as_integers:
  assumes "host_leaf m d T_double bs" "lib_data_ok T_double sz bs"
    and "load64 (seg bs 0 8) = dbl_of_int v" "\<bar>v\<bar> < 2 ^ 53"
  shows "to_uint32 cv m d def = Some (if 0 \<le> v \<and> v \<le> u32_max then word_of_int v else def, m, d) \<and>
    to_int32 cv m d idef = Some (if i32_min \<le> v \<and> v \<le> i32_max then v else idef, m, d) \<and>
    to_uint64 cv m d ldef = Some (if 0 \<le> v then word_of_int v else ldef, m, d) \<and>
    to_int64 cv m d jdef = Some (if v \<le> i32_max then v else jdef, m, d)"
proof -
  note f = dbl_of_int_facts [OF assms(4)]
  have b: "i64_min \<le> v" "v \<le> i64_max" "v \<le> u64_max" "v \<le> 2 ^ 64"
    using assms(4) by (simp_all add: i64_min_def i64_max_def u64_max_def)
  note l = double_leaf [OF assms(1,2), unfolded assms(3)]
  have "num_to_uint32 def (NumDbl (dbl_of_int v)) = Some (if 0 \<le> v \<and> v \<le> u32_max then word_of_int v else def)"
    using f by (simp add: dbl_cast_def)
  moreover have "num_to_int32 idef (NumDbl (dbl_of_int v)) = Some (if i32_min \<le> v \<and> v \<le> i32_max then v else idef)"
    using f by (simp add: dbl_cast_def)
  moreover have "num_to_uint64 ldef (NumDbl (dbl_of_int v)) = Some (if 0 \<le> v then word_of_int v else ldef)"
    using f b by (simp add: dbl_cast_def)
  moreover have "num_to_int64 jdef (NumDbl (dbl_of_int v)) = Some (if v \<le> i32_max then v else jdef)"
    using f b by (simp add: dbl_cast_def)
  ultimately show ?thesis
    unfolding to_uint32_def to_int32_def to_uint64_def to_int64_def
    using l [where conv = num_to_uint32] l [where conv = num_to_int32] l [where conv = num_to_uint64]
      l [where conv = num_to_int64] by simp
qed

text \<open>An object that holds the double 3000000000.\<close>

definition sample_double :: dson where
  "sample_double = (dson_fields (hdr_for False 13 5 (types_map T_double)))
     \<lparr>d_buf := Some (0, 0), d_buf_size := 13, d_was_alloc := True, d_kind := OneObjectInDataBuf\<rparr>"

definition double_mem :: "byte list \<Rightarrow> mem" where
  "double_mem bs = \<lparr>heap = [0 \<mapsto> bs], next_block = 1, malloc_limit = 1000, malloc_fill = (\<lambda>_. 170)\<rparr>"

lemma sample_double_leaf: "length bs = 13 \<Longrightarrow> host_leaf (double_mem bs) sample_double T_double bs"
  by (simp add: host_leaf_def sample_double_def double_mem_def dson_fields_def is_host_order_def hdr_get_def
      header_loc_def dson_data_type_def hdr_read_field_def data_ptr_def mread_def seg_def)
    (simp add: hdr_for_def host_hdr_def numeral_eq_Suc hdr_simps to_i32_of_i32)

lemma double_bytes: "length (store64 x @ replicate 5 0) = 13" "seg (store64 x @ replicate 5 0) 0 8 = store64 x"
  by (simp_all add: seg_def)

lemma doubles_read_as_integers_witness:
  "\<exists>m d. to_uint32 lib_converters m d 9 = Some (if 0 \<le> (3000000000 :: int) \<and> 3000000000 \<le> u32_max
      then word_of_int 3000000000 else 9, m, d) \<and>
    to_int32 lib_converters m d 9 = Some (if i32_min \<le> 3000000000 \<and> 3000000000 \<le> i32_max then 3000000000 else 9, m, d) \<and>
    to_uint64 lib_converters m d 9 = Some (if 0 \<le> (3000000000 :: int) then word_of_int 3000000000 else 9, m, d) \<and>
    to_int64 lib_converters m d 9 = Some (if 3000000000 \<le> i32_max then 3000000000 else 9, m, d)"
  using doubles_read_as_integers [OF sample_double_leaf [OF double_bytes(1)], of 13 "dbl_of_int 3000000000" 3000000000
      lib_converters 9 9 9 9] double_bytes
  by (intro exI [of _ "double_mem (store64 (dbl_of_int 3000000000) @ replicate 5 0)"] exI [of _ sample_double])
    (simp add: fits_def)

text \<open>
  \<open>to_uint64\<close> of the double \<open>2 ^ 64\<close> is undefined behaviour: the check compares with
  \<open>UINT64_MAX\<close> rounded up to \<open>2 ^ 64\<close>, so the value passes and the conversion does not fit.
\<close>

theorem to_uint64_of_two_64_undefined:
  assumes "host_leaf m d T_double bs" "lib_data_ok T_double sz bs"
    and "load64 (seg bs 0 8) = mk_dbl False ((1023 + 64) * 2 ^ 52)"
  shows "to_uint64 cv m d def = None"
proof -
  have p: "dbl_sign (mk_dbl False ((1023 + 64) * 2 ^ 52)) = False"
    "dbl_mag (mk_dbl False ((1023 + 64) * 2 ^ 52)) = (1023 + 64) * 2 ^ 52"
    "\<not> dbl_isnan (mk_dbl False ((1023 + 64) * 2 ^ 52))"
    by (rule mk_dbl_parts; simp add: inf_mag_def)+
  have d: "mag_decode ((1023 + 64) * 2 ^ 52) = (2 ^ 52, 12)" by (simp add: mag_decode_def)
  have "num_to_uint64 def (NumDbl (mk_dbl False ((1023 + 64) * 2 ^ 52))) = None"
    using p d by (simp add: int_le_dbl_def dbl_le_int_def mag_ge_def mag_le_def dbl_cast_def dbl_trunc_def
        mag_trunc_def u64_max_def)
  then show ?thesis
    using number_of_host_leaf [OF assms(1,2), of cv] assms(3)
    by (simp add: to_uint64_def from_number_def num_at_def)
qed

lemma to_uint64_of_two_64_undefined_witness:
  "\<exists>m d. to_uint64 lib_converters m d 0 = None"
proof -
  let ?bs = "store64 (mk_dbl False ((1023 + 64) * 2 ^ 52)) @ replicate 5 0"
  have "to_uint64 lib_converters (double_mem ?bs) sample_double 0 = None"
    by (rule to_uint64_of_two_64_undefined [OF sample_double_leaf [OF double_bytes(1)], of 13])
      (simp_all add: double_bytes fits_def)
  then show ?thesis by blast
qed

section \<open>Decimal notation\<close>

text \<open>Reading decimal notation, as a check of what \<open>std::to_string\<close> writes.\<close>

definition undec :: "byte list \<Rightarrow> nat" where
  "undec bs = foldl (\<lambda>a c. 10 * a + (unat c - 48)) 0 bs"

definition undec_int :: "byte list \<Rightarrow> int" where
  "undec_int bs = (if bs \<noteq> [] \<and> hd bs = 45 then - int (undec (tl bs)) else int (undec bs))"

lemma digit_byte: "k < 10 \<Longrightarrow> unat (word_of_nat (48 + k) :: byte) = 48 + k"
  by (subst unat_of_nat) simp

lemma decimal_digits:
  "undec (decimal n) = n \<and> decimal n \<noteq> [] \<and> (\<forall>c \<in> set (decimal n). 48 \<le> unat c \<and> unat c \<le> 57)"
proof (induction n rule: decimal.induct)
  case (1 n)
  show ?case
  proof (cases "n < 10")
    case True
    then have "unat (word_of_nat (48 + n) :: byte) = 48 + n" by (rule digit_byte)
    with True show ?thesis by (subst (1 2 3) decimal.simps) (simp add: undec_def del: of_nat_add)
  next
    case False
    have m: "n mod 10 < 10" by simp
    have e: "decimal n = decimal (n div 10) @ [word_of_nat (48 + n mod 10)]"
      using False by (subst decimal.simps) simp
    have d: "unat (word_of_nat (48 + n mod 10) :: byte) = 48 + n mod 10" using m by (rule digit_byte)
    have "undec (decimal n) = 10 * (n div 10) + n mod 10"
      using 1 [OF False] d unfolding e by (simp add: undec_def del: of_nat_add)
    moreover have "\<forall>c \<in> set (decimal n). 48 \<le> unat c \<and> unat c \<le> 57"
      using 1 [OF False] d m unfolding e by (auto simp del: of_nat_add)
    ultimately show ?thesis unfolding e by simp
  qed
qed

lemma undec_decimal_int: "undec_int (decimal_int v) = v"
proof (cases "v < 0")
  case True
  then show ?thesis using decimal_digits [of "nat (- v)"] by (simp add: undec_int_def decimal_int_def)
next
  case False
  note d = decimal_digits [of "nat v"]
  have "48 \<le> unat (hd (decimal (nat v)))" using d by (meson list.set_sel(1))
  then have "hd (decimal (nat v)) \<noteq> 45" by auto
  then show ?thesis using d False by (simp add: undec_int_def decimal_int_def)
qed

lemma integer_in_range:
  "t = T_uint32 \<Longrightarrow> 0 \<le> lib_int t bs \<and> lib_int t bs \<le> u32_max \<and> uint (word_of_int (lib_int t bs) :: u32) = lib_int t bs"
  "t = T_int32 \<Longrightarrow> i32_min \<le> lib_int t bs \<and> lib_int t bs \<le> i32_max"
  "t = T_uint64 \<Longrightarrow> 0 \<le> lib_int t bs \<and> lib_int t bs \<le> u64_max \<and> uint (word_of_int (lib_int t bs) :: u64) = lib_int t bs"
  "t = T_int64 \<Longrightarrow> i64_min \<le> lib_int t bs \<and> lib_int t bs \<le> i64_max"
  using word_ranges(1-4) [of "load32 (seg bs 0 4)"] word_ranges(5-8) [of "load64 (seg bs 0 8)"]
  by (auto simp: lib_int_def)

lemma integers_read:
  assumes "host_leaf m d t bs" "lib_data_ok t sz bs" "t \<in> integer_types"
  shows "t = T_uint32 \<Longrightarrow> to_uint32 cv m d 0 = Some (word_of_int (lib_int t bs), m, d)"
    "t = T_int32 \<Longrightarrow> to_int32 cv m d 0 = Some (lib_int t bs, m, d)"
    "t = T_uint64 \<Longrightarrow> to_uint64 cv m d 0 = Some (word_of_int (lib_int t bs), m, d)"
    "t = T_int64 \<Longrightarrow> to_int64 cv m d 0 = Some (lib_int t bs, m, d)"
proof -
  obtain n where n: "num_at t bs = Some n"
    "num_to_uint32 0 n = Some (if 0 \<le> lib_int t bs \<and> lib_int t bs \<le> u32_max then word_of_int (lib_int t bs) else 0)"
    "num_to_int32 0 n = Some (if i32_min \<le> lib_int t bs \<and> lib_int t bs \<le> i32_max then lib_int t bs else 0)"
    "num_to_uint64 0 n = Some (if 0 \<le> lib_int t bs \<and> lib_int t bs \<le> u64_max then word_of_int (lib_int t bs) else 0)"
    "num_to_int64 0 n = Some (if i64_min \<le> lib_int t bs \<and> lib_int t bs \<le> i64_max then lib_int t bs else 0)"
    using num_at_integer [OF assms(3) refl, of bs 0 0 0 0] by blast
  note f = from_number_leaf [OF assms(1,2) n(1)] and r = integer_in_range [of t bs]
  show "t = T_uint32 \<Longrightarrow> to_uint32 cv m d 0 = Some (word_of_int (lib_int t bs), m, d)"
    using f [where conv = num_to_uint32, OF n(2)] r(1) by (simp add: to_uint32_def)
  show "t = T_int32 \<Longrightarrow> to_int32 cv m d 0 = Some (lib_int t bs, m, d)"
    using f [where conv = num_to_int32, OF n(3)] r(2) by (simp add: to_int32_def)
  show "t = T_uint64 \<Longrightarrow> to_uint64 cv m d 0 = Some (word_of_int (lib_int t bs), m, d)"
    using f [where conv = num_to_uint64, OF n(4)] r(3) by (simp add: to_uint64_def)
  show "t = T_int64 \<Longrightarrow> to_int64 cv m d 0 = Some (lib_int t bs, m, d)"
    using f [where conv = num_to_int64, OF n(5)] r(4) by (simp add: to_int64_def)
qed

lemma to_string_leaf:
  assumes "host_leaf m d t bs" "lib_data_ok t sz bs" "t \<in> integer_types"
  shows "to_string cv m (Some (ObjDson d kv)) = Some (decimal_int (lib_int t bs), m, Some (ObjDson d kv))"
proof -
  have ty: "dson_data_type m d = Some (types_map t)" using assms(1) by (simp add: host_leaf_def)
  consider "t = T_int32" | "t = T_uint32" | "t = T_int64" | "t = T_uint64"
    using assms(3) by (auto simp: integer_types_def)
  then show ?thesis
    by cases (use integers_read [OF assms] integer_in_range [of t bs] ty in
      \<open>simp_all add: to_string_def obj_data_type_def of_obj_def\<close>)
qed



text \<open>
  \<open>to_string\<close> has no case for \<open>double\<close>: a double is answered with the text for unknown
  types, although \<open>to_double\<close> reads it.
\<close>

theorem to_string_misses_double:
  assumes "host_leaf m d T_double bs" "lib_data_ok T_double sz bs"
  shows "to_string cv m (Some (ObjDson d kv)) = Some (unknown_type_text @ [56], m, Some (ObjDson d kv)) \<and>
    to_double cv m d def = Some (load64 (seg bs 0 8), m, d)"
proof -
  have "decimal_int (types_map T_double) = [56]"
    by (simp add: decimal_int_def type_ids decimal.simps)
  moreover have "dson_data_type m d = Some (types_map T_double)" using assms(1) by (simp add: host_leaf_def)
  ultimately show ?thesis
    using double_leaf [OF assms, of num_to_double def _ cv] by (simp add: to_string_def obj_data_type_def to_double_def)
qed

lemma to_string_misses_double_witness:
  "\<exists>m d. to_string lib_converters m (Some (ObjDson d [])) = Some (unknown_type_text @ [56], m, Some (ObjDson d [])) \<and>
    to_double lib_converters m d 0 = Some (load64 (seg (store64 5 @ replicate 5 0) 0 8), m, d)"
  using to_string_misses_double [OF sample_double_leaf [OF double_bytes(1) [of 5]], of 13 lib_converters "[]" 0]
  by (intro exI [of _ "double_mem (store64 5 @ replicate 5 0)"] exI [of _ sample_double]) (simp add: fits_def)

section \<open>A string through a stream\<close>

text \<open>A string object becomes a plain \<open>Dson\<close> at the receiver, a view that keeps network order.\<close>

lemma sent_string_read_back:
  assumes ok: "message_ok m d kv" and s: "(k, ObjString s) \<in> set kv"
    and l: "loaded_msg h (entries_wire (map (\<lambda>(k, obj). wire_entry m obj) kv)) (m2, d2, kv2)"
    and h: "hdr_field h 3 = types_map T_DsonContainer"
  obtains m' d' kv' v where
    "dson_get lib_converters m2 d2 kv2 k = Some (Child k, m', d', kv')" "kv_find k kv' = Some (ObjDson v [])"
    "to_string_view m' (Some (ObjDson v [])) = Some (so_object s)"
proof -
  let ?es = "map (\<lambda>(k, obj). wire_entry m obj) kv" and ?n = "so_object s" and ?sz = "int (length (so_object s))"
  have so: "so_sendable s" using map_ok_mem [OF message_okD(10) [OF ok] s] by simp
  have key: "so_key s = k" "i32_ok k" using message_okD(8) [OF ok s] so_key_ok [of s] by auto
  have "obj_size (ObjString s) \<le> max_dson_ram_size"
    using map_size_mem [OF message_okD(10) [OF ok] s] message_okD(6) [OF ok] by simp
  then have sz: "?sz \<le> max_dson_ram_size" "i32_ok ?sz"
    using so max_ram_i32 by (simp_all add: so_sendable_def so_wf_def max_dson_ram_size_def)
  let ?h = "net_hdr ?sz k (types_map T_string)"
  have e: "wire_entry m (ObjString s) = (?h, ?n)"
    by (simp add: wire_entry_def string_wire_def hdr_for_def key)
  obtain xs ys where kv: "kv = xs @ (k, ObjString s) # ys" using split_list [OF s] by blast
  let ?f = "\<lambda>(k, obj). wire_entry m obj"
  have es: "?es = map ?f xs @ (?h, ?n) # map ?f ys" using kv e by simp
  note w = message_wire(5,6) [OF ok]
  note nf = net_hdr_facts
  have hf: "hdr_field ?h 2 = k" using nf(4) [OF key(2)] .
  let ?o = "length (entries_wire (map ?f xs))" and ?pre = "entries_wire (map ?f xs)" and ?post = "entries_wire (map ?f ys)"
  obtain b v where v: "heap m2 b = Some (?pre @ ?h @ ?n @ ?post)" "header_loc v = Some (b, ?o)" "d_state v = StReady"
    "d_kind v = view_kind ?h" "data_ptr v = Some (b, ?o + 16)"
    and g: "\<And>m'. to_host lib_converters m2 v = Some (m', v) \<Longrightarrow>
      \<exists>kv'. dson_get lib_converters m2 d2 kv2 k = Some (Child k, m', d2\<lparr>d_kind := DsonContainer\<rparr>, kv') \<and>
        kv_find k kv' = Some (ObjDson v [])"
    using get_child [OF l [unfolded es] hdrs_nonempty(2) h w [unfolded es]] unfolding hf by metis
  have cv: "to_host_order lib_converters (type_key T_string) = None" by (simp add: lib_converters_eq)
  obtain x where x: "convert_with (to_host_order lib_converters) (type_key T_string) ?sz ?n = Some x"
    "to_host lib_converters m2 v = Some (upd_block m2 b (?pre @ got_hdr T_string ?sz k @ x @ ?post), v)"
    by (rule to_host_view [OF v(1-3,5) _ _ sz(2)]) simp_all
  then have "to_host lib_converters m2 v = Some (upd_block m2 b (?pre @ got_hdr T_string ?sz k @ ?n @ ?post), v)"
    using cv by (simp add: convert_with_def)
  moreover have "upd_block m2 b (?pre @ got_hdr T_string ?sz k @ ?n @ ?post) = m2"
    using v(1) cv by (simp add: got_hdr_def upd_block_idem)
  ultimately obtain kv' where kv': "dson_get lib_converters m2 d2 kv2 k = Some (Child k, m2, d2\<lparr>d_kind := DsonContainer\<rparr>, kv')"
    "kv_find k kv' = Some (ObjDson v [])" using g [of m2] by auto
  have loc: "heap m2 (fst (b, ?o)) = Some (?pre @ ?h @ ?n @ ?post)" "snd (b, ?o) + 16 \<le> length (?pre @ ?h @ ?n @ ?post)"
    using v(1) by (simp_all add: nf)
  have sg: "seg (?pre @ ?h @ ?n @ ?post) ?o 16 = ?h" by (simp add: seg_append2 seg_def nf)
  have "dson_data_type m2 v = Some (types_map T_string)"
    using view_read [OF v(2) loc, of 3] sg v(3) nf(5) by (simp add: dson_data_type_def)
  moreover have "dson_data_size m2 v [] = Some ?sz"
    using view_read [OF v(2) loc, of 1] sg v(4) nf(3) [OF sz(2)]
    by (simp add: dson_data_size_def view_kind_def split: if_splits)
  moreover have "unat (of_i32 ?sz) = length ?n" using sz(2) by (simp add: unat_of_nat)
  moreover have "mread m2 (b, ?o + 16) (length ?n) = Some ?n"
    using v(1) by (subst mread_eq [of _ _ "?pre @ ?h @ ?n @ ?post"]) (simp_all add: seg_def nf)
  ultimately have "to_string_view m2 (Some (ObjDson v [])) = Some ?n"
    using v(5) by (simp add: to_string_view_def to_string_view_dson_def)
  then show ?thesis using that kv' by blast
qed

text \<open>
  C10: a message with a string object, saved to a stream in network order and loaded from it
  with other data behind it, is loaded exactly, the rest of the stream is left, and
  \<open>to_string_view\<close> of the object found under its key is the string that was put in.
\<close>

theorem string_through_stream:
  assumes "message_ok m d kv" "(k, ObjString s) \<in> set kv"
    and "can_load m2 d2 kv2" "mem_ok m2" "length (d_header d2) = 16" "nat (map_size kv) \<le> malloc_limit m2"
  shows "\<exists>bytes m1 obj1 m3 d3 kv3 m4 d4 kv4 v. copy_to_stream lib_converters True m (ObjDson d kv) [] = Some (bytes, m1, obj1) \<and>
    load_from_stream m2 d2 kv2 (bytes @ extra) = Some (m3, d3, kv3, extra) \<and>
    dson_get lib_converters m3 d3 kv3 k = Some (Child k, m4, d4, kv4) \<and>
    kv_find k kv4 = Some (ObjDson v []) \<and>
    to_string_view m4 (Some (ObjDson v [])) = Some (so_object s)"
proof -
  let ?es = "map (\<lambda>(k, obj). wire_entry m obj) kv"
  let ?h = "hdr_for True (map_size kv) (hdr_field (d_header d) 2) (types_map T_DsonContainer)"
  note ok = message_okD [OF assms(1)] and w = message_wire [OF assms(1)]
  have size: "int (length (entries_wire ?es)) = map_size kv"
    using map_wire_length [OF ok(10)] by (simp add: map_wire_entries)
  obtain m1 obj1 where c: "copy_to_stream lib_converters True m (ObjDson d kv) [] =
      Some (?h @ entries_wire ?es, m1, obj1)"
    using lib_table.stream_obj_good [OF ok(1-3) order_refl, of "[]"] w(1)
    by (auto simp: copy_to_stream_def streamed_def)
  have "\<exists>m' d' kv'. load_from_stream m2 d2 kv2 (?h @ entries_wire ?es @ extra) = Some (m', d', kv', extra) \<and>
      loaded_msg ?h (entries_wire ?es) (m', d', kv')"
    by (rule load_from_stream_complete) (use w(2,3) size ok(6) assms(3-6) in simp_all)
  then obtain m3 d3 kv3 where l: "load_from_stream m2 d2 kv2 ((?h @ entries_wire ?es) @ extra) = Some (m3, d3, kv3, extra)"
    "loaded_msg ?h (entries_wire ?es) (m3, d3, kv3)" by auto
  show ?thesis
    using sent_string_read_back [OF assms(1,2) l(2) w(4)] c l(1) by metis
qed

lemma string_through_stream_witness:
  "\<exists>bytes m1 obj1 m3 d3 kv3 m4 d4 kv4 v. copy_to_stream lib_converters True sample_mem sample_msg [] = Some (bytes, m1, obj1) \<and>
    load_from_stream \<lparr>heap = Map.empty, next_block = 0, malloc_limit = 50, malloc_fill = (\<lambda>_. 0)\<rparr>
      (dson_fields (replicate 16 0)) [] (bytes @ [1]) = Some (m3, d3, kv3, [1]) \<and>
    dson_get lib_converters m3 d3 kv3 7 = Some (Child 7, m4, d4, kv4) \<and>
    kv_find 7 kv4 = Some (ObjDson v []) \<and>
    to_string_view m4 (Some (ObjDson v [])) = Some (so_object (so_new (replicate 16 0) 7 [104, 105]))"
  unfolding sample_msg_def
  by (rule string_through_stream [OF sample_message_ok(1)])
    (simp_all add: sample_message_ok(2) can_load_def own_blocks_def mem_ok_def dson_fields_def del: map_size.simps)

end
