(* ===== verification/User_Types.thy ===== *)
theory User_Types
  imports Big_Struct Dson_Values
begin

text \<open>
  The user-defined types of \<open>examples/user_defined_type\<close> inside the library: the converters
  they register (\<open>dson_user_defined_converters\<close>, \<open>very_big_struct_converters\<close>), how they are
  stored in a \<open>Dson\<close> and read from one (\<open>to_my_struct\<close>), and the programs
  \<open>save_and_load_simple\<close> and \<open>save_and_load_advanced\<close>.
\<close>

section \<open>MyStruct\<close>

definition my_struct_type :: i32 where "my_struct_type = 54321"

record my_struct =
  ms_name :: "byte list"
  ms_age :: u16
  ms_male :: bool

definition empty_my_struct :: my_struct where
  "empty_my_struct = \<lparr>ms_name = [], ms_age = 0, ms_male = False\<rparr>"

definition bool_byte :: "bool \<Rightarrow> byte" where
  "bool_byte b = (if b then 1 else 0)"

text \<open>\<open>operator hi::Dson()\<close>\<close>

definition dson_of_my_struct :: "mem \<Rightarrow> my_struct \<Rightarrow> (mem \<times> dson \<times> kvmap) option" where
  "dson_of_my_struct m s = do {
     (m, d) \<leftarrow> dson_new m;
     let all_size = 4 + length (ms_name s) + 2 + 1;
     (ptr, m, d, kv) \<leftarrow> dson_init m d [] my_struct_type (to_i32 (word_of_nat all_size));
     case ptr of None \<Rightarrow> Some (m, d, kv)
     | Some buf \<Rightarrow> do {
         m \<leftarrow> mwrite32 m buf (word_of_nat (length (ms_name s)));
         let buf = padd buf 4;
         m \<leftarrow> mwrite m buf (ms_name s);
         let buf = padd buf (length (ms_name s));
         m \<leftarrow> mwrite16 m buf (ms_age s);
         let buf = padd buf 2;
         m \<leftarrow> mwrite m buf [bool_byte (ms_male s)];
         Some (m, d, kv)
       }
   }"

text \<open>
  \<open>to_my_struct(hi::Dson *)\<close>: null data, an empty name and a name of more than 1024
  characters give an empty struct.  Reading a byte other than 0 and 1 as \<open>bool\<close> is undefined.
\<close>

definition to_my_struct :: "mem \<Rightarrow> dson \<Rightarrow> my_struct option" where
  "to_my_struct m d = (case data_ptr d of None \<Rightarrow> Some empty_my_struct
   | Some buf \<Rightarrow> do {
       size \<leftarrow> mread32 m buf;
       if size = 0 \<or> unat size > 1024 then Some empty_my_struct
       else do {
         let buf = padd buf 4;
         name \<leftarrow> mread m buf (unat size);
         let buf = padd buf (unat size);
         age \<leftarrow> mread16 m buf;
         let buf = padd buf 2;
         male \<leftarrow> mread m buf 1;
         if male = [0] then Some \<lparr>ms_name = name, ms_age = age, ms_male = False\<rparr>
         else if male = [1] then Some \<lparr>ms_name = name, ms_age = age, ms_male = True\<rparr>
         else None
       }
     })"

section \<open>The converters\<close>

text \<open>\<open>emplace\<close> of a map keeps an entry that is there.\<close>

definition emplace_converter :: "converters_map \<Rightarrow> u32 \<Rightarrow> converter \<Rightarrow> converters_map" where
  "emplace_converter t k f = (case t k of None \<Rightarrow> t(k \<mapsto> f) | Some _ \<Rightarrow> t)"

text \<open>\<open>*ptr = f(*ptr)\<close> for the three 16-bit integers and the size.\<close>

definition conv_big :: "(u16 \<Rightarrow> u16) \<Rightarrow> (u32 \<Rightarrow> u32) \<Rightarrow> converter" where
  "conv_big f g data_size buf = (if length buf < 10 then None else
     (let buf = patch buf 0 (store16 (f (load16 (seg buf 0 2))));
          buf = patch buf 2 (store16 (f (load16 (seg buf 2 2))));
          buf = patch buf 4 (store16 (f (load16 (seg buf 4 2))))
      in Some (patch buf 6 (store32 (g (load32 (seg buf 6 4)))))))"

definition very_big_struct_converters :: "converters \<Rightarrow> converters" where
  "very_big_struct_converters cv = cv\<lparr>
     to_host_order := emplace_converter (to_host_order cv) (of_i32 big_struct_type) (conv_big ntohs ntohl),
     to_network_order := emplace_converter (to_network_order cv) (of_i32 big_struct_type) (conv_big htons htonl)\<rparr>"

definition conv_my_to_host :: converter where
  "conv_my_to_host data_size buf = (if length buf < 4 then None else
     (let size = ntohl (load32 (seg buf 0 4));
          buf = patch buf 0 (store32 size);
          age = 4 + unat size
      in if length buf < age + 2 then None
         else Some (patch buf age (store16 (ntohs (load16 (seg buf age 2)))))))"

definition conv_my_to_network :: converter where
  "conv_my_to_network data_size buf = (if length buf < 4 then None else
     (let size = load32 (seg buf 0 4);
          age = 4 + unat size;
          buf = patch buf 0 (store32 (htonl size))
      in if length buf < age + 2 then None
         else Some (patch buf age (store16 (ntohs (load16 (seg buf age 2)))))))"

definition dson_user_defined_converters :: "converters \<Rightarrow> converters" where
  "dson_user_defined_converters cv = (let cv = very_big_struct_converters cv in cv\<lparr>
     to_host_order := emplace_converter (to_host_order cv) (of_i32 my_struct_type) conv_my_to_host,
     to_network_order := emplace_converter (to_network_order cv) (of_i32 my_struct_type) conv_my_to_network\<rparr>)"

definition example_converters :: converters where
  "example_converters = make_converters dson_user_defined_converters"

section \<open>VeryBigStruct from a Dson\<close>

text \<open>\<open>re\<close> is the fresh object the function starts from.\<close>

definition to_very_big_struct :: "mem \<Rightarrow> dson_obj option \<Rightarrow> big_struct \<Rightarrow> big_struct option" where
  "to_very_big_struct m obj re = (case obj of
     Some (ObjDson d kv) \<Rightarrow> (case data_ptr d of None \<Rightarrow> Some re
       | Some buf \<Rightarrow> do {
           p1 \<leftarrow> mread16 m buf;
           p2 \<leftarrow> mread16 m (padd buf 2);
           p3 \<leftarrow> mread16 m (padd buf 4);
           size \<leftarrow> mread32 m (padd buf 6);
           data \<leftarrow> mread m (padd buf 10) (unat size);
           Some (re\<lparr>bs_param1 := p1, bs_param2 := p2, bs_param3 := p3, bs_data := data\<rparr>)
         })
   | _ \<Rightarrow> Some re)"

section \<open>The layouts\<close>

definition my_layout :: "bool \<Rightarrow> my_struct \<Rightarrow> byte list" where
  "my_layout nw s = put32 nw (word_of_nat (length (ms_name s))) @ ms_name s @ put16 nw (ms_age s) @
     [bool_byte (ms_male s)]"

definition my_size :: "my_struct \<Rightarrow> nat" where
  "my_size s = 7 + length (ms_name s)"

lemma length_my_layout [simp]: "length (my_layout nw s) = my_size s"
  by (simp add: my_layout_def my_size_def)

lemma seg_front: "length xs = n \<Longrightarrow> seg (xs @ ys) 0 n = xs"
  by (simp add: seg_def)

lemma patch_front: "length xs = length zs \<Longrightarrow> patch (xs @ ys) 0 zs = zs @ ys"
  by (simp add: patch_def)

lemma seg_at: "length xs = off \<Longrightarrow> length zs = n \<Longrightarrow> seg (xs @ zs @ ys) off n = zs"
  by (simp add: seg_def)

lemma patch_at: "length xs = off \<Longrightarrow> length ws = length zs \<Longrightarrow> patch (xs @ ws @ ys) off zs = xs @ zs @ ys"
  by (simp add: patch_def)

text \<open>Access to the fields of a layout, wherever the name ends.\<close>

lemma layout_access:
  "seg (store32 w @ ys) 0 4 = store32 w" "patch (store32 w @ ys) 0 (store32 w') = store32 w' @ ys"
  "seg (store32 w @ xs @ ys) 4 (length xs) = xs"
  "seg (store32 w @ xs @ store16 a @ ys) (4 + length xs) 2 = store16 a"
  "patch (store32 w @ xs @ store16 a @ ys) (4 + length xs) (store16 a') = store32 w @ xs @ store16 a' @ ys"
  "seg (store32 w @ xs @ store16 a @ b # ys) (6 + length xs) (Suc 0) = [b]"
  using seg_at [of "store32 w @ xs" "4 + length xs" "store16 a" 2 ys]
    patch_at [of "store32 w @ xs" "4 + length xs" "store16 a" "store16 a'" ys]
    seg_at [of "store32 w @ xs @ store16 a" "6 + length xs" "[b]" 1 ys]
  by (simp_all add: seg_def patch_def)

lemma conv_my_layout:
  assumes "length (ms_name s) < 2 ^ 32"
  shows "conv_my_to_network sz (my_layout False s @ tail) = Some (my_layout True s @ tail)"
    "conv_my_to_host sz (my_layout True s @ tail) = Some (my_layout False s @ tail)"
proof -
  have n: "unat (word_of_nat (length (ms_name s)) :: u32) = length (ms_name s)"
    using assms by (simp add: unat_of_nat)
  then show "conv_my_to_network sz (my_layout False s @ tail) = Some (my_layout True s @ tail)"
    "conv_my_to_host sz (my_layout True s @ tail) = Some (my_layout False s @ tail)"
    by (simp_all add: conv_my_to_network_def conv_my_to_host_def my_layout_def put16_def put32_def Let_def
        layout_access ntohs_eq_htons)
qed

lemma conv_big_layout:
  "conv_big htons htonl sz (big_params False s @ tail) = Some (big_params True s @ tail)"
  "conv_big ntohs ntohl sz (big_params True s @ tail) = Some (big_params False s @ tail)"
proof -
  let ?n = "word_of_nat (length (bs_data s)) :: u32"
  have g: "seg (a @ b @ c @ d @ ys) 0 2 = a" "seg (a @ b @ c @ d @ ys) 2 2 = b"
    "seg (a @ b @ c @ d @ ys) 4 2 = c" "seg (a @ b @ c @ d @ ys) 6 4 = d"
    "length a' = 2 \<Longrightarrow> patch (a @ b @ c @ d @ ys) 0 a' = a' @ b @ c @ d @ ys"
    "length a' = 2 \<Longrightarrow> patch (a @ b @ c @ d @ ys) 2 a' = a @ a' @ c @ d @ ys"
    "length a' = 2 \<Longrightarrow> patch (a @ b @ c @ d @ ys) 4 a' = a @ b @ a' @ d @ ys"
    "length d' = 4 \<Longrightarrow> patch (a @ b @ c @ d @ ys) 6 d' = a @ b @ c @ d' @ ys"
    if "length a = 2" "length b = 2" "length c = 2" "length d = 4" for a b c d ys a' d' :: "byte list"
    using that by (simp_all add: seg_def patch_def)
  show "conv_big htons htonl sz (big_params False s @ tail) = Some (big_params True s @ tail)"
    "conv_big ntohs ntohl sz (big_params True s @ tail) = Some (big_params False s @ tail)"
    by (simp_all add: conv_big_def big_params_def put16_def put32_def Let_def g)
qed

section \<open>The converters satisfy the interface\<close>

text \<open>Bytes that start with the layout of some struct of the size in the header.\<close>

definition my_data :: "bool \<Rightarrow> i32 \<Rightarrow> byte list \<Rightarrow> bool" where
  "my_data nw sz d \<longleftrightarrow> (\<exists>s tail. length (ms_name s) < 2 ^ 32 \<and> sz = int (my_size s) \<and> d = my_layout nw s @ tail)"

definition my_value :: "bool \<Rightarrow> i32 \<Rightarrow> byte list \<Rightarrow> byte list \<times> u16 \<times> byte list" where
  "my_value nw sz d =
     (let w = load32 (seg d 0 4); n = unat (if nw then ntohl w else w); a = load16 (seg d (4 + n) 2)
      in (seg d 4 n, if nw then ntohs a else a, seg d (6 + n) 1))"

lemma my_value_layout:
  assumes "length (ms_name s) < 2 ^ 32"
  shows "my_value nw sz (my_layout nw s @ tail) = (ms_name s, ms_age s, [bool_byte (ms_male s)])"
proof -
  have n: "unat (word_of_nat (length (ms_name s)) :: u32) = length (ms_name s)"
    using assms by (simp add: unat_of_nat)
  show ?thesis
    by (cases nw) (simp_all add: my_value_def Let_def my_layout_def put16_def put32_def layout_access n)
qed

lemma my_dataI: "length (ms_name s) < 2 ^ 32 \<Longrightarrow> my_data nw (int (my_size s)) (my_layout nw s @ tail)"
  unfolding my_data_def by blast

interpretation cvmy: byte_order_converter conv_my_to_network conv_my_to_host
  "my_data False" "my_data True" "my_value False" "my_value True"
proof
  show "\<exists>n. conv_my_to_network sz d = Some n \<and> length n = length d \<and> drop (nat sz) n = drop (nat sz) d \<and>
      my_data True sz n \<and> my_value True sz n = my_value False sz d" if "my_data False sz d" for sz d
    using that my_dataI by (fastforce simp: my_data_def [of False] conv_my_layout my_value_layout)
  show "\<exists>d. conv_my_to_host sz n = Some d \<and> length d = length n \<and> drop (nat sz) d = drop (nat sz) n \<and>
      my_data False sz d \<and> my_value False sz d = my_value True sz n" if "my_data True sz n" for sz n
    using that my_dataI by (fastforce simp: my_data_def [of True] conv_my_layout my_value_layout)
  show "conv_my_to_network sz (d @ tail) = map_option (\<lambda>n. n @ tail) (conv_my_to_network sz d)"
    if "my_data False sz d" for sz d tail
    using that by (auto simp: my_data_def conv_my_layout)
  show "conv_my_to_host sz (d @ tail) = map_option (\<lambda>n. n @ tail) (conv_my_to_host sz d)"
    if "my_data True sz d" for sz d tail
    using that by (auto simp: my_data_def conv_my_layout)
qed

definition big_ok :: "bool \<Rightarrow> i32 \<Rightarrow> byte list \<Rightarrow> bool" where
  "big_ok nw sz d \<longleftrightarrow> (\<exists>s tail. length (bs_data s) < 2 ^ 32 \<and> sz = int (10 + length (bs_data s)) \<and>
     d = big_params nw s @ bs_data s @ tail)"

definition big_value :: "bool \<Rightarrow> i32 \<Rightarrow> byte list \<Rightarrow> (u16 \<times> u16 \<times> u16) \<times> byte list" where
  "big_value nw sz d =
     (let f = (\<lambda>i. let a = load16 (seg d i 2) in if nw then ntohs a else a);
          w = load32 (seg d 6 4); n = unat (if nw then ntohl w else w)
      in ((f 0, f 2, f 4), seg d 10 n))"

lemma big_segs:
  "seg (big_params nw s @ tail) 0 2 = put16 nw (bs_param1 s)" "seg (big_params nw s @ tail) 2 2 = put16 nw (bs_param2 s)"
  "seg (big_params nw s @ tail) 4 2 = put16 nw (bs_param3 s)"
  "seg (big_params nw s @ tail) 6 4 = put32 nw (word_of_nat (length (bs_data s)))"
  "seg (big_params nw s @ bs_data s @ tail) 10 (length (bs_data s)) = bs_data s"
  by (simp_all add: big_params_def seg_def)

lemma big_value_layout:
  assumes "length (bs_data s) < 2 ^ 32"
  shows "big_value nw sz (big_params nw s @ bs_data s @ tail) = ((bs_param1 s, bs_param2 s, bs_param3 s), bs_data s)"
proof -
  have "unat (word_of_nat (length (bs_data s)) :: u32) = length (bs_data s)" using assms by (simp add: unat_of_nat)
  then show ?thesis by (cases nw) (simp_all add: big_value_def Let_def big_segs put16_def put32_def)
qed

lemma big_okI: "length (bs_data s) < 2 ^ 32 \<Longrightarrow>
   big_ok nw (int (10 + length (bs_data s))) (big_params nw s @ bs_data s @ tail)"
  unfolding big_ok_def by blast

interpretation cvbig: byte_order_converter "conv_big htons htonl" "conv_big ntohs ntohl"
  "big_ok False" "big_ok True" "big_value False" "big_value True"
proof
  show "\<exists>n. conv_big htons htonl sz d = Some n \<and> length n = length d \<and> drop (nat sz) n = drop (nat sz) d \<and>
      big_ok True sz n \<and> big_value True sz n = big_value False sz d" if "big_ok False sz d" for sz d
    using that big_okI by (fastforce simp: big_ok_def [of False] conv_big_layout big_value_layout)
  show "\<exists>d. conv_big ntohs ntohl sz n = Some d \<and> length d = length n \<and> drop (nat sz) d = drop (nat sz) n \<and>
      big_ok False sz d \<and> big_value False sz d = big_value True sz n" if "big_ok True sz n" for sz n
    using that big_okI by (fastforce simp: big_ok_def [of True] conv_big_layout big_value_layout)
  show "conv_big htons htonl sz (d @ tail) = map_option (\<lambda>n. n @ tail) (conv_big htons htonl sz d)"
    if "big_ok False sz d" for sz d tail
    using that by (auto simp: big_ok_def conv_big_layout)
  show "conv_big ntohs ntohl sz (d @ tail) = map_option (\<lambda>n. n @ tail) (conv_big ntohs ntohl sz d)"
    if "big_ok True sz d" for sz d tail
    using that by (auto simp: big_ok_def conv_big_layout)
qed

section \<open>The table of the example program\<close>

lemma user_keys [simp]:
  "type_key t \<noteq> of_i32 big_struct_type" "type_key t \<noteq> of_i32 my_struct_type"
  "of_i32 big_struct_type \<noteq> (of_i32 my_struct_type :: u32)"
  "of_i32 big_struct_type \<noteq> type_key t" "of_i32 my_struct_type \<noteq> type_key t"
  by (cases t; simp add: type_key_def type_ids big_struct_type_def my_struct_type_def)+

lemma lib_table_user [simp]:
  "to_host_order lib_converters (of_i32 big_struct_type) = None" "to_host_order lib_converters (of_i32 my_struct_type) = None"
  "to_network_order lib_converters (of_i32 big_struct_type) = None" "to_network_order lib_converters (of_i32 my_struct_type) = None"
  by (simp_all add: lib_converters_eq)

lemma example_converters_eq:
  "to_host_order example_converters = (to_host_order lib_converters)
     (of_i32 big_struct_type \<mapsto> conv_big ntohs ntohl, of_i32 my_struct_type \<mapsto> conv_my_to_host)"
  "to_network_order example_converters = (to_network_order lib_converters)
     (of_i32 big_struct_type \<mapsto> conv_big htons htonl, of_i32 my_struct_type \<mapsto> conv_my_to_network)"
proof -
  have e: "example_converters = dson_user_defined_converters lib_converters"
    by (simp add: example_converters_def lib_converters_def make_converters_def)
  show "to_host_order example_converters = (to_host_order lib_converters)
     (of_i32 big_struct_type \<mapsto> conv_big ntohs ntohl, of_i32 my_struct_type \<mapsto> conv_my_to_host)"
    "to_network_order example_converters = (to_network_order lib_converters)
     (of_i32 big_struct_type \<mapsto> conv_big htons htonl, of_i32 my_struct_type \<mapsto> conv_my_to_network)"
    unfolding e
    by (simp_all add: dson_user_defined_converters_def very_big_struct_converters_def emplace_converter_def Let_def
        user_keys(3) [symmetric] del: user_keys(3))
qed

text \<open>Which bytes are data of a type now.\<close>

definition user_data :: data_pred where
  "user_data ty nw sz bs \<longleftrightarrow> lib_data ty nw sz bs \<and>
     (of_i32 ty = (of_i32 my_struct_type :: u32) \<longrightarrow> my_data nw sz bs) \<and>
     (of_i32 ty = (of_i32 big_struct_type :: u32) \<longrightarrow> big_ok nw sz bs)"

lemma user_data_my [simp]: "user_data my_struct_type nw sz bs \<longleftrightarrow> my_data nw sz bs"
  by (simp add: user_data_def lib_data_def user_keys(3) [symmetric] del: user_keys(3))

lemma user_data_lib [simp]: "user_data (types_map t) nw sz bs \<longleftrightarrow> lib_data_ok t sz bs"
  by (simp add: user_data_def type_key_def [symmetric])

lemma buf_ok_user: "buf_ok lib_data nw m d \<Longrightarrow> hdr_field (d_header d) 3 = types_map t \<Longrightarrow> buf_ok user_data nw m d"
  by (auto simp: buf_ok_def)

text \<open>
  The example's table is a converter table in the sense of the library, so all that was shown
  of copying out holds with user-defined types as well.
\<close>

interpretation user_table: converter_table example_converters user_data
proof
  show "\<exists>n. f sz bs = Some n \<and> length n = length bs \<and> user_data ty True sz n"
    if d: "user_data ty False sz bs" and f: "to_network_order example_converters (of_i32 ty) = Some f" for ty sz bs f
  proof -
    consider "of_i32 ty = (of_i32 my_struct_type :: u32)" | "of_i32 ty = (of_i32 big_struct_type :: u32)"
      | "to_network_order lib_converters (of_i32 ty) = Some f" "of_i32 ty \<noteq> (of_i32 my_struct_type :: u32)"
        "of_i32 ty \<noteq> (of_i32 big_struct_type :: u32)"
      using f by (auto simp: example_converters_eq split: if_splits)
    then show ?thesis
    proof cases
      case 1
      then show ?thesis using d f cvmy.to_net_ok [of sz bs]
        by (auto simp: user_data_def lib_data_def example_converters_eq user_keys(3) [symmetric] simp del: user_keys(3))
    next
      case 2
      then show ?thesis using d f cvbig.to_net_ok [of sz bs]
        by (auto simp: user_data_def lib_data_def example_converters_eq)
    next
      case 3
      then show ?thesis using d lib_table.to_network_table [of ty sz bs f] by (auto simp: user_data_def)
    qed
  qed
  show "\<exists>n. f sz bs = Some n \<and> length n = length bs \<and> user_data ty False sz n"
    if d: "user_data ty True sz bs" and f: "to_host_order example_converters (of_i32 ty) = Some f" for ty sz bs f
  proof -
    consider "of_i32 ty = (of_i32 my_struct_type :: u32)" | "of_i32 ty = (of_i32 big_struct_type :: u32)"
      | "to_host_order lib_converters (of_i32 ty) = Some f" "of_i32 ty \<noteq> (of_i32 my_struct_type :: u32)"
        "of_i32 ty \<noteq> (of_i32 big_struct_type :: u32)"
      using f by (auto simp: example_converters_eq split: if_splits)
    then show ?thesis
    proof cases
      case 1
      then show ?thesis using d f cvmy.to_host_ok [of sz bs]
        by (auto simp: user_data_def lib_data_def example_converters_eq user_keys(3) [symmetric] simp del: user_keys(3))
    next
      case 2
      then show ?thesis using d f cvbig.to_host_ok [of sz bs]
        by (auto simp: user_data_def lib_data_def example_converters_eq)
    next
      case 3
      then show ?thesis using d lib_table.to_host_table [of ty sz bs f] by (auto simp: user_data_def)
    qed
  qed
qed

interpretation user_buf: copying example_converters user_data buf_sink c_out "window_of n" "\<lambda>c. c_room c = 0"
  for n
  by unfold_locales

interpretation user_fd: copying example_converters user_data fd_sink w_data "\<lambda>fd. soft (w_script fd)" "\<lambda>_. True"
  by unfold_locales

end
