(* ===== verification/Fd_Loading.thy ===== *)
theory Fd_Loading
  imports Dson_Receive
begin

text \<open>
  The loop that repeats \<open>load_from_fd\<close> until it no longer answers \<open>InProcess\<close>
  (\<open>save_and_load_advanced\<close> in \<open>advanced.cpp\<close>), and why it ends.
\<close>

text \<open>The scripts say how the kernel answers during each call.\<close>

fun load_fd_loop :: "mem \<Rightarrow> dson \<Rightarrow> kvmap \<Rightarrow> rfd \<Rightarrow> rcall list list \<Rightarrow>
    (result \<times> mem \<times> dson \<times> kvmap \<times> rfd) option" where
  "load_fd_loop m d kv fd [] = Some (InProcess, m, d, kv, fd)"
| "load_fd_loop m d kv fd (script # scripts) = do {
     (r, m, d, kv, fd) \<leftarrow> load_from_fd m d kv (fd\<lparr>r_script := script\<rparr>);
     if r = InProcess then load_fd_loop m d kv fd scripts else Some (r, m, d, kv, fd)
   }"

text \<open>The first read of the call gives at least one byte, when there is one.\<close>

definition giving :: "rcall list \<Rightarrow> bool" where
  "giving script \<longleftrightarrow> soft_reads script \<and> (case script of RdGive n # _ \<Rightarrow> 0 < n | _ \<Rightarrow> False)"

lemma read_shrinks:
  "read_from_fd fd n = (k, xs, fd') \<Longrightarrow> length (r_data fd') \<le> length (r_data fd)"
  by (cases "r_script fd"; cases "hd (r_script fd)") (auto simp: read_from_fd_def sys_read_def split: if_splits)

lemma read_giving:
  "giving (r_script fd) \<Longrightarrow> 0 < n \<Longrightarrow> r_data fd \<noteq> [] \<Longrightarrow> read_from_fd fd n = (k, xs, fd') \<Longrightarrow>
   length (r_data fd') < length (r_data fd)"
  by (cases "r_script fd"; cases "hd (r_script fd)") (auto simp: giving_def read_from_fd_def sys_read_def)

lemma load_data_fd_shrinks:
  "load_data_fd m d kv fd = Some (r, m', d', kv', fd') \<Longrightarrow> length (r_data fd') \<le> length (r_data fd)"
  by (cases "read_from_fd fd (nat (d_buf_size d - d_offset d))")
    (auto simp: load_data_fd_def Let_def dest: read_shrinks split: if_splits bind_splits)

lemma load_header_fd_takes:
  assumes "load_header_fd m d kv fd = Some (r, m', d', kv', fd')" "giving (r_script fd)" "r_data fd \<noteq> []" "d_offset d < 16"
  shows "length (r_data fd') < length (r_data fd)"
proof -
  obtain k xs fd1 where rd: "read_from_fd fd (nat (int header_size - d_offset d)) = (k, xs, fd1)"
    by (cases "read_from_fd fd (nat (int header_size - d_offset d))")
  have "length (r_data fd1) < length (r_data fd)"
    by (rule read_giving [OF assms(2) _ assms(3) rd]) (use assms(4) in \<open>simp add: header_size_def\<close>)
  moreover have "length (r_data fd') \<le> length (r_data fd1)"
    using assms(1,4) rd
    by (auto simp: load_header_fd_def Let_def header_size_def dest: load_data_fd_shrinks split: if_splits bind_splits option.splits)
  ultimately show ?thesis by simp
qed

lemma load_from_fd_takes:
  assumes "loading h dat (m, d, kv) rest" "giving (r_script fd)" "r_data fd \<noteq> []"
    and "load_from_fd m d kv fd = Some (r, m', d', kv', fd')"
  shows "length (r_data fd') < length (r_data fd)"
proof (cases "d_state d = StLoadingData")
  case True
  then have "d_offset d < d_buf_size d" using assms(1) by (simp add: loading_def data_part_def)
  moreover obtain k xs fd1 where rd: "read_from_fd fd (nat (d_buf_size d - d_offset d)) = (k, xs, fd1)"
    by (cases "read_from_fd fd (nat (d_buf_size d - d_offset d))")
  ultimately have "length (r_data fd1) < length (r_data fd)"
    by (intro read_giving [OF assms(2) _ assms(3) rd]) simp
  moreover have "fd' = fd1"
    using assms(4) True rd \<open>d_offset d < d_buf_size d\<close>
    by (auto simp: load_from_fd_def load_begin_def load_data_fd_def Let_def split: if_splits bind_splits)
  ultimately show ?thesis by simp
next
  case False
  obtain m1 d1 where b: "load_begin m d kv = Some (m1, d1, [])" "d_state d1 = StLoadingHeader" "loading h dat (m1, d1, []) rest"
  proof (cases "d_state d = StLoadingHeader")
    case True
    then have "kv = []" using assms(1) by (simp add: loading_def header_part_def)
    then show ?thesis using that [of m d] True assms(1) by (simp add: load_begin_def)
  qed (use load_begin_loading [OF assms(1) _ False] that in blast)
  then have "d_offset d1 < 16" by (simp add: loading_def header_part_def)
  then show ?thesis using load_header_fd_takes assms(2-4) b(1,2) by (simp add: load_from_fd_def)
qed

text \<open>
  Repeated until it is through, \<open>load_from_fd\<close> loads a message from a descriptor that gives
  at least one byte at each call, after at most as many calls as the message has bytes: the
  loop ends with \<open>Ready\<close>, the message is complete, and what follows it is still there.
\<close>

lemma load_fd_loop_loads:
  assumes "loading h dat (m, d, kv) rest" "r_data fd = rest @ extra" "\<forall>script \<in> set scripts. giving script"
    and "length rest \<le> length scripts" "rest \<noteq> []"
  shows "\<exists>m' d' kv' fd'. load_fd_loop m d kv fd scripts = Some (Ready, m', d', kv', fd') \<and>
    loaded_msg h dat (m', d', kv') \<and> r_data fd' = extra"
  using assms
proof (induction scripts arbitrary: m d kv fd rest)
  case (Cons script scripts)
  let ?fd = "fd\<lparr>r_script := script\<rparr>"
  have g: "giving (r_script ?fd)" "soft_reads (r_script ?fd)" using Cons.prems(3) by (simp_all add: giving_def)
  have dt: "r_data ?fd = rest @ extra" using Cons.prems(2) by simp
  obtain k r m1 d1 kv1 fd1 where l: "load_from_fd m d kv ?fd = Some (r, m1, d1, kv1, fd1)" "k \<le> length rest"
    "r_data fd1 = drop k rest @ extra"
    "if k = length rest then r = Ready \<and> loaded_msg h dat (m1, d1, kv1) else r = InProcess \<and> loading h dat (m1, d1, kv1) (drop k rest)"
    using load_from_fd_fd_progress [OF Cons.prems(1) dt g(2)] unfolding fd_progress_def by blast
  have "r_data ?fd \<noteq> []" using Cons.prems(5) dt by simp
  from load_from_fd_takes [OF Cons.prems(1) g(1) this l(1)] have k: "0 < k" using l(3) dt by (cases k) simp_all
  show ?case
  proof (cases "k = length rest")
    case True
    then show ?thesis using l by simp
  next
    case False
    then have "loading h dat (m1, d1, kv1) (drop k rest)" "drop k rest \<noteq> []" "length (drop k rest) \<le> length scripts"
      using l(2,4) k Cons.prems(4) by simp_all
    from Cons.IH [OF this(1) l(3) _ this(3,2)] show ?thesis using Cons.prems(3) l(1,4) False by simp
  qed
qed simp

end
