(* ===== verification/Save_Load.thy ===== *)
theory Save_Load
  imports User_Types Fd_Loading
begin

text \<open>
  The programs \<open>save_and_load_simple\<close> (\<open>user_defined_type.cpp\<close>) and
  \<open>save_and_load_advanced\<close> (\<open>advanced.cpp\<close>): a value of a user-defined type is written to a
  stream, loaded from it and read back.
\<close>

section \<open>The programs\<close>

text \<open>\<open>dson1.emplace(1, my_struct_before); output << dson1\<close>: the file that is written.\<close>

definition save_simple :: "mem \<Rightarrow> my_struct \<Rightarrow> byte list option" where
  "save_simple m my_struct_before = do {
     (m, dson1) \<leftarrow> dson_new m;
     (m, arg) \<leftarrow> dson_of_my_struct m my_struct_before;
     (m, dson1, kv1) \<leftarrow> emplace_dson m dson1 [] 1 arg;
     (output, m, dson1) \<leftarrow> copy_to_stream example_converters True m (ObjDson dson1 kv1) [];
     Some output
   }"

text \<open>
  \<open>input >> dson2\<close>, \<open>dson2.get(1)\<close> and \<open>to_my_struct\<close>.  A null or foreign pointer would be
  dereferenced.
\<close>

definition load_simple :: "mem \<Rightarrow> byte list \<Rightarrow> my_struct option" where
  "load_simple m input = do {
     (m, dson2) \<leftarrow> dson_new m;
     (m, dson2, kv, rest) \<leftarrow> load_from_stream m dson2 [] input;
     (my_struct_obj, m, dson2, kv) \<leftarrow> dson_get example_converters m dson2 kv 1;
     (case my_struct_obj of
        NotFound \<Rightarrow> None
      | Self \<Rightarrow> to_my_struct m dson2
      | Child k \<Rightarrow> (case kv_find k kv of Some (ObjDson d dkv) \<Rightarrow> to_my_struct m d | _ \<Rightarrow> None))
   }"

text \<open>\<open>struct_before\<close> is written, loaded and looked up by its key.\<close>

definition save_advanced :: "big_struct \<Rightarrow> byte list option" where
  "save_advanced struct_before = do {
     (output, struct_before) \<leftarrow> bs_copy_to_stream True struct_before [];
     Some output
   }"

text \<open>\<open>to_my_struct(dson.get(key))\<close>, \<open>re\<close> being the struct that is filled in.\<close>

definition got_advanced :: "mem \<Rightarrow> dson \<Rightarrow> kvmap \<Rightarrow> i32 \<Rightarrow> big_struct \<Rightarrow> big_struct option" where
  "got_advanced m dson kv key re = do {
     (obj, m, dson, kv) \<leftarrow> dson_get example_converters m dson kv key;
     to_very_big_struct m (case obj of NotFound \<Rightarrow> None
        | Self \<Rightarrow> Some (ObjDson dson kv) | Child k \<Rightarrow> kv_find k kv) re
   }"

definition load_advanced :: "mem \<Rightarrow> i32 \<Rightarrow> byte list \<Rightarrow> big_struct \<Rightarrow> big_struct option" where
  "load_advanced m key input re = do {
     (m, dson_from_stream) \<leftarrow> dson_new m;
     (m, dson_from_stream, kv, rest) \<leftarrow> load_from_stream m dson_from_stream [] input;
     got_advanced m dson_from_stream kv key re
   }"

text \<open>
  The same through a descriptor.  After \<open>Error\<close> the program returns without a struct; the
  result is \<open>InProcess\<close> when the scripts are used up and the loop still turns.
\<close>

definition load_advanced_fd :: "mem \<Rightarrow> i32 \<Rightarrow> byte list \<Rightarrow> rcall list list \<Rightarrow> big_struct \<Rightarrow>
    (result \<times> big_struct option) option" where
  "load_advanced_fd m key input scripts re = do {
     (m, dson_from_fd) \<leftarrow> dson_new m;
     (result, m, dson_from_fd, kv, fd) \<leftarrow>
       load_fd_loop m dson_from_fd [] \<lparr>r_script = [], r_data = input\<rparr> scripts;
     if result = Ready then map_option (\<lambda>s. (Ready, Some s)) (got_advanced m dson_from_fd kv key re)
     else Some (result, None)
   }"

section \<open>A MyStruct in a Dson\<close>

definition my_dson :: "mem \<Rightarrow> my_struct \<Rightarrow> dson" where
  "my_dson m s = (dson_fields (host_hdr (int (my_size s)) 0 my_struct_type))
     \<lparr>d_buf := Some (next_block m, 0), d_was_alloc := True, d_buf_size := int (my_size s),
      d_kind := OneObjectInDataBuf\<rparr>"

lemma mwrite_fresh:
  "o' + length xs \<le> length bs \<Longrightarrow> mwrite (fresh m bs) (next_block m, o') xs = Some (fresh m (patch bs o' xs))"
  by (subst mwrite_eq [of _ _ bs]) (simp_all add: upd_block_def fresh_def)

lemma patch_my_layout:
  assumes "length raw = my_size s"
  defines "n \<equiv> length (ms_name s)"
  shows "patch (patch (patch (patch raw 0 (store32 (word_of_nat n))) 4 (ms_name s)) (4 + n) (store16 (ms_age s)))
    (6 + n) [bool_byte (ms_male s)] = my_layout False s"
  using assms(1)
  by (simp add: n_def patch_def my_layout_def my_size_def put16_def put32_def)

lemma my_size_pos [simp]: "0 < my_size s"
  by (simp add: my_size_def)

lemma dson_of_my_struct_eq:
  assumes "my_size s < 2 ^ 31" "my_size s \<le> malloc_limit m"
  shows "dson_of_my_struct m s = Some (fresh m (my_layout False s), my_dson m s, [])"
proof -
  let ?n = "length (ms_name s)" and ?raw = "map (malloc_fill m) [0..<my_size s]"
  have e: "4 + ?n + 2 + 1 = my_size s" by (simp add: my_size_def)
  have sz: "to_i32 (word_of_nat (my_size s)) = int (my_size s)"
    using assms(1) to_i32_of_i32 [of "int (my_size s)"] by simp
  have k: "to_i32 (get32 (host_hdr 0 0 (types_map T_Empty)) 2) = 0"
    by (simp add: host_hdr_def hdr_simps numeral_2_eq_2)
  have i: "dson_init m (dson_fields (host_hdr 0 0 (types_map T_Empty))) [] my_struct_type (int (my_size s)) =
      Some (Some (next_block m, 0), fresh m ?raw, my_dson m s, [])"
    using dson_init_eq [of "int (my_size s)" m "host_hdr 0 0 (types_map T_Empty)" my_struct_type] assms(2) k
      my_size_pos [of s]
    by (simp add: my_dson_def)
  have w: "mwrite (fresh m bs) (next_block m, o') xs = Some (fresh m (patch bs o' xs))"
    if "length bs = my_size s" "o' + length xs \<le> my_size s" for bs o' xs
    using that by (intro mwrite_fresh) simp
  have l: "length (patch bs o' xs) = my_size s" if "length bs = my_size s" "o' + length xs \<le> my_size s" for bs o' xs
    using that by (subst length_patch) simp_all
  have n: "?n + 7 = my_size s" "4 + ?n + 2 = 6 + ?n" by (simp_all add: my_size_def)
  show ?thesis
    using patch_my_layout [of ?raw s] i n
    unfolding dson_of_my_struct_def Let_def e
    by (simp add: dson_new_eq sz mwrite32_def mwrite16_def padd_def w l)
qed

section \<open>What is written\<close>

lemma host_hdr_valid [simp]: "hdr_valid (host_hdr sz k ty)" "hdr_valid (net_hdr sz k ty)"
  using hdr_for_valid [of False sz k ty] hdr_for_valid [of True sz k ty] by (simp_all add: hdr_for_def)

lemma emplace_into_new:
  assumes "d_was_alloc a"
  shows "emplace_dson m (dson_fields (host_hdr 0 0 (types_map T_Empty))) [] key (a, []) =
    Some (m, dson_fields (host_hdr 0 0 (types_map T_DsonContainer)), [(key, ObjDson (keyed key a) [])])"
proof -
  have "dson_set_key m a key = Some (m, keyed key a)"
    using assms by (simp add: dson_set_key_def local_simps keyed_def)
  moreover have "hdr_set_field (host_hdr 0 0 (types_map T_Empty)) 3 (types_map T_DsonContainer) =
      host_hdr 0 0 (types_map T_DsonContainer)"
    using hdr_set_field_simps(3) [of False 0 0 "types_map T_Empty"] by (simp add: hdr_for_def)
  ultimately show ?thesis
    by (simp add: emplace_dson_def move_construct_eq free_buf_def insert_internal_def to_container_def map_put_def
        set_data_type_internal_def local_simps dson_fields_def header_loc_def)
qed

definition my_entry :: "my_struct \<Rightarrow> byte list" where
  "my_entry s = net_hdr (int (my_size s)) 1 my_struct_type @ my_layout True s"

definition my_file :: "my_struct \<Rightarrow> byte list" where
  "my_file s = hdr_for True (int (my_size s) + 16) 0 (types_map T_DsonContainer) @ my_entry s"

lemma my_struct_type_ok [simp]: "i32_ok my_struct_type" "my_struct_type \<noteq> types_map T_DsonContainer"
  by (simp_all add: my_struct_type_def type_ids)

lemma save_simple_file:
  assumes "int (my_size s) + 16 \<le> i32_max" "my_size s \<le> malloc_limit m"
  shows "save_simple m s = Some (my_file s)"
proof -
  let ?c = "keyed 1 (my_dson m s)" and ?d = "dson_fields (host_hdr 0 0 (types_map T_DsonContainer))"
  let ?m = "fresh m (my_layout False s)" and ?sz = "int (my_size s)"
  have small: "my_size s < 2 ^ 31" "i32_ok ?sz" using assms(1) by (simp_all add: i32_max_def)
  have hc: "d_header ?c = hdr_for False ?sz 1 my_struct_type"
    using hdr_set_field_simps(2) [of False ?sz 0 my_struct_type 1]
    by (simp add: keyed_def my_dson_def dson_fields_def hdr_for_def)
  have c: "d_buf ?c = Some (next_block m, 0)" "d_was_alloc ?c" "d_buf_size ?c = ?sz"
    "d_kind ?c = OneObjectInDataBuf" "d_state ?c = StReady"
    by (simp_all add: my_dson_def dson_fields_def)
  have own: "own_data ?m ?c = my_layout False s" using c by (simp add: own_data_def my_dson_def)
  have small2: "length (ms_name s) < 2 ^ 32" using small(1) by (simp add: my_size_def)
  have "my_data False ?sz (my_layout False s)" using my_dataI [OF small2, of False "[]"] by simp
  then have "buf_ok user_data True ?m ?c"
    using small(2) c hc
    by (simp add: buf_ok_def hdr_simps buf_state_ok_def)
  then have ok: "obj_ok user_data True ?m (ObjDson ?d [(1, ObjDson ?c [])])"
    using assms(1) c hc small(2)
    by (simp add: container_ok_def header_size_def hdr_simps add.commute)
      (simp add: dson_fields_def hdr_for_def header_loc_def)
  have bl: "distinct (obj_blocks (ObjDson ?d [(1, ObjDson ?c [])]))"
    by (simp add: dson_fields_def own_blocks_def split: option.splits)
  have rest: "obj_rest (ObjDson ?d [(1, ObjDson ?c [])])" using c by (simp add: dson_fields_def)
  have "buf_out example_converters True (d_header ?c) (my_layout False s) =
      (net_hdr ?sz 1 my_struct_type, my_layout True s)"
    using small(2) conv_my_layout(1) [OF small2, of ?sz "[]"]
    by (simp add: buf_out_def hc hdr_simps example_converters_eq hdr_order_def)
  moreover have "hdr_field (host_hdr 0 0 (types_map T_DsonContainer)) 2 = 0"
    "hdr_field (host_hdr 0 0 (types_map T_DsonContainer)) 3 = types_map T_DsonContainer"
    using hdr_field_for(2,3) [of _ False] by (simp_all add: hdr_for_def)
  ultimately have "obj_wire example_converters True ?m (ObjDson ?d [(1, ObjDson ?c [])]) = my_file s"
    using c hc own small(2)
    by (simp add: my_file_def my_entry_def hdr_simps header_size_def add.commute) (simp add: dson_fields_def)
  then obtain m' obj' where "copy_to_stream example_converters True ?m (ObjDson ?d [(1, ObjDson ?c [])]) [] =
      Some (my_file s, m', obj')"
    using user_table.stream_obj_good [OF ok bl rest order_refl, of "[]"]
    by (auto simp: copy_to_stream_def streamed_def)
  then show ?thesis
    using dson_of_my_struct_eq [OF small(1) assms(2)] emplace_into_new [of "my_dson m s" ?m 1] c(2)
    by (simp add: save_simple_def dson_new_eq)
qed

section \<open>What is read\<close>

text \<open>Reading a struct in host order: one with an empty or a long name is not recovered.\<close>

definition recovered :: "my_struct \<Rightarrow> my_struct" where
  "recovered s = (if ms_name s = [] \<or> 1024 < length (ms_name s) then empty_my_struct else s)"

lemma to_my_struct_layout:
  assumes "data_ptr d = Some (b, o')" "heap m b = Some (xs @ my_layout False s @ zs)" "length xs = o'"
    and "length (ms_name s) < 2 ^ 32"
  shows "to_my_struct m d = Some (recovered s)"
proof -
  let ?w = "word_of_nat (length (ms_name s)) :: u32" and ?n = "length (ms_name s)"
  have u: "unat ?w = ?n" using assms(4) by (simp add: unat_of_nat)
  have h: "heap m b = Some (xs @ store32 ?w @ ms_name s @ store16 (ms_age s) @ [bool_byte (ms_male s)] @ zs)"
    using assms(2) by (simp add: my_layout_def put16_def put32_def)
  have r: "mread m (b, o') 4 = Some (store32 ?w)" "mread m (b, o' + 4) ?n = Some (ms_name s)"
    "mread m (b, o' + (4 + ?n)) 2 = Some (store16 (ms_age s))" "mread m (b, o' + (4 + ?n + 2)) 1 = Some [bool_byte (ms_male s)]"
    using mread_at [of m b xs "store32 ?w" _ o' 4] mread_at [of m b "xs @ store32 ?w" "ms_name s" _ "o' + 4" ?n]
      mread_at [of m b "xs @ store32 ?w @ ms_name s" "store16 (ms_age s)" _ "o' + (4 + ?n)" 2]
      mread_at [of m b "xs @ store32 ?w @ ms_name s @ store16 (ms_age s)" "[bool_byte (ms_male s)]" zs "o' + (4 + ?n + 2)" 1]
      h assms(3) by simp_all
  have z: "?w = 0 \<longleftrightarrow> ms_name s = []" using u by (metis length_0_conv unat_eq_zero)
  show ?thesis
    using assms(1) r u z
    by (cases s; cases "ms_male s")
      (simp_all add: to_my_struct_def mread32_def mread16_def recovered_def padd_def bool_byte_def Let_def add_ac)
qed

lemma my_entry_ok:
  assumes "int (my_size s) + 16 \<le> max_dson_ram_size"
  shows "entry_ok (net_hdr (int (my_size s)) 1 my_struct_type, my_layout True s)"
    "hdr_field (net_hdr (int (my_size s)) 1 my_struct_type) 2 = 1"
proof -
  have "i32_ok (int (my_size s))" using assms by (simp add: max_dson_ram_size_def)
  then show "entry_ok (net_hdr (int (my_size s)) 1 my_struct_type, my_layout True s)"
    "hdr_field (net_hdr (int (my_size s)) 1 my_struct_type) 2 = 1"
    using assms by (simp_all add: entry_ok_def net_hdr_facts max_dson_ram_size_def)
qed

lemma load_simple_file:
  assumes "int (my_size s) + 16 \<le> max_dson_ram_size" "my_size s + 16 \<le> malloc_limit m" "mem_ok m"
  shows "load_simple m (my_file s) = Some (recovered s)"
proof -
  let ?sz = "int (my_size s)" and ?d0 = "dson_fields (host_hdr 0 0 (types_map T_Empty))"
  let ?h = "hdr_for True (?sz + 16) 0 (types_map T_DsonContainer)" and ?e = "net_hdr (int (my_size s)) 1 my_struct_type"
  have small: "length (ms_name s) < 2 ^ 32" "i32_ok (?sz + 16)" "i32_ok ?sz"
    using assms(1) by (simp_all add: max_dson_ram_size_def my_size_def i32_ok_iff)
  have len: "length (my_entry s) = my_size s + 16" by (simp add: my_entry_def)
  have cl: "can_load m ?d0 []" by (simp add: can_load_def dson_fields_def header_loc_def own_blocks_def)
  have "\<exists>m' d' kv'. load_from_stream m ?d0 [] (?h @ my_entry s @ []) = Some (m', d', kv', []) \<and>
      loaded_msg ?h (my_entry s) (m', d', kv')"
    by (rule load_from_stream_complete)
      (use assms cl len small in \<open>simp_all add: hdr_simps dson_fields_def\<close>)
  then obtain m1 d1 kv1 where l: "load_from_stream m ?d0 [] (my_file s) = Some (m1, d1, kv1, [])"
    "loaded_msg ?h (entries_wire ([] @ (?e, my_layout True s) # [])) (m1, d1, kv1)"
    by (auto simp: my_file_def my_entry_def)
  note eo = my_entry_ok [OF assms(1)]
  have ty: "hdr_field ?h 3 = types_map T_DsonContainer" by (simp add: hdr_simps)
  have es: "\<forall>x \<in> set ([] @ (?e, my_layout True s) # []). entry_ok x"
    "distinct (map (\<lambda>x. hdr_field (fst x) 2) ([] @ (?e, my_layout True s) # []))" using eo by simp_all
  obtain b v where v: "heap m1 b = Some (entries_wire [] @ ?e @ my_layout True s @ entries_wire [])"
    "header_loc v = Some (b, length (entries_wire []))"
    "d_state v = StReady" "data_ptr v = Some (b, length (entries_wire []) + 16)"
    and g: "\<And>m'. to_host example_converters m1 v = Some (m', v) \<Longrightarrow>
      \<exists>kv'. dson_get example_converters m1 d1 kv1 1 = Some (Child 1, m', d1\<lparr>d_kind := DsonContainer\<rparr>, kv') \<and>
        kv_find 1 kv' = Some (ObjDson v [])"
    using get_child [where cv = example_converters, OF l(2) hdrs_nonempty(2) ty es] unfolding eo(2) by metis
  let ?m = "upd_block m1 b (host_hdr ?sz 1 my_struct_type @ my_layout False s)"
  have "to_host example_converters m1 v = Some (upd_block m1 b ([] @ host_hdr ?sz 1 my_struct_type @ my_layout False s @ []), v)"
    by (rule to_host_converted [where f = conv_my_to_host])
      (use v small conv_my_layout(2) [OF small(1), of ?sz "[]"] in \<open>simp_all add: example_converters_eq\<close>)
  then obtain kv' where g': "dson_get example_converters m1 d1 kv1 1 = Some (Child 1, ?m, d1\<lparr>d_kind := DsonContainer\<rparr>, kv')"
    "kv_find 1 kv' = Some (ObjDson v [])" using g [of ?m] by auto
  have "to_my_struct ?m v = Some (recovered s)"
    by (rule to_my_struct_layout [of v b 16 _ "host_hdr ?sz 1 my_struct_type" _ "[]"]) (use small v(4) in simp_all)
  then show ?thesis using l(1) g' by (simp add: load_simple_def dson_new_eq)
qed

text \<open>
  C23: \<open>save_and_load_simple\<close>: a \<open>MyStruct\<close> put into a \<open>Dson\<close>, written to a stream in network
  order, loaded from it and read back is the struct that was put in, unless its name is empty
  or longer than 1024 characters: then age and gender are lost with it.
\<close>

theorem my_struct_save_and_load:
  assumes "int (my_size s) + 16 \<le> max_dson_ram_size" "my_size s \<le> malloc_limit m"
    and "my_size s + 16 \<le> malloc_limit m2" "mem_ok m2"
  shows "\<exists>output. save_simple m s = Some output \<and> load_simple m2 output =
    Some (if ms_name s = [] \<or> 1024 < length (ms_name s) then empty_my_struct else s)"
proof -
  have "int (my_size s) + 16 \<le> i32_max" using assms(1) max_ram_i32 by simp
  then show ?thesis
    using save_simple_file [OF _ assms(2)] load_simple_file [OF assms(1,3,4)] by (simp add: recovered_def)
qed

lemma my_struct_save_and_load_witness:
  "\<exists>output. save_simple \<lparr>heap = Map.empty, next_block = 0, malloc_limit = 100, malloc_fill = (\<lambda>_. 1)\<rparr>
      \<lparr>ms_name = [68, 105, 109, 97], ms_age = 45, ms_male = True\<rparr> = Some output \<and>
    load_simple \<lparr>heap = Map.empty, next_block = 3, malloc_limit = 50, malloc_fill = (\<lambda>_. 0)\<rparr> output =
      Some \<lparr>ms_name = [68, 105, 109, 97], ms_age = 45, ms_male = True\<rparr>"
  using my_struct_save_and_load [of "\<lparr>ms_name = [68, 105, 109, 97], ms_age = 45, ms_male = True\<rparr>"
    "\<lparr>heap = Map.empty, next_block = 0, malloc_limit = 100, malloc_fill = (\<lambda>_. 1)\<rparr>"
    "\<lparr>heap = Map.empty, next_block = 3, malloc_limit = 50, malloc_fill = (\<lambda>_. 0)\<rparr>"]
  by (simp add: my_size_def max_dson_ram_size_def mem_ok_def)

section \<open>A single object\<close>

text \<open>\<open>get\<close> on a message that is one object: it is converted in its own buffer.\<close>

lemma get_single:
  assumes "loaded_msg (net_hdr sz k ty) n (m, d, kv)" "n \<noteq> []" "i32_ok sz" "i32_ok k" "i32_ok ty"
    and "ty \<noteq> types_map T_DsonContainer" "to_host_order cv (of_i32 ty) = Some f"
  obtains b d' where "dson_get cv m d kv k = map_option (\<lambda>x. (Self, upd_block m b x, d', [])) (f sz n)"
    "data_ptr d' = Some (b, 0)"
proof -
  let ?h = "net_hdr sz k ty" and ?d = "d\<lparr>d_kind := OneObjectInDataBuf\<rparr>"
  obtain b where d: "d_state d = StReady" "kv = []" "d_header d = ?h" "d_kind d = DataBufNeedParse" "d_was_alloc d"
    "d_buf d = Some (b, 0)" "heap m b = Some n"
    using assms(1,2) by (auto simp: loaded_msg_def)
  have l: "header_loc d = None" "header_loc ?d = None" using d(5) by simp_all
  note hf = net_hdr_facts(3) [OF assms(3)] net_hdr_facts(4) [OF assms(4)] net_hdr_facts(5) [OF assms(5)]
  have p: "parse_buf m d kv = Some (m, ?d, kv)"
    by (rule parse_buf_single) (use l d hf(3) assms(6) in simp_all)
  have th: "hdr_to_host ?h = host_hdr sz k ty" using hdr_to_host_for [of True] by (simp add: hdr_for_def)
  have rc: "run_converter f sz m (b, 0) = map_option (upd_block m b) (f sz n)"
    using d(7) by (cases "f sz n") (simp_all add: run_converter_def)
  have "to_host cv m ?d = map_option (\<lambda>x. (upd_block m b x, ?d\<lparr>d_header := host_hdr sz k ty\<rparr>)) (f sz n)"
    using l d hf assms(7) host_hdr_size [OF assms(3), of k ty] rc
    by (cases "f sz n")
      (simp_all add: to_host_def to_host_internal_def local_simps dson_data_type_def net_hdr_facts(1) th data_ptr_def)
  then have "dson_get cv m d kv k =
      map_option (\<lambda>x. (Self, upd_block m b x, ?d\<lparr>d_header := host_hdr sz k ty\<rparr>, [])) (f sz n)"
    using d p l(2) hf by (cases "f sz n") (simp_all add: dson_get_def dson_key_def local_simps)
  then show ?thesis using that [of b "?d\<lparr>d_header := host_hdr sz k ty\<rparr>"] d by (simp add: data_ptr_def)
qed

lemma to_very_big_struct_params:
  assumes "data_ptr d = Some (b, o')" "heap m b = Some (xs @ big_params False s @ bs_data s @ ys)" "length xs = o'"
    and "length (bs_data s) < 2 ^ 32"
  shows "to_very_big_struct m (Some (ObjDson d kv)) re = Some (re\<lparr>bs_param1 := bs_param1 s,
    bs_param2 := bs_param2 s, bs_param3 := bs_param3 s, bs_data := bs_data s\<rparr>)"
proof -
  let ?w = "word_of_nat (length (bs_data s)) :: u32" and ?n = "length (bs_data s)"
  have u: "unat ?w = ?n" using assms(4) by (simp add: unat_of_nat)
  have h: "heap m b = Some (xs @ store16 (bs_param1 s) @ store16 (bs_param2 s) @ store16 (bs_param3 s) @ store32 ?w @ bs_data s @ ys)"
    using assms(2) by (simp add: big_params_def put16_def put32_def)
  have r: "mread m (b, o') 2 = Some (store16 (bs_param1 s))" "mread m (b, o' + 2) 2 = Some (store16 (bs_param2 s))"
    "mread m (b, o' + 4) 2 = Some (store16 (bs_param3 s))" "mread m (b, o' + 6) 4 = Some (store32 ?w)"
    "mread m (b, o' + 10) ?n = Some (bs_data s)"
    using mread_at [of m b xs "store16 (bs_param1 s)" _ o' 2]
      mread_at [of m b "xs @ store16 (bs_param1 s)" "store16 (bs_param2 s)" _ "o' + 2" 2]
      mread_at [of m b "xs @ store16 (bs_param1 s) @ store16 (bs_param2 s)" "store16 (bs_param3 s)" _ "o' + 4" 2]
      mread_at [of m b "xs @ store16 (bs_param1 s) @ store16 (bs_param2 s) @ store16 (bs_param3 s)" "store32 ?w" _ "o' + 6" 4]
      mread_at [of m b "xs @ store16 (bs_param1 s) @ store16 (bs_param2 s) @ store16 (bs_param3 s) @ store32 ?w" "bs_data s" ys "o' + 10" ?n]
      h assms(3) by simp_all
  then show ?thesis
    using assms(1) u by (simp add: to_very_big_struct_def mread16_def mread32_def padd_def numeral_2_eq_2)
qed

text \<open>What \<open>save_advanced\<close> writes, loaded in whichever way.\<close>

lemma save_advanced_file: "bs_wf s \<Longrightarrow> save_advanced s = Some (big_wire True s)"
  using bs_prepared [of s True] by (simp add: save_advanced_def bs_copy_to_stream_def big_wire_def)

abbreviation big_message :: "big_struct \<Rightarrow> byte list" where
  "big_message s \<equiv> net_hdr (10 + int (length (bs_data s))) (bs_key s) big_struct_type"

lemma big_wire_message: "big_wire True s = big_message s @ big_params True s @ bs_data s"
  by (simp add: big_wire_def big_header_def hdr_for_def)

lemma big_message_facts:
  assumes "int (length (bs_data s)) + 10 \<le> max_dson_ram_size"
  shows "length (bs_data s) < 2 ^ 32" "i32_ok (10 + int (length (bs_data s)))" "i32_ok (bs_key s)"
    "i32_ok big_struct_type" "big_struct_type \<noteq> types_map T_DsonContainer"
  using assms by (simp_all add: max_dson_ram_size_def i32_okI bs_key_def big_struct_type_def type_ids)

lemma got_advanced_message:
  assumes "loaded_msg (big_message s) (big_params True s @ bs_data s) (m, d, kv)"
    and "int (length (bs_data s)) + 10 \<le> max_dson_ram_size"
  shows "got_advanced m d kv (bs_key s) re =
    Some (re\<lparr>bs_param1 := bs_param1 s, bs_param2 := bs_param2 s, bs_param3 := bs_param3 s, bs_data := bs_data s\<rparr>)"
proof -
  note small = big_message_facts [OF assms(2)]
  have ne: "big_params True s @ bs_data s \<noteq> []"
    by (metis append_is_Nil_conv length_big_params list.size(3) zero_neq_numeral)
  have cv: "to_host_order example_converters (of_i32 big_struct_type) = Some (conv_big ntohs ntohl)"
    by (simp add: example_converters_eq)
  obtain b d' where g: "dson_get example_converters m d kv (bs_key s) =
      Some (Self, upd_block m b (big_params False s @ bs_data s), d', [])" "data_ptr d' = Some (b, 0)"
    using get_single [where f = "conv_big ntohs ntohl", OF assms(1) ne small(2-5) cv]
      conv_big_layout(2) [of "10 + int (length (bs_data s))" s "bs_data s"]
    by (metis option.simps(9))
  have "to_very_big_struct (upd_block m b (big_params False s @ bs_data s)) (Some (ObjDson d' [])) re =
      Some (re\<lparr>bs_param1 := bs_param1 s, bs_param2 := bs_param2 s, bs_param3 := bs_param3 s, bs_data := bs_data s\<rparr>)"
    by (rule to_very_big_struct_params [of _ b 0 _ "[]" s "[]"]) (use g(2) small(1) in simp_all)
  then show ?thesis using g(1) by (simp add: got_advanced_def)
qed

lemma can_load_new [simp]: "can_load m (dson_fields (host_hdr 0 0 (types_map T_Empty))) []"
  by (simp add: can_load_def dson_fields_def header_loc_def own_blocks_def)

lemma length_dson_fields_header [simp]: "length (d_header (dson_fields h)) = length h"
  by (simp add: dson_fields_def)

text \<open>
  \<open>save_and_load_advanced\<close>: a \<open>VeryBigStruct\<close> written to a stream is loaded as a \<open>Dson\<close>
  of that type under the same key, and \<open>to_my_struct\<close> of what \<open>get\<close> finds has the parameters
  and the data of the original.
\<close>

theorem big_struct_save_and_load:
  assumes "bs_wf s" "int (length (bs_data s)) + 10 \<le> max_dson_ram_size"
    and "length (bs_data s) + 10 \<le> malloc_limit m" "mem_ok m"
  shows "\<exists>output. save_advanced s = Some output \<and> load_advanced m (bs_key s) output re =
    Some (re\<lparr>bs_param1 := bs_param1 s, bs_param2 := bs_param2 s, bs_param3 := bs_param3 s, bs_data := bs_data s\<rparr>)"
proof -
  let ?d0 = "dson_fields (host_hdr 0 0 (types_map T_Empty))" and ?n = "big_params True s @ bs_data s"
  note small = big_message_facts [OF assms(2)]
  have "\<exists>m' d' kv'. load_from_stream m ?d0 [] (big_message s @ ?n @ []) = Some (m', d', kv', []) \<and>
      loaded_msg (big_message s) ?n (m', d', kv')"
    by (rule load_from_stream_complete) (use assms small net_hdr_facts in simp_all)
  then show ?thesis
    using got_advanced_message [OF _ assms(2)] save_advanced_file [OF assms(1)] big_wire_message [of s]
    by (auto simp: load_advanced_def dson_new_eq)
qed

text \<open>
  C36: The second half of \<open>save_and_load_advanced\<close>: loaded from a descriptor in as many calls of
  \<open>load_from_fd\<close> as it takes, the file gives the same struct.  The loop ends: when every call
  gives at least one byte, after no more calls than the file has bytes.
\<close>

theorem big_struct_load_from_fd:
  assumes "bs_wf s" "int (length (bs_data s)) + 10 \<le> max_dson_ram_size"
    and "length (bs_data s) + 10 \<le> malloc_limit m" "mem_ok m"
    and "\<forall>script \<in> set scripts. giving script" "length (bs_data s) + 26 \<le> length scripts"
  shows "\<exists>output. save_advanced s = Some output \<and> load_advanced_fd m (bs_key s) output scripts re =
    Some (Ready, Some (re\<lparr>bs_param1 := bs_param1 s, bs_param2 := bs_param2 s, bs_param3 := bs_param3 s,
      bs_data := bs_data s\<rparr>))"
proof -
  let ?d0 = "dson_fields (host_hdr 0 0 (types_map T_Empty))" and ?n = "big_params True s @ bs_data s"
  note small = big_message_facts [OF assms(2)]
  have len: "length (big_wire True s) = length (bs_data s) + 26" "big_wire True s \<noteq> []"
    using big_wire_message [of s] by (auto simp: net_hdr_facts)
  have "d_state ?d0 = StReady" by (simp add: dson_fields_def)
  then have l: "loading (big_message s) ?n (m, ?d0, []) (big_wire True s)"
    using assms(2-4) small net_hdr_facts by (simp add: loading_def msg_fits_def big_wire_message)
  have "\<exists>m' d' kv' fd'. load_fd_loop m ?d0 [] \<lparr>r_script = [], r_data = big_wire True s\<rparr> scripts =
      Some (Ready, m', d', kv', fd') \<and> loaded_msg (big_message s) ?n (m', d', kv') \<and> r_data fd' = []"
    by (rule load_fd_loop_loads [OF l]) (use assms(5,6) len in simp_all)
  then show ?thesis
    using got_advanced_message [OF _ assms(2)] save_advanced_file [OF assms(1)]
    by (auto simp: load_advanced_fd_def dson_new_eq)
qed

lemma big_struct_load_from_fd_witness:
  "\<exists>output. save_advanced sample_big = Some output \<and>
    load_advanced_fd \<lparr>heap = Map.empty, next_block = 3, malloc_limit = 50, malloc_fill = (\<lambda>_. 0)\<rparr> 12345 output
      (replicate 60 [RdGive 5, RdFail EAGAIN]) sample_big = Some (Ready, Some sample_big)"
proof -
  have e: "sample_big\<lparr>bs_param1 := bs_param1 sample_big, bs_param2 := bs_param2 sample_big,
      bs_param3 := bs_param3 sample_big, bs_data := bs_data sample_big\<rparr> = sample_big" by simp
  show ?thesis
    using big_struct_load_from_fd [of sample_big "\<lparr>heap = Map.empty, next_block = 3, malloc_limit = 50,
        malloc_fill = (\<lambda>_. 0)\<rparr>" "replicate 60 [RdGive 5, RdFail EAGAIN]" sample_big]
      sample_big_facts(1) sample_big_facts(5)
    unfolding sample_big_facts(2) e by (simp add: max_dson_ram_size_def mem_ok_def giving_def soft_reads_def)
qed

lemma big_struct_save_and_load_witness:
  "\<exists>output. save_advanced sample_big = Some output \<and>
    load_advanced \<lparr>heap = Map.empty, next_block = 3, malloc_limit = 50, malloc_fill = (\<lambda>_. 0)\<rparr> 12345 output sample_big =
      Some sample_big"
proof -
  have e: "sample_big\<lparr>bs_param1 := bs_param1 sample_big, bs_param2 := bs_param2 sample_big,
      bs_param3 := bs_param3 sample_big, bs_data := bs_data sample_big\<rparr> = sample_big" by simp
  show ?thesis
    using big_struct_save_and_load [of sample_big "\<lparr>heap = Map.empty, next_block = 3, malloc_limit = 50,
        malloc_fill = (\<lambda>_. 0)\<rparr>" sample_big] sample_big_facts(1) sample_big_facts(5)
    unfolding sample_big_facts(2) e by (simp add: max_dson_ram_size_def mem_ok_def)
qed

text \<open>
  The converter of \<open>MyStruct\<close> believes the length in the data.  When a received object of
  that type claims a longer name than it has bytes for, \<open>get\<close> with its key reads and writes
  past the end of the buffer.
\<close>

theorem my_struct_length_not_checked:
  assumes "loaded_msg (net_hdr sz k my_struct_type) n (m, d, kv)" "4 \<le> length n" "i32_ok sz" "i32_ok k"
    and "length n < 4 + unat (ntohl (load32 (take 4 n))) + 2"
  shows "dson_get example_converters m d kv k = None"
proof -
  have ne: "n \<noteq> []" using assms(2) by auto
  have cv: "to_host_order example_converters (of_i32 my_struct_type) = Some conv_my_to_host"
    by (simp add: example_converters_eq)
  have "conv_my_to_host sz n = None"
    using assms(2,5) by (simp add: conv_my_to_host_def Let_def seg_def)
  then show ?thesis
    using get_single [where f = conv_my_to_host, OF assms(1) ne assms(3,4) my_struct_type_ok cv]
    by (metis option.simps(8))
qed

lemma my_struct_length_not_checked_witness:
  "\<exists>m d. loaded_msg (net_hdr 5 1 my_struct_type) [0, 0, 1, 0, 65] (m, d, []) \<and>
    dson_get example_converters m d [] 1 = None"
proof -
  let ?m = "\<lparr>heap = [0 \<mapsto> [0, 0, 1, 0, 65]], next_block = 1, malloc_limit = 50, malloc_fill = (\<lambda>_. 0)\<rparr>"
  let ?d = "(dson_fields (net_hdr 5 1 my_struct_type))\<lparr>d_kind := DataBufNeedParse, d_was_alloc := True,
    d_buf_size := 5, d_buf := Some (0, 0)\<rparr>"
  have l: "loaded_msg (net_hdr 5 1 my_struct_type) [0, 0, 1, 0, 65] (?m, ?d, [])"
    by (simp add: loaded_msg_def mem_ok_def dson_fields_def)
  have "unat (ntohl (load32 [0, 0, 1, 0])) = 256"
    by (simp add: ntohl_def store_load32) (simp add: load32_def)
  then have "dson_get example_converters ?m ?d [] 1 = None"
    by (intro my_struct_length_not_checked [OF l]) simp_all
  with l show ?thesis by blast
qed

end
