(* ===== verification/Received.thy ===== *)
theory Received
  imports Dson_Values
begin

text \<open>
  Reading several objects of one received message: a parsed container keeps views on its
  buffer, and each \<open>get\<close> converts one entry of the buffer in place.  The entries and the map
  are followed through any number of calls.
\<close>

section \<open>Parsed containers\<close>

definition opened :: "mem \<Rightarrow> dson \<Rightarrow> kvmap \<Rightarrow> nat \<Rightarrow> (byte list \<times> byte list) list \<Rightarrow> bool" where
  "opened m d kv b es \<longleftrightarrow> d_kind d = DsonContainer \<and> d_state d = StReady \<and> d_was_alloc d \<and> d_buf d = Some (b, 0) \<and>
     views_only kv \<and> length (d_header d) = 16 \<and> heap m b = Some (entries_wire es) \<and> (\<forall>e \<in> set es. entry_ok e) \<and>
     distinct (map (\<lambda>e. hdr_field (fst e) 2) es) \<and>
     (\<forall>xs h x ys. es = xs @ (h, x) # ys \<longrightarrow> kv_find (hdr_field h 2) kv =
        Some (ObjDson (view_rec m (b, length (entries_wire xs)) (view_kind h)) []))"

lemma opened_entry:
  assumes "opened m d kv b (xs @ (h, x) # ys)"
  defines "v \<equiv> view_rec m (b, length (entries_wire xs)) (view_kind h)"
  shows "kv_find (hdr_field h 2) kv = Some (ObjDson v [])" "length h = 16"
    "heap m b = Some (entries_wire xs @ h @ x @ entries_wire ys)"
    "hdr_field h (Suc 0) = int (length x)" "int (length x) \<le> max_dson_ram_size"
    "header_loc v = Some (b, length (entries_wire xs))" "d_state v = StReady"
    "data_ptr v = Some (b, length (entries_wire xs) + 16)" "d_kind v = view_kind h"
    "is_host_order m v = Some (hdr_is_host h)" "dson_data_type m v = Some (hdr_field h 3)"
    "dson_data_size m v [] = Some (int (length x))"
proof -
  show "kv_find (hdr_field h 2) kv = Some (ObjDson v [])" using assms(1) by (simp add: opened_def v_def)
  have h: "heap m b = Some (entries_wire xs @ h @ x @ entries_wire ys)" "length h = 16"
    "hdr_field h (Suc 0) = int (length x)" "int (length x) \<le> max_dson_ram_size"
    using assms(1) by (auto simp: opened_def entry_ok_def)
  then show "heap m b = Some (entries_wire xs @ h @ x @ entries_wire ys)" "length h = 16"
    "hdr_field h (Suc 0) = int (length x)" "int (length x) \<le> max_dson_ram_size" by simp_all
  show v: "header_loc v = Some (b, length (entries_wire xs))" "d_state v = StReady"
    "data_ptr v = Some (b, length (entries_wire xs) + 16)" "d_kind v = view_kind h"
    by (simp_all add: v_def data_ptr_def header_size_def padd_def)
  have loc: "heap m (fst (b, length (entries_wire xs))) = Some (entries_wire xs @ h @ x @ entries_wire ys)"
    "snd (b, length (entries_wire xs)) + 16 \<le> length (entries_wire xs @ h @ x @ entries_wire ys)"
    using h by simp_all
  have sg: "seg (entries_wire xs @ h @ x @ entries_wire ys) (length (entries_wire xs)) 16 = h"
    using h(2) by (simp add: seg_append2 seg_def)
  show "is_host_order m v = Some (hdr_is_host h)" using view_order(1) [OF v(1) loc] sg by simp
  show "dson_data_type m v = Some (hdr_field h 3)"
    using view_read [OF v(1) loc, of 3] sg v(2) by (simp add: dson_data_type_def)
  show "dson_data_size m v [] = Some (int (length x))"
    using view_read [OF v(1) loc, of 1] sg v(4) h(3)
    by (simp add: dson_data_size_def view_kind_def split: if_splits)
qed

lemma append_Cons_cases:
  "xs @ e # ys = us @ g # vs \<longleftrightarrow> (us = xs \<and> g = e \<and> vs = ys) \<or>
     (\<exists>zs. xs = us @ g # zs \<and> vs = zs @ e # ys) \<or> (\<exists>zs. us = xs @ e # zs \<and> ys = zs @ g # vs)"
  by (auto simp: append_eq_append_conv2 append_eq_Cons_conv Cons_eq_append_conv)

text \<open>An entry changes in place: the others are where they were.\<close>

lemma opened_replace:
  assumes o: "opened m d kv b (xs @ (h, x) # ys)"
    and e: "length h' = 16" "length x' = length x" "hdr_field h' (Suc 0) = hdr_field h (Suc 0)"
      "hdr_field h' 2 = hdr_field h 2" "hdr_field h' 3 = hdr_field h 3"
    and kv: "\<And>k. kv_find k kv' = kv_find k kv" and vs: "views_only kv'"
  shows "opened (upd_block m b (entries_wire (xs @ (h', x') # ys))) d kv' b (xs @ (h', x') # ys)"
proof -
  let ?m = "upd_block m b (entries_wire (xs @ (h', x') # ys))"
  have vr: "view_rec (upd_block m b bs) p k = view_rec m p k" for bs p k by (simp add: view_rec_def raw_header_def)
  have vk: "view_kind h' = view_kind h" using e(5) by (simp add: view_kind_def)
  have lh: "length h = 16" using opened_entry(2) [OF o] .
  have f: "kv_find (hdr_field g 2) kv' = Some (ObjDson (view_rec m (b, length (entries_wire us)) (view_kind g)) [])"
    if s: "xs @ (h', x') # ys = us @ (g, y) # vs" for us g y vs
  proof -
    have old: "kv_find (hdr_field g 2) kv = Some (ObjDson (view_rec m (b, length (entries_wire us')) (view_kind g)) [])"
      if "xs @ (h, x) # ys = us' @ (g, y) # vs'" for us' vs'
      using o that by (simp add: opened_def)
    consider (here) "us = xs" "(g, y) = (h', x')" | (left) zs where "xs = us @ (g, y) # zs"
      | (right) zs where "us = xs @ (h', x') # zs" "ys = zs @ (g, y) # vs"
      using s unfolding append_Cons_cases by blast
    then show ?thesis
    proof cases
      case here
      then show ?thesis using opened_entry(1) [OF o] e(4) vk kv by simp
    next
      case left
      then show ?thesis using old [of us "zs @ (h, x) # ys"] kv by simp
    next
      case right
      then show ?thesis using old [of "xs @ (h, x) # zs" vs] kv e(1,2) lh by simp
    qed
  qed
  have "\<forall>e \<in> set (xs @ (h', x') # ys). entry_ok e"
    using o e by (auto simp: opened_def entry_ok_def)
  moreover have "distinct (map (\<lambda>e. hdr_field (fst e) 2) (xs @ (h', x') # ys))"
    using o e(4) by (auto simp: opened_def)
  ultimately show ?thesis using o f vs by (simp add: opened_def vr)
qed

lemma opened_live: "opened m d kv b es \<Longrightarrow> heap m b \<noteq> None"
  by (simp add: opened_def)

text \<open>Only what the keys lead to matters, not the order in which the map came about.\<close>

lemma opened_kv:
  assumes "opened m d kv b es" "\<And>k. kv_find k kv' = kv_find k kv" "views_only kv'"
  shows "opened m d kv' b es"
  using assms by (simp add: opened_def)

lemma opened_put_back:
  assumes "opened m d kv b es" "kv_find k kv = Some (ObjDson (view_rec m' p n) [])"
  shows "opened m d (kv_insert_or_assign k (ObjDson (view_rec m' p n) []) kv) b es"
proof (rule opened_kv [OF assms(1)])
  show "views_only (kv_insert_or_assign k (ObjDson (view_rec m' p n) []) kv)"
    by (rule views_only_insert) (use assms(1) in \<open>simp_all add: opened_def\<close>)
qed (use assms(2) in \<open>simp add: kv_find_insert\<close>)

text \<open>Memory elsewhere does not matter.\<close>

lemma opened_frame:
  "opened m d kv b es \<Longrightarrow> heap m' b = heap m b \<Longrightarrow> malloc_fill m' = malloc_fill m \<Longrightarrow> opened m' d kv b es"
  by (simp add: opened_def view_rec_def raw_header_def)

lemma views_only_entries: "views_only kv \<Longrightarrow> views_only (kv.insert_all (entry_views m b off es) kv)"
proof (induction es arbitrary: off kv)
  case (Cons e es)
  then show ?case by (cases e) (simp add: views_only_insert)
qed simp

text \<open>The message owns its buffer and nothing else.\<close>

lemma views_only_blocks: "views_only kv \<Longrightarrow> map_blocks kv = []" and views_only_owned: "views_only kv \<Longrightarrow> map_owned m kv"
proof -
  assume "views_only kv"
  then have "map_blocks kv = [] \<and> map_owned m kv"
  proof (induction kv)
    case (Cons p kv)
    then obtain k d where "p = (k, ObjDson d [])" "\<not> d_was_alloc d" by (cases p) (auto simp: views_only_def)
    then show ?case using Cons by (simp add: views_only_def own_blocks_def)
  qed simp
  then show "map_blocks kv = []" "map_owned m kv" by simp_all
qed

lemma opened_owns:
  assumes "opened m d kv b es"
  shows "obj_owned m (ObjDson d kv)" "obj_blocks (ObjDson d kv) = [b]" "can_load m d kv"
  using assms views_only_blocks [of kv] views_only_owned [of kv m]
  by (simp_all add: opened_def own_blocks_def can_load_def header_loc_def)

text \<open>\<open>get\<close> of the first key parses; the map it leaves is that of the entries.\<close>

lemma loaded_opened:
  assumes l: "loaded_msg h (entries_wire es) (m, d, kv)" and ne: "es \<noteq> []"
    and ty: "hdr_field h 3 = types_map T_DsonContainer" and es: "\<forall>e \<in> set es. entry_ok e"
    and dist: "distinct (map (\<lambda>e. hdr_field (fst e) 2) es)" and lh: "length h = 16"
  obtains b kv' where "opened m (d\<lparr>d_kind := DsonContainer\<rparr>) kv' b es" "d_buf d = Some (b, 0)"
    "\<And>cv k. dson_get cv m d kv k = dson_get cv m (d\<lparr>d_kind := DsonContainer\<rparr>) kv' k"
proof -
  have ne': "entries_wire es \<noteq> []" using ne es by (cases es) (auto simp: entry_ok_def)
  obtain b where b: "d_buf d = Some (b, 0)" "heap m b = Some (entries_wire es)"
    "parse_buf m d kv = Some (m, d\<lparr>d_kind := DsonContainer\<rparr>, kv.insert_all (entry_views m b 0 es) [])"
    using parse_buf_entries [OF l ne' ty es] by blast
  let ?d = "d\<lparr>d_kind := DsonContainer\<rparr>" and ?kv = "kv.insert_all (entry_views m b 0 es) []"
  have st: "d_state d = StReady" "d_kind d = DataBufNeedParse" "d_was_alloc d"
    using l ne' by (auto simp: loaded_msg_def split: if_splits)
  have "kv_find (hdr_field g 2) ?kv = Some (ObjDson (view_rec m (b, length (entries_wire us)) (view_kind g)) [])"
    if "es = us @ (g, y) # vs" for us g y vs
    using find_entry [of us g y vs m b] es dist that by simp
  moreover have "views_only ?kv" by (rule views_only_entries) simp
  moreover have "length (d_header d) = 16" using l lh by (simp add: loaded_msg_def)
  ultimately have "opened m ?d ?kv b es" using st b(1,2) es dist by (simp add: opened_def)
  moreover have "dson_get cv m d kv k = dson_get cv m ?d ?kv k" for cv k
    using b(3) st by (simp add: dson_get_def)
  ultimately show ?thesis using that b(1) by blast
qed

section \<open>get in a parsed container\<close>

lemma opened_get:
  assumes o: "opened m d kv b (xs @ (h, x) # ys)"
    and c: "to_host cv m (view_rec m (b, length (entries_wire xs)) (view_kind h)) =
      Some (upd_block m b (entries_wire (xs @ (h', x') # ys)),
        view_rec m (b, length (entries_wire xs)) (view_kind h))"
    and e: "length h' = 16" "length x' = length x" "hdr_field h' (Suc 0) = hdr_field h (Suc 0)"
      "hdr_field h' 2 = hdr_field h 2" "hdr_field h' 3 = hdr_field h 3"
  obtains kv' where "dson_get cv m d kv (hdr_field h 2) =
      Some (Child (hdr_field h 2), upd_block m b (entries_wire (xs @ (h', x') # ys)), d, kv')"
    "opened (upd_block m b (entries_wire (xs @ (h', x') # ys))) d kv' b (xs @ (h', x') # ys)"
proof -
  let ?k = "hdr_field h 2" and ?v = "view_rec m (b, length (entries_wire xs)) (view_kind h)"
  note f = opened_entry(1) [OF o]
  have st: "d_kind d = DsonContainer" "d_state d = StReady" using o by (simp_all add: opened_def)
  let ?kv = "kv_insert_or_assign ?k (ObjDson ?v []) kv"
  have "dson_get cv m d kv ?k = Some (Child ?k, upd_block m b (entries_wire (xs @ (h', x') # ys)), d, ?kv)"
    using st f c by (simp add: dson_get_def get_internal_def obj_to_host_def)
  moreover have "kv_find k ?kv = kv_find k kv" for k using f by (simp add: kv_find_insert)
  moreover have "views_only ?kv" by (rule views_only_insert) (use o in \<open>simp_all add: opened_def\<close>)
  ultimately show ?thesis using that opened_replace [OF o e, of ?kv] by blast
qed

text \<open>An entry in host order, or of a type without converter, is left as it is.\<close>

lemma opened_get_same:
  assumes o: "opened m d kv b (xs @ (h, x) # ys)"
    and c: "hdr_is_host h \<or> to_host_order cv (of_i32 (hdr_field h 3)) = None"
  obtains kv' where "dson_get cv m d kv (hdr_field h 2) = Some (Child (hdr_field h 2), m, d, kv')"
    "opened m d kv' b (xs @ (h, x) # ys)"
proof -
  note oe = opened_entry [OF o]
  have "upd_block m b (entries_wire (xs @ (h, x) # ys)) = m" using oe(3) by (simp add: upd_block_idem)
  moreover have "to_host cv m (view_rec m (b, length (entries_wire xs)) (view_kind h)) =
      Some (m, view_rec m (b, length (entries_wire xs)) (view_kind h))"
    using c oe(10,11) by (auto simp: to_host_def)
  ultimately show ?thesis using opened_get [OF o, of cv h x] oe(2) that by metis
qed

text \<open>An entry in network order is converted.\<close>

lemma opened_get_converted:
  assumes o: "opened m d kv b (xs @ (net_hdr sz k ty, n) # ys)"
    and n: "i32_ok sz" "i32_ok k" "i32_ok ty" "to_host_order cv (of_i32 ty) = Some f"
      "f sz (n @ entries_wire ys) = Some (x @ entries_wire ys)" "length x = length n"
  obtains kv' where "dson_get cv m d kv k =
      Some (Child k, upd_block m b (entries_wire (xs @ (host_hdr sz k ty, x) # ys)), d, kv')"
    "opened (upd_block m b (entries_wire (xs @ (host_hdr sz k ty, x) # ys))) d kv' b (xs @ (host_hdr sz k ty, x) # ys)"
proof -
  note oe = opened_entry [OF o]
  have c: "to_host cv m (view_rec m (b, length (entries_wire xs)) (view_kind (net_hdr sz k ty))) =
      Some (upd_block m b (entries_wire (xs @ (host_hdr sz k ty, x) # ys)),
        view_rec m (b, length (entries_wire xs)) (view_kind (net_hdr sz k ty)))"
    using to_host_converted [OF oe(3,6,7,8) n(1,3,4,5)] by simp
  have e: "hdr_field (host_hdr sz k ty) (Suc 0) = sz" "hdr_field (host_hdr sz k ty) 2 = k" "hdr_field (host_hdr sz k ty) 3 = ty"
    using hdr_field_for [of _ False] n by (simp_all add: hdr_for_def)
  show ?thesis
    by (rule opened_get [OF o c]) (use that n e in \<open>simp_all add: net_hdr_facts\<close>)
qed

text \<open>A 32-bit number is found as its value in host order; taking the object out and putting it back changes nothing.\<close>

lemma opened_get_word:
  assumes o: "opened m d kv b (xs @ (net_hdr 4 k (types_map t), be32 w) # ys)" and k: "i32_ok k"
    and f: "to_host_order cv (type_key t) = Some (conv32 ntohl)"
  obtains m1 kv1 v where "m1 = upd_block m b (entries_wire (xs @ (host_hdr 4 k (types_map t), store32 w) # ys))"
    "dson_get cv m d kv k = Some (Child k, m1, d, kv1)" "kv_find k kv1 = Some (ObjDson v [])"
    "host_leaf m1 v t (store32 w)"
    "opened m1 d (kv_insert_or_assign k (ObjDson v []) kv1) b (xs @ (host_hdr 4 k (types_map t), store32 w) # ys)"
proof -
  let ?ty = "types_map t" and ?es = "xs @ (host_hdr 4 k (types_map t), store32 w) # ys"
  have "store32 (ntohl (load32 (be32 w))) = store32 w" by (simp add: be32_def ntohl_def store_load32)
  then have c: "conv32 ntohl 4 (be32 w @ entries_wire ys) = Some (store32 w @ entries_wire ys)"
    by (simp add: conv32_def patch_def seg_def)
  have i: "i32_ok 4" by (simp add: i32_ok_iff)
  define m1 where "m1 = upd_block m b (entries_wire ?es)"
  obtain kv1 where g: "dson_get cv m d kv k = Some (Child k, m1, d, kv1)" "opened m1 d kv1 b ?es"
    using opened_get_converted [OF o i(1) k _ f [unfolded type_key_def] c] unfolding m1_def by auto
  have hf: "hdr_field (host_hdr 4 k ?ty) 2 = k" "hdr_field (host_hdr 4 k ?ty) 3 = ?ty" "hdr_is_host (host_hdr 4 k ?ty)"
    using hdr_field_for [of _ False] k by (simp_all add: hdr_for_def hdr_simps)
  let ?v = "view_rec m1 (b, length (entries_wire xs)) (view_kind (host_hdr 4 k ?ty))"
  note oe = opened_entry [OF g(2), unfolded hf]
  have "mread m1 (b, length (entries_wire xs) + 16) 4 = Some (store32 w)"
    using mread_at [of m1 b "entries_wire xs @ host_hdr 4 k ?ty" "store32 w" "entries_wire ys"] oe(3) by simp
  then have "host_leaf m1 ?v t (store32 w)" using oe(8,10,11) hf(3) by (simp add: host_leaf_def)
  then show ?thesis using that [OF m1_def g(1) oe(1)] opened_put_back [OF g(2) oe(1)] by simp
qed

text \<open>A string is found as its characters.\<close>

lemma opened_view_string:
  assumes o: "opened m d kv b (xs @ (h, s) # ys)" and ty: "hdr_field h 3 = types_map T_string"
  shows "to_string_view m (Some (ObjDson (view_rec m (b, length (entries_wire xs)) (view_kind h)) [])) = Some s"
proof -
  note oe = opened_entry [OF o]
  have "i32_ok (int (length s))" using oe(5) max_ram_i32 by (simp add: i32_ok_def i32_min_def)
  then have u: "unat (of_i32 (int (length s))) = length s" by (simp add: unat_of_nat)
  have "mread m (b, length (entries_wire xs) + 16) (length s) = Some s"
    using mread_at [of m b "entries_wire xs @ h" s "entries_wire ys"] oe(2,3) by simp
  then show ?thesis using oe(8,11,12) ty u by (simp add: to_string_view_def to_string_view_dson_def)
qed

lemma opened_get_string:
  assumes o: "opened m d kv b (xs @ (h, s) # ys)" and ty: "hdr_field h 3 = types_map T_string"
  obtains kv' v where "dson_get lib_converters m d kv (hdr_field h 2) = Some (Child (hdr_field h 2), m, d, kv')"
    "opened m d kv' b (xs @ (h, s) # ys)" "kv_find (hdr_field h 2) kv' = Some (ObjDson v [])"
    "to_string_view m (Some (ObjDson v [])) = Some s"
proof -
  have "to_host_order lib_converters (of_i32 (hdr_field h 3)) = None"
    using ty by (simp add: lib_converters_eq type_key_def [symmetric])
  then obtain kv' where g: "dson_get lib_converters m d kv (hdr_field h 2) = Some (Child (hdr_field h 2), m, d, kv')"
    "opened m d kv' b (xs @ (h, s) # ys)" using opened_get_same [OF o, of lib_converters] by blast
  then show ?thesis using that opened_entry(1) [OF g(2)] opened_view_string [OF g(2) ty] by blast
qed

end
