(* ===== verification/Routing.thy ===== *)
theory Routing
  imports Received
begin

text \<open>
  Routing of messages, as the network example does it: \<open>to_address\<close>
  (\<open>custom_dson_objs/dson_route_obj.h\<close>), the class \<open>Router\<close> (\<open>router.h\<close>), the queue of
  outgoing messages and the loop of \<open>SocketServer\<close> (\<open>socket_server.h\<close>), and the services of
  \<open>star_routing\<close> (\<open>dson_network.cpp\<close>).
\<close>

section \<open>Addresses in messages\<close>

text \<open>
  The pointer \<open>to_address\<close> returns: into the data of a \<open>Dson\<close>, or into the buffer of the
  \<open>DsonRouteObj\<close> itself; none is null.
\<close>

datatype addr_ref = AddrAt ptr | AddrIn

definition to_address :: "converters \<Rightarrow> mem \<Rightarrow> dson_obj option \<Rightarrow>
    (addr_ref option \<times> mem \<times> dson_obj option) option" where
  "to_address cv m obj = (case obj of
     Some (ObjDson d kv) \<Rightarrow> do {
       (m, d) \<leftarrow> to_host cv m d;
       Some (map_option AddrAt (data_ptr d), m, Some (ObjDson d kv))
     }
   | Some (ObjRoute r) \<Rightarrow> Some (Some AddrIn, m, Some (ObjRoute (snd (ro_address r))))
   | _ \<Rightarrow> Some (None, m, obj))"

text \<open>What is read through the pointer.\<close>

definition read_address :: "mem \<Rightarrow> dson_obj option \<Rightarrow> addr_ref \<Rightarrow> address option" where
  "read_address m obj ref = (case ref of
     AddrAt p \<Rightarrow> do {
       a \<leftarrow> mread32 m p;
       b \<leftarrow> mread32 m (padd p 4);
       c \<leftarrow> mread32 m (padd p 8);
       d \<leftarrow> mread32 m (padd p 12);
       Some \<lparr>from_serv_id = a, from_cli_id = b, to_serv_id = c, to_cli_id = d\<rparr>
     }
   | AddrIn \<Rightarrow> (case obj of Some (ObjRoute r) \<Rightarrow> Some (fst (ro_address r)) | _ \<Rightarrow> None))"

text \<open>The object \<open>get\<close> points to, and the object changed through the pointer.\<close>

definition pointed :: "found \<Rightarrow> dson \<Rightarrow> kvmap \<Rightarrow> dson_obj option" where
  "pointed f d kv = (case f of NotFound \<Rightarrow> None | Self \<Rightarrow> Some (ObjDson d kv) | Child k \<Rightarrow> kv_find k kv)"

definition put_pointed :: "found \<Rightarrow> dson_obj option \<Rightarrow> dson \<Rightarrow> kvmap \<Rightarrow> dson \<times> kvmap" where
  "put_pointed f obj d kv = (case (f, obj) of
     (Self, Some (ObjDson d' kv')) \<Rightarrow> (d', kv')
   | (Child k, Some obj) \<Rightarrow> (d, kv_insert_or_assign k obj kv)
   | _ \<Rightarrow> (d, kv))"

text \<open>\<open>to_address(dson.get(key))\<close> and the address read through it, none for null.\<close>

definition message_address :: "converters \<Rightarrow> i32 \<Rightarrow> mem \<Rightarrow> dson \<Rightarrow> kvmap \<Rightarrow>
    (address option \<times> mem \<times> dson \<times> kvmap) option" where
  "message_address cv key m d kv = do {
     (f, m, d, kv) \<leftarrow> dson_get cv m d kv key;
     (ref, m, obj) \<leftarrow> to_address cv m (pointed f d kv);
     let (d, kv) = put_pointed f obj d kv;
     case ref of
       None \<Rightarrow> Some (None, m, d, kv)
     | Some ref \<Rightarrow> do { a \<leftarrow> read_address m obj ref; Some (Some a, m, d, kv) }
   }"

section \<open>The server\<close>

text \<open>The callbacks of the routing table: a service, with its own counter, or the connection.\<close>

datatype callback = EchoService u32 | ToConnection

record server =
  sv_mem :: mem
  route_table :: "u32 \<Rightarrow> callback option"
  chunk_ids :: "u32 \<Rightarrow> u32"
  write_deque :: "dson_obj list"
  connection :: wfd
  keep_run :: bool

definition add_route :: "u32 \<Rightarrow> callback \<Rightarrow> server \<Rightarrow> server" where
  "add_route cli_id cb sv = sv\<lparr>route_table := (route_table sv)(cli_id \<mapsto> cb)\<rparr>"

text \<open>
  \<open>send_dson_from_deque\<close>: objects are sent one after the other until the connection takes no
  more; the ones that are through are removed.
\<close>

fun send_deque :: "converters \<Rightarrow> mem \<Rightarrow> dson_obj list \<Rightarrow> wfd \<Rightarrow> (bool \<times> mem \<times> dson_obj list \<times> wfd) option" where
  "send_deque cv m [] fd = Some (True, m, [], fd)"
| "send_deque cv m (obj # q) fd = do {
     (r, fd, m, obj) \<leftarrow> copy_to_fd cv True m obj fd;
     case r of
       Ready \<Rightarrow> do { m \<leftarrow> obj_destroy m obj; send_deque cv m q fd }
     | InProcess \<Rightarrow> Some (True, m, obj # q, fd)
     | Error \<Rightarrow> Some (False, m, obj # q, fd)
   }"

definition send_dson_from_deque :: "converters \<Rightarrow> server \<Rightarrow> server option" where
  "send_dson_from_deque cv sv = do {
     (ok, m, q, fd) \<leftarrow> send_deque cv (sv_mem sv) (write_deque sv) (connection sv);
     Some (sv\<lparr>sv_mem := m, write_deque := q, connection := fd, keep_run := ok \<and> keep_run sv\<rparr>)
   }"

text \<open>The callback of the connection: the message is moved to the end of the queue.\<close>

definition server_send_dson :: "converters \<Rightarrow> server \<Rightarrow> dson \<Rightarrow> kvmap \<Rightarrow> (server \<times> dson \<times> kvmap) option" where
  "server_send_dson cv sv d kv = (case dson_move_construct (sv_mem sv) d kv of
     ((queued, qkv), (moved, mkv)) \<Rightarrow> do {
       sv \<leftarrow> send_dson_from_deque cv (sv\<lparr>write_deque := write_deque sv @ [ObjDson queued qkv]\<rparr>);
       Some (sv, moved, mkv)
     })"

section \<open>The services\<close>

datatype net_key = RouteAddress | WantAuth | Authed | SimpleData | Password | ChunkID | StringData

fun net_key_id :: "net_key \<Rightarrow> i32" where
  "net_key_id RouteAddress = 0"
| "net_key_id WantAuth = 1"
| "net_key_id Authed = 2"
| "net_key_id SimpleData = 3"
| "net_key_id Password = 4"
| "net_key_id ChunkID = 5"
| "net_key_id StringData = 6"

definition chars :: "string \<Rightarrow> byte list" where
  "chars s = map of_char s"

definition password :: "byte list" where "password = chars ''password''"

definition echo_text :: "address \<Rightarrow> byte list \<Rightarrow> byte list" where
  "echo_text a s = decimal (unat (to_cli_id a)) @ chars '' received from '' @
     decimal (unat (from_cli_id a)) @ chars '' string:'' @ s"

text \<open>\<open>make_unique<DsonRouteObj>(Key::RouteAddress, address)\<close> emplaced into the answer.\<close>

definition emplace_reply_address :: "mem \<Rightarrow> dson \<Rightarrow> kvmap \<Rightarrow> address option \<Rightarrow> (mem \<times> dson \<times> kvmap) option" where
  "emplace_reply_address m answer akv sender = emplace_ptr m answer akv
     (Some (ObjRoute (ro_new_from (map (malloc_fill m) [0..<32]) (net_key_id RouteAddress) sender)))"

text \<open>
  The branches of \<open>echo_service\<close> that make an answer; none when the service stays silent.
  A null \<open>sender_address\<close> is dereferenced by the second.
\<close>

definition auth_answer :: "converters \<Rightarrow> mem \<Rightarrow> dson \<Rightarrow> kvmap \<Rightarrow> dson \<Rightarrow> kvmap \<Rightarrow>
    (bool \<times> mem \<times> (dson \<times> kvmap) \<times> dson \<times> kvmap) option" where
  "auth_answer cv m answer akv d kv = do {
     (f, m, d, kv) \<leftarrow> dson_get cv m d kv (net_key_id Password);
     s \<leftarrow> to_string_view m (pointed f d kv);
     if s = password then do {
       (m, answer) \<leftarrow> dson_set_key m answer (net_key_id Authed);
       Some (True, m, (answer, akv), d, kv)
     } else Some (False, m, (answer, akv), d, kv)
   }"

definition data_answer :: "converters \<Rightarrow> u32 \<Rightarrow> address option \<Rightarrow> mem \<Rightarrow> dson \<Rightarrow> kvmap \<Rightarrow> dson \<Rightarrow> kvmap \<Rightarrow>
    (bool \<times> mem \<times> (dson \<times> kvmap) \<times> dson \<times> kvmap) option" where
  "data_answer cv chunk_id sender m answer akv d kv = do {
     (m, answer) \<leftarrow> dson_set_key m answer (net_key_id SimpleData);
     (m, chunk) \<leftarrow> dson_of_uint32 m chunk_id;
     (m, answer, akv) \<leftarrow> emplace_dson m answer akv (net_key_id ChunkID) (chunk, []);
     a \<leftarrow> sender;
     (f, m, d, kv) \<leftarrow> dson_get cv m d kv (net_key_id StringData);
     s \<leftarrow> to_string_view m (pointed f d kv);
     (m, str) \<leftarrow> dson_of_string m (echo_text a s);
     (m, answer, akv) \<leftarrow> emplace_dson m answer akv (net_key_id StringData) (str, []);
     Some (True, m, (answer, akv), d, kv)
   }"

text \<open>
  \<open>echo_service\<close> of one service; \<open>route\<close> is \<open>router.route\<close>, which the answer is handed
  to.  What the router leaves of the answer is destroyed at the end.
\<close>

definition echo_service :: "converters \<Rightarrow> (server \<Rightarrow> dson \<Rightarrow> kvmap \<Rightarrow> (server \<times> dson \<times> kvmap) option) \<Rightarrow>
    u32 \<Rightarrow> server \<Rightarrow> dson \<Rightarrow> kvmap \<Rightarrow> (server \<times> dson \<times> kvmap) option" where
  "echo_service cv route service sv d kv = do {
     let chunk_id = chunk_ids sv service + 1;
     let sv = sv\<lparr>chunk_ids := (chunk_ids sv)(service := chunk_id)\<rparr>;
     (m, answer) \<leftarrow> dson_new (sv_mem sv);
     (sender_address, m, d, kv) \<leftarrow> message_address cv (net_key_id RouteAddress) m d kv;
     (m, answer, akv) \<leftarrow> emplace_reply_address m answer [] sender_address;
     key \<leftarrow> dson_key m d;
     (send, m, answer, d, kv) \<leftarrow>
       (if key = net_key_id WantAuth then auth_answer cv m answer akv d kv
        else if key = net_key_id SimpleData then data_answer cv chunk_id sender_address m answer akv d kv
        else Some (False, m, (answer, akv), d, kv));
     (sv, answer) \<leftarrow> (if send then route (sv\<lparr>sv_mem := m\<rparr>) (fst answer) (snd answer)
        else Some (sv\<lparr>sv_mem := m\<rparr>, answer));
     m \<leftarrow> obj_destroy (sv_mem sv) (ObjDson (fst answer) (snd answer));
     Some (sv\<lparr>sv_mem := m\<rparr>, d, kv)
   }"

text \<open>
  \<open>Router::route\<close>, with a bound on how deep callbacks call it again.  A message without an
  address has a null pointer dereferenced.
\<close>

fun route :: "nat \<Rightarrow> converters \<Rightarrow> server \<Rightarrow> dson \<Rightarrow> kvmap \<Rightarrow> (server \<times> dson \<times> kvmap) option" where
  "route 0 cv sv d kv = None"
| "route (Suc n) cv sv d kv = do {
     (address, m, d, kv) \<leftarrow> message_address cv (net_key_id RouteAddress) (sv_mem sv) d kv;
     a \<leftarrow> address;
     let sv = sv\<lparr>sv_mem := m\<rparr>;
     case route_table sv (to_cli_id a) of
       None \<Rightarrow> Some (sv, d, kv)
     | Some ToConnection \<Rightarrow> server_send_dson cv sv d kv
     | Some (EchoService service) \<Rightarrow> echo_service cv (route n cv) service sv d kv
   }"

text \<open>\<open>star_routing\<close> registers the services 1 to 99.\<close>

definition star_table :: "u32 \<Rightarrow> callback option" where
  "star_table cli_id = (if 1 \<le> cli_id \<and> cli_id < 100 then Some (EchoService cli_id) else None)"

section \<open>The loop of the server\<close>

text \<open>
  What the loop does with a message that has arrived.  The first message registers the
  connection under the address it comes from.
\<close>

definition handle_message :: "nat \<Rightarrow> converters \<Rightarrow> server \<Rightarrow> bool \<Rightarrow> dson \<Rightarrow> kvmap \<Rightarrow> (server \<times> dson \<times> kvmap) option" where
  "handle_message n cv sv need_set_route d kv = do {
     (sv, d, kv) \<leftarrow> (if need_set_route then do {
         (address, m, d, kv) \<leftarrow> message_address cv (net_key_id RouteAddress) (sv_mem sv) d kv;
         a \<leftarrow> address;
         Some (add_route (from_cli_id a) ToConnection (sv\<lparr>sv_mem := m\<rparr>), d, kv)
       } else Some (sv, d, kv));
     (sv, d, kv) \<leftarrow> route n cv sv d kv;
     (m, d, kv) \<leftarrow> dson_clear (sv_mem sv) d kv;
     Some (sv\<lparr>sv_mem := m\<rparr>, d, kv)
   }"

text \<open>One round of \<open>server_loop\<close>: the answer says whether the loop goes on.\<close>

definition server_round :: "nat \<Rightarrow> converters \<Rightarrow> server \<Rightarrow> bool \<Rightarrow> dson \<Rightarrow> kvmap \<Rightarrow> rfd \<Rightarrow>
    (bool \<times> server \<times> bool \<times> dson \<times> kvmap \<times> rfd) option" where
  "server_round n cv sv need_set_route d kv fd = do {
     (res, m, d, kv, fd) \<leftarrow> load_from_fd (sv_mem sv) d kv fd;
     let sv = sv\<lparr>sv_mem := m\<rparr>;
     if res = Error then Some (False, sv, need_set_route, d, kv, fd)
     else do {
       (sv, need_set_route, d, kv) \<leftarrow>
         (if res = Ready then do {
            (sv, d, kv) \<leftarrow> handle_message n cv sv need_set_route d kv;
            Some (sv, False, d, kv)
          } else Some (sv, need_set_route, d, kv));
       sv \<leftarrow> send_dson_from_deque cv sv;
       Some (keep_run sv, sv, need_set_route, d, kv, fd)
     }
   }"

section \<open>Finding the address\<close>

lemma read_address_bytes:
  assumes "heap m b = Some (xs @ addr_bytes False a @ ys)" "length xs = o'"
  shows "read_address m obj (AddrAt (b, o')) = Some a"
proof -
  have h: "heap m b = Some (xs @ store32 (from_serv_id a) @ store32 (from_cli_id a) @ store32 (to_serv_id a) @
      store32 (to_cli_id a) @ ys)"
    using assms(1) by (simp add: addr_bytes_def)
  have "mread m (b, o') 4 = Some (store32 (from_serv_id a))"
    "mread m (b, o' + 4) 4 = Some (store32 (from_cli_id a))"
    "mread m (b, o' + 8) 4 = Some (store32 (to_serv_id a))"
    "mread m (b, o' + 12) 4 = Some (store32 (to_cli_id a))"
    using mread_at [of m b xs "store32 (from_serv_id a)" _ o' 4]
      mread_at [of m b "xs @ store32 (from_serv_id a)" "store32 (from_cli_id a)" _ "o' + 4" 4]
      mread_at [of m b "xs @ store32 (from_serv_id a) @ store32 (from_cli_id a)" "store32 (to_serv_id a)" _ "o' + 8" 4]
      mread_at [of m b "xs @ store32 (from_serv_id a) @ store32 (from_cli_id a) @ store32 (to_serv_id a)"
        "store32 (to_cli_id a)" ys "o' + 12" 4] h assms(2) by simp_all
  then show ?thesis by (simp add: read_address_def mread32_def padd_def)
qed

text \<open>In a received message the address is found in either byte order, and left in host order.\<close>

lemma opened_address:
  assumes o: "opened m d kv b (xs @ (hdr_for nw 16 k (types_map T_vector_uint32), addr_bytes nw a) # ys)"
    and k: "i32_ok k"
  defines "es \<equiv> xs @ (host_hdr 16 k (types_map T_vector_uint32), addr_bytes False a) # ys"
  obtains kv' where
    "message_address lib_converters k m d kv = Some (Some a, upd_block m b (entries_wire es), d, kv')"
    "opened (upd_block m b (entries_wire es)) d kv' b es"
proof -
  let ?ty = "types_map T_vector_uint32" and ?m = "upd_block m b (entries_wire es)"
  let ?v = "view_rec m (b, length (entries_wire xs)) (view_kind (host_hdr 16 k ?ty))"
  have hf: "hdr_field (hdr_for nw 16 k ?ty) 2 = k" "hdr_field (host_hdr 16 k ?ty) 2 = k"
    "hdr_is_host (host_hdr 16 k ?ty)"
  proof -
    show "hdr_field (hdr_for nw 16 k ?ty) 2 = k" using k by (rule hdr_field_for(2))
    show "hdr_field (host_hdr 16 k ?ty) 2 = k" "hdr_is_host (host_hdr 16 k ?ty)"
      using hdr_field_for(2) [OF k, of False 16 ?ty] by (simp_all add: hdr_for_def hdr_simps)
  qed
  have len: "length (addr_bytes False a) = 16" by simp
  obtain kv1 where g: "dson_get lib_converters m d kv k = Some (Child k, ?m, d, kv1)" "opened ?m d kv1 b es"
  proof (cases nw)
    case False
    then have e: "xs @ (hdr_for nw 16 k ?ty, addr_bytes nw a) # ys = es" by (simp add: es_def hdr_for_def)
    obtain kv1 where "dson_get lib_converters m d kv k = Some (Child k, m, d, kv1)" "opened m d kv1 b es"
      using opened_get_same [OF o, of lib_converters] hf False unfolding e by (auto simp: hdr_for_def)
    moreover have "?m = m" using o unfolding e by (simp add: opened_def upd_block_idem)
    ultimately show ?thesis using that by simp
  next
    case True
    have f: "to_host_order lib_converters (of_i32 ?ty) = Some (conv_vector ntohl)"
      by (simp add: lib_converters_eq type_key_def [symmetric])
    have "fits_words 16 (addr_bytes True a @ entries_wire ys)" by (simp add: fits_words_def i32_ok_iff)
    then have c: "conv_vector ntohl 16 (addr_bytes True a @ entries_wire ys) = Some (addr_bytes False a @ entries_wire ys)"
      by (simp add: conv_vector_words chunk_map_addr_bytes)
    have o': "opened m d kv b (xs @ (net_hdr 16 k ?ty, addr_bytes True a) # ys)"
      using o True by (simp add: hdr_for_def)
    have "i32_ok 16" by (simp add: i32_ok_iff)
    then obtain kv1 where "dson_get lib_converters m d kv k = Some (Child k, ?m, d, kv1)" "opened ?m d kv1 b es"
      using opened_get_converted [OF o' _ k _ f c] by (auto simp: es_def)
    then show ?thesis using that by simp
  qed
  have vr: "view_rec ?m p kd = view_rec m p kd" for p kd by (simp add: view_rec_def raw_header_def)
  note oe = opened_entry [OF g(2) [unfolded es_def], folded es_def, unfolded vr hf(2)]
  have th: "to_host lib_converters ?m ?v = Some (?m, ?v)" using oe(10) hf(3) by (simp add: to_host_def)
  have ra: "read_address ?m obj (AddrAt (b, length (entries_wire xs) + 16)) = Some a" for obj
    by (rule read_address_bytes [of _ _ "entries_wire xs @ host_hdr 16 k ?ty" _ "entries_wire ys"])
      (use oe(2,3) in simp_all)
  let ?kv = "kv_insert_or_assign k (ObjDson ?v []) kv1"
  have vo: "views_only ?kv" by (rule views_only_insert) (use g(2) in \<open>simp_all add: opened_def\<close>)
  have "message_address lib_converters k m d kv = Some (Some a, ?m, d, ?kv)"
    using g(1) oe(1,8) th ra by (simp add: message_address_def pointed_def put_pointed_def to_address_def)
  moreover have "opened ?m d ?kv b es" by (rule opened_kv [OF g(2)]) (use oe(1) vo in \<open>simp_all add: kv_find_insert\<close>)
  ultimately show ?thesis using that by blast
qed

text \<open>In a message made here it is the routing object itself.\<close>

lemma local_address:
  assumes "d_kind d = DsonContainer" "d_state d = StReady" "kv_find k kv = Some (ObjRoute r)" "ro_wf r"
  shows "message_address cv k m d kv = Some (Some (ro_addr r), m, d,
    kv_insert_or_assign k (ObjRoute (snd (ro_address r))) (kv_insert_or_assign k (ObjRoute r) kv))"
proof -
  obtain nw key a where r: "ro_buf r = route_wire nw key a" "i32_ok key" using assms(4) by (auto simp: ro_wf_def)
  have a: "ro_address r = (a, r\<lparr>ro_buf := route_wire False key a\<rparr>)" using ro_address_eq [OF r] .
  have "fst (ro_address (r\<lparr>ro_buf := route_wire False key a\<rparr>)) = a"
    using ro_address_eq [of "r\<lparr>ro_buf := route_wire False key a\<rparr>" False key a] r(2) by simp
  then show ?thesis
    using assms(1-3) a
    by (simp add: message_address_def dson_get_def get_internal_def obj_to_host_def pointed_def to_address_def
        put_pointed_def read_address_def kv_find_insert ro_addr_def)
qed

text \<open>What a routing object is as an entry of a received message.\<close>

lemma wire_entry_route:
  "wire_entry m (ObjRoute r) = (hdr_for True 16 (ro_key r) (types_map T_vector_uint32), addr_bytes True (ro_addr r))"
  by (simp add: wire_entry_def route_wire_def)

text \<open>
  C28: an address travels.  A routing object put into a message, sent in network order through
  any windows and fed in any portions to a receiver, is found by \<open>to_address\<close> there: reading
  through the pointer gives the four numbers of the sender's address, although the receiver
  holds a plain \<open>Dson\<close> with a vector and not a \<open>DsonRouteObj\<close>.
\<close>

theorem address_received:
  assumes "message_ok m d kv" "(k, ObjRoute r) \<in> set kv"
    and "length (obj_wire lib_converters True m (ObjDson d kv)) \<le> sum_list windows"
    and "can_load m2 d2 kv2" "mem_ok m2" "d_state d2 = StReady" "length (d_header d2) = 16"
    and "nat (map_size kv) \<le> malloc_limit m2"
  shows "\<exists>bytes s. drive (buf_step True) (m, ObjDson d kv) windows = Some (Ready, bytes, s) \<and>
    (\<forall>portions. concat portions = bytes \<longrightarrow> (\<forall>xs \<in> set portions. xs \<noteq> []) \<longrightarrow>
      (\<exists>m3 d3 kv3 m4 d4 kv4. feed buf_load_step (m2, d2, kv2) portions = Some (Ready, (m3, d3, kv3)) \<and>
         message_address lib_converters k m3 d3 kv3 = Some (Some (ro_addr r), m4, d4, kv4)))"
proof -
  let ?es = "map (\<lambda>(k, obj). wire_entry m obj) kv"
  let ?h = "hdr_for True (map_size kv) (hdr_field (d_header d) 2) (types_map T_DsonContainer)"
  note w = message_wire [OF assms(1)]
  obtain bytes s where s: "drive (buf_step True) (m, ObjDson d kv) windows = Some (Ready, bytes, s)"
    and f: "\<And>portions. concat portions = bytes \<Longrightarrow> \<forall>xs \<in> set portions. xs \<noteq> [] \<Longrightarrow>
      \<exists>s2. feed buf_load_step (m2, d2, kv2) portions = Some (Ready, s2) \<and> loaded_msg ?h (entries_wire ?es) s2"
    using message_transported [OF assms(1,3-8)] by blast
  obtain us vs where kv: "kv = us @ (k, ObjRoute r) # vs" using split_list [OF assms(2)] by blast
  have key: "ro_key r = k" "i32_ok k" using message_okD(8) [OF assms(1,2)] ro_key_ok [of r] by auto
  have es: "?es = map (\<lambda>(k, obj). wire_entry m obj) us @
      (hdr_for True 16 k (types_map T_vector_uint32), addr_bytes True (ro_addr r)) # map (\<lambda>(k, obj). wire_entry m obj) vs"
    by (simp add: kv wire_entry_route key)
  have ne: "?es \<noteq> []" using assms(2) by auto
  have "\<exists>m4 d4 kv4. message_address lib_converters k m3 d3 kv3 = Some (Some (ro_addr r), m4, d4, kv4)"
    if l: "loaded_msg ?h (entries_wire ?es) (m3, d3, kv3)" for m3 d3 kv3
  proof -
    obtain b kv' where o: "opened m3 (d3\<lparr>d_kind := DsonContainer\<rparr>) kv' b ?es"
      and g: "\<And>cv k. dson_get cv m3 d3 kv3 k = dson_get cv m3 (d3\<lparr>d_kind := DsonContainer\<rparr>) kv' k"
      by (rule loaded_opened [OF l ne w(4-6)]) simp_all
    have "message_address lib_converters k m3 d3 kv3 =
        message_address lib_converters k m3 (d3\<lparr>d_kind := DsonContainer\<rparr>) kv'"
      by (simp add: message_address_def g)
    then show ?thesis using opened_address [OF o [unfolded es] key(2)] by metis
  qed
  then show ?thesis using s f by (metis prod_cases3)
qed

section \<open>Outgoing messages\<close>

text \<open>
  Objects that own their memory apart from each other; only the first may be half sent.
  \<open>outgoing\<close> is what the connection has got and will get.
\<close>

definition deque_blocks :: "dson_obj list \<Rightarrow> nat list" where
  "deque_blocks q = concat (map obj_blocks q)"

definition deque_bytes :: "mem \<Rightarrow> dson_obj list \<Rightarrow> byte list" where
  "deque_bytes m q = concat (map (obj_pending lib_converters True m) q)"

definition queued :: "mem \<Rightarrow> dson_obj list \<Rightarrow> bool" where
  "queued m q \<longleftrightarrow> (\<forall>obj \<in> set q. obj_ok lib_data True m obj \<and> obj_owned m obj) \<and>
     distinct (deque_blocks q) \<and> (\<forall>obj \<in> set (tl q). obj_rest obj)"

lemma deque_simps [simp]:
  "deque_blocks [] = []" "deque_blocks (obj # q) = obj_blocks obj @ deque_blocks q"
  "deque_blocks (p @ q) = deque_blocks p @ deque_blocks q"
  "deque_bytes m [] = []" "deque_bytes m (obj # q) = obj_pending lib_converters True m obj @ deque_bytes m q"
  "deque_bytes m (p @ q) = deque_bytes m p @ deque_bytes m q"
  by (simp_all add: deque_blocks_def deque_bytes_def)

lemma queued_Nil [simp]: "queued m []"
  by (simp add: queued_def)

lemma queued_Cons:
  "queued m (obj # q) \<longleftrightarrow> obj_ok lib_data True m obj \<and> obj_owned m obj \<and> distinct (obj_blocks obj) \<and>
     set (obj_blocks obj) \<inter> set (deque_blocks q) = {} \<and> queued m q \<and> (\<forall>obj \<in> set q. obj_rest obj)"
  by (cases q) (auto simp: queued_def)

lemma queued_snoc:
  "queued m (q @ [obj]) \<longleftrightarrow> queued m q \<and> obj_ok lib_data True m obj \<and> obj_owned m obj \<and>
     distinct (obj_blocks obj) \<and> set (obj_blocks obj) \<inter> set (deque_blocks q) = {} \<and> (q = [] \<or> obj_rest obj)"
  by (cases q) (auto simp: queued_def)

lemma queued_frame:
  assumes "\<forall>b \<in> set (deque_blocks q). heap m' b = heap m b"
  shows "queued m' q = queued m q" "queued m q \<Longrightarrow> deque_bytes m' q = deque_bytes m q"
proof -
  have f: "obj_ok lib_data True m' obj = obj_ok lib_data True m obj" "obj_owned m' obj = obj_owned m obj"
    "obj_ok lib_data True m obj \<Longrightarrow> obj_pending lib_converters True m' obj = obj_pending lib_converters True m obj"
    if "obj \<in> set q" for obj
    using assms that obj_frame [of obj m' m lib_data True lib_converters] obj_owned_frame [of obj m' m]
    by (auto simp: deque_blocks_def)
  show "queued m' q = queued m q" using f by (auto simp: queued_def)
  show "deque_bytes m' q = deque_bytes m q" if "queued m q"
    using f(3) that by (auto simp: deque_bytes_def queued_def intro!: arg_cong [where f = concat])
qed

text \<open>One call for the object at the front.\<close>

lemma copy_front:
  assumes "obj_ok lib_data True m obj" "obj_owned m obj" "distinct (obj_blocks obj)" "soft (w_script fd)"
  obtains r fd' m' obj' where "copy_to_fd lib_converters True m obj fd = Some (r, fd', m', obj')" "r \<noteq> Error"
    "soft (w_script fd')" "obj_ok lib_data True m' obj'" "obj_owned m' obj'" "obj_blocks obj' = obj_blocks obj"
    "\<forall>b. b \<notin> set (obj_blocks obj) \<longrightarrow> heap m' b = heap m b" "same_alloc m m'"
    "w_data fd' @ (if r = Ready then [] else obj_pending lib_converters True m' obj') =
      w_data fd @ obj_pending lib_converters True m obj"
proof -
  have "lib_fd.good_call True m obj fd (copy_obj (obj_depth obj) fd_sink lib_converters True m obj fd)"
    by (rule lib_fd.copy_obj_good) (use assms in simp_all)
  then obtain r fd' m' obj' where e: "copy_to_fd lib_converters True m obj fd = Some (r, fd', m', obj')"
    and h: "handed w_data (\<lambda>fd. soft (w_script fd)) (\<lambda>_. True) (obj_pending lib_converters True m obj) fd r fd'
      (obj_pending lib_converters True m' obj') (obj_rest obj')"
    and k: "lib_fd.kept True m obj m' obj'"
    by (auto simp: lib_fd.good_call_def copy_to_fd_def)
  obtain j where j: "advances (obj_pending lib_converters True m obj) j r (obj_pending lib_converters True m' obj') (obj_rest obj')"
    "w_data fd' = w_data fd @ take j (obj_pending lib_converters True m obj)" "soft (w_script fd')"
    using h by (auto simp: handed_def)
  have "w_data fd' @ (if r = Ready then [] else obj_pending lib_converters True m' obj') =
      w_data fd @ obj_pending lib_converters True m obj" "r \<noteq> Error"
    using j by (cases r; simp add: advances_ready advances_in_process)+
  then show ?thesis using that [OF e] j k assms(2) by (simp add: lib_fd.kept_def still_live_def)
qed

lemma send_deque_keeps:
  assumes "queued m q" "soft (w_script fd)"
  shows "\<exists>m' q' fd'. send_deque lib_converters m q fd = Some (True, m', q', fd') \<and> queued m' q' \<and>
    soft (w_script fd') \<and> w_data fd' @ deque_bytes m' q' = w_data fd @ deque_bytes m q \<and>
    (\<exists>n. map obj_blocks q' = drop n (map obj_blocks q)) \<and>
    (\<forall>b. b \<notin> set (deque_blocks q) \<longrightarrow> heap m' b = heap m b) \<and> same_alloc m m'"
  using assms
proof (induction q arbitrary: m fd)
  case Nil
  then show ?case by simp
next
  case (Cons obj q)
  note ob = Cons.prems(1) [unfolded queued_Cons]
  from ob have ob': "obj_ok lib_data True m obj" "obj_owned m obj" "distinct (obj_blocks obj)" by auto
  obtain r fd1 m1 obj1 where c: "copy_to_fd lib_converters True m obj fd = Some (r, fd1, m1, obj1)" "r \<noteq> Error"
    "soft (w_script fd1)" "obj_ok lib_data True m1 obj1" "obj_owned m1 obj1" "obj_blocks obj1 = obj_blocks obj"
    "\<forall>b. b \<notin> set (obj_blocks obj) \<longrightarrow> heap m1 b = heap m b" "same_alloc m m1"
    "w_data fd1 @ (if r = Ready then [] else obj_pending lib_converters True m1 obj1) =
      w_data fd @ obj_pending lib_converters True m obj"
    by (rule copy_front [OF ob' Cons.prems(2)])
  have same: "\<forall>b \<in> set (deque_blocks q). heap m1 b = heap m b" using c(7) ob by auto
  show ?case
  proof (cases "r = Ready")
    case False
    then have r: "r = InProcess" using c(2) by (cases r) auto
    have "queued m1 (obj1 # q)" using ob c(4-6) queued_frame(1) [OF same] by (simp add: queued_Cons)
    moreover have "w_data fd1 @ deque_bytes m1 (obj1 # q) = w_data fd @ deque_bytes m (obj # q)"
      using c(9) r queued_frame(2) [OF same] ob by simp
    moreover have "map obj_blocks (obj1 # q) = drop 0 (map obj_blocks (obj # q))" using c(6) by simp
    ultimately show ?thesis using c(1,3,7,8) r
      by (intro exI [of _ m1] exI [of _ "obj1 # q"] exI [of _ fd1] conjI exI [of _ 0]) simp_all
  next
    case True
    let ?m = "free_blocks m1 (obj_blocks obj)"
    have d: "obj_destroy m1 obj1 = Some ?m" using obj_destroy_frees [OF c(5)] c(6) ob'(3) by simp
    have same2: "\<forall>b \<in> set (deque_blocks q). heap ?m b = heap m b" using same ob by auto
    have "queued ?m q" using queued_frame(1) [OF same2] ob by simp
    from Cons.IH [OF this c(3)] obtain m' q' fd' n where i: "send_deque lib_converters ?m q fd1 = Some (True, m', q', fd')"
      "queued m' q'" "soft (w_script fd')" "w_data fd' @ deque_bytes m' q' = w_data fd1 @ deque_bytes ?m q"
      "map obj_blocks q' = drop n (map obj_blocks q)" "\<forall>b. b \<notin> set (deque_blocks q) \<longrightarrow> heap m' b = heap ?m b"
      "same_alloc ?m m'"
      by blast
    have al: "same_alloc m m'"
      by (rule same_alloc_trans [OF c(8) same_alloc_trans [OF same_alloc_simps(1) i(7)]])
    have "w_data fd' @ deque_bytes m' q' = w_data fd @ deque_bytes m (obj # q)"
      using i(4) c(9) True queued_frame(2) [OF same2] ob by simp
    moreover have "map obj_blocks q' = drop (Suc n) (map obj_blocks (obj # q))" using i(5) by simp
    moreover have "\<forall>b. b \<notin> set (deque_blocks (obj # q)) \<longrightarrow> heap m' b = heap m b" using i(6) c(7) by simp
    ultimately show ?thesis using i(1-3) c(1) True d al
      by (intro exI [of _ m'] exI [of _ q'] exI [of _ fd'] conjI exI [of _ "Suc n"]) simp_all
  qed
qed

text \<open>What the connection has got and will get, as one stream of bytes.\<close>

definition outgoing :: "server \<Rightarrow> byte list" where
  "outgoing sv = w_data (connection sv) @ deque_bytes (sv_mem sv) (write_deque sv)"

definition server_ok :: "server \<Rightarrow> bool" where
  "server_ok sv \<longleftrightarrow> queued (sv_mem sv) (write_deque sv) \<and> soft (w_script (connection sv))"

text \<open>
  What sending leaves alone: the blocks of the queue are still those of \<open>B\<close> or fewer, and
  nothing else changes or is allocated.
\<close>

definition untouched :: "nat set \<Rightarrow> server \<Rightarrow> server \<Rightarrow> bool" where
  "untouched B sv sv' \<longleftrightarrow> set (deque_blocks (write_deque sv')) \<subseteq> B \<and>
     (\<forall>b. b \<notin> B \<longrightarrow> heap (sv_mem sv') b = heap (sv_mem sv) b) \<and> same_alloc (sv_mem sv) (sv_mem sv') \<and>
     keep_run sv' = keep_run sv \<and> route_table sv' = route_table sv \<and> chunk_ids sv' = chunk_ids sv"

lemma untouched_live:
  assumes "untouched B sv sv'" "mem_ok (sv_mem sv)" "\<forall>b \<in> B. heap (sv_mem sv) b \<noteq> None"
  shows "mem_ok (sv_mem sv')"
  unfolding mem_ok_def
proof (intro allI impI)
  fix b
  assume "next_block (sv_mem sv') \<le> b"
  then have "heap (sv_mem sv) b = None" using assms(1,2) by (simp add: mem_ok_def untouched_def same_alloc_def)
  moreover from this have "b \<notin> B" using assms(3) by blast
  ultimately show "heap (sv_mem sv') b = None" using assms(1) by (simp add: untouched_def)
qed

lemma send_from_deque_keeps:
  assumes "server_ok sv"
  shows "\<exists>sv'. send_dson_from_deque lib_converters sv = Some sv' \<and> server_ok sv' \<and> outgoing sv' = outgoing sv \<and>
    untouched (set (deque_blocks (write_deque sv))) sv sv'"
proof -
  have sub: "set (deque_blocks q') \<subseteq> set (deque_blocks q)" if "map obj_blocks q' = drop n (map obj_blocks q)" for q q' n
    unfolding deque_blocks_def that using set_drop_subset [of n "map obj_blocks q"] by auto
  show ?thesis
    using send_deque_keeps [of "sv_mem sv" "write_deque sv" "connection sv"] assms sub [of _ _ "write_deque sv"]
    by (auto simp: server_ok_def send_dson_from_deque_def outgoing_def untouched_def)
qed

lemma server_send_keeps:
  assumes "server_ok sv" "obj_ok lib_data True (sv_mem sv) (ObjDson d kv)" "obj_owned (sv_mem sv) (ObjDson d kv)"
    and "distinct (obj_blocks (ObjDson d kv))" "obj_rest (ObjDson d kv)"
    and "set (obj_blocks (ObjDson d kv)) \<inter> set (deque_blocks (write_deque sv)) = {}"
  obtains sv' where
    "server_send_dson lib_converters sv d kv = Some (sv', d\<lparr>d_state := StError, d_buf := None, d_iter := None\<rparr>, [])"
    "server_ok sv'" "outgoing sv' = outgoing sv @ obj_wire lib_converters True (sv_mem sv) (ObjDson d kv)"
    "untouched (set (obj_blocks (ObjDson d kv)) \<union> set (deque_blocks (write_deque sv))) sv sv'"
proof -
  let ?sv = "sv\<lparr>write_deque := write_deque sv @ [ObjDson d kv]\<rparr>"
  have ok: "server_ok ?sv" using assms by (simp add: server_ok_def queued_snoc del: obj_ok.simps obj_owned.simps obj_blocks.simps obj_rest.simps)
  have "outgoing ?sv = outgoing sv @ obj_wire lib_converters True (sv_mem sv) (ObjDson d kv)"
    using obj_rest_pending [OF assms(2,5), of lib_converters]
    by (simp add: outgoing_def del: obj_wire.simps obj_pending.simps)
  moreover have "set (deque_blocks (write_deque ?sv)) = set (obj_blocks (ObjDson d kv)) \<union> set (deque_blocks (write_deque sv))"
    by auto
  moreover obtain sv' where "send_dson_from_deque lib_converters ?sv = Some sv'" "server_ok sv'" "outgoing sv' = outgoing ?sv"
    "untouched (set (deque_blocks (write_deque ?sv))) ?sv sv'"
    using send_from_deque_keeps [OF ok] by blast
  ultimately show ?thesis
    using that [of sv'] by (simp add: server_send_dson_def move_construct_eq untouched_def del: obj_wire.simps obj_blocks.simps deque_simps)
qed

lemma server_ok_mem:
  assumes "server_ok sv" "\<forall>b \<in> set (deque_blocks (write_deque sv)). heap m b = heap (sv_mem sv) b"
  shows "server_ok (sv\<lparr>sv_mem := m\<rparr>)" "outgoing (sv\<lparr>sv_mem := m\<rparr>) = outgoing sv"
  using assms queued_frame [OF assms(2)] by (simp_all add: server_ok_def outgoing_def)

lemma queued_live:
  assumes "server_ok sv" "b \<in> set (deque_blocks (write_deque sv))"
  shows "heap (sv_mem sv) b \<noteq> None"
  using assms obj_owned_blocks by (auto simp: server_ok_def queued_def deque_blocks_def)

text \<open>
  C29: the queue of outgoing messages.  Whatever part of its output the connection takes at
  each write, the server never gives up, and handing a message to \<open>send_dson\<close> appends exactly
  its serialisation to the bytes the connection has got and will get: messages leave in the
  order they were queued, complete and not mixed; \<open>send_dson_from_deque\<close> only moves the
  boundary between sent and unsent.
\<close>

theorem write_deque_in_order:
  assumes "server_ok sv" "obj_ok lib_data True (sv_mem sv) (ObjDson d kv)" "obj_owned (sv_mem sv) (ObjDson d kv)"
    and "distinct (obj_blocks (ObjDson d kv))" "obj_rest (ObjDson d kv)"
    and "set (obj_blocks (ObjDson d kv)) \<inter> set (deque_blocks (write_deque sv)) = {}"
  shows "(\<exists>sv' d'. server_send_dson lib_converters sv d kv = Some (sv', d', []) \<and> server_ok sv' \<and>
      d_buf d' = None \<and> keep_run sv' = keep_run sv \<and>
      outgoing sv' = outgoing sv @ obj_wire lib_converters True (sv_mem sv) (ObjDson d kv)) \<and>
    (\<exists>sv'. send_dson_from_deque lib_converters sv = Some sv' \<and> server_ok sv' \<and> keep_run sv' = keep_run sv \<and>
      outgoing sv' = outgoing sv)"
proof -
  obtain sv' where "server_send_dson lib_converters sv d kv = Some (sv', d\<lparr>d_state := StError, d_buf := None, d_iter := None\<rparr>, [])"
    "server_ok sv'" "keep_run sv' = keep_run sv"
    "outgoing sv' = outgoing sv @ obj_wire lib_converters True (sv_mem sv) (ObjDson d kv)"
    by (rule server_send_keeps [OF assms]) (simp add: untouched_def)
  moreover obtain sv2 where "send_dson_from_deque lib_converters sv = Some sv2" "server_ok sv2" "outgoing sv2 = outgoing sv"
    "keep_run sv2 = keep_run sv"
    using send_from_deque_keeps [OF assms(1)] unfolding untouched_def by blast
  ultimately show ?thesis by simp
qed

end
