(* ===== verification/Network.thy ===== *)
theory Network
  imports Routing
begin

text \<open>
  What the services of the network example do with the messages they get: the answer to the
  sender, byte by byte, and messages that never come to rest.
\<close>

section \<open>Building the answer\<close>

definition reply_to :: "address \<Rightarrow> address" where
  "reply_to a = \<lparr>from_serv_id = to_serv_id a, from_cli_id = to_cli_id a,
     to_serv_id = from_serv_id a, to_cli_id = from_cli_id a\<rparr>"

lemma reply_to_sel [simp]:
  "to_cli_id (reply_to a) = from_cli_id a" "from_cli_id (reply_to a) = to_cli_id a" "reply_to (reply_to a) = a"
  by (simp_all add: reply_to_def)

definition reply_obj :: "address \<Rightarrow> route_obj" where
  "reply_obj a = \<lparr>ro_buf = route_wire False 0 (reply_to a), ro_state = StReady, ro_offset = 0\<rparr>"

lemma reply_obj_eq: "length raw = 32 \<Longrightarrow> ro_new_from raw 0 (Some a) = reply_obj a"
  by (simp add: ro_new_from_def ro_new_eq reply_obj_def reply_to_def i32_ok_iff
      ro_set_reverse_address_eq [of _ False 0 "\<lparr>from_serv_id = 0, from_cli_id = 0, to_serv_id = 0, to_cli_id = 0\<rparr>"])

lemma reply_obj_facts [simp]:
  "ro_wf (reply_obj a)" "ro_state (reply_obj a) = StReady" "ro_key (reply_obj a) = 0" "ro_addr (reply_obj a) = reply_to a"
  using ro_buf_order(3) [of "reply_obj a" False 0 "reply_to a"] ro_address_eq [of "reply_obj a" False 0 "reply_to a"]
    ro_wfI [of "reply_obj a" False 0 "reply_to a"]
  by (simp_all add: reply_obj_def ro_addr_def i32_ok_iff)

text \<open>Putting an object under a new key into a container that is not a view.\<close>

lemma insert_new:
  assumes "d_kind d = DsonContainer" "d_state d = StReady" "header_loc d = None" "kv_find key kv = None"
  shows "insert_internal m d kv key obj =
    Some (m, d\<lparr>d_header := hdr_set_field (d_header d) 3 (types_map T_DsonContainer)\<rparr>, kv_insert_or_assign key obj kv)"
  using assms
  by (simp add: insert_internal_def to_container_def map_put_def set_data_type_internal_def local_simps)

lemma emplace_new:
  assumes "d_kind d = DsonContainer" "d_state d = StReady" "header_loc d = None" "kv_find key kv = None" "d_was_alloc a"
  shows "emplace_dson m d kv key (a, []) =
    Some (m, d\<lparr>d_header := hdr_set_field (d_header d) 3 (types_map T_DsonContainer)\<rparr>,
      kv_insert_or_assign key (ObjDson (keyed key a) []) kv)"
proof -
  have "dson_set_key m a key = Some (m, keyed key a)"
    using assms(5) by (simp add: dson_set_key_def local_simps keyed_def)
  then show ?thesis using insert_new [OF assms(1-4)] by (simp add: emplace_dson_def move_construct_eq free_buf_def)
qed

text \<open>An answer under construction: its key and its objects.\<close>

definition answer_dson :: "i32 \<Rightarrow> dson" where
  "answer_dson k = dson_fields (host_hdr 0 k (types_map T_DsonContainer))"

lemma answer_dson_sel [simp]:
  "d_kind (answer_dson k) = DsonContainer" "d_state (answer_dson k) = StReady" "header_loc (answer_dson k) = None"
  "\<not> d_was_alloc (answer_dson k)" "d_buf (answer_dson k) = None"
  "d_header (answer_dson k) = host_hdr 0 k (types_map T_DsonContainer)" "own_blocks (answer_dson k) = []"
  by (simp_all add: answer_dson_def dson_fields_def header_loc_def own_blocks_def)

lemma answer_type [simp]:
  "(answer_dson k)\<lparr>d_header := hdr_set_field (host_hdr 0 k (types_map T_DsonContainer)) 3 (types_map T_DsonContainer)\<rparr> =
     answer_dson k"
  using hdr_set_field_simps(3) [of False 0 k "types_map T_DsonContainer"]
  by (simp add: answer_dson_def dson_fields_def hdr_for_def)

lemma answer_key: "dson_set_key m (answer_dson k) k' = Some (m, answer_dson k')"
  using hdr_set_field_simps(2) [of False 0 k "types_map T_DsonContainer" k']
  by (simp add: dson_set_key_def local_simps hdr_for_def) (simp add: answer_dson_def dson_fields_def)

lemma emplace_reply_eq:
  "emplace_reply_address m (dson_fields (host_hdr 0 0 (types_map T_Empty))) [] (Some a) =
    Some (m, answer_dson 0, [(0, ObjRoute (reply_obj a))])"
proof -
  let ?d = "dson_fields (host_hdr 0 0 (types_map T_Empty))"
  have "?d\<lparr>d_header := hdr_set_field (d_header ?d) 3 (types_map T_DsonContainer)\<rparr> = answer_dson 0"
    using hdr_set_field_simps(3) [of False 0 0 "types_map T_Empty" "types_map T_DsonContainer"]
    by (simp add: answer_dson_def dson_fields_def hdr_for_def)
  then show ?thesis
    using insert_new [of ?d 0 "[]" m "ObjRoute (reply_obj a)"]
    by (simp add: emplace_reply_address_def emplace_ptr_def obj_key_def reply_obj_eq)
      (simp add: dson_fields_def header_loc_def)
qed

section \<open>The answer with data\<close>

lemma echo_text_nonempty [simp]: "echo_text a s \<noteq> []"
  by (simp add: echo_text_def chars_def)

lemma built_sel [simp]:
  "d_was_alloc (built m ty sz)" "d_kind (built m ty sz) = OneObjectInDataBuf" "d_state (built m ty sz) = StReady"
  "own_blocks (built m ty sz) = [next_block m]" "d_buf_size (built m ty sz) = sz" "d_buf (built m ty sz) = Some (next_block m, 0)"
  by (simp_all add: built_def dson_fields_def own_blocks_def)

definition chunk_dson :: "mem \<Rightarrow> dson" where
  "chunk_dson m = keyed 5 (built m T_uint32 4)"

definition text_dson :: "mem \<Rightarrow> byte list \<Rightarrow> dson" where
  "text_dson m s = keyed 6 (built m T_string (int (length s)))"

text \<open>The memory and the objects of the answer made in memory \<open>m\<close>.\<close>

definition answer_mem :: "mem \<Rightarrow> u32 \<Rightarrow> byte list \<Rightarrow> mem" where
  "answer_mem m w s = fresh (fresh m (store32 w)) s"

definition answer_kv :: "mem \<Rightarrow> address \<Rightarrow> u32 \<Rightarrow> byte list \<Rightarrow> kvmap" where
  "answer_kv m a w s = [(0, ObjRoute (reply_obj a)), (5, ObjDson (chunk_dson m) []),
     (6, ObjDson (text_dson (fresh m (store32 w)) s) [])]"

lemma dson_of_values:
  "4 \<le> malloc_limit m \<Longrightarrow> dson_of_uint32 m w = Some (fresh m (store32 w), built m T_uint32 4)"
  "s \<noteq> [] \<Longrightarrow> length s \<le> malloc_limit m \<Longrightarrow> length s < 2 ^ 31 \<Longrightarrow>
   dson_of_string m s = Some (fresh m s, built m T_string (int (length s)))"
  using dson_of_bytes_eq [of 4 m "store32 w" T_uint32] dson_of_bytes_eq [of "int (length s)" m s T_string]
    to_i32_of_i32 [of "int (length s)"]
  by (simp_all add: dson_of_uint32_def dson_of_string_def)

lemma data_answer_opened:
  assumes o: "opened m d kv b (xs @ (h, s) # ys)" and h: "hdr_field h 2 = 6" "hdr_field h 3 = types_map T_string"
    and m: "mem_ok m" "4 \<le> malloc_limit m" "length (echo_text a s) \<le> malloc_limit m" "length (echo_text a s) < 2 ^ 31"
  shows "\<exists>kv'. data_answer lib_converters w (Some a) m (answer_dson 0) [(0, ObjRoute (reply_obj a))] d kv =
    Some (True, answer_mem m w (echo_text a s), (answer_dson 3, answer_kv m a w (echo_text a s)), d, kv') \<and>
    opened (answer_mem m w (echo_text a s)) d kv' b (xs @ (h, s) # ys)"
proof -
  let ?m1 = "fresh m (store32 w)" and ?t = "echo_text a s"
  have "heap m b \<noteq> None" using opened_entry(3) [OF o] by simp
  then have b: "b \<noteq> next_block m" "b \<noteq> Suc (next_block m)" using m(1) by (auto simp: mem_ok_def)
  then have o1: "opened ?m1 d kv b (xs @ (h, s) # ys)" using opened_frame [OF o] by simp
  obtain kv' v where ok': "opened ?m1 d kv' b (xs @ (h, s) # ys)" and g: "dson_get lib_converters ?m1 d kv 6 = Some (Child 6, ?m1, d, kv')"
    "kv_find 6 kv' = Some (ObjDson v [])" "to_string_view ?m1 (Some (ObjDson v [])) = Some s"
    using opened_get_string [OF o1 h(2)] unfolding h(1) by metis
  have t: "dson_of_string ?m1 ?t = Some (fresh ?m1 ?t, built ?m1 T_string (int (length ?t)))"
    using dson_of_values(2) [OF echo_text_nonempty] m(3,4) by simp
  have e1: "emplace_dson ?m1 (answer_dson 3) [(0, ObjRoute (reply_obj a))] 5 (built m T_uint32 4, []) =
      Some (?m1, answer_dson 3, [(0, ObjRoute (reply_obj a)), (5, ObjDson (chunk_dson m) [])])"
    using emplace_new [of "answer_dson 3"] by (simp add: chunk_dson_def)
  have e2: "emplace_dson (fresh ?m1 ?t) (answer_dson 3) [(0, ObjRoute (reply_obj a)), (5, ObjDson (chunk_dson m) [])] 6
      (built ?m1 T_string (int (length ?t)), []) =
      Some (answer_mem m w ?t, answer_dson 3, answer_kv m a w ?t)"
    using emplace_new [of "answer_dson 3"] by (simp add: answer_kv_def answer_mem_def text_dson_def)
  have "opened (answer_mem m w ?t) d kv' b (xs @ (h, s) # ys)"
    by (rule opened_frame [OF ok']) (use b in \<open>simp_all add: answer_mem_def\<close>)
  then show ?thesis
    using g t e1 e2 dson_of_values(1) [OF m(2), of w] by (simp add: data_answer_def answer_key pointed_def)
qed

text \<open>It is well formed, owns its memory and is at rest.\<close>

lemma keyed_built_ok:
  assumes "length bs = nat sz" "0 < sz" "i32_ok sz" "lib_data_ok ty sz bs" "i32_ok k" "heap m' (next_block m) = Some bs"
  shows "buf_ok lib_data True m' (keyed k (built m ty sz))" "own_data m' (keyed k (built m ty sz)) = bs"
    "d_header (keyed k (built m ty sz)) = host_hdr sz k (types_map ty)"
proof -
  have "\<forall>b \<in> set (own_blocks (built m ty sz)). heap m' b = heap (fresh m bs) b" using assms(6) by simp
  from buf_ok_frame [OF this, of lib_data True] built_ok(1) [where m = m and nw = True, OF assms(1-4)]
    built_ok(2) [where m = m, OF assms(1-4)]
  show "buf_ok lib_data True m' (keyed k (built m ty sz))" "own_data m' (keyed k (built m ty sz)) = bs"
    using buf_ok_keyed [OF _ assms(5)] by simp_all
  show "d_header (keyed k (built m ty sz)) = host_hdr sz k (types_map ty)"
    using hdr_set_field_simps(2) [of False sz _ "types_map ty" k]
    by (simp add: keyed_def built_def dson_fields_def hdr_for_def)
qed

definition answer_wire :: "address \<Rightarrow> u32 \<Rightarrow> byte list \<Rightarrow> byte list" where
  "answer_wire a w s = hdr_for True (int (length s) + 68) 3 (types_map T_DsonContainer) @
     route_wire True 0 (reply_to a) @ (net_hdr 4 5 (types_map T_uint32) @ be32 w) @
     host_hdr (int (length s)) 6 (types_map T_string) @ s"

lemma answer_ok:
  fixes m a w s
  defines "obj \<equiv> ObjDson (answer_dson 3) (answer_kv m a w s)" and "m2 \<equiv> answer_mem m w s"
  assumes s: "s \<noteq> []" "int (length s) + 68 \<le> i32_max"
  shows "obj_ok lib_data True m2 obj" "obj_owned m2 obj" "distinct (obj_blocks obj)" "obj_rest obj"
    "obj_blocks obj = [next_block m, Suc (next_block m)]" "obj_wire lib_converters True m2 obj = answer_wire a w s"
proof -
  have n: "0 < int (length s)" "i32_ok (int (length s))" using s by (simp_all add: i32_ok_iff i32_max_def)
  have hp: "heap m2 (next_block m) = Some (store32 w)" "heap m2 (next_block (fresh m (store32 w))) = Some s"
    by (simp_all add: m2_def answer_mem_def)
  have i: "i32_ok 4" "i32_ok 5" "i32_ok 6" by (simp_all add: i32_ok_iff)
  have c: "buf_ok lib_data True m2 (chunk_dson m)" "own_data m2 (chunk_dson m) = store32 w"
    "d_header (chunk_dson m) = host_hdr 4 5 (types_map T_uint32)"
    unfolding chunk_dson_def
    by (rule keyed_built_ok [OF _ _ i(1) _ i(2) hp(1)]; simp add: fits_def)+
  have t: "buf_ok lib_data True m2 (text_dson (fresh m (store32 w)) s)"
    "own_data m2 (text_dson (fresh m (store32 w)) s) = s"
    "d_header (text_dson (fresh m (store32 w)) s) = host_hdr (int (length s)) 6 (types_map T_string)"
    unfolding text_dson_def
    by (rule keyed_built_ok [OF _ n(1) n(2) _ i(3) hp(2)]; simp)+
  have sel: "d_kind (chunk_dson m) = OneObjectInDataBuf" "d_kind (text_dson (fresh m (store32 w)) s) = OneObjectInDataBuf"
    "d_state (chunk_dson m) = StReady" "d_state (text_dson (fresh m (store32 w)) s) = StReady"
    "own_blocks (chunk_dson m) = [next_block m]" "own_blocks (text_dson (fresh m (store32 w)) s) = [Suc (next_block m)]"
    by (simp_all add: chunk_dson_def text_dson_def)
  have hf: "hdr_field (host_hdr sz k (types_map ty)) (Suc 0) = sz" "hdr_field (host_hdr sz k (types_map ty)) 2 = k"
    "hdr_field (host_hdr sz k (types_map ty)) 3 = types_map ty" if "i32_ok sz" "i32_ok k" for sz k ty
    using that hdr_field_for [of _ False] by (simp_all add: hdr_for_def)
  have sz: "map_size (answer_kv m a w s) = int (length s) + 68"
    using c(3) t(3) sel hf n(2) i by (simp add: answer_kv_def header_size_def ro_data_size_def address_size_def)
  have v: "hdr_valid (host_hdr 0 3 (types_map T_DsonContainer))"
    using hdr_for_valid [of False 0 3 "types_map T_DsonContainer"] by (simp add: hdr_for_def)
  have ok: "map_ok lib_data True m2 (answer_kv m a w s)" "map_rest (answer_kv m a w s)"
    using c(1) t(1) sel by (simp_all add: answer_kv_def)
  show "obj_ok lib_data True m2 obj" using ok v sz s(2) by (simp add: obj_def container_ok_def)
  show "obj_owned m2 obj" using buf_ok_owned [OF c(1)] buf_ok_owned [OF t(1)] by (simp add: obj_def answer_kv_def)
  show bl: "obj_blocks obj = [next_block m, Suc (next_block m)]" using sel by (simp add: obj_def answer_kv_def)
  show "distinct (obj_blocks obj)" by (simp add: bl)
  show "obj_rest obj" using ok by (simp add: obj_def)
  have "to_network_order lib_converters (of_i32 (types_map T_string)) = None"
    "to_network_order lib_converters (of_i32 (types_map T_uint32)) = Some (conv32 htonl)"
    by (simp_all add: lib_converters_eq type_key_def [symmetric])
  moreover have "conv32 htonl 4 (store32 w) = Some (be32 w)"
    by (simp add: conv32_def store32_htonl patch_def seg_def)
  moreover have "hdr_to_network (host_hdr 4 5 (types_map T_uint32)) = net_hdr 4 5 (types_map T_uint32)"
    using hdr_to_network_for [of False 4 5 "types_map T_uint32"] by (simp add: hdr_for_def)
  ultimately have b: "buf_out lib_converters True (host_hdr 4 5 (types_map T_uint32)) (store32 w) =
      (net_hdr 4 5 (types_map T_uint32), be32 w)"
    "buf_out lib_converters True (host_hdr (int (length s)) 6 (types_map T_string)) s =
      (host_hdr (int (length s)) 6 (types_map T_string), s)"
    using hf i n(2) by (simp_all add: buf_out_def hdr_order_def hdr_simps)
  show "obj_wire lib_converters True m2 obj = answer_wire a w s"
    using sel c(2,3) t(2,3) sz hf i b
    by (simp add: obj_def answer_wire_def) (simp add: answer_kv_def)
qed

section \<open>The answer to the sender\<close>

text \<open>A message made here finds its own address.\<close>

lemma answer_address:
  "message_address cv 0 m2 (answer_dson k) ((0, ObjRoute (reply_obj a)) # akv) =
     Some (Some (reply_to a), m2, answer_dson k, (0, ObjRoute (reply_obj a)) # akv)"
proof -
  have "snd (ro_address (reply_obj a)) = reply_obj a"
    using ro_address_eq [of "reply_obj a" False 0 "reply_to a"] by (simp add: reply_obj_def i32_ok_iff)
  then show ?thesis
    using local_address [of "answer_dson k" 0 "(0, ObjRoute (reply_obj a)) # akv" "reply_obj a" cv m2] by simp
qed

text \<open>The answer can be sent, is apart from what is queued, and the sender's connection is known.\<close>

definition answer_ready :: "server \<Rightarrow> address \<Rightarrow> i32 \<Rightarrow> kvmap \<Rightarrow> bool" where
  "answer_ready sv a k akv \<longleftrightarrow> (let obj = ObjDson (answer_dson k) ((0, ObjRoute (reply_obj a)) # akv) in
     obj_ok lib_data True (sv_mem sv) obj \<and> obj_owned (sv_mem sv) obj \<and> distinct (obj_blocks obj) \<and> obj_rest obj \<and>
     set (obj_blocks obj) \<inter> set (deque_blocks (write_deque sv)) = {} \<and>
     route_table sv (from_cli_id a) = Some ToConnection)"

lemma answer_routed:
  assumes "server_ok sv" "answer_ready sv a k akv"
  defines "obj \<equiv> ObjDson (answer_dson k) ((0, ObjRoute (reply_obj a)) # akv)"
  obtains sv' moved where "route 1 lib_converters sv (answer_dson k) ((0, ObjRoute (reply_obj a)) # akv) = Some (sv', moved, [])"
    "\<not> d_was_alloc moved" "server_ok sv'" "outgoing sv' = outgoing sv @ obj_wire lib_converters True (sv_mem sv) obj"
    "untouched (set (obj_blocks obj) \<union> set (deque_blocks (write_deque sv))) sv sv'"
proof -
  note r = assms(2) [unfolded answer_ready_def Let_def, folded obj_def]
  obtain sv' where send: "server_send_dson lib_converters sv (answer_dson k) ((0, ObjRoute (reply_obj a)) # akv) =
      Some (sv', (answer_dson k)\<lparr>d_state := StError, d_buf := None, d_iter := None\<rparr>, [])"
    "server_ok sv'" "outgoing sv' = outgoing sv @ obj_wire lib_converters True (sv_mem sv) obj"
    "untouched (set (obj_blocks obj) \<union> set (deque_blocks (write_deque sv))) sv sv'"
    using server_send_keeps [OF assms(1), of "answer_dson k" "(0, ObjRoute (reply_obj a)) # akv", folded obj_def] r by blast
  have "route 1 lib_converters sv (answer_dson k) ((0, ObjRoute (reply_obj a)) # akv) =
      Some (sv', (answer_dson k)\<lparr>d_state := StError, d_buf := None, d_iter := None\<rparr>, [])"
    using send(1) r by (simp add: answer_address)
  then show ?thesis using that send by simp
qed

text \<open>
  What a service leaves behind when it is through with the message in block \<open>b\<close>, having
  queued \<open>reply\<close>: the message is as it was, apart from what is queued.
\<close>

definition settled :: "server \<Rightarrow> dson \<Rightarrow> nat \<Rightarrow> (byte list \<times> byte list) list \<Rightarrow> byte list \<Rightarrow> server \<Rightarrow> kvmap \<Rightarrow> bool" where
  "settled sv d b es reply sv' kv' \<longleftrightarrow> server_ok sv' \<and> mem_ok (sv_mem sv') \<and> opened (sv_mem sv') d kv' b es \<and>
     b \<notin> set (deque_blocks (write_deque sv')) \<and> keep_run sv' = keep_run sv \<and> route_table sv' = route_table sv \<and>
     malloc_limit (sv_mem sv') = malloc_limit (sv_mem sv) \<and> outgoing sv' = outgoing sv @ reply"

text \<open>Memory in which only new blocks were added.\<close>

definition extends :: "mem \<Rightarrow> mem \<Rightarrow> bool" where
  "extends m m' \<longleftrightarrow> (\<forall>b. heap m b \<noteq> None \<longrightarrow> heap m' b = heap m b) \<and> mem_ok m' \<and>
     malloc_limit m' = malloc_limit m \<and> malloc_fill m' = malloc_fill m"

lemma extends_refl: "mem_ok m \<Longrightarrow> extends m m"
  by (simp add: extends_def)

lemma extends_answer_mem: "mem_ok m \<Longrightarrow> extends m (answer_mem m w s)"
  using mem_ok_fresh [of m "store32 w"] mem_ok_fresh [of "fresh m (store32 w)" s]
  by (auto simp: extends_def answer_mem_def mem_ok_def)

lemma server_ok_extends:
  assumes "server_ok sv" "extends (sv_mem sv) m"
  shows "server_ok (sv\<lparr>sv_mem := m\<rparr>)" "outgoing (sv\<lparr>sv_mem := m\<rparr>) = outgoing sv"
  using server_ok_mem [OF assms(1), of m] queued_live [OF assms(1)] assms(2) unfolding extends_def by blast+

lemma server_ok_other: "server_ok (sv\<lparr>chunk_ids := c\<rparr>) = server_ok sv" "outgoing (sv\<lparr>chunk_ids := c\<rparr>) = outgoing sv"
  by (simp_all add: server_ok_def outgoing_def)

lemma echo_service_run:
  assumes "message_address cv 0 (sv_mem sv) d kv = Some (Some a, m1, d, kv1)" "dson_key m1 d = Some k"
    and "(if k = 1 then auth_answer cv m1 (answer_dson 0) [(0, ObjRoute (reply_obj a))] d kv1
      else if k = 3 then data_answer cv (chunk_ids sv i + 1) (Some a) m1 (answer_dson 0) [(0, ObjRoute (reply_obj a))] d kv1
      else None) = Some (True, m2, (answer, akv), d, kv2)"
    and "rt (sv\<lparr>chunk_ids := (chunk_ids sv)(i := chunk_ids sv i + 1), sv_mem := m2\<rparr>) answer akv = Some (sv', moved, [])"
    and "\<not> d_was_alloc moved"
  shows "echo_service cv rt i sv d kv = Some (sv', d, kv2)"
  using assms by (simp add: echo_service_def dson_new_eq emplace_reply_eq Let_def split: if_splits)

text \<open>A service that answers: it has read the address and made the answer in new memory.\<close>

lemma service_answers:
  assumes sv: "server_ok sv" "mem_ok (sv_mem sv)" "b \<notin> set (deque_blocks (write_deque sv))"
    and ma: "message_address lib_converters 0 (sv_mem sv) d kv = Some (Some a, sv_mem sv, d, kv1)"
    and o: "opened m2 d kv2 b es" "heap (sv_mem sv) b \<noteq> None" and key: "dson_key (sv_mem sv) d = Some k"
    and br: "(if k = 1 then auth_answer lib_converters (sv_mem sv) (answer_dson 0) [(0, ObjRoute (reply_obj a))] d kv1
      else if k = 3 then data_answer lib_converters (chunk_ids sv i + 1) (Some a) (sv_mem sv) (answer_dson 0) [(0, ObjRoute (reply_obj a))] d kv1
      else None) = Some (True, m2, (answer_dson k', (0, ObjRoute (reply_obj a)) # akv), d, kv2)"
    and ext: "extends (sv_mem sv) m2"
    and new: "\<forall>x \<in> set (obj_blocks (ObjDson (answer_dson k') ((0, ObjRoute (reply_obj a)) # akv))). heap (sv_mem sv) x = None"
    and ok: "answer_ready (sv\<lparr>sv_mem := m2\<rparr>) a k' akv"
  shows "\<exists>sv'. echo_service lib_converters (route 1 lib_converters) i sv d kv = Some (sv', d, kv2) \<and>
    chunk_ids sv' = (chunk_ids sv)(i := chunk_ids sv i + 1) \<and> settled sv d b es
      (obj_wire lib_converters True m2 (ObjDson (answer_dson k') ((0, ObjRoute (reply_obj a)) # akv))) sv' kv2"
proof -
  let ?obj = "ObjDson (answer_dson k') ((0, ObjRoute (reply_obj a)) # akv)"
  let ?sv = "sv\<lparr>chunk_ids := (chunk_ids sv)(i := chunk_ids sv i + 1), sv_mem := m2\<rparr>"
  let ?B = "set (obj_blocks ?obj) \<union> set (deque_blocks (write_deque ?sv))"
  have ok': "server_ok ?sv" "outgoing ?sv = outgoing sv"
    using server_ok_extends [of "sv\<lparr>chunk_ids := (chunk_ids sv)(i := chunk_ids sv i + 1)\<rparr>" m2] sv(1) ext server_ok_other by simp_all
  have r: "answer_ready ?sv a k' akv" using ok by (simp add: answer_ready_def)
  obtain sv' moved where s: "route 1 lib_converters ?sv (answer_dson k') ((0, ObjRoute (reply_obj a)) # akv) = Some (sv', moved, [])"
    "\<not> d_was_alloc moved" "server_ok sv'" "outgoing sv' = outgoing ?sv @ obj_wire lib_converters True (sv_mem ?sv) ?obj"
    "untouched ?B ?sv sv'"
    by (rule answer_routed [OF ok'(1) r])
  have e: "echo_service lib_converters (route 1 lib_converters) i sv d kv = Some (sv', d, kv2)"
    by (rule echo_service_run [where rt = "route 1 lib_converters", OF ma key br s(1,2)])
  note own = ok [unfolded answer_ready_def Let_def]
  have b: "b \<notin> ?B" using sv(3) o(2) new by auto
  have live: "\<forall>x \<in> ?B. heap (sv_mem ?sv) x \<noteq> None"
    using queued_live [OF ok'(1)] obj_owned_blocks [of "sv_mem ?sv" ?obj] own by auto
  have "mem_ok (sv_mem ?sv)" "malloc_limit (sv_mem ?sv) = malloc_limit (sv_mem sv)" using ext by (simp_all add: extends_def)
  moreover have "mem_ok (sv_mem sv')" by (rule untouched_live [OF s(5) _ live]) (use ext in \<open>simp add: extends_def\<close>)
  moreover have "opened (sv_mem sv') d kv2 b es"
    by (rule opened_frame [OF o(1)]) (use s(5) b in \<open>simp_all add: untouched_def same_alloc_def\<close>)
  moreover have "b \<notin> set (deque_blocks (write_deque sv'))" using s(5) b unfolding untouched_def by blast
  moreover have "chunk_ids sv' = (chunk_ids sv)(i := chunk_ids sv i + 1)" "keep_run sv' = keep_run sv"
    "route_table sv' = route_table sv" "malloc_limit (sv_mem sv') = malloc_limit (sv_mem ?sv)"
    using s(5) by (simp_all add: untouched_def same_alloc_def)
  ultimately show ?thesis using e s(3,4) ok'(2) by (intro exI [of _ sv']) (simp add: settled_def)
qed

text \<open>The password is compared with the string under its key.\<close>

lemma auth_answer_opened:
  assumes o: "opened m d kv b (xs @ (h, s) # ys)" and h: "hdr_field h 2 = 4" "hdr_field h 3 = types_map T_string"
  shows "\<exists>kv'. auth_answer lib_converters m (answer_dson 0) akv d kv =
    Some (s = password, m, (answer_dson (if s = password then 2 else 0), akv), d, kv') \<and>
    opened m d kv' b (xs @ (h, s) # ys)"
proof -
  obtain kv' v where "opened m d kv' b (xs @ (h, s) # ys)" "dson_get lib_converters m d kv 4 = Some (Child 4, m, d, kv')"
    "kv_find 4 kv' = Some (ObjDson v [])" "to_string_view m (Some (ObjDson v [])) = Some s"
    using opened_get_string [OF o h(2)] unfolding h(1) by metis
  then show ?thesis by (auto simp: auth_answer_def pointed_def answer_key)
qed

definition authed_wire :: "address \<Rightarrow> byte list" where
  "authed_wire a = hdr_for True 32 2 (types_map T_DsonContainer) @ route_wire True 0 (reply_to a)"

lemma authed_ok:
  fixes a
  defines "obj \<equiv> ObjDson (answer_dson 2) [(0, ObjRoute (reply_obj a))]"
  shows "obj_ok lib_data True m obj" "obj_owned m obj" "obj_blocks obj = []" "obj_rest obj"
    "obj_wire lib_converters True m obj = authed_wire a"
proof -
  have "i32_ok 2" by (simp add: i32_ok_iff)
  then have f: "hdr_field (host_hdr 0 2 (types_map T_DsonContainer)) 2 = 2"
    "hdr_field (host_hdr 0 2 (types_map T_DsonContainer)) 3 = types_map T_DsonContainer"
    using hdr_field_for [of _ False] by (simp_all add: hdr_for_def)
  have v: "hdr_valid (host_hdr 0 2 (types_map T_DsonContainer))"
    using hdr_for_valid [of False 0 2 "types_map T_DsonContainer"] by (simp add: hdr_for_def)
  show "obj_ok lib_data True m obj" "obj_owned m obj" "obj_blocks obj = []" "obj_rest obj"
    "obj_wire lib_converters True m obj = authed_wire a"
    using v f by (simp_all add: obj_def container_ok_def i32_max_def header_size_def ro_data_size_def address_size_def authed_wire_def)
qed

text \<open>What a service replies to a message with this key from this sender, with this string and count.\<close>

definition request_reply :: "i32 \<Rightarrow> address \<Rightarrow> byte list \<Rightarrow> u32 \<Rightarrow> byte list" where
  "request_reply k a s w = (if k = net_key_id WantAuth then if s = password then authed_wire a else []
     else answer_wire a w (echo_text a s))"

definition fits_reply :: "mem \<Rightarrow> address \<Rightarrow> byte list \<Rightarrow> bool" where
  "fits_reply m a s \<longleftrightarrow> 4 \<le> malloc_limit m \<and> length (echo_text a s) \<le> malloc_limit m \<and>
     int (length (echo_text a s)) + 68 \<le> i32_max"

lemma echo_service_silent:
  assumes "message_address cv 0 (sv_mem sv) d kv = Some (Some a, m1, d, kv1)" "dson_key m1 d = Some 1"
    and "auth_answer cv m1 (answer_dson 0) [(0, ObjRoute (reply_obj a))] d kv1 =
      Some (False, m1, (answer_dson 0, [(0, ObjRoute (reply_obj a))]), d, kv2)"
  shows "echo_service cv rt i sv d kv = Some (sv\<lparr>chunk_ids := (chunk_ids sv)(i := chunk_ids sv i + 1), sv_mem := m1\<rparr>, d, kv2)"
  using assms by (simp add: echo_service_def dson_new_eq emplace_reply_eq Let_def)

text \<open>A service that has not read the message yet.\<close>

lemma service_serves:
  assumes sv: "server_ok sv" "mem_ok (sv_mem sv)" "b \<notin> set (deque_blocks (write_deque sv))"
    and ma: "message_address lib_converters 0 (sv_mem sv) d kv = Some (Some a, sv_mem sv, d, kv1)"
    and o: "opened (sv_mem sv) d kv1 b (us @ (hs, s) # vs)" and key: "dson_key (sv_mem sv) d = Some k" "k = 1 \<or> k = 3"
    and s: "hdr_field hs 2 = (if k = 1 then 4 else 6)" "hdr_field hs 3 = types_map T_string"
    and rt: "route_table sv (from_cli_id a) = Some ToConnection" and lim: "fits_reply (sv_mem sv) a s"
  shows "\<exists>sv' kv'. echo_service lib_converters (route 1 lib_converters) i sv d kv = Some (sv', d, kv') \<and>
    chunk_ids sv' = (chunk_ids sv)(i := chunk_ids sv i + 1) \<and>
    settled sv d b (us @ (hs, s) # vs) (request_reply k a s (chunk_ids sv i + 1)) sv' kv'"
proof (cases "k = 1")
  case True
  let ?akv = "[(0, ObjRoute (reply_obj a))]"
  obtain kv2 where au: "auth_answer lib_converters (sv_mem sv) (answer_dson 0) ?akv d kv1 =
      Some (s = password, sv_mem sv, (answer_dson (if s = password then 2 else 0), ?akv), d, kv2)"
    "opened (sv_mem sv) d kv2 b (us @ (hs, s) # vs)"
    using auth_answer_opened [OF o] s True by auto
  show ?thesis
  proof (cases "s = password")
    case False
    have "settled sv d b (us @ (hs, s) # vs) [] (sv\<lparr>chunk_ids := (chunk_ids sv)(i := chunk_ids sv i + 1), sv_mem := sv_mem sv\<rparr>) kv2"
      using sv au(2) server_ok_other by (simp add: settled_def)
    then show ?thesis
      using echo_service_silent [OF ma] key(1) True au False by (simp add: request_reply_def)
  next
    case pw: True
    have "answer_ready (sv\<lparr>sv_mem := sv_mem sv\<rparr>) a 2 []"
      using authed_ok rt by (simp add: answer_ready_def del: obj_ok.simps obj_owned.simps obj_rest.simps)
    then show ?thesis
      using service_answers [OF sv ma au(2) opened_live [OF o] key(1), of i 2 "[]"] au(1) True pw authed_ok(3,5) extends_refl [OF sv(2)]
      by (simp add: request_reply_def del: obj_blocks.simps obj_wire.simps) blast
  qed
next
  case False
  let ?w = "chunk_ids sv i + 1" and ?t = "echo_text a s"
  let ?m2 = "answer_mem (sv_mem sv) ?w ?t"
  obtain kv2 where da: "data_answer lib_converters ?w (Some a) (sv_mem sv) (answer_dson 0) [(0, ObjRoute (reply_obj a))] d kv1 =
      Some (True, ?m2, (answer_dson 3, answer_kv (sv_mem sv) a ?w ?t), d, kv2)"
    "opened ?m2 d kv2 b (us @ (hs, s) # vs)"
    using data_answer_opened [OF o, of a ?w] s sv(2) lim False by (auto simp: fits_reply_def i32_max_def)
  have t: "int (length ?t) + 68 \<le> i32_max" using lim by (simp add: fits_reply_def)
  note ans = answer_ok [OF echo_text_nonempty [of a s] t, where m = "sv_mem sv" and w = ?w and a = a, unfolded answer_kv_def]
  have dead: "heap (sv_mem sv) (next_block (sv_mem sv)) = None" "heap (sv_mem sv) (Suc (next_block (sv_mem sv))) = None"
    using sv(2) by (simp_all add: mem_ok_def)
  then have "x \<notin> set (deque_blocks (write_deque sv))" if "x = next_block (sv_mem sv) \<or> x = Suc (next_block (sv_mem sv))" for x
    using queued_live [OF sv(1)] that by metis
  then have r: "answer_ready (sv\<lparr>sv_mem := ?m2\<rparr>) a 3 (tl (answer_kv (sv_mem sv) a ?w ?t))"
    using ans rt by (simp add: answer_ready_def answer_kv_def del: obj_ok.simps obj_owned.simps obj_rest.simps obj_blocks.simps)
  show ?thesis
    using service_answers [OF sv ma da(2) opened_live [OF o] key(1) _ extends_answer_mem [OF sv(2)] _ r] da(1) ans(5,6) dead key(2) False
    by (simp add: request_reply_def answer_kv_def del: obj_blocks.simps obj_wire.simps) blast
qed

text \<open>The address is read by the router and once more by the service.\<close>

lemma opened_address_twice:
  fixes xs ys a
  defines "es nw \<equiv> xs @ (hdr_for nw 16 0 (types_map T_vector_uint32), addr_bytes nw a) # ys"
  assumes o: "opened m d kv b (es nw)"
  shows "\<exists>m1 kv1 kv2. m1 = upd_block m b (entries_wire (es False)) \<and>
    message_address lib_converters 0 m d kv = Some (Some a, m1, d, kv1) \<and>
    message_address lib_converters 0 m1 d kv1 = Some (Some a, m1, d, kv2) \<and> opened m1 d kv2 b (es False)"
proof -
  have k0: "i32_ok 0" by (simp add: i32_ok_iff)
  note es_defs = es_def [of nw] es_def [of False]
  define m1 where "m1 = upd_block m b (entries_wire (es False))"
  obtain kv1 where a1: "message_address lib_converters 0 m d kv = Some (Some a, m1, d, kv1)" "opened m1 d kv1 b (es False)"
    using opened_address [OF o [unfolded es_defs] k0] by (auto simp: hdr_for_def m1_def es_defs)
  obtain kv2 where a2: "message_address lib_converters 0 m1 d kv1 = Some (Some a, m1, d, kv2)" "opened m1 d kv2 b (es False)"
    using opened_address [OF a1(2) [unfolded es_defs] k0] by (auto simp: hdr_for_def m1_def es_defs)
  show ?thesis using a1 a2 m1_def by blast
qed

text \<open>
  \<open>Router::route\<close> of a parsed message for a service: the address, in either byte order in the
  message, is read by the router and once more by the service, and is left in host order.
\<close>

lemma route_request:
  fixes xs ys a
  defines "es nw \<equiv> xs @ (hdr_for nw 16 0 (types_map T_vector_uint32), addr_bytes nw a) # ys"
  assumes sv: "server_ok sv" "mem_ok (sv_mem sv)" "b \<notin> set (deque_blocks (write_deque sv))"
    and o: "opened (sv_mem sv) d kv b (es nw)" and key: "dson_key (sv_mem sv) d = Some k" "k = 1 \<or> k = 3"
    and s: "(hs, s) \<in> set xs \<union> set ys" "hdr_field hs 2 = (if k = 1 then 4 else 6)" "hdr_field hs 3 = types_map T_string"
    and rt: "route_table sv (to_cli_id a) = Some (EchoService i)" "route_table sv (from_cli_id a) = Some ToConnection"
    and lim: "fits_reply (sv_mem sv) a s"
  shows "\<exists>sv' kv'. route 2 lib_converters sv d kv = Some (sv', d, kv') \<and>
    chunk_ids sv' = (chunk_ids sv)(i := chunk_ids sv i + 1) \<and>
    settled sv d b (es False) (request_reply k a s (chunk_ids sv i + 1)) sv' kv'"
proof -
  obtain m1 kv1 kv2 where m1_def: "m1 = upd_block (sv_mem sv) b (entries_wire (es False))"
    and a1: "message_address lib_converters 0 (sv_mem sv) d kv = Some (Some a, m1, d, kv1)"
    and a2: "message_address lib_converters 0 m1 d kv1 = Some (Some a, m1, d, kv2)" "opened m1 d kv2 b (es False)"
    using opened_address_twice [OF o [unfolded es_def]] unfolding es_def by metis
  let ?sv = "sv\<lparr>sv_mem := m1\<rparr>"
  have m1: "mem_ok m1" "malloc_limit m1 = malloc_limit (sv_mem sv)"
    using sv(2) opened_live [OF o] by (auto simp: mem_ok_def m1_def)
  have "\<forall>x \<in> set (deque_blocks (write_deque sv)). heap m1 x = heap (sv_mem sv) x" using sv(3) by (auto simp: m1_def)
  note ok = server_ok_mem [OF sv(1) this]
  have key1: "dson_key m1 d = Some k" using key(1) o by (simp add: opened_def dson_key_def local_simps)
  have "(hs, s) \<in> set (es False)" using s(1) by (auto simp: es_def)
  then obtain us vs where us: "es False = us @ (hs, s) # vs" using split_list by metis
  have "\<exists>sv' kv'. echo_service lib_converters (route 1 lib_converters) i ?sv d kv1 = Some (sv', d, kv') \<and>
    chunk_ids sv' = (chunk_ids ?sv)(i := chunk_ids ?sv i + 1) \<and>
    settled ?sv d b (us @ (hs, s) # vs) (request_reply k a s (chunk_ids ?sv i + 1)) sv' kv'"
    by (rule service_serves) (use ok m1 sv(3) a2 us key1 key(2) s rt lim in \<open>simp_all add: fits_reply_def\<close>)
  then obtain sv' kv' where e: "echo_service lib_converters (route 1 lib_converters) i ?sv d kv1 = Some (sv', d, kv')"
    and c: "chunk_ids sv' = (chunk_ids sv)(i := chunk_ids sv i + 1)"
      "settled ?sv d b (es False) (request_reply k a s (chunk_ids sv i + 1)) sv' kv'"
    unfolding us by auto
  have "route 2 lib_converters sv d kv = Some (sv', d, kv')"
    using a1 rt(1) e by (simp add: numeral_2_eq_2)
  moreover have "settled sv d b (es False) (request_reply k a s (chunk_ids sv i + 1)) sv' kv'"
    using c(2) m1(2) ok(2) by (simp add: settled_def)
  ultimately show ?thesis using c(1) by blast
qed

text \<open>A message that has just been loaded is parsed first.\<close>

lemma loaded_request:
  assumes l: "loaded_msg h (entries_wire es) (m, d, kv)" "length h = 16" "es \<noteq> []"
    and h: "hdr_field h 3 = types_map T_DsonContainer"
    and es: "\<forall>e \<in> set es. entry_ok e" "distinct (map (\<lambda>e. hdr_field (fst e) 2) es)"
  defines "d1 \<equiv> d\<lparr>d_kind := DsonContainer\<rparr>"
  obtains b kv1 where "opened m d1 kv1 b es" "d_buf d = Some (b, 0)" "dson_key m d1 = Some (hdr_field h 2)"
    "\<And>k. message_address lib_converters k m d kv = message_address lib_converters k m d1 kv1"
    "\<And>n sv. sv_mem sv = m \<Longrightarrow> route n lib_converters sv d kv = route n lib_converters sv d1 kv1"
proof -
  obtain b kv1 where o: "opened m d1 kv1 b es" and b: "d_buf d = Some (b, 0)"
    and g: "\<And>cv k. dson_get cv m d kv k = dson_get cv m d1 kv1 k"
    unfolding d1_def by (rule loaded_opened [OF l(1,3) h es l(2)]) simp_all
  have ma: "message_address lib_converters k m d kv = message_address lib_converters k m d1 kv1" for k
    by (simp add: message_address_def g)
  have r: "route n lib_converters sv d kv = route n lib_converters sv d1 kv1" if "sv_mem sv = m" for n sv
    using ma that by (cases n) simp_all
  have "dson_key m d1 = Some (hdr_field h 2)"
    using l(1) o by (simp add: loaded_msg_def opened_def dson_key_def local_simps d1_def)
  then show ?thesis using that [OF o b _ ma r] by simp
qed

text \<open>
  The echo service answers the sender.  When a message \<open>SimpleData\<close> addressed to a service
  arrives from a client whose connection is registered, the service counts it and queues
  exactly one answer for that connection, after what is queued already: from and to exchanged,
  the new value of its counter, and the text naming both ids before the string that was sent.
\<close>

theorem echo_answers_sender:
  assumes sv: "server_ok sv" "mem_ok (sv_mem sv)"
    and l: "loaded_msg h (entries_wire (xs @ (hdr_for True 16 0 (types_map T_vector_uint32), addr_bytes True a) # ys))
        (sv_mem sv, d, kv)"
    and h: "hdr_field h 2 = net_key_id SimpleData" "hdr_field h 3 = types_map T_DsonContainer" "length h = 16"
    and es: "\<forall>e \<in> set (xs @ (hdr_for True 16 0 (types_map T_vector_uint32), addr_bytes True a) # ys). entry_ok e"
      "distinct (map (\<lambda>e. hdr_field (fst e) 2) (xs @ (hdr_for True 16 0 (types_map T_vector_uint32), addr_bytes True a) # ys))"
    and s: "(hs, s) \<in> set xs \<union> set ys" "hdr_field hs 2 = net_key_id StringData" "hdr_field hs 3 = types_map T_string"
    and own: "\<forall>p. d_buf d = Some p \<longrightarrow> fst p \<notin> set (deque_blocks (write_deque sv))"
    and rt: "route_table sv (to_cli_id a) = Some (EchoService i)" "route_table sv (from_cli_id a) = Some ToConnection"
    and lim: "4 \<le> malloc_limit (sv_mem sv)" "length (echo_text a s) \<le> malloc_limit (sv_mem sv)"
      "int (length (echo_text a s)) + 68 \<le> i32_max"
  shows "\<exists>sv' d' kv'. route 2 lib_converters sv d kv = Some (sv', d', kv') \<and> server_ok sv' \<and>
    keep_run sv' = keep_run sv \<and> chunk_ids sv' = (chunk_ids sv)(i := chunk_ids sv i + 1) \<and>
    outgoing sv' = outgoing sv @ answer_wire a (chunk_ids sv i + 1) (echo_text a s)"
proof -
  let ?d = "d\<lparr>d_kind := DsonContainer\<rparr>"
  let ?re = "\<lambda>nw. (hdr_for nw 16 0 (types_map T_vector_uint32), addr_bytes nw a)"
  obtain b kv1 where o: "opened (sv_mem sv) ?d kv1 b (xs @ ?re True # ys)" and b: "d_buf d = Some (b, 0)"
    and k: "dson_key (sv_mem sv) ?d = Some (hdr_field h 2)"
    and r: "route 2 lib_converters sv d kv = route 2 lib_converters sv ?d kv1"
    by (rule loaded_request [OF l h(3) _ h(2) es]) (simp, metis)
  have nb: "b \<notin> set (deque_blocks (write_deque sv))" using own b by simp
  have "\<exists>sv' kv'. route 2 lib_converters sv ?d kv1 = Some (sv', ?d, kv') \<and>
    chunk_ids sv' = (chunk_ids sv)(i := chunk_ids sv i + 1) \<and>
    settled sv ?d b (xs @ ?re False # ys) (request_reply 3 a s (chunk_ids sv i + 1)) sv' kv'"
    by (rule route_request [OF sv nb o]) (use k h(1) s rt lim in \<open>simp_all add: fits_reply_def\<close>)
  then show ?thesis using r by (auto simp: settled_def request_reply_def)
qed

section \<open>Messages that never come to rest\<close>

text \<open>Whatever is emplaced, the container is there with the object under its key.\<close>

lemma emplace_shape:
  assumes "emplace_dson m d kv key (a, []) = Some (m', d', kv')"
    and "d_kind d = DsonContainer" "d_state d = StReady" "header_loc d = None" "kv_find key kv = None"
  shows "d' = d\<lparr>d_header := hdr_set_field (d_header d) 3 (types_map T_DsonContainer)\<rparr>"
    "\<exists>obj. kv' = kv_insert_or_assign key obj kv"
  using assms(1) insert_new [OF assms(2-5)]
  by (auto simp: emplace_dson_def dson_move_construct_def ub_simps)

lemma data_answer_shape:
  assumes "data_answer cv w sender m (answer_dson 0) [(0, ObjRoute r)] d kv = Some (send, m', (answer, akv), d', kv')"
  shows "send" "answer = answer_dson 3" "kv_find 0 akv = Some (ObjRoute r)"
proof -
  obtain m1 chunk m2 an1 kv1 m3 str m4 where
    e1: "emplace_dson m1 (answer_dson 3) [(0, ObjRoute r)] 5 (chunk, []) = Some (m2, an1, kv1)"
    and e2: "emplace_dson m3 an1 kv1 6 (str, []) = Some (m4, answer, akv)" and send
    using assms by (auto simp: data_answer_def answer_key ub_simps)
  show send by fact
  obtain o5 where k1: "an1 = answer_dson 3" "kv1 = kv_insert_or_assign 5 o5 [(0, ObjRoute r)]"
    using emplace_shape [OF e1] by auto
  obtain o6 where "answer = answer_dson 3" "akv = kv_insert_or_assign 6 o6 kv1"
    using emplace_shape [OF e2] k1 by auto
  then show "answer = answer_dson 3" "kv_find 0 akv = Some (ObjRoute r)" using k1 by simp_all
qed

text \<open>An answer that a service is to answer again.\<close>

lemma echo_None:
  assumes "message_address cv 0 (sv_mem sv) d kv = Some (Some a, m1, d, kv1)" "dson_key m1 d = Some 3"
    and "\<And>(sv' :: server) akv. route_table sv' = route_table sv \<Longrightarrow> kv_find 0 akv = Some (ObjRoute (reply_obj a)) \<Longrightarrow>
      rt sv' (answer_dson 3) akv = None"
  shows "echo_service cv rt i sv d kv = None"
proof (cases "data_answer cv (chunk_ids sv i + 1) (Some a) m1 (answer_dson 0) [(0, ObjRoute (reply_obj a))] d kv1")
  case None
  then show ?thesis using assms(1,2) by (simp add: echo_service_def dson_new_eq emplace_reply_eq Let_def)
next
  case (Some res)
  obtain send m2 answer akv d2 kv2 where res: "res = (send, m2, (answer, akv), d2, kv2)"
    by (metis prod.collapse)
  note sh = data_answer_shape [OF Some [unfolded res]]
  have "rt (sv\<lparr>chunk_ids := (chunk_ids sv)(i := chunk_ids sv i + 1), sv_mem := m2\<rparr>) (answer_dson 3) akv = None"
    using assms(3) [OF _ sh(3)] by simp
  then show ?thesis using assms(1,2) Some res sh
    by (simp add: echo_service_def dson_new_eq emplace_reply_eq Let_def)
qed

lemma bouncing_answer:
  assumes "kv_find 0 kv = Some (ObjRoute (reply_obj a))"
    and "route_table sv (from_cli_id a) = Some (EchoService i)" "route_table sv (to_cli_id a) = Some (EchoService j)"
  shows "route n cv sv (answer_dson 3) kv = None"
  using assms
proof (induction n arbitrary: sv kv a i j)
  case (Suc n)
  have sn: "snd (ro_address (reply_obj a)) = reply_obj a"
    using ro_address_eq [of "reply_obj a" False 0 "reply_to a"] by (simp add: reply_obj_def i32_ok_iff)
  let ?kv = "\<lambda>kv. kv_insert_or_assign 0 (ObjRoute (reply_obj a)) (kv_insert_or_assign 0 (ObjRoute (reply_obj a)) kv)"
  have ma: "message_address cv 0 m (answer_dson 3) kv = Some (Some (reply_to a), m, answer_dson 3, ?kv kv)"
    if "kv_find 0 kv = Some (ObjRoute (reply_obj a))" for m kv
    using local_address [of "answer_dson 3" 0 kv "reply_obj a" cv m] that sn by simp
  have f: "kv_find 0 (?kv kv) = Some (ObjRoute (reply_obj a))" by (simp add: kv_find_insert)
  have key: "dson_key m (answer_dson 3) = Some 3" for m
    using hdr_field_for(2) [of 3 False 0 "types_map T_DsonContainer"]
    by (simp add: dson_key_def local_simps hdr_for_def i32_ok_iff)
  have "echo_service cv (route n cv) i sv (answer_dson 3) (?kv kv) = None"
  proof (rule echo_None [OF ma [OF f] key])
    fix sv' :: server and akv :: kvmap
    assume "route_table sv' = route_table sv" "kv_find 0 akv = Some (ObjRoute (reply_obj (reply_to a)))"
    then show "route n cv sv' (answer_dson 3) akv = None"
      using Suc.IH [of akv "reply_to a" sv' j i] Suc.prems(2,3) by simp
  qed
  then show ?case using ma [OF Suc.prems(1)] Suc.prems(2) by simp
qed simp


end
