(* ===== verification/Composite.thy ===== *)
theory Composite
  imports Save_Load Network
begin

text \<open>
  \<open>save_and_load_advanced_composite\<close> (\<open>advanced.cpp\<close>): a \<open>Dson\<close> whose map holds objects of the
  library beside one of a user class, \<open>VeryBigStruct\<close>, sent piece by piece without copying it.
\<close>

section \<open>A container with a user class\<close>

text \<open>
  What the map points to.  The container itself is a \<open>Dson\<close> of kind \<open>DsonContainer\<close> with a header
  of its own; its operations are those of \<open>dson.h\<close> on such an object, the virtual calls
  going to the class of the part.
\<close>

datatype part = Lib_Part dson_obj | Big_Part big_struct

type_synonym parts = "(i32 \<times> part) list"

fun part_data_size :: "mem \<Rightarrow> part \<Rightarrow> i32 option" where
  "part_data_size m (Lib_Part obj) = obj_data_size m obj"
| "part_data_size m (Big_Part s) = bs_data_size s"

fun part_destroy :: "mem \<Rightarrow> part \<Rightarrow> mem option" where
  "part_destroy m (Lib_Part obj) = obj_destroy m obj"
| "part_destroy m (Big_Part s) = Some m"

fun part_copy_to_fd :: "mem \<Rightarrow> part \<Rightarrow> wfd \<Rightarrow> (result \<times> wfd \<times> mem \<times> part) option" where
  "part_copy_to_fd m (Lib_Part obj) fd = do {
     (r, fd, m, obj) \<leftarrow> copy_to_fd example_converters True m obj fd;
     Some (r, fd, m, Lib_Part obj)
   }"
| "part_copy_to_fd m (Big_Part s) fd = do {
     (r, fd, s) \<leftarrow> bs_copy_to_fd_network_order s fd;
     Some (r, fd, m, Big_Part s)
   }"

fun parts_size_loop :: "mem \<Rightarrow> parts \<Rightarrow> i32 \<Rightarrow> i32 option" where
  "parts_size_loop m [] re = Some re"
| "parts_size_loop m ((k, p) # ps) re = do {
     sz \<leftarrow> part_data_size m p;
     t \<leftarrow> i32_add sz (int header_size);
     re \<leftarrow> i32_add re t;
     parts_size_loop m ps re
   }"

text \<open>\<open>insert_internal\<close> and the three overloads of \<open>emplace\<close>, on a container at rest.\<close>

definition part_insert :: "mem \<Rightarrow> dson \<Rightarrow> parts \<Rightarrow> i32 \<Rightarrow> part \<Rightarrow> (mem \<times> dson \<times> parts) option" where
  "part_insert m d ps key p = do {
     m \<leftarrow> (case kv_find key ps of None \<Rightarrow> Some m | Some old \<Rightarrow> part_destroy m old);
     (m, d) \<leftarrow> set_data_type_internal m d (types_map T_DsonContainer);
     Some (m, d, kv_insert_or_assign key p ps)
   }"

definition part_emplace_dson :: "mem \<Rightarrow> dson \<Rightarrow> parts \<Rightarrow> i32 \<Rightarrow> dson \<Rightarrow> (mem \<times> dson \<times> parts) option" where
  "part_emplace_dson m d ps key arg = do {
     (m, od) \<leftarrow> dson_set_key m arg key;
     let (obj, moved) = dson_move_construct m od [];
     (m, d, ps) \<leftarrow> part_insert m d ps key (Lib_Part (ObjDson (fst obj) (snd obj)));
     m \<leftarrow> obj_destroy m (ObjDson (fst moved) (snd moved));
     Some (m, d, ps)
   }"

definition part_emplace_ptr :: "mem \<Rightarrow> dson \<Rightarrow> parts \<Rightarrow> dson_obj \<Rightarrow> (mem \<times> dson \<times> parts) option" where
  "part_emplace_ptr m d ps obj = do { key \<leftarrow> obj_key m obj; part_insert m d ps key (Lib_Part obj) }"

definition part_emplace_big :: "mem \<Rightarrow> dson \<Rightarrow> parts \<Rightarrow> i32 \<Rightarrow> big_struct \<Rightarrow> (mem \<times> dson \<times> parts) option" where
  "part_emplace_big m d ps key s = part_insert m d ps key (Big_Part (bs_set_key s key))"

text \<open>\<open>copy_to_fd_network_order\<close> of the container: its header, then the parts from the iterator on.\<close>

fun parts_loop :: "mem \<Rightarrow> parts \<Rightarrow> wfd \<Rightarrow> (result \<times> wfd \<times> mem \<times> parts \<times> nat) option" where
  "parts_loop m [] fd = Some (Ready, fd, m, [], 0)"
| "parts_loop m ((k, p) # ps) fd = do {
     (res, fd, m, p) \<leftarrow> part_copy_to_fd m p fd;
     if res \<noteq> Ready then Some (res, fd, m, (k, p) # ps, 0)
     else do {
       (res, fd, m, ps, i) \<leftarrow> parts_loop m ps fd;
       Some (res, fd, m, (k, p) # ps, Suc i)
     }
   }"

definition parts_data :: "mem \<Rightarrow> dson \<Rightarrow> parts \<Rightarrow> wfd \<Rightarrow> (result \<times> wfd \<times> mem \<times> dson \<times> parts) option" where
  "parts_data m d ps fd = (case d_iter d of
     None \<Rightarrow> None
   | Some i \<Rightarrow> if length ps < i then None else do {
       (res, fd, m, ps', j) \<leftarrow> parts_loop m (drop i ps) fd;
       let d = d\<lparr>d_iter := Some (i + j)\<rparr>;
       Some (res, fd, m, if res = Ready then d\<lparr>d_state := StReady\<rparr> else d, take i ps @ ps')
     })"

definition parts_header :: "mem \<Rightarrow> dson \<Rightarrow> parts \<Rightarrow> wfd \<Rightarrow> (result \<times> wfd \<times> mem \<times> dson \<times> parts) option" where
  "parts_header m d ps fd =
     (if int header_size \<le> d_offset d then Some (Error, fd, m, d, ps)
      else if d_offset d < 0 then None
      else do {
        header \<leftarrow> hdr_bytes m d;
        let (writed, fd) = write_to_fd fd (drop (nat (d_offset d)) header);
        if writed < 0 then Some (Error, fd, m, d\<lparr>d_state := StReady\<rparr>, ps)
        else do {
          let d = d\<lparr>d_offset := d_offset d + writed\<rparr>;
          if d_offset d < int header_size then Some (InProcess, fd, m, d, ps)
          else parts_data m (d\<lparr>d_iter := Some 0, d_state := StCopyingData\<rparr>) ps fd
        }
      })"

definition parts_copy_to_fd :: "mem \<Rightarrow> dson \<Rightarrow> parts \<Rightarrow> wfd \<Rightarrow> (result \<times> wfd \<times> mem \<times> dson \<times> parts) option" where
  "parts_copy_to_fd m d ps fd = (case d_state d of
     StReady \<Rightarrow> do {
       sz \<leftarrow> parts_size_loop m ps 0;
       (m, d) \<leftarrow> set_data_size_internal m d sz;
       (m, d) \<leftarrow> header_to_network m d;
       parts_header m (d\<lparr>d_offset := 0, d_state := StCopyingHeader\<rparr>) ps fd
     }
   | StCopyingHeader \<Rightarrow> parts_header m d ps fd
   | StCopyingData \<Rightarrow> parts_data m d ps fd
   | _ \<Rightarrow> Some (Error, fd, m, d, ps))"

section \<open>The program\<close>

definition parts_step :: "mem \<times> dson \<times> parts \<Rightarrow> wcall list \<Rightarrow> (result \<times> byte list \<times> mem \<times> dson \<times> parts) option" where
  "parts_step st script = (case st of (m, d, ps) \<Rightarrow> do {
     (r, fd, m, d, ps) \<leftarrow> parts_copy_to_fd m d ps \<lparr>w_script = script, w_data = []\<rparr>;
     Some (r, w_data fd, m, d, ps)
   })"

text \<open>The container that is saved; the strings and the number are those of the program.\<close>

definition composite :: "mem \<Rightarrow> big_struct \<Rightarrow> i32 \<Rightarrow> byte list \<Rightarrow> byte list \<Rightarrow> byte list \<Rightarrow>
    (mem \<times> dson \<times> parts) option" where
  "composite m very_big_struct chunk small big view = do {
     (m, d) \<leftarrow> dson_new m;
     (m, d, ps) \<leftarrow> part_emplace_big m d [] 1 very_big_struct;
     (m, arg) \<leftarrow> dson_of_int32 m chunk;
     (m, d, ps) \<leftarrow> part_emplace_dson m d ps 0 arg;
     (m, arg) \<leftarrow> dson_of_string m small;
     (m, d, ps) \<leftarrow> part_emplace_dson m d ps 2 arg;
     (m, d, ps) \<leftarrow> part_emplace_ptr m d ps (ObjString (so_new (map (malloc_fill m) [0..<16]) 3 big));
     (m, arg) \<leftarrow> dson_of_string m view;
     part_emplace_dson m d ps 4 arg
   }"

definition save_composite :: "mem \<Rightarrow> big_struct \<Rightarrow> i32 \<Rightarrow> byte list \<Rightarrow> byte list \<Rightarrow> byte list \<Rightarrow> wcall list list \<Rightarrow>
    (result \<times> byte list) option" where
  "save_composite m very_big_struct chunk small big view calls = do {
     st \<leftarrow> composite m very_big_struct chunk small big view;
     (result, file, st) \<leftarrow> drive parts_step st calls;
     Some (result, file)
   }"

text \<open>\<open>to_string(dson.get(key))\<close>\<close>

definition got_string :: "mem \<Rightarrow> dson \<Rightarrow> kvmap \<Rightarrow> i32 \<Rightarrow> (byte list \<times> mem \<times> dson \<times> kvmap) option" where
  "got_string m d kv key = do {
     (f, m, d, kv) \<leftarrow> dson_get example_converters m d kv key;
     (s, m, obj) \<leftarrow> to_string example_converters m (pointed f d kv);
     let (d, kv) = put_pointed f obj d kv;
     Some (s, m, d, kv)
   }"

definition load_composite :: "mem \<Rightarrow> byte list \<Rightarrow> big_struct \<Rightarrow> (big_struct \<times> byte list list) option" where
  "load_composite m input re = do {
     (m, d) \<leftarrow> dson_new m;
     (m, d, kv, rest) \<leftarrow> load_from_stream m d [] input;
     (f, m, d, kv) \<leftarrow> dson_get example_converters m d kv 1;
     struct_after \<leftarrow> to_very_big_struct m (pointed f d kv) re;
     (chunk, m, d, kv) \<leftarrow> got_string m d kv 0;
     (small, m, d, kv) \<leftarrow> got_string m d kv 2;
     (big, m, d, kv) \<leftarrow> got_string m d kv 3;
     (view, m, d, kv) \<leftarrow> got_string m d kv 4;
     Some (struct_after, [chunk, small, big, view])
   }"

section \<open>One call on a part\<close>

interpretation user_live: copying example_converters user_data fd_sink w_data "\<lambda>fd. soft (w_script fd) \<and> live fd"
  "\<lambda>fd. w_data fd \<noteq> []"
  by unfold_locales

fun part_pending :: "mem \<Rightarrow> part \<Rightarrow> byte list" where
  "part_pending m (Lib_Part obj) = obj_pending example_converters True m obj"
| "part_pending m (Big_Part s) = bs_pending s"

fun part_blocks :: "part \<Rightarrow> nat list" where
  "part_blocks (Lib_Part obj) = obj_blocks obj"
| "part_blocks (Big_Part s) = []"

fun part_size :: "part \<Rightarrow> i32" where
  "part_size (Lib_Part obj) = obj_size obj"
| "part_size (Big_Part s) = int (length (bs_data s)) + 10"

fun part_ok :: "mem \<Rightarrow> part \<Rightarrow> bool" where
  "part_ok m (Lib_Part obj) \<longleftrightarrow> obj_ok user_data True m obj \<and> distinct (obj_blocks obj)"
| "part_ok m (Big_Part s) \<longleftrightarrow> bs_sendable s"

abbreviation handed_fd :: "byte list \<Rightarrow> wfd \<Rightarrow> result \<Rightarrow> wfd \<Rightarrow> byte list \<Rightarrow> bool \<Rightarrow> bool" where
  "handed_fd \<equiv> handed w_data (\<lambda>fd. soft (w_script fd) \<and> live fd) (\<lambda>fd. w_data fd \<noteq> [])"

abbreviation ready_fd :: "wfd \<Rightarrow> bool" where
  "ready_fd fd \<equiv> soft (w_script fd) \<and> live fd"

lemma bs_data_fd_keeps:
  "bs_copy_data_fd s fd = (r, fd', s') \<Longrightarrow> bs_data s' = bs_data s \<and> (w_data fd \<noteq> [] \<longrightarrow> w_data fd' \<noteq> [])"
  by (cases "write_to_fd fd (seg (bs_data s) (nat (bs_offset s)) (nat (bs_size s - bs_offset s)))")
    (auto simp: bs_copy_data_fd_def Let_def dest: write_to_fd_keeps split: if_splits)

lemma bs_local_live:
  assumes "bs_sendable s" "bs_state s \<noteq> StReady" "live fd" "bs_copy_to_fd_local s fd = (r, fd', s')"
  shows "w_data fd' \<noteq> [] \<and> bs_data s' = bs_data s"
proof (cases "bs_state s = StCopyingData")
  case True
  have off: "0 \<le> bs_offset s" "bs_offset s < int (length (bs_data s))" "bs_size s = int (length (bs_data s))"
    using assms(1) True bs_size_eq by (auto simp: bs_sendable_def)
  obtain k fd1 where w: "write_to_fd fd (seg (bs_data s) (nat (bs_offset s)) (nat (bs_size s - bs_offset s))) = (k, fd1)"
    by (cases "write_to_fd fd (seg (bs_data s) (nat (bs_offset s)) (nat (bs_size s - bs_offset s)))")
  have "seg (bs_data s) (nat (bs_offset s)) (nat (bs_size s - bs_offset s)) \<noteq> []" using off by (simp add: seg_def)
  from write_to_fd_live [OF assms(3) this w] have "w_data fd1 \<noteq> []" .
  then show ?thesis using assms(4) True w off
    by (auto simp: bs_copy_to_fd_local_def bs_copy_data_fd_def Let_def split: if_splits)
next
  case False
  then have st: "bs_state s = StCopyingHeader" using assms(1,2) by (auto simp: bs_sendable_def split: obj_state.splits)
  have off: "0 \<le> bs_offset s" "bs_offset s < 26" "length (bs_buf s) = 26"
    using assms(1) st by (auto simp: bs_sendable_def bs_wf_def)
  obtain k fd1 where w: "write_to_fd fd (seg (bs_buf s) (nat (bs_offset s)) (nat (26 - bs_offset s))) = (k, fd1)"
    by (cases "write_to_fd fd (seg (bs_buf s) (nat (bs_offset s)) (nat (26 - bs_offset s)))")
  have "seg (bs_buf s) (nat (bs_offset s)) (nat (26 - bs_offset s)) \<noteq> []" using off by (simp add: seg_def)
  from write_to_fd_live [OF assms(3) this w] have "w_data fd1 \<noteq> []" .
  then show ?thesis using assms(4) st w off bs_data_fd_keeps
    by (fastforce simp: bs_copy_to_fd_local_def Let_def split: if_splits)
qed

lemma bs_net_fd_live:
  assumes "bs_sendable s" "ready_fd fd"
  shows "\<exists>r fd' s'. bs_copy_to_fd_network_order s fd = Some (r, fd', s') \<and> bs_data s' = bs_data s \<and>
    handed_fd (bs_pending s) fd r fd' (bs_pending s') (bs_state s' = StReady) \<and> bs_sendable s'"
proof -
  let ?s = "if bs_state s = StReady then bs_started True s else s"
  have wf: "bs_wf s" "bs_data s \<noteq> []" using assms by (simp_all add: bs_sendable_def)
  have p: "bs_pending ?s = bs_pending s" "bs_data ?s = bs_data s"
    using bs_started_ok(2) [OF wf, of True] by (simp_all add: bs_pending_def) (simp_all add: bs_started_def)
  have s: "bs_sendable ?s" "bs_state ?s \<noteq> StReady"
    using assms bs_started_ok(1) [OF wf] by (simp_all add: bs_started_def)
  have e: "bs_copy_to_fd_network_order s fd = Some (bs_copy_to_fd_local ?s fd)"
    by (simp add: bs_copy_to_fd_network_order_def bs_begin(1) [OF wf(1)])
  have sf: "soft (w_script fd)" using assms(2) by simp
  show ?thesis
  proof (rule bs_copy_to_fd_local_spec [OF s sf], unfold p)
    fix k r fd' s'
    assume l: "bs_copy_to_fd_local ?s fd = (r, fd', s')"
      and a: "advances (bs_pending s) k r (bs_pending s') (bs_state s' = StReady)"
        "w_data fd' = w_data fd @ take k (bs_pending s)" "soft (w_script fd')" "bs_sendable s'"
    have lv: "w_data fd' \<noteq> []" "bs_data s' = bs_data s"
      using bs_local_live [OF s _ l] assms(2) p(2) by simp_all
    then have "handed_fd (bs_pending s) fd r fd' (bs_pending s') (bs_state s' = StReady)"
      by (intro handedI [OF a(1)]) (use a in \<open>simp_all add: live_def\<close>)
    then show ?thesis using e l lv a(4) by auto
  qed
qed

lemma part_copy_good:
  assumes "part_ok m p" "ready_fd fd"
  shows "\<exists>r fd' m' p'. part_copy_to_fd m p fd = Some (r, fd', m', p') \<and>
    (\<exists>rest. handed_fd (part_pending m p) fd r fd' (part_pending m' p') rest) \<and> part_ok m' p' \<and>
    part_blocks p' = part_blocks p \<and> part_size p' = part_size p \<and>
    (\<forall>b. b \<notin> set (part_blocks p) \<longrightarrow> heap m' b = heap m b)"
proof (cases p)
  case (Lib_Part obj)
  then have ok: "obj_ok user_data True m obj" "distinct (obj_blocks obj)" using assms(1) by simp_all
  have "user_live.good_call True m obj fd (copy_obj (obj_depth obj) fd_sink example_converters True m obj fd)"
    by (rule user_live.copy_obj_good) (use ok assms(2) in simp_all)
  then obtain r fd' m' obj' where "copy_to_fd example_converters True m obj fd = Some (r, fd', m', obj')"
    "handed_fd (obj_pending example_converters True m obj) fd r fd' (obj_pending example_converters True m' obj') (obj_rest obj')"
    "user_live.kept True m obj m' obj'"
    by (auto simp: user_live.good_call_def copy_to_fd_def)
  then show ?thesis using ok(2) Lib_Part by (auto simp: user_live.kept_def)
next
  case (Big_Part s)
  then show ?thesis using bs_net_fd_live [of s fd] assms by auto
qed

lemma part_frame:
  assumes "part_ok m p" "\<forall>b \<in> set (part_blocks p). heap m' b = heap m b"
  shows "part_ok m' p" "part_pending m' p = part_pending m p"
  using assms obj_frame [of _ m' m user_data True example_converters] by (cases p; auto)+

section \<open>The parts in order\<close>

definition parts_pending :: "mem \<Rightarrow> parts \<Rightarrow> byte list" where
  "parts_pending m ps = concat (map (\<lambda>(k, p). part_pending m p) ps)"

definition parts_blocks :: "parts \<Rightarrow> nat list" where
  "parts_blocks ps = concat (map (\<lambda>(k, p). part_blocks p) ps)"

definition parts_size :: "parts \<Rightarrow> i32" where
  "parts_size ps = (\<Sum>(k, p) \<leftarrow> ps. part_size p + 16)"

definition parts_ok :: "mem \<Rightarrow> parts \<Rightarrow> bool" where
  "parts_ok m ps \<longleftrightarrow> (\<forall>(k, p) \<in> set ps. part_ok m p) \<and> distinct (parts_blocks ps)"

lemma parts_simps [simp]:
  "parts_pending m [] = []" "parts_pending m ((k, p) # ps) = part_pending m p @ parts_pending m ps"
  "parts_blocks [] = []" "parts_blocks ((k, p) # ps) = part_blocks p @ parts_blocks ps"
  "parts_size [] = 0" "parts_size ((k, p) # ps) = part_size p + 16 + parts_size ps"
  "parts_blocks (xs @ ys) = parts_blocks xs @ parts_blocks ys" "parts_size (xs @ ys) = parts_size xs + parts_size ys"
  by (simp_all add: parts_pending_def parts_blocks_def parts_size_def)

lemma parts_ok_Cons:
  "parts_ok m ((k, p) # ps) \<longleftrightarrow> part_ok m p \<and> parts_ok m ps \<and> distinct (part_blocks p) \<and>
     set (part_blocks p) \<inter> set (parts_blocks ps) = {}"
  by (auto simp: parts_ok_def)

lemma parts_frame:
  assumes "parts_ok m ps" "\<forall>b \<in> set (parts_blocks ps). heap m' b = heap m b"
  shows "parts_ok m' ps" "parts_pending m' ps = parts_pending m ps"
proof -
  have "parts_ok m' ps \<and> parts_pending m' ps = parts_pending m ps"
    using assms
  proof (induction ps)
    case (Cons q ps)
    obtain k p where q: "q = (k, p)" by (cases q)
    then show ?case using Cons part_frame [of m p m'] by (simp add: parts_ok_Cons)
  qed (simp add: parts_ok_def)
  then show "parts_ok m' ps" "parts_pending m' ps = parts_pending m ps" by simp_all
qed

lemma parts_loop_good:
  assumes "parts_ok m ps" "ready_fd fd"
  shows "\<exists>r fd' m' ps' i. parts_loop m ps fd = Some (r, fd', m', ps', i) \<and>
    handed_fd (parts_pending m ps) fd r fd' (parts_pending m' (drop i ps')) (r = Ready) \<and>
    parts_ok m' ps' \<and> i \<le> length ps' \<and> parts_blocks ps' = parts_blocks ps \<and> parts_size ps' = parts_size ps \<and>
    (\<forall>b. b \<notin> set (parts_blocks ps) \<longrightarrow> heap m' b = heap m b)"
  using assms
proof (induction ps arbitrary: m fd)
  case Nil
  then show ?case by (auto simp: handed_def advances_ready parts_ok_def)
next
  case (Cons q ps)
  obtain k p where q: "q = (k, p)" by (cases q)
  have ok: "part_ok m p" "parts_ok m ps" "set (part_blocks p) \<inter> set (parts_blocks ps) = {}" "distinct (part_blocks p)"
    using Cons.prems(1) by (simp_all add: q parts_ok_Cons)
  obtain r fd1 m1 p1 rest where c: "part_copy_to_fd m p fd = Some (r, fd1, m1, p1)"
    and h: "handed_fd (part_pending m p) fd r fd1 (part_pending m1 p1) rest"
    and k: "part_ok m1 p1" "part_blocks p1 = part_blocks p" "part_size p1 = part_size p"
      "\<forall>b. b \<notin> set (part_blocks p) \<longrightarrow> heap m1 b = heap m b"
    using part_copy_good [OF ok(1) Cons.prems(2)] by blast
  have "\<forall>b \<in> set (parts_blocks ps). heap m1 b = heap m b" using k(4) ok(3) by blast
  note f = parts_frame [OF ok(2) this]
  show ?case
  proof (cases "r = Ready")
    case False
    then have r: "r = InProcess" using handed_result [OF h] by (cases r) auto
    have "handed_fd (parts_pending m (q # ps)) fd r fd1 (parts_pending m1 (drop 0 ((k, p1) # ps))) (r = Ready)"
      using handed_stop [OF h [unfolded r], of "parts_pending m ps"] f(2) r by (simp add: q)
    then show ?thesis using c k f ok False
      by (intro exI [of _ r] exI [of _ fd1] exI [of _ m1] exI [of _ "(k, p1) # ps"] exI [of _ 0])
        (simp add: q parts_ok_Cons)
  next
    case True
    have c1: "w_data fd1 = w_data fd @ part_pending m p" "ready_fd fd1"
      using handed_ready [OF h [unfolded True]] by auto
    obtain r2 fd2 m2 ps2 i where l: "parts_loop m1 ps fd1 = Some (r2, fd2, m2, ps2, i)"
      and h2: "handed_fd (parts_pending m1 ps) fd1 r2 fd2 (parts_pending m2 (drop i ps2)) (r2 = Ready)"
      and k2: "parts_ok m2 ps2" "i \<le> length ps2" "parts_blocks ps2 = parts_blocks ps" "parts_size ps2 = parts_size ps"
        "\<forall>b. b \<notin> set (parts_blocks ps) \<longrightarrow> heap m2 b = heap m1 b"
      using Cons.IH [OF f(1) c1(2)] by blast
    have "\<forall>b \<in> set (part_blocks p1). heap m2 b = heap m1 b" using k2(5) k(2) ok(3) by auto
    note g = part_frame [OF k(1) this]
    have hh: "handed_fd (parts_pending m (q # ps)) fd r2 fd2 (parts_pending m2 (drop (Suc i) ((k, p1) # ps2))) (r2 = Ready)"
      using handed_second [OF h2 c1(1)] f(2) by (simp add: q)
    have "\<forall>b. b \<notin> set (parts_blocks (q # ps)) \<longrightarrow> heap m2 b = heap m b" using k(4) k2(5) by (simp add: q)
    moreover have "parts_ok m2 ((k, p1) # ps2)" using g(1) k k2 ok by (simp add: parts_ok_Cons)
    ultimately show ?thesis using c True l hh k k2
      by (intro exI [of _ r2] exI [of _ fd2] exI [of _ m2] exI [of _ "(k, p1) # ps2"] exI [of _ "Suc i"]) (simp add: q)
  qed
qed

section \<open>The container\<close>

lemma parts_ok_append:
  "parts_ok m (xs @ ys) \<longleftrightarrow> parts_ok m xs \<and> parts_ok m ys \<and> set (parts_blocks xs) \<inter> set (parts_blocks ys) = {}"
  by (auto simp: parts_ok_def)

lemma part_size_pos: "part_ok m p \<Longrightarrow> 0 \<le> part_size p"
  by (cases p) (use obj_size_ok in auto)

lemma part_data_size_ok: "part_ok m p \<Longrightarrow> part_size p \<le> i32_max \<Longrightarrow> part_data_size m p = Some (part_size p)"
proof (cases p)
  case (Big_Part s)
  assume "part_ok m p" "part_size p \<le> i32_max"
  then show ?thesis using Big_Part bs_size_eq [of s]
    by (simp add: bs_sendable_def bs_data_size_def network_ordered_buf_size_def i32_add_def i32_ok_iff i32_max_def)
qed (use obj_size_ok in auto)

lemma parts_size_pos: "parts_ok m ps \<Longrightarrow> 0 \<le> parts_size ps"
proof (induction ps)
  case (Cons q ps)
  then show ?case using part_size_pos [of m "snd q"] by (cases q) (simp add: parts_ok_Cons)
qed simp

lemma parts_size_loop_eq:
  "parts_ok m ps \<Longrightarrow> 0 \<le> re \<Longrightarrow> re + parts_size ps \<le> i32_max \<Longrightarrow> parts_size_loop m ps re = Some (re + parts_size ps)"
proof (induction ps arbitrary: re)
  case (Cons q ps)
  obtain k p where q: "q = (k, p)" by (cases q)
  let ?z = "part_size p"
  have ok: "part_ok m p" "parts_ok m ps" using Cons.prems(1) by (simp_all add: q parts_ok_Cons)
  note z = part_size_pos [OF ok(1)] and kv = parts_size_pos [OF ok(2)]
  have le: "?z \<le> i32_max" "0 \<le> re + (?z + 16)" "re + (?z + 16) + parts_size ps \<le> i32_max"
    using z kv Cons.prems by (simp_all add: q)
  have "i32_add ?z (int header_size) = Some (?z + 16)" "i32_add re (?z + 16) = Some (re + (?z + 16))"
    using z kv le Cons.prems by (simp_all add: ub_simps i32_ok_def i32_min_def header_size_def q)
  then show ?case using part_data_size_ok [OF ok(1) le(1)] Cons.IH [OF ok(2) le(2,3)] by (simp add: q add_ac)
qed simp

text \<open>A container that is being sent, and the bytes it has still to hand over.\<close>

fun parts_inv :: "mem \<times> dson \<times> parts \<Rightarrow> bool" where
  "parts_inv (m, d, ps) \<longleftrightarrow> header_loc d = None \<and> hdr_valid (d_header d) \<and> parts_ok m ps \<and> parts_size ps \<le> i32_max \<and>
     (case d_state d of StReady \<Rightarrow> True | StCopyingHeader \<Rightarrow> 0 \<le> d_offset d \<and> d_offset d < 16
      | StCopyingData \<Rightarrow> (\<exists>i \<le> length ps. d_iter d = Some i) | _ \<Rightarrow> False)"

fun parts_left :: "mem \<times> dson \<times> parts \<Rightarrow> byte list" where
  "parts_left (m, d, ps) = (case d_state d of
     StReady \<Rightarrow> hdr_for True (parts_size ps) (hdr_field (d_header d) 2) (hdr_field (d_header d) 3) @ parts_pending m ps
   | StCopyingHeader \<Rightarrow> drop (nat (d_offset d)) (d_header d) @ parts_pending m ps
   | StCopyingData \<Rightarrow> parts_pending m (drop (the (d_iter d)) ps)
   | _ \<Rightarrow> [])"

definition parts_call :: "byte list \<Rightarrow> wfd \<Rightarrow> (result \<times> wfd \<times> mem \<times> dson \<times> parts) option \<Rightarrow> bool" where
  "parts_call P fd res \<longleftrightarrow> (\<exists>r fd' st. res = Some (r, fd', st) \<and> parts_inv st \<and>
     handed_fd P fd r fd' (parts_left st) (d_state (fst (snd st)) = StReady))"

lemma parts_data_good:
  assumes "parts_inv (m, d, ps)" "d_state d = StCopyingData" "ready_fd fd"
  shows "parts_call (parts_left (m, d, ps)) fd (parts_data m d ps fd)"
proof -
  obtain i where i: "d_iter d = Some i" "i \<le> length ps" using assms(1,2) by auto
  let ?a = "take i ps" and ?b = "drop i ps"
  have inv: "header_loc d = None" "hdr_valid (d_header d)" "parts_size ps \<le> i32_max" using assms(1) by simp_all
  have "parts_ok m (?a @ ?b)" using assms(1) by simp
  then have ok: "parts_ok m ?a" "parts_ok m ?b" "set (parts_blocks ?a) \<inter> set (parts_blocks ?b) = {}"
    by (simp_all only: parts_ok_append)
  obtain r fd' m' ps' j where l: "parts_loop m ?b fd = Some (r, fd', m', ps', j)"
    and h: "handed_fd (parts_pending m ?b) fd r fd' (parts_pending m' (drop j ps')) (r = Ready)"
    and k: "parts_ok m' ps'" "j \<le> length ps'" "parts_blocks ps' = parts_blocks ?b" "parts_size ps' = parts_size ?b"
      "\<forall>b. b \<notin> set (parts_blocks ?b) \<longrightarrow> heap m' b = heap m b"
    using parts_loop_good [OF ok(2) assms(3)] by blast
  have "\<forall>b \<in> set (parts_blocks ?a). heap m' b = heap m b" using k(5) ok(3) by blast
  note f = parts_frame [OF ok(1) this]
  let ?ps = "?a @ ps'" and ?d = "d\<lparr>d_iter := Some (i + j), d_state := (if r = Ready then StReady else StCopyingData)\<rparr>"
  have la: "length ?a = i" using i(2) by simp
  have "parts_ok m' ?ps" unfolding parts_ok_append using f(1) k(1,3) ok(3) by simp
  moreover have "parts_size ?a + parts_size ?b = parts_size ps" by (metis append_take_drop_id parts_simps(8))
  then have "parts_size ?ps \<le> i32_max" using k(4) inv(3) by simp
  ultimately have inv': "parts_inv (m', ?d, ?ps)" using inv(1,2) k(2) la by simp
  have "d\<lparr>d_iter := Some (i + j), d_state := StCopyingData\<rparr> = d\<lparr>d_iter := Some (i + j)\<rparr>"
    using assms(2) by (cases d) simp
  then have e: "parts_data m d ps fd = Some (r, fd', m', ?d, ?ps)"
    using i l by (simp add: parts_data_def Let_def)
  have "handed_fd (parts_pending m ?b) fd r fd' (parts_left (m', ?d, ?ps)) (d_state ?d = StReady)"
    by (rule handed_cong [OF h]) (use la handed_result [OF h] in \<open>cases r; simp\<close>)+
  then show ?thesis using e inv' i(1) assms(2) unfolding parts_call_def by auto
qed

lemma parts_header_good:
  assumes "parts_inv (m, d, ps)" "d_state d = StCopyingHeader" "ready_fd fd"
  shows "parts_call (parts_left (m, d, ps)) fd (parts_header m d ps fd)"
proof -
  have inv: "header_loc d = None" "hdr_valid (d_header d)" "0 \<le> d_offset d" "d_offset d < 16" "parts_ok m ps"
    "parts_size ps \<le> i32_max" using assms(1,2) by simp_all
  have len: "length (d_header d) = 16" using inv(2) by (rule hdr_valid_length)
  let ?h = "drop (nat (d_offset d)) (d_header d)"
  have lh: "int (length ?h) = 16 - d_offset d" using len inv(3,4) by simp
  then have ne: "?h \<noteq> []" using inv(4) by auto
  obtain k fd1 where w: "write_to_fd fd ?h = (int k, fd1)" "k \<le> length ?h" "w_data fd1 = w_data fd @ take k ?h"
    "soft (w_script fd1)"
    using write_to_fd_soft [of fd ?h] assms(3) by blast
  have lv: "w_data fd1 \<noteq> []" using write_to_fd_live [OF _ ne w(1)] assms(3) by simp
  then have rd: "ready_fd fd1" using w(4) by (simp add: live_def)
  have hb: "hdr_bytes m d = Some (d_header d)" using inv(1) by (simp add: local_access)
  show ?thesis
  proof (cases "k = length ?h")
    case True
    let ?d = "d\<lparr>d_offset := 16, d_iter := Some 0, d_state := StCopyingData\<rparr>"
    have e: "parts_header m d ps fd = parts_data m ?d ps fd1"
      using inv w(1) True lh hb by (simp add: parts_header_def header_size_def Let_def)
    have "parts_inv (m, ?d, ps)" using inv by simp
    from parts_data_good [OF this _ rd] have c: "parts_call (parts_pending m ps) fd1 (parts_data m ?d ps fd1)" by simp
    have "w_data fd1 = w_data fd @ ?h" using w(3) True by simp
    then show ?thesis using c assms(2) unfolding e parts_call_def by (auto intro: handed_second)
  next
    case False
    then have lt: "k < length ?h" "d_offset d + int k < 16" using w(2) lh by linarith+
    let ?d = "d\<lparr>d_offset := d_offset d + int k\<rparr>"
    have e: "parts_header m d ps fd = Some (InProcess, fd1, m, ?d, ps)"
      using inv w(1) lt hb by (simp add: parts_header_def header_size_def Let_def)
    have dr: "drop k ?h = drop (nat (d_offset d + int k)) (d_header d)"
      using inv(3) by (simp add: nat_add_distrib add.commute)
    have "handed_fd (?h @ parts_pending m ps) fd InProcess fd1 (drop k ?h @ parts_pending m ps) False"
      by (rule handed_first) (use lt(1) w rd lv in simp_all)
    moreover have "parts_inv (m, ?d, ps)" using inv lt(2) assms(2) by simp
    ultimately show ?thesis using e dr assms(2) unfolding parts_call_def by auto
  qed
qed

lemma parts_copy_good:
  assumes "parts_inv st" "ready_fd fd"
  shows "parts_call (parts_left st) fd (case st of (m, d, ps) \<Rightarrow> parts_copy_to_fd m d ps fd)"
proof -
  obtain m d ps where st: "st = (m, d, ps)" by (cases st)
  have inv: "header_loc d = None" "hdr_valid (d_header d)" "parts_ok m ps" "parts_size ps \<le> i32_max"
    using assms(1) st by simp_all
  consider "d_state d = StReady" | "d_state d = StCopyingHeader" | "d_state d = StCopyingData"
    using assms(1) st by (cases "d_state d") auto
  then show ?thesis
  proof cases
    case 1
    let ?h = "hdr_order True (hdr_set_field (d_header d) (Suc 0) (parts_size ps))"
    let ?d = "d\<lparr>d_header := ?h, d_offset := 0, d_state := StCopyingHeader\<rparr>"
    have iok: "i32_ok (parts_size ps)" using inv(4) parts_size_pos [OF inv(3)] by (simp add: i32_ok_iff i32_max_def)
    have hv: "hdr_valid (hdr_set_field (d_header d) (Suc 0) (parts_size ps))"
      using hdr_set_field_valid [OF inv(2), of 1] by simp
    have e: "parts_copy_to_fd m d ps fd = parts_header m ?d ps fd"
      using 1 inv hv parts_size_loop_eq [OF inv(3), of 0]
      by (simp add: parts_copy_to_fd_def set_data_size_internal_def local_simps hdr_order_def)
    have i: "parts_inv (m, ?d, ps)" using inv hv by simp
    have "?h = hdr_for True (parts_size ps) (hdr_field (d_header d) 2) (hdr_field (d_header d) 3)"
      by (rule hdr_order_set_size [OF inv(2) iok])
    then have "parts_left (m, ?d, ps) = parts_left st" using 1 st by simp
    then show ?thesis using parts_header_good [OF i _ assms(2)] e st by simp
  next
    case 2
    then show ?thesis using parts_header_good [of m d ps fd] assms st by (simp add: parts_copy_to_fd_def)
  next
    case 3
    then show ?thesis using parts_data_good [of m d ps fd] assms st by (simp add: parts_copy_to_fd_def)
  qed
qed

interpretation composite_writer:
  live_writer parts_step parts_inv parts_left "\<lambda>st. d_state (fst (snd st)) = StReady" taking taking
proof
  fix st :: "mem \<times> dson \<times> parts" and e
  assume s: "parts_inv st" "taking e"
  let ?fd = "\<lparr>w_script = e, w_data = []\<rparr>"
  have "ready_fd ?fd" using s(2) by (auto simp: taking_def live_def gr0_conv_Suc split: list.splits wcall.splits)
  from parts_copy_good [OF s(1) this] obtain r fd' st' where c: "(case st of (m, d, ps) \<Rightarrow> parts_copy_to_fd m d ps ?fd) = Some (r, fd', st')"
    "parts_inv st'" "handed_fd (parts_left st) ?fd r fd' (parts_left st') (d_state (fst (snd st')) = StReady)"
    by (auto simp: parts_call_def)
  then obtain k where k: "advances (parts_left st) k r (parts_left st') (d_state (fst (snd st')) = StReady)"
    "w_data fd' = take k (parts_left st)" by (auto simp: handed_def)
  have e: "parts_step st e = Some (r, w_data fd', st')"
    using c(1) by (cases st; cases st') (simp add: parts_step_def)
  then show "\<exists>k r s'. parts_step st e = Some (r, take k (parts_left st), s') \<and>
      advances (parts_left st) k r (parts_left s') (d_state (fst (snd s')) = StReady) \<and> parts_inv s'"
    using k c(2) by (intro exI [of _ k] exI [of _ r] exI [of _ st']) simp
  show "out \<noteq> []" if "parts_left st \<noteq> []" "parts_step st e = Some (r, out, s')" for r out s'
    using that e c(3) by (cases r) (auto simp: handed_def advances_ready)
qed

end
