(* ===== verification/Composite_Program.thy ===== *)
theory Composite_Program
  imports Composite
begin

text \<open>
  The program \<open>save_and_load_advanced_composite\<close>: what is built, the file the writing loop
  produces, and what is read from it.
\<close>

section \<open>What is built\<close>

lemma part_insert_new:
  assumes "header_loc d = None" "kv_find key ps = None"
  shows "part_insert m d ps key p =
    Some (m, d\<lparr>d_header := hdr_set_field (d_header d) 3 (types_map T_DsonContainer)\<rparr>, kv_insert_or_assign key p ps)"
  using assms by (simp add: part_insert_def set_data_type_internal_def local_simps)

lemma part_emplace_new:
  assumes "header_loc d = None" "kv_find key ps = None" "d_was_alloc a"
  shows "part_emplace_dson m d ps key a =
    Some (m, d\<lparr>d_header := hdr_set_field (d_header d) 3 (types_map T_DsonContainer)\<rparr>,
      kv_insert_or_assign key (Lib_Part (ObjDson (keyed key a) [])) ps)"
proof -
  have "dson_set_key m a key = Some (m, keyed key a)"
    using assms(3) by (simp add: dson_set_key_def local_simps keyed_def)
  then show ?thesis
    using part_insert_new [OF assms(1,2)] by (simp add: part_emplace_dson_def move_construct_eq free_buf_def)
qed

definition composite_mem :: "mem \<Rightarrow> i32 \<Rightarrow> byte list \<Rightarrow> byte list \<Rightarrow> mem" where
  "composite_mem m n small view = fresh (fresh (fresh m (store32 (of_i32 n))) small) view"

definition text_obj :: "i32 \<Rightarrow> byte list \<Rightarrow> string_obj" where
  "text_obj k s = \<lparr>so_header = host_hdr (int (length s)) k (types_map T_string), so_object = s,
     so_state = StReady, so_offset = 0\<rparr>"

definition composite_parts :: "mem \<Rightarrow> big_struct \<Rightarrow> i32 \<Rightarrow> byte list \<Rightarrow> byte list \<Rightarrow> byte list \<Rightarrow> parts" where
  "composite_parts m s n small big view =
     [(0, Lib_Part (ObjDson (keyed 0 (built m T_int32 4)) [])),
      (1, Big_Part (bs_set_key s 1)),
      (2, Lib_Part (ObjDson (keyed 2 (built (fresh m (store32 (of_i32 n))) T_string (int (length small)))) [])),
      (3, Lib_Part (ObjString (text_obj 3 big))),
      (4, Lib_Part (ObjDson (keyed 4 (built (fresh (fresh m (store32 (of_i32 n))) small) T_string (int (length view)))) []))]"

text \<open>The strings: none is empty, each can be allocated and counted.\<close>

definition text_fits :: "mem \<Rightarrow> byte list \<Rightarrow> bool" where
  "text_fits m s \<longleftrightarrow> s \<noteq> [] \<and> length s \<le> malloc_limit m \<and> length s < 2 ^ 31"

lemma new_container:
  "(dson_fields (host_hdr 0 0 (types_map T_Empty)))\<lparr>d_header := hdr_set_field
     (d_header (dson_fields (host_hdr 0 0 (types_map T_Empty)))) 3 (types_map T_DsonContainer)\<rparr> = answer_dson 0"
  using hdr_set_field_simps(3) [of False 0 0 "types_map T_Empty" "types_map T_DsonContainer"]
  by (simp add: answer_dson_def dson_fields_def hdr_for_def)

lemma composite_eq:
  assumes "4 \<le> malloc_limit m" "text_fits m small" "text_fits m view"
  shows "composite m s n small big view =
    Some (composite_mem m n small view, answer_dson 0, composite_parts m s n small big view)"
proof -
  let ?m1 = "fresh m (store32 (of_i32 n))" let ?m2 = "fresh ?m1 small"
  let ?b = "(1, Big_Part (bs_set_key s 1))" and ?n = "(0, Lib_Part (ObjDson (keyed 0 (built m T_int32 4)) []))"
    and ?s = "(2, Lib_Part (ObjDson (keyed 2 (built ?m1 T_string (int (length small)))) []))"
    and ?o = "(3, Lib_Part (ObjString (text_obj 3 big)))"
  have "header_loc (dson_fields (host_hdr 0 0 (types_map T_Empty))) = None"
    by (simp add: dson_fields_def header_loc_def)
  then have e1: "part_emplace_big m (dson_fields (host_hdr 0 0 (types_map T_Empty))) [] 1 s = Some (m, answer_dson 0, [?b])"
    using part_insert_new [of "dson_fields (host_hdr 0 0 (types_map T_Empty))" 1 "[]"] new_container
    by (simp add: part_emplace_big_def)
  have v: "dson_of_int32 m n = Some (?m1, built m T_int32 4)"
    "dson_of_string ?m1 small = Some (?m2, built ?m1 T_string (int (length small)))"
    "dson_of_string ?m2 view = Some (fresh ?m2 view, built ?m2 T_string (int (length view)))"
    using dson_of_bytes_eq [of 4 m "store32 (of_i32 n)" T_int32] dson_of_values(2) [of small ?m1]
      dson_of_values(2) [of view ?m2] assms by (simp_all add: dson_of_int32_def text_fits_def)
  have e2: "part_emplace_dson ?m1 (answer_dson 0) [?b] 0 (built m T_int32 4) = Some (?m1, answer_dson 0, [?n, ?b])"
    using part_emplace_new [of "answer_dson 0" 0 "[?b]"] by simp
  have e3: "part_emplace_dson ?m2 (answer_dson 0) [?n, ?b] 2 (built ?m1 T_string (int (length small))) =
      Some (?m2, answer_dson 0, [?n, ?b, ?s])"
    using part_emplace_new [of "answer_dson 0" 2 "[?n, ?b]"] by simp
  have o: "so_new (map (malloc_fill m) [0..<16]) 3 big = text_obj 3 big" by (simp add: so_new_eq text_obj_def)
  have "so_key (text_obj 3 big) = 3"
    using hdr_field_for(2) [of 3 False "int (length big)" "types_map T_string"]
    by (simp add: so_accessors_hdr text_obj_def hdr_for_def i32_ok_iff)
  then have e4: "part_emplace_ptr ?m2 (answer_dson 0) [?n, ?b, ?s] (ObjString (text_obj 3 big)) =
      Some (?m2, answer_dson 0, [?n, ?b, ?s, ?o])"
    using part_insert_new [of "answer_dson 0" 3 "[?n, ?b, ?s]"] by (simp add: part_emplace_ptr_def obj_key_def)
  have e5: "part_emplace_dson (fresh ?m2 view) (answer_dson 0) [?n, ?b, ?s, ?o] 4 (built ?m2 T_string (int (length view))) =
      Some (composite_mem m n small view, answer_dson 0, composite_parts m s n small big view)"
    using part_emplace_new [of "answer_dson 0" 4 "[?n, ?b, ?s, ?o]"] by (simp add: composite_mem_def composite_parts_def)
  show ?thesis
    by (simp add: composite_def dson_new_eq e1 v e2 e3 o e4 e5)
qed

section \<open>The parts and their bytes\<close>

lemma rest_part:
  assumes "obj_ok user_data True m obj" "obj_rest obj" "distinct (obj_blocks obj)"
  shows "part_ok m (Lib_Part obj)" "part_pending m (Lib_Part obj) = obj_wire example_converters True m obj"
  using assms obj_rest_pending [of user_data True m obj example_converters] by simp_all

lemma built_part:
  assumes "length bs = nat sz" "0 < sz" "i32_ok sz" "lib_data_ok t sz bs" "i32_ok k" "heap m' (next_block m) = Some bs"
  defines "p \<equiv> Lib_Part (ObjDson (keyed k (built m t sz)) [])"
  shows "part_ok m' p" "part_blocks p = [next_block m]" "part_size p = sz"
    "part_pending m' p = (let (h, x) = buf_out example_converters True (host_hdr sz k (types_map t)) bs in h @ x)"
proof -
  note b = keyed_built_ok [OF assms(1-6)]
  have hf: "hdr_field (host_hdr sz k (types_map t)) 3 = types_map t"
    using hdr_field_for(3) [of _ False] by (simp add: hdr_for_def)
  have ok: "obj_ok user_data True m' (ObjDson (keyed k (built m t sz)) [])"
    using buf_ok_user [OF b(1), of t] b(3) hf by simp
  note r = rest_part [OF this]
  show "part_ok m' p" "part_pending m' p = (let (h, x) = buf_out example_converters True (host_hdr sz k (types_map t)) bs in h @ x)"
    using r b(2,3) by (simp_all add: p_def)
  have "hdr_field (host_hdr sz k (types_map t)) (Suc 0) = sz"
    using hdr_field_for(1) [OF assms(3), of False] by (simp add: hdr_for_def)
  then show "part_blocks p = [next_block m]" "part_size p = sz" using b(3) by (simp_all add: p_def)
qed

lemma string_part:
  assumes "s \<noteq> []" "i32_ok (int (length s))" "i32_ok k" "heap m' (next_block m) = Some s"
  defines "p \<equiv> Lib_Part (ObjDson (keyed k (built m T_string (int (length s)))) [])"
  shows "part_ok m' p" "part_blocks p = [next_block m]" "part_size p = int (length s)"
    "part_pending m' p = host_hdr (int (length s)) k (types_map T_string) @ s"
proof -
  have n: "0 < int (length s)" using assms(1) by simp
  have "to_network_order example_converters (of_i32 (types_map T_string)) = None"
    by (simp add: example_converters_eq lib_converters_eq type_key_def [symmetric])
  moreover have "hdr_field (host_hdr (int (length s)) k (types_map T_string)) 3 = types_map T_string"
    using hdr_field_for(3) [of _ False] by (simp add: hdr_for_def)
  ultimately have "buf_out example_converters True (host_hdr (int (length s)) k (types_map T_string)) s =
      (host_hdr (int (length s)) k (types_map T_string), s)" by (simp add: buf_out_def)
  then show "part_ok m' p" "part_blocks p = [next_block m]" "part_size p = int (length s)"
    "part_pending m' p = host_hdr (int (length s)) k (types_map T_string) @ s"
    using built_part [where t = T_string, OF _ n assms(2) _ assms(3,4)] by (simp_all add: p_def)
qed

lemma number_part:
  assumes "i32_ok k" "heap m' (next_block m) = Some (store32 w)"
  defines "p \<equiv> Lib_Part (ObjDson (keyed k (built m T_int32 4)) [])"
  shows "part_ok m' p" "part_blocks p = [next_block m]" "part_size p = 4"
    "part_pending m' p = net_hdr 4 k (types_map T_int32) @ be32 w"
proof -
  have i: "i32_ok 4" by (simp add: i32_ok_iff)
  have "to_network_order example_converters (of_i32 (types_map T_int32)) = Some (conv32 htonl)"
    by (simp add: example_converters_eq lib_converters_eq type_key_def [symmetric])
  moreover have "conv32 htonl 4 (store32 w) = Some (be32 w)"
    by (simp add: conv32_def store32_htonl patch_def seg_def)
  moreover have "hdr_to_network (host_hdr 4 k (types_map T_int32)) = net_hdr 4 k (types_map T_int32)"
    using hdr_to_network_for [of False 4 k "types_map T_int32"] by (simp add: hdr_for_def)
  moreover have "hdr_field (host_hdr 4 k (types_map T_int32)) (Suc 0) = 4"
    "hdr_field (host_hdr 4 k (types_map T_int32)) 3 = types_map T_int32" "\<not> hdr_is_network (host_hdr 4 k (types_map T_int32))"
    using hdr_field_for [of _ False] i by (simp_all add: hdr_for_def hdr_simps)
  ultimately have "buf_out example_converters True (host_hdr 4 k (types_map T_int32)) (store32 w) =
      (net_hdr 4 k (types_map T_int32), be32 w)" by (simp add: buf_out_def hdr_order_def)
  then show "part_ok m' p" "part_blocks p = [next_block m]" "part_size p = 4"
    "part_pending m' p = net_hdr 4 k (types_map T_int32) @ be32 w"
    using built_part [where t = T_int32 and bs = "store32 w", OF _ _ i _ assms(1,2)] by (simp_all add: p_def fits_def)
qed

lemma object_part:
  assumes "s \<noteq> []" "int (length s) \<le> i32_max" "i32_ok k"
  shows "part_ok m (Lib_Part (ObjString (text_obj k s)))"
    "part_size (Lib_Part (ObjString (text_obj k s))) = int (length s)"
    "part_pending m (Lib_Part (ObjString (text_obj k s))) = net_hdr (int (length s)) k (types_map T_string) @ s"
proof -
  have hv: "hdr_valid (host_hdr (int (length s)) k (types_map T_string))"
    using hdr_for_valid [of False] by (simp add: hdr_for_def)
  have i: "i32_ok (int (length s))" using assms(2) by (simp add: i32_ok_def i32_min_def)
  have k: "so_key (text_obj k s) = k" "so_data_size (text_obj k s) = int (length s)"
    "so_data_type (text_obj k s) = types_map T_string"
    using hdr_field_for [of _ False] assms(3) i by (simp_all add: so_accessors_hdr text_obj_def hdr_for_def)
  have ok: "so_sendable (text_obj k s)"
    using assms hv k by (simp add: so_sendable_def so_wf_def i32_max_def) (simp add: text_obj_def)
  then have o: "obj_ok user_data True m (ObjString (text_obj k s))" "obj_rest (ObjString (text_obj k s))"
    "distinct (obj_blocks (ObjString (text_obj k s)))" by (simp_all add: text_obj_def)
  show "part_ok m (Lib_Part (ObjString (text_obj k s)))" by (rule rest_part(1) [OF o])
  show "part_pending m (Lib_Part (ObjString (text_obj k s))) = net_hdr (int (length s)) k (types_map T_string) @ s"
    using rest_part(2) [OF o] k(1) by (simp add: string_wire_def hdr_for_def) (simp add: text_obj_def)
  show "part_size (Lib_Part (ObjString (text_obj k s))) = int (length s)" using k(2) by simp
qed

lemma big_part:
  assumes "bs_wf s" "bs_state s = StReady" "bs_data s \<noteq> []" "i32_ok k"
  shows "part_ok m (Big_Part (bs_set_key s k))"
    "part_pending m (Big_Part (bs_set_key s k)) =
       net_hdr (10 + int (length (bs_data s))) k big_struct_type @ big_params True s @ bs_data s"
  using assms bs_set_key_ok [OF assms(1,4)]
  by (simp_all add: bs_sendable_def bs_pending_def big_wire_def big_header_def hdr_for_def big_params_def)

definition composite_entries :: "big_struct \<Rightarrow> i32 \<Rightarrow> byte list \<Rightarrow> byte list \<Rightarrow> byte list \<Rightarrow> (byte list \<times> byte list) list" where
  "composite_entries s n small big view =
     [(net_hdr 4 0 (types_map T_int32), be32 (of_i32 n)),
      (net_hdr (10 + int (length (bs_data s))) 1 big_struct_type, big_params True s @ bs_data s),
      (host_hdr (int (length small)) 2 (types_map T_string), small),
      (net_hdr (int (length big)) 3 (types_map T_string), big),
      (host_hdr (int (length view)) 4 (types_map T_string), view)]"

definition composite_size :: "big_struct \<Rightarrow> byte list \<Rightarrow> byte list \<Rightarrow> byte list \<Rightarrow> int" where
  "composite_size s small big view =
     int (length (bs_data s)) + int (length small) + int (length big) + int (length view) + 94"

text \<open>What the program needs: the struct at rest, data and strings that are not empty, a total that can be counted.\<close>

definition can_compose :: "mem \<Rightarrow> big_struct \<Rightarrow> byte list \<Rightarrow> byte list \<Rightarrow> byte list \<Rightarrow> bool" where
  "can_compose m s small big view \<longleftrightarrow> bs_wf s \<and> bs_state s = StReady \<and> bs_data s \<noteq> [] \<and> big \<noteq> [] \<and>
     4 \<le> malloc_limit m \<and> text_fits m small \<and> text_fits m view \<and>
     composite_size s small big view \<le> max_dson_ram_size"

lemma composite_ready:
  fixes n :: i32
  assumes "can_compose m s small big view"
  defines "st \<equiv> (composite_mem m n small view, answer_dson 0, composite_parts m s n small big view)"
  shows "parts_inv st" "parts_left st =
    hdr_for True (composite_size s small big view) 0 (types_map T_DsonContainer) @ entries_wire (composite_entries s n small big view)"
proof -
  let ?m1 = "fresh m (store32 (of_i32 n))" and ?m = "composite_mem m n small view"
  let ?m2 = "fresh ?m1 small"
  have c: "bs_wf s" "bs_state s = StReady" "bs_data s \<noteq> []" "big \<noteq> []" "small \<noteq> []" "view \<noteq> []"
    "composite_size s small big view \<le> i32_max"
    using assms(1) max_ram_i32 by (auto simp: can_compose_def text_fits_def)
  have i: "i32_ok (int (length small))" "i32_ok (int (length view))" "int (length big) \<le> i32_max"
    "i32_ok 0" "i32_ok 1" "i32_ok 2" "i32_ok 3" "i32_ok 4"
    using c(7) by (simp_all add: composite_size_def i32_ok_def i32_min_def i32_max_def)
  have hp: "heap ?m (next_block m) = Some (store32 (of_i32 n))" "heap ?m (next_block ?m1) = Some small"
    "heap ?m (next_block ?m2) = Some view" by (simp_all add: composite_mem_def)
  note p = number_part [OF i(4) hp(1)] string_part [OF c(5) i(1) i(6) hp(2)] string_part [OF c(6) i(2) i(8) hp(3)]
    object_part [OF c(4) i(3) i(7)] big_part [OF c(1-3) i(5)]
  have sz: "parts_size (composite_parts m s n small big view) = composite_size s small big view"
    using p(3,7,11,14) by (simp add: composite_parts_def composite_size_def)
  have bl: "parts_blocks (composite_parts m s n small big view) = [next_block m, next_block ?m1, next_block ?m2]"
    using p(2,6,10) by (simp add: composite_parts_def)
  have "parts_ok ?m (composite_parts m s n small big view)"
    unfolding parts_ok_def bl using p(1,5,9,13,16) by (simp add: composite_parts_def)
  moreover have hv: "hdr_valid (host_hdr 0 0 (types_map T_DsonContainer))"
    using hdr_for_valid [of False] by (simp add: hdr_for_def)
  ultimately show "parts_inv st" using c(7) sz by (simp add: st_def)
  have "parts_pending ?m (composite_parts m s n small big view) = entries_wire (composite_entries s n small big view)"
    using p(4,8,12,15,17) by (simp add: composite_parts_def composite_entries_def)
  moreover have "hdr_field (host_hdr 0 0 (types_map T_DsonContainer)) 2 = 0"
    "hdr_field (host_hdr 0 0 (types_map T_DsonContainer)) 3 = types_map T_DsonContainer"
    using hdr_field_for(2,3) [of _ False] by (simp_all add: hdr_for_def)
  ultimately show "parts_left st = hdr_for True (composite_size s small big view) 0 (types_map T_DsonContainer) @
      entries_wire (composite_entries s n small big view)" using sz by (simp add: st_def)
qed

lemma save_composite_file:
  assumes "can_compose m s small big view" "\<forall>e \<in> set calls. taking e" "nat (composite_size s small big view) + 16 \<le> length calls"
  shows "save_composite m s n small big view calls = Some (Ready,
    hdr_for True (composite_size s small big view) 0 (types_map T_DsonContainer) @ entries_wire (composite_entries s n small big view))"
proof -
  note r = composite_ready [OF assms(1), of n]
  let ?st = "(composite_mem m n small view, answer_dson 0, composite_parts m s n small big view)"
  have "length (parts_left ?st) = nat (composite_size s small big view) + 16"
    unfolding r(2) by (simp add: composite_size_def composite_entries_def)
  then have "parts_left ?st \<noteq> []" "length (parts_left ?st) \<le> length calls" using assms(3) by auto
  then obtain st' where "drive parts_step ?st calls = Some (Ready, parts_left ?st, st')"
    using composite_writer.drive_completes [OF r(1) assms(2)] by blast
  then show ?thesis
    using composite_eq [of m small view s n big] assms(1) r(2) by (simp add: save_composite_def can_compose_def)
qed

section \<open>What is read\<close>

lemma got_text:
  assumes o: "opened m d kv b (xs @ (h, s) # ys)" and h: "hdr_field h 2 = k" "hdr_field h 3 = types_map T_string"
  obtains kv' where "got_string m d kv k = Some (s, m, d, kv')" "opened m d kv' b (xs @ (h, s) # ys)"
proof -
  have "to_host_order example_converters (of_i32 (hdr_field h 3)) = None"
    by (simp add: h example_converters_eq lib_converters_eq type_key_def [symmetric])
  then obtain kv1 where g: "dson_get example_converters m d kv k = Some (Child k, m, d, kv1)"
    "opened m d kv1 b (xs @ (h, s) # ys)" using opened_get_same [OF o, of example_converters] unfolding h(1) by blast
  let ?v = "view_rec m (b, length (entries_wire xs)) (view_kind h)"
  note oe = opened_entry [OF g(2), unfolded h]
  have "to_string example_converters m (Some (ObjDson ?v [])) = Some (s, m, Some (ObjDson ?v []))"
    using oe(11) opened_view_string [OF g(2) h(2)] by (simp add: to_string_def obj_data_type_def)
  then show ?thesis
    using that g(1) oe(1) opened_put_back [OF g(2) oe(1)] by (simp add: got_string_def pointed_def put_pointed_def)
qed

lemma got_number:
  assumes o: "opened m d kv b (xs @ (net_hdr 4 k (types_map T_int32), be32 (of_i32 n)) # ys)" and i: "i32_ok k" "i32_ok n"
  obtains m1 kv' where "got_string m d kv k = Some (decimal_int n, m1, d, kv')"
    "opened m1 d kv' b (xs @ (host_hdr 4 k (types_map T_int32), store32 (of_i32 n)) # ys)"
proof -
  let ?es = "xs @ (host_hdr 4 k (types_map T_int32), store32 (of_i32 n)) # ys"
  have f: "to_host_order example_converters (type_key T_int32) = Some (conv32 ntohl)"
    by (simp add: example_converters_eq lib_converters_eq)
  obtain m1 kv1 v where g: "dson_get example_converters m d kv k = Some (Child k, m1, d, kv1)"
    "kv_find k kv1 = Some (ObjDson v [])" "host_leaf m1 v T_int32 (store32 (of_i32 n))"
    "opened m1 d (kv_insert_or_assign k (ObjDson v []) kv1) b ?es"
    by (rule opened_get_word [OF o i(1) f])
  have "lib_int T_int32 (store32 (of_i32 n)) = n" using i(2) by (simp add: lib_int_def seg_def to_i32_of_i32)
  then have "to_string example_converters m1 (Some (ObjDson v [])) = Some (decimal_int n, m1, Some (ObjDson v []))"
    using to_string_leaf [OF g(3), of 4] by (simp add: fits_def integer_types_def)
  then show ?thesis using that g by (simp add: got_string_def pointed_def put_pointed_def)
qed

lemma got_big:
  assumes o: "opened m d kv b (xs @ (net_hdr (10 + int (length (bs_data s))) k big_struct_type, big_params True s @ bs_data s) # ys)"
    and i: "i32_ok (10 + int (length (bs_data s)))" "i32_ok k"
  obtains m1 kv' v where "dson_get example_converters m d kv k = Some (Child k, m1, d, kv')"
    "kv_find k kv' = Some (ObjDson v [])" "to_very_big_struct m1 (Some (ObjDson v [])) re = Some (re\<lparr>bs_param1 := bs_param1 s,
      bs_param2 := bs_param2 s, bs_param3 := bs_param3 s, bs_data := bs_data s\<rparr>)"
    "opened m1 d kv' b (xs @ (host_hdr (10 + int (length (bs_data s))) k big_struct_type, big_params False s @ bs_data s) # ys)"
proof -
  let ?h = "host_hdr (10 + int (length (bs_data s))) k big_struct_type" and ?x = "big_params False s @ bs_data s"
  have f: "to_host_order example_converters (of_i32 big_struct_type) = Some (conv_big ntohs ntohl)"
    by (simp add: example_converters_eq)
  have ty: "i32_ok big_struct_type" by (simp add: big_struct_type_def)
  obtain m1 kv' where g: "dson_get example_converters m d kv k = Some (Child k, m1, d, kv')" "opened m1 d kv' b (xs @ (?h, ?x) # ys)"
    by (rule opened_get_converted [OF o i ty f]) (use conv_big_layout(2) in \<open>auto simp: append_assoc\<close>)
  have "hdr_field ?h 2 = k" using hdr_field_for(2) [OF i(2), of False] by (simp add: hdr_for_def)
  note oe = opened_entry [OF g(2), unfolded this]
  let ?v = "view_rec m1 (b, length (entries_wire xs)) (view_kind ?h)"
  have l: "length (bs_data s) < 2 ^ 32" using i(1) by (simp add: i32_ok_iff)
  have "to_very_big_struct m1 (Some (ObjDson ?v [])) re = Some (re\<lparr>bs_param1 := bs_param1 s,
      bs_param2 := bs_param2 s, bs_param3 := bs_param3 s, bs_data := bs_data s\<rparr>)"
    by (rule to_very_big_struct_params [of _ b "length (entries_wire xs) + 16" _ "entries_wire xs @ ?h" s "entries_wire ys"])
      (use oe(3,8) l in simp_all)
  then show ?thesis using that g oe(1) by blast
qed

lemma composite_entries_ok:
  assumes "composite_size s small big view \<le> max_dson_ram_size"
  shows "\<forall>e \<in> set (composite_entries s n small big view). entry_ok e"
    "distinct (map (\<lambda>e. hdr_field (fst e) 2) (composite_entries s n small big view))"
proof -
  have l: "int (length small) \<le> max_dson_ram_size" "int (length big) \<le> max_dson_ram_size"
    "int (length view) \<le> max_dson_ram_size" "10 + int (length (bs_data s)) \<le> max_dson_ram_size" "4 \<le> max_dson_ram_size"
    using assms by (simp_all add: composite_size_def)
  then have i: "i32_ok (int (length small))" "i32_ok (int (length big))" "i32_ok (int (length view))"
    "i32_ok (10 + int (length (bs_data s)))" "i32_ok 4"
    by (simp_all add: max_dson_ram_size_def i32_ok_iff)
  have k: "i32_ok 0" "i32_ok 1" "i32_ok 2" "i32_ok 3" "i32_ok 4" by (simp_all add: i32_ok_iff)
  have hf: "hdr_field (host_hdr sz k ty) (Suc 0) = sz" "hdr_field (host_hdr sz k ty) 2 = k" if "i32_ok sz" "i32_ok k" for sz k ty
    using that hdr_field_for [of _ False] by (simp_all add: hdr_for_def)
  have hn: "hdr_field (net_hdr sz k ty) (Suc 0) = sz" "hdr_field (net_hdr sz k ty) 2 = k" if "i32_ok sz" "i32_ok k" for sz k ty
    using that hdr_field_for [of _ True] by (simp_all add: hdr_for_def)
  show "\<forall>e \<in> set (composite_entries s n small big view). entry_ok e"
    using l i k by (simp add: composite_entries_def entry_ok_def hf hn)
  show "distinct (map (\<lambda>e. hdr_field (fst e) 2) (composite_entries s n small big view))"
    using i k by (simp add: composite_entries_def hf hn)
qed

lemma load_composite_file:
  assumes "composite_size s small big view \<le> max_dson_ram_size" "i32_ok n"
    and "nat (composite_size s small big view) \<le> malloc_limit m" "mem_ok m"
  shows "load_composite m (hdr_for True (composite_size s small big view) 0 (types_map T_DsonContainer) @
      entries_wire (composite_entries s n small big view)) re =
    Some (re\<lparr>bs_param1 := bs_param1 s, bs_param2 := bs_param2 s, bs_param3 := bs_param3 s, bs_data := bs_data s\<rparr>,
      [decimal_int n, small, big, view])"
proof -
  let ?sz = "composite_size s small big view" and ?es = "composite_entries s n small big view"
  let ?h = "hdr_for True ?sz 0 (types_map T_DsonContainer)" and ?d0 = "dson_fields (host_hdr 0 0 (types_map T_Empty))"
  have sz: "i32_ok ?sz" "0 \<le> ?sz"
    using assms(1) by (simp_all add: composite_size_def max_dson_ram_size_def i32_ok_iff)
  have len: "length (entries_wire ?es) = nat ?sz" by (simp add: composite_size_def composite_entries_def)
  have "\<exists>m' d' kv'. load_from_stream m ?d0 [] (?h @ entries_wire ?es @ []) = Some (m', d', kv', []) \<and>
      loaded_msg ?h (entries_wire ?es) (m', d', kv')"
    by (rule load_from_stream_complete) (use assms sz len in \<open>simp_all add: hdr_simps\<close>)
  then obtain m1 d1 kv1 where l: "load_from_stream m ?d0 [] (?h @ entries_wire ?es) = Some (m1, d1, kv1, [])"
    "loaded_msg ?h (entries_wire ?es) (m1, d1, kv1)" by auto
  note eo = composite_entries_ok [OF assms(1), of n]
  have ne: "?es \<noteq> []" and ty: "hdr_field ?h 3 = types_map T_DsonContainer" and lh: "length ?h = 16"
    by (simp_all add: composite_entries_def hdr_simps)
  let ?d = "d1\<lparr>d_kind := DsonContainer\<rparr>"
  obtain b kv2 where o: "opened m1 ?d kv2 b ?es"
    and g: "\<And>cv k. dson_get cv m1 d1 kv1 k = dson_get cv m1 ?d kv2 k"
    by (rule loaded_opened [OF l(2) ne ty eo lh]) simp_all
  let ?n = "(net_hdr 4 0 (types_map T_int32), be32 (of_i32 n))" and ?n' = "(host_hdr 4 0 (types_map T_int32), store32 (of_i32 n))"
    and ?b' = "(host_hdr (10 + int (length (bs_data s))) 1 big_struct_type, big_params False s @ bs_data s)"
    and ?s = "(host_hdr (int (length small)) 2 (types_map T_string), small)"
    and ?o = "(net_hdr (int (length big)) 3 (types_map T_string), big)"
    and ?v = "(host_hdr (int (length view)) 4 (types_map T_string), view)"
  have i: "i32_ok (10 + int (length (bs_data s)))" "i32_ok 0" "i32_ok 1" "i32_ok 2" "i32_ok 3" "i32_ok 4"
    using assms(1) by (simp_all add: composite_size_def max_dson_ram_size_def i32_ok_iff)
  have hf: "hdr_field (host_hdr sz k (types_map t)) 2 = k" "hdr_field (host_hdr sz k (types_map t)) 3 = types_map t"
    "hdr_field (net_hdr sz k (types_map t)) 2 = k" "hdr_field (net_hdr sz k (types_map t)) 3 = types_map t"
    if "i32_ok k" for sz k t
    using that hdr_field_for [of _ False] hdr_field_for [of _ True] by (simp_all add: hdr_for_def)
  obtain m2 kv3 v where g1: "dson_get example_converters m1 ?d kv2 1 = Some (Child 1, m2, ?d, kv3)"
    "kv_find 1 kv3 = Some (ObjDson v [])" "to_very_big_struct m2 (Some (ObjDson v [])) re = Some (re\<lparr>bs_param1 := bs_param1 s,
      bs_param2 := bs_param2 s, bs_param3 := bs_param3 s, bs_data := bs_data s\<rparr>)"
    "opened m2 ?d kv3 b ([?n] @ ?b' # [?s, ?o, ?v])"
    by (rule got_big [where xs = "[?n]" and ys = "[?s, ?o, ?v]" and k = 1, OF _ i(1,3)])
      (use o in \<open>simp_all add: composite_entries_def\<close>)
  obtain m3 kv4 where g2: "got_string m2 ?d kv3 0 = Some (decimal_int n, m3, ?d, kv4)" "opened m3 ?d kv4 b ([] @ ?n' # [?b', ?s, ?o, ?v])"
    by (rule got_number [where xs = "[]" and ys = "[?b', ?s, ?o, ?v]" and k = 0, OF _ i(2) assms(2)]) (use g1(4) in simp_all)
  obtain kv5 where g3: "got_string m3 ?d kv4 2 = Some (small, m3, ?d, kv5)" "opened m3 ?d kv5 b ([?n', ?b'] @ ?s # [?o, ?v])"
    by (rule got_text [where xs = "[?n', ?b']" and ys = "[?o, ?v]", OF _ hf(1) [OF i(4)] hf(2) [OF i(4)]]) (use g2(2) in simp_all)
  obtain kv6 where g4: "got_string m3 ?d kv5 3 = Some (big, m3, ?d, kv6)" "opened m3 ?d kv6 b ([?n', ?b', ?s] @ ?o # [?v])"
    by (rule got_text [where xs = "[?n', ?b', ?s]" and ys = "[?v]", OF _ hf(3) [OF i(5)] hf(4) [OF i(5)]]) (use g3(2) in simp_all)
  obtain kv7 where g5: "got_string m3 ?d kv6 4 = Some (view, m3, ?d, kv7)"
    by (rule got_text [where xs = "[?n', ?b', ?s, ?o]" and ys = "[]", OF _ hf(1) [OF i(6)] hf(2) [OF i(6)]]) (use g4(2) in simp_all)
  show ?thesis
    using l(1) g1(1-3) g2(1) g3(1) g4(1) g5 by (simp add: load_composite_def dson_new_eq g pointed_def)
qed

text \<open>
  C35: \<open>save_and_load_advanced_composite\<close>: a container with a number, a \<open>VeryBigStruct\<close> that is
  not copied, two strings that are and one that is moved, written to a descriptor in any number
  of calls that each take at least one byte.  The loop ends with the whole file written; loaded
  from a stream, the struct has the parameters and the data of the original, the number is
  printed as its decimal notation and every string as it was put in.
\<close>

theorem composite_save_and_load:
  assumes "can_compose m s small big view" "i32_ok n" "\<forall>e \<in> set calls. taking e"
    and "nat (composite_size s small big view) + 16 \<le> length calls"
    and "nat (composite_size s small big view) \<le> malloc_limit m2" "mem_ok m2"
  shows "\<exists>output. save_composite m s n small big view calls = Some (Ready, output) \<and>
    load_composite m2 output re =
      Some (re\<lparr>bs_param1 := bs_param1 s, bs_param2 := bs_param2 s, bs_param3 := bs_param3 s, bs_data := bs_data s\<rparr>,
        [decimal_int n, small, big, view])"
proof -
  have "composite_size s small big view \<le> max_dson_ram_size" using assms(1) by (simp add: can_compose_def)
  then show ?thesis
    using save_composite_file [OF assms(1,3,4)] load_composite_file [OF _ assms(2,5,6)] by simp
qed

lemma composite_save_and_load_witness:
  "\<exists>output. save_composite sample_mem sample_big 12345 (chars ''Small'') (chars ''Big'') (chars ''View'')
      (replicate 124 [WrTake 3, WrFail EAGAIN]) = Some (Ready, output) \<and>
    load_composite \<lparr>heap = Map.empty, next_block = 3, malloc_limit = 200, malloc_fill = (\<lambda>_. 0)\<rparr> output sample_big =
      Some (sample_big, [chars ''12345'', chars ''Small'', chars ''Big'', chars ''View''])"
proof -
  have e: "sample_big\<lparr>bs_param1 := bs_param1 sample_big, bs_param2 := bs_param2 sample_big,
      bs_param3 := bs_param3 sample_big, bs_data := bs_data sample_big\<rparr> = sample_big" by simp
  have z: "composite_size sample_big (chars ''Small'') (chars ''Big'') (chars ''View'') = 108"
    by (simp add: composite_size_def sample_big_facts chars_def)
  have "can_compose sample_mem sample_big (chars ''Small'') (chars ''Big'') (chars ''View'')"
    unfolding can_compose_def z using sample_big_facts
    by (simp add: text_fits_def chars_def sample_mem_def max_dson_ram_size_def)
  moreover have "decimal_int 12345 = chars ''12345''" by (simp add: decimal_int_def decimal.simps chars_def)
  ultimately show ?thesis
    using composite_save_and_load [of sample_mem sample_big "chars ''Small''" "chars ''Big''" "chars ''View''" 12345
        "replicate 124 [WrTake 3, WrFail EAGAIN]" "\<lparr>heap = Map.empty, next_block = 3, malloc_limit = 200,
        malloc_fill = (\<lambda>_. 0)\<rparr>" sample_big]
    unfolding z e by (simp add: i32_ok_iff taking_def soft_call_def mem_ok_def)
qed

end
