(* ===== verification/Ipc.thy ===== *)
theory Ipc
  imports Dson_Values
begin

text \<open>
  The inter-process example \<open>examples/ipc/src/dson_ipc.cpp\<close>: two threads that exchange empty
  \<open>Dson\<close> objects, whose key is the message, over two pipes.  First the transport of one
  message, then the protocol as a step relation.
\<close>

section \<open>Messages\<close>

datatype message =
  IAmClient | IAmServer | AlarmEnemyDetected | AttackEnemy | EnemyDestroyed | GoShutdown | WorkFinished

fun message_key :: "message \<Rightarrow> i32" where
  "message_key IAmClient = 0"
| "message_key IAmServer = 1"
| "message_key AlarmEnemyDetected = 2"
| "message_key AttackEnemy = 3"
| "message_key EnemyDestroyed = 4"
| "message_key GoShutdown = 5"
| "message_key WorkFinished = 6"

text \<open>\<open>write_dson.clear(); write_dson.set_key(\<dots>)\<close>\<close>

definition write_message :: "mem \<Rightarrow> dson \<Rightarrow> kvmap \<Rightarrow> message \<Rightarrow> (mem \<times> dson \<times> kvmap) option" where
  "write_message m write_dson kv msg = do {
     (m, d, kv) \<leftarrow> dson_clear m write_dson kv;
     (m, d) \<leftarrow> dson_set_key m d (message_key msg);
     Some (m, d, kv)
   }"

text \<open>
  \<open>send_dson\<close>: \<open>copy_to_fd_host_order\<close> until it answers something else than \<open>InProcess\<close>, one
  entry of the list per call.
\<close>

definition send_dson :: "mem \<Rightarrow> dson \<Rightarrow> kvmap \<Rightarrow> wcall list list \<Rightarrow> (result \<times> byte list \<times> mem \<times> dson_obj) option" where
  "send_dson m d kv = drive (fd_step False) (m, ObjDson d kv)"

text \<open>\<open>load_dson\<close>: \<open>clear\<close>, then \<open>load_from_fd\<close> in the same way; the pipe holds the bytes.\<close>

definition pipe_load_step :: "dson_state \<times> byte list \<Rightarrow> rcall list \<Rightarrow> (result \<times> (dson_state \<times> byte list)) option" where
  "pipe_load_step s script = (case s of ((m, d, kv), pipe) \<Rightarrow> do {
     (r, m, d, kv, fd) \<leftarrow> load_from_fd m d kv \<lparr>r_script = script, r_data = pipe\<rparr>;
     Some (r, ((m, d, kv), r_data fd))
   })"

definition load_dson :: "mem \<Rightarrow> dson \<Rightarrow> kvmap \<Rightarrow> byte list \<Rightarrow> rcall list list \<Rightarrow>
    (result \<times> (dson_state \<times> byte list)) option" where
  "load_dson m d kv pipe calls = do {
     (m, d, kv) \<leftarrow> dson_clear m d kv;
     feed pipe_load_step ((m, d, kv), pipe) calls
   }"

section \<open>Transport of a message\<close>

text \<open>An object used for sending: empty, in host order.\<close>

definition message_dson :: "i32 \<Rightarrow> dson \<Rightarrow> bool" where
  "message_dson k d \<longleftrightarrow> d_kind d = DsonContainer \<and> d_buf d = None \<and> \<not> d_was_alloc d \<and> d_state d = StReady \<and>
     d_header d = host_hdr 0 k (types_map T_Empty)"

definition message_wire_of :: "message \<Rightarrow> byte list" where
  "message_wire_of msg = host_hdr 0 (message_key msg) (types_map T_Empty)"

lemma message_key_ok [simp]: "i32_ok (message_key msg)"
  by (cases msg) simp_all

lemma write_message_eq:
  assumes "message_dson k d"
  shows "\<exists>d'. write_message m d [] msg = Some (m, d', []) \<and> message_dson (message_key msg) d'"
proof -
  have "hdr_set_field (host_hdr 0 k (types_map T_Empty)) 2 k' = host_hdr 0 k' (types_map T_Empty)" for k'
    using hdr_set_field_simps(2) [of False 0 k "types_map T_Empty" k'] by (simp add: hdr_for_def)
  then show ?thesis
    using assms by (simp add: write_message_def dson_clear_def message_dson_def dson_set_key_def local_simps)
qed

lemma message_obj:
  assumes "message_dson (message_key msg) d"
  shows "obj_ok lib_data False m (ObjDson d [])" "distinct (obj_blocks (ObjDson d []))" "obj_rest (ObjDson d [])"
    "obj_wire lib_converters False m (ObjDson d []) = message_wire_of msg"
proof -
  have h: "hdr_valid (d_header d)" using assms hdr_for_valid [of False] by (simp add: message_dson_def hdr_for_def)
  show "obj_ok lib_data False m (ObjDson d [])" "distinct (obj_blocks (ObjDson d []))" "obj_rest (ObjDson d [])"
    using assms h by (simp_all add: message_dson_def container_ok_def i32_max_def own_blocks_def)
  have "hdr_field (d_header d) 2 = message_key msg" "hdr_field (d_header d) 3 = types_map T_Empty"
    using assms hdr_field_for(2,3) [of _ False] by (simp_all add: message_dson_def hdr_for_def)
  then show "obj_wire lib_converters False m (ObjDson d []) = message_wire_of msg"
    using assms by (simp add: message_dson_def message_wire_of_def hdr_for_def)
qed

lemma pipe_feed:
  assumes "loading h dat s rest" "\<forall>c \<in> set calls. soft_reads c"
  shows "(\<exists>s'. feed pipe_load_step (s, rest @ extra) calls = Some (Ready, (s', extra)) \<and> loaded_msg h dat s') \<or>
    (\<exists>s' rest'. feed pipe_load_step (s, rest @ extra) calls = Some (InProcess, (s', rest' @ extra)))"
  using assms
proof (induction calls arbitrary: s rest)
  case Nil
  then show ?case by (cases s) auto
next
  case (Cons c calls)
  obtain m d kv where s: "s = (m, d, kv)" by (cases s)
  let ?fd = "\<lparr>r_script = c, r_data = rest @ extra\<rparr>"
  have "fd_progress h dat rest extra (load_from_fd m d kv ?fd)"
    by (rule load_from_fd_fd_progress) (use Cons.prems s in simp_all)
  then obtain k r m' d' kv' fd' where l: "load_from_fd m d kv ?fd = Some (r, m', d', kv', fd')"
    "r_data fd' = drop k rest @ extra" "k \<le> length rest"
    "if k = length rest then r = Ready \<and> loaded_msg h dat (m', d', kv')
      else r = InProcess \<and> loading h dat (m', d', kv') (drop k rest)"
    unfolding fd_progress_def by blast
  show ?case
  proof (cases "k = length rest")
    case True
    then show ?thesis using l by (simp add: s pipe_load_step_def)
  next
    case False
    then have "loading h dat (m', d', kv') (drop k rest)" "r = InProcess" using l(4) by simp_all
    then show ?thesis using Cons.IH [of "(m', d', kv')" "drop k rest"] Cons.prems(2) l(1,2)
      by (simp add: s pipe_load_step_def)
  qed
qed



section \<open>The protocol\<close>

datatype server_state = WaitClientAuth | WaitEnemyDetection | WaitEnemyDestroyed | WaitClientShutdowned

datatype client_state = WaitServerAuth | WaitServerAtackOrder | WaitServerShutdownOrder

text \<open>A thread runs in a state of its automaton, has returned, or has given up (\<open>sequence is broken\<close>).\<close>

datatype 's thread = Running 's | Finished | Broken

text \<open>
  The cases of the server's \<open>switch\<close>: what is sent and where the thread is afterwards.  The
  cases \<open>AlarmEnemyDetected\<close> and \<open>EnemyDestroyed\<close> end without \<open>break\<close> and run into the next.
\<close>

definition on_work_finished :: "server_state \<Rightarrow> message list \<times> server_state thread" where
  "on_work_finished s = (if s \<noteq> WaitClientShutdowned then ([], Broken) else ([], Finished))"

definition on_enemy_destroyed :: "server_state \<Rightarrow> message list \<times> server_state thread" where
  "on_enemy_destroyed s = (if s \<noteq> WaitEnemyDestroyed then ([], Broken) else
     (case on_work_finished WaitClientShutdowned of (out, t) \<Rightarrow> (GoShutdown # out, t)))"

definition on_alarm :: "server_state \<Rightarrow> message list \<times> server_state thread" where
  "on_alarm s = (if s \<noteq> WaitEnemyDetection then ([], Broken) else
     (case on_enemy_destroyed WaitEnemyDestroyed of (out, t) \<Rightarrow> (AttackEnemy # out, t)))"

fun server_on :: "server_state \<Rightarrow> message \<Rightarrow> message list \<times> server_state thread" where
  "server_on s IAmClient = (if s \<noteq> WaitClientAuth then ([], Broken) else ([IAmServer], Running WaitEnemyDetection))"
| "server_on s AlarmEnemyDetected = on_alarm s"
| "server_on s EnemyDestroyed = on_enemy_destroyed s"
| "server_on s WorkFinished = on_work_finished s"
| "server_on s _ = ([], Running s)"

fun client_on :: "client_state \<Rightarrow> message \<Rightarrow> message list \<times> client_state thread" where
  "client_on s IAmServer =
     (if s \<noteq> WaitServerAuth then ([], Broken) else ([AlarmEnemyDetected], Running WaitServerAtackOrder))"
| "client_on s AttackEnemy =
     (if s \<noteq> WaitServerAtackOrder then ([], Broken) else ([EnemyDestroyed], Running WaitServerShutdownOrder))"
| "client_on s GoShutdown =
     (if s \<noteq> WaitServerShutdownOrder then ([], Broken) else ([WorkFinished], Finished))"
| "client_on s _ = ([], Running s)"

text \<open>The messages in the two pipes and the two threads; the client has not started yet, or has.\<close>

record system =
  to_server :: "message list"
  to_client :: "message list"
  server :: "server_state thread"
  client :: "client_state thread option"

definition ipc_start :: system where
  "ipc_start = \<lparr>to_server = [], to_client = [], server = Running WaitClientAuth, client = None\<rparr>"

text \<open>One step: the client starts, or a thread that runs takes a message out of its pipe.\<close>

inductive ipc_step :: "(server_state \<Rightarrow> message \<Rightarrow> message list \<times> server_state thread) \<Rightarrow> system \<Rightarrow> system \<Rightarrow> bool"
  for on :: "server_state \<Rightarrow> message \<Rightarrow> message list \<times> server_state thread" where
  client_starts: "client c = None \<Longrightarrow> ipc_step on c
     (c\<lparr>to_server := to_server c @ [IAmClient], client := Some (Running WaitServerAuth)\<rparr>)"
| server_takes: "server c = Running s \<Longrightarrow> to_server c = msg # q \<Longrightarrow> on s msg = (out, t) \<Longrightarrow>
     ipc_step on c (c\<lparr>to_server := q, to_client := to_client c @ out, server := t\<rparr>)"
| client_takes: "client c = Some (Running s) \<Longrightarrow> to_client c = msg # q \<Longrightarrow> client_on s msg = (out, t) \<Longrightarrow>
     ipc_step on c (c\<lparr>to_client := q, to_server := to_server c @ out, client := Some t\<rparr>)"

inductive_cases ipc_stepE: "ipc_step on c c'"

text \<open>The server with a \<open>break\<close> at the end of every case, for comparison.\<close>

fun server_with_breaks :: "server_state \<Rightarrow> message \<Rightarrow> message list \<times> server_state thread" where
  "server_with_breaks s AlarmEnemyDetected =
     (if s \<noteq> WaitEnemyDetection then ([], Broken) else ([AttackEnemy], Running WaitEnemyDestroyed))"
| "server_with_breaks s EnemyDestroyed =
     (if s \<noteq> WaitEnemyDestroyed then ([], Broken) else ([GoShutdown], Running WaitClientShutdowned))"
| "server_with_breaks s msg = server_on s msg"

section \<open>The runs\<close>

text \<open>When every state of a list has just the next one as a successor, the list is the only run.\<close>

lemma only_run:
  assumes "\<And>i c'. i < length run \<Longrightarrow> step (run ! i) c' \<longleftrightarrow> Suc i < length run \<and> c' = run ! Suc i" "run \<noteq> []"
  shows "(step ^^ n) (run ! 0) c \<longleftrightarrow> n < length run \<and> c = run ! n"
proof (induction n arbitrary: c)
  case 0
  then show ?case using assms(2) by auto
next
  case (Suc n)
  then show ?case using assms(1) by auto
qed

abbreviation sys :: "message list \<Rightarrow> message list \<Rightarrow> server_state thread \<Rightarrow> client_state thread option \<Rightarrow> system" where
  "sys ts tc s c \<equiv> \<lparr>to_server = ts, to_client = tc, server = s, client = c\<rparr>"

lemma ipc_step_iff:
  "ipc_step on (sys ts tc s c) c' \<longleftrightarrow>
    (c = None \<and> c' = sys (ts @ [IAmClient]) tc s (Some (Running WaitServerAuth))) \<or>
    (\<exists>st msg q. s = Running st \<and> ts = msg # q \<and> c' = sys q (tc @ fst (on st msg)) (snd (on st msg)) c) \<or>
    (\<exists>st msg q. c = Some (Running st) \<and> tc = msg # q \<and>
       c' = sys (ts @ fst (client_on st msg)) q s (Some (snd (client_on st msg))))"
  (is "?l \<longleftrightarrow> ?r")
proof
  show "?l \<Longrightarrow> ?r" by (erule ipc_stepE) auto
  show "?r \<Longrightarrow> ?l"
    using ipc_step.intros [where c = "sys ts tc s c" and on = on] by (auto simp: prod_eq_iff)
qed

definition ipc_run :: "system list" where
  "ipc_run = [
     sys [] [] (Running WaitClientAuth) None,
     sys [IAmClient] [] (Running WaitClientAuth) (Some (Running WaitServerAuth)),
     sys [] [IAmServer] (Running WaitEnemyDetection) (Some (Running WaitServerAuth)),
     sys [AlarmEnemyDetected] [] (Running WaitEnemyDetection) (Some (Running WaitServerAtackOrder)),
     sys [] [AttackEnemy, GoShutdown] Finished (Some (Running WaitServerAtackOrder)),
     sys [EnemyDestroyed] [GoShutdown] Finished (Some (Running WaitServerShutdownOrder)),
     sys [EnemyDestroyed, WorkFinished] [] Finished (Some Finished)]"

definition breaks_run :: "system list" where
  "breaks_run = [
     sys [] [] (Running WaitClientAuth) None,
     sys [IAmClient] [] (Running WaitClientAuth) (Some (Running WaitServerAuth)),
     sys [] [IAmServer] (Running WaitEnemyDetection) (Some (Running WaitServerAuth)),
     sys [AlarmEnemyDetected] [] (Running WaitEnemyDetection) (Some (Running WaitServerAtackOrder)),
     sys [] [AttackEnemy] (Running WaitEnemyDestroyed) (Some (Running WaitServerAtackOrder)),
     sys [EnemyDestroyed] [] (Running WaitEnemyDestroyed) (Some (Running WaitServerShutdownOrder)),
     sys [] [GoShutdown] (Running WaitClientShutdowned) (Some (Running WaitServerShutdownOrder)),
     sys [WorkFinished] [] (Running WaitClientShutdowned) (Some Finished),
     sys [] [] Finished (Some Finished)]"

lemma ipc_run_only: "(ipc_step server_on ^^ n) ipc_start c \<longleftrightarrow> n < 7 \<and> c = ipc_run ! n"
proof -
  have "ipc_step server_on (ipc_run ! i) c' \<longleftrightarrow> Suc i < length ipc_run \<and> c' = ipc_run ! Suc i" if "i < length ipc_run" for i c'
  proof -
    have "i \<in> {0, 1, 2, 3, 4, 5, 6}" using that by (auto simp: ipc_run_def)
    then show ?thesis
      by (elim insertE emptyE)
        (simp_all add: ipc_run_def ipc_step_iff on_alarm_def on_enemy_destroyed_def on_work_finished_def)
  qed
  moreover have "length ipc_run = 7" "ipc_run ! 0 = ipc_start" "ipc_run \<noteq> []"
    by (simp_all add: ipc_run_def ipc_start_def)
  ultimately show ?thesis using only_run [of ipc_run "ipc_step server_on" n c] by metis
qed

lemma breaks_run_only: "(ipc_step server_with_breaks ^^ n) ipc_start c \<longleftrightarrow> n < 9 \<and> c = breaks_run ! n"
proof -
  have "ipc_step server_with_breaks (breaks_run ! i) c' \<longleftrightarrow> Suc i < length breaks_run \<and> c' = breaks_run ! Suc i"
    if "i < length breaks_run" for i c'
  proof -
    have "i \<in> {0, 1, 2, 3, 4, 5, 6, 7, 8}" using that by (auto simp: breaks_run_def)
    then show ?thesis
      by (elim insertE emptyE) (simp_all add: breaks_run_def ipc_step_iff on_work_finished_def)
  qed
  moreover have "length breaks_run = 9" "breaks_run ! 0 = ipc_start" "breaks_run \<noteq> []"
    by (simp_all add: breaks_run_def ipc_start_def)
  ultimately show ?thesis using only_run [of breaks_run "ipc_step server_with_breaks" n c] by metis
qed

section \<open>What the protocol does\<close>

lemma ipc_run_states:
  "n < 7 \<Longrightarrow> server (ipc_run ! n) \<noteq> Broken \<and> client (ipc_run ! n) \<noteq> Some Broken \<and>
     length (to_server (ipc_run ! n)) \<le> 2 \<and> length (to_client (ipc_run ! n)) \<le> 2"
proof -
  assume "n < 7"
  then have "n \<in> {0, 1, 2, 3, 4, 5, 6}" by auto
  then show ?thesis by (elim insertE emptyE) (simp_all add: ipc_run_def)
qed


lemma ipc_reaches: "n < 7 \<Longrightarrow> (ipc_step server_on)\<^sup>*\<^sup>* ipc_start (ipc_run ! n)"
  using ipc_run_only [of n "ipc_run ! n"] by (auto simp: rtranclp_power)


lemma ipc_stuck:
  "n < 7 \<Longrightarrow> (\<exists>c'. ipc_step server_on (ipc_run ! n) c') \<longleftrightarrow> n < 6"
proof -
  assume n: "n < 7"
  have "(\<exists>c'. (ipc_step server_on ^^ Suc n) ipc_start c') \<longleftrightarrow> (\<exists>c'. ipc_step server_on (ipc_run ! n) c')"
    using ipc_run_only n by (auto simp: relcompp.simps)
  moreover have "(\<exists>c'. (ipc_step server_on ^^ Suc n) ipc_start c') \<longleftrightarrow> n < 6"
    by (simp only: ipc_run_only) auto
  ultimately show ?thesis by simp
qed



text \<open>
  C27: the server does not wait for its client.  The missing \<open>break\<close>s make it send
  \<open>GoShutdown\<close> right after \<open>AttackEnemy\<close> and return: whenever it has returned it has sent both
  although \<open>WorkFinished\<close> was not there to be read, and a run that can go no further leaves
  \<open>EnemyDestroyed\<close> and \<open>WorkFinished\<close> unread.  With a \<open>break\<close> in every case such a run leaves
  nothing behind.
\<close>

theorem ipc_server_does_not_wait:
  assumes "(ipc_step server_on)\<^sup>*\<^sup>* ipc_start c" "\<nexists>c'. ipc_step server_on c c'"
    and "(ipc_step server_with_breaks)\<^sup>*\<^sup>* ipc_start b" "\<nexists>b'. ipc_step server_with_breaks b b'"
  shows "server_on WaitEnemyDetection AlarmEnemyDetected = ([AttackEnemy, GoShutdown], Finished) \<and>
    to_server c = [EnemyDestroyed, WorkFinished] \<and> server c = Finished \<and>
    to_server b = [] \<and> to_client b = [] \<and> server b = Finished \<and> client b = Some Finished"
proof -
  obtain n where n: "(ipc_step server_on ^^ n) ipc_start c" using assms(1) by (auto simp: rtranclp_power)
  then have "n < 7" "c = ipc_run ! n" by (simp_all add: ipc_run_only)
  then have "c = ipc_run ! 6" using ipc_stuck [of n] assms(2) by (cases "n = 6") auto
  moreover obtain k where "(ipc_step server_with_breaks ^^ k) ipc_start b" using assms(3) by (auto simp: rtranclp_power)
  then have k: "k < 9" "b = breaks_run ! k" by (simp_all add: breaks_run_only)
  have "\<not> Suc k < 9"
  proof
    assume "Suc k < 9"
    then have "(ipc_step server_with_breaks ^^ Suc k) ipc_start (breaks_run ! Suc k)" by (simp only: breaks_run_only)
    then obtain b' where "(ipc_step server_with_breaks ^^ k) ipc_start b'" "ipc_step server_with_breaks b' (breaks_run ! Suc k)"
      by auto
    then show False using assms(4) k(2) by (simp add: breaks_run_only)
  qed
  then have "b = breaks_run ! 8" using k by (cases "k = 8") auto
  ultimately show ?thesis
    by (simp add: ipc_run_def breaks_run_def on_alarm_def on_enemy_destroyed_def on_work_finished_def)
qed

lemma ipc_server_does_not_wait_witness:
  "to_server (ipc_run ! 6) = [EnemyDestroyed, WorkFinished] \<and> to_server (breaks_run ! 8) = []"
proof -
  have "(ipc_step server_with_breaks ^^ 8) ipc_start (breaks_run ! 8)" by (simp only: breaks_run_only) simp
  then have "(ipc_step server_with_breaks)\<^sup>*\<^sup>* ipc_start (breaks_run ! 8)" by (auto simp: rtranclp_power simp del: relpowp.simps)
  moreover have "\<nexists>b'. ipc_step server_with_breaks (breaks_run ! 8) b'"
    by (simp add: breaks_run_def ipc_step_iff)
  moreover have "\<nexists>c'. ipc_step server_on (ipc_run ! 6) c'" using ipc_stuck [of 6] by simp
  ultimately show ?thesis using ipc_server_does_not_wait [OF ipc_reaches [of 6]] by simp
qed

end
