(* ===== verification/Server_Loop.thy ===== *)
theory Server_Loop
  imports Network
begin

text \<open>
  The loop of the server (\<open>SocketServer::server_loop\<close>) as a whole: requests arrive over the
  connection in any pieces, and what leaves it is what a simple specification says, in order.
\<close>

section \<open>What a load leaves alone\<close>

text \<open>
  A load frees the old contents, allocates one new block and writes to its own; live blocks of
  others keep their contents and stay with their owners.
\<close>

definition load_frame :: "mem \<Rightarrow> dson \<Rightarrow> kvmap \<Rightarrow> (result \<times> mem \<times> dson \<times> kvmap \<times> rfd) option \<Rightarrow> bool" where
  "load_frame m d kv res \<longleftrightarrow> (\<forall>r m' d' kv' fd'. res = Some (r, m', d', kv', fd') \<longrightarrow>
     malloc_limit m' = malloc_limit m \<and>
     (\<forall>b. heap m b \<noteq> None \<longrightarrow> b \<notin> set (obj_blocks (ObjDson d kv)) \<longrightarrow>
        heap m' b = heap m b \<and> b \<notin> set (obj_blocks (ObjDson d' kv'))))"

lemma load_frameI:
  "(\<And>r m' d' kv' fd'. res = Some (r, m', d', kv', fd') \<Longrightarrow> malloc_limit m' = malloc_limit m \<and>
     (\<forall>b. heap m b \<noteq> None \<longrightarrow> b \<notin> set (obj_blocks (ObjDson d kv)) \<longrightarrow>
        heap m' b = heap m b \<and> b \<notin> set (obj_blocks (ObjDson d' kv')))) \<Longrightarrow> load_frame m d kv res"
  by (auto simp: load_frame_def)

lemma load_frame_trans:
  assumes "load_frame m1 d1 kv1 res" "malloc_limit m1 = malloc_limit m"
    and "\<And>b. heap m b \<noteq> None \<Longrightarrow> b \<notin> set (obj_blocks (ObjDson d kv)) \<Longrightarrow>
      heap m1 b = heap m b \<and> b \<notin> set (obj_blocks (ObjDson d1 kv1))"
  shows "load_frame m d kv res"
  unfolding load_frame_def
proof (intro allI impI)
  fix r m' d' kv' fd'
  assume "res = Some (r, m', d', kv', fd')"
  then have f: "malloc_limit m' = malloc_limit m1"
    "\<And>b. heap m1 b \<noteq> None \<Longrightarrow> b \<notin> set (obj_blocks (ObjDson d1 kv1)) \<Longrightarrow>
       heap m' b = heap m1 b \<and> b \<notin> set (obj_blocks (ObjDson d' kv'))"
    using assms(1) unfolding load_frame_def by blast+
  show "malloc_limit m' = malloc_limit m \<and> (\<forall>b. heap m b \<noteq> None \<longrightarrow> b \<notin> set (obj_blocks (ObjDson d kv)) \<longrightarrow>
      heap m' b = heap m b \<and> b \<notin> set (obj_blocks (ObjDson d' kv')))"
    using f assms(2,3) by metis
qed

lemma own_blocks_upd [simp]:
  "own_blocks (d\<lparr>d_offset := n\<rparr>) = own_blocks d" "own_blocks (d\<lparr>d_state := s\<rparr>) = own_blocks d"
  "own_blocks (d\<lparr>d_header := h\<rparr>) = own_blocks d" "own_blocks (d\<lparr>d_kind := k\<rparr>) = own_blocks d"
  by (simp_all add: own_blocks_def)

lemma load_data_fd_frame:
  assumes "d_buf d = Some (b, 0)" "d_was_alloc d"
  shows "load_frame m d [] (load_data_fd m d [] fd)"
proof -
  have st: "malloc_limit m' = malloc_limit m \<and> (\<forall>x. x \<noteq> b \<longrightarrow> heap m' x = heap m x)" if "store_data m d xs = Some m'" for m' xs
    using that assms by (auto simp: store_data_def mwrite_Some_iff split: if_splits)
  have "own_blocks d = [b]" using assms by (simp add: own_blocks_def)
  then show ?thesis
    by (intro load_frameI) (use st in \<open>auto simp: load_data_fd_def Let_def ub_simps split: if_splits prod.splits\<close>)
qed

lemma allocate_frame:
  assumes "allocate m d sz = Some (p, m', d')" "d_buf d = None" "\<not> d_was_alloc d"
  shows "malloc_limit m' = malloc_limit m" "x \<noteq> next_block m \<Longrightarrow> heap m' x = heap m x"
    "p \<noteq> None \<Longrightarrow> d_buf d' = Some (next_block m, 0) \<and> d_was_alloc d'" "p = None \<Longrightarrow> own_blocks d' = []"
  using assms by (auto simp: allocate_def malloc_def own_blocks_def split: if_splits)

lemma header_loaded_frame:
  assumes "header_loaded m d kv = Some (r, m', d')" "d_buf d = None" "\<not> d_was_alloc d"
  shows "malloc_limit m' = malloc_limit m \<and> (\<forall>x. x \<noteq> next_block m \<longrightarrow> heap m' x = heap m x) \<and>
    (if r = None then d_buf d' = Some (next_block m, 0) \<and> d_was_alloc d' else own_blocks d' = [])"
proof -
  have none: "own_blocks d = []" using assms(3) by (simp add: own_blocks_def)
  obtain sz where sz: "dson_data_size m d kv = Some sz" using assms(1) by (auto simp: header_loaded_def ub_simps)
  consider "sz < 0 \<or> max_dson_ram_size < sz" | "sz = 0" | "\<not> sz < 0" "\<not> max_dson_ram_size < sz" "sz \<noteq> 0" by blast
  then show ?thesis
  proof cases
    case 3
    then obtain p m1 d1 where al: "allocate m d sz = Some (p, m1, d1)"
      "(if p = None then Some (Some Error, m1, d1\<lparr>d_state := StError\<rparr>)
        else Some (None, m1, d1\<lparr>d_offset := 0, d_state := StLoadingData\<rparr>)) = Some (r, m', d')"
      using assms(1) sz by (auto simp: header_loaded_def ub_simps)
    then show ?thesis using allocate_frame [OF al(1) assms(2,3)] by (cases p) auto
  qed (use assms(1) sz none in \<open>auto simp: header_loaded_def split: if_splits\<close>)
qed

lemma load_header_fd_frame:
  assumes "d_buf d = None" "\<not> d_was_alloc d" "mem_ok m"
  shows "load_frame m d [] (load_header_fd m d [] fd)"
proof -
  have none: "own_blocks d = []" using assms(2) by (simp add: own_blocks_def)
  have rest: "load_frame m d [] (do {
      (r, m, d) \<leftarrow> header_loaded m d1 [];
      case r of Some r \<Rightarrow> Some (r, m, d, [], fd') | None \<Rightarrow> load_data_fd m d [] fd' })"
    if d1: "d_buf d1 = None" "\<not> d_was_alloc d1" for d1 fd'
  proof (cases "header_loaded m d1 []")
    case (Some res)
    obtain r m' d' where res: "res = (r, m', d')" by (cases res)
    note f = header_loaded_frame [OF Some [unfolded res] d1]
    have new: "b \<noteq> next_block m" if "heap m b \<noteq> None" for b using assms(3) that by (auto simp: mem_ok_def)
    show ?thesis
    proof (cases r)
      case None
      then have b: "d_buf d' = Some (next_block m, 0)" "d_was_alloc d'" using f by auto
      have "own_blocks d' = [next_block m]" using b by (simp add: own_blocks_def)
      then have "load_frame m d [] (load_data_fd m' d' [] fd')"
        by (intro load_frame_trans [OF load_data_fd_frame [OF b]]) (use f new none in auto)
      then show ?thesis using Some res None by simp
    next
      case (Some q)
      then show ?thesis using \<open>header_loaded m d1 [] = Some res\<close> res f new by (auto simp: load_frame_def)
    qed
  qed (simp add: load_frame_def)
  show ?thesis
  proof (cases "int header_size \<le> d_offset d")
    case False
    obtain readed xs fd' where rd: "read_from_fd fd (nat (int header_size - d_offset d)) = (readed, xs, fd')"
      by (cases "read_from_fd fd (nat (int header_size - d_offset d))")
    show ?thesis
    proof (cases "readed < 0 \<or> store_header d xs = None")
      case True
      then show ?thesis using False rd none by (auto simp: load_header_fd_def load_frame_def)
    next
      case ok: False
      then obtain d1 where d1: "store_header d xs = Some d1" by auto
      then have "d_buf d1 = None" "\<not> d_was_alloc d1" using assms by (auto simp: store_header_def split: if_splits)
      then have n: "d_buf (d1\<lparr>d_offset := z\<rparr>) = None" "\<not> d_was_alloc (d1\<lparr>d_offset := z\<rparr>)" for z by simp_all
      have "own_blocks (d1\<lparr>d_offset := z\<rparr>) = []" for z using n by (simp add: own_blocks_def)
      then show ?thesis using False rd ok d1 none rest [OF n]
        by (auto simp: load_header_fd_def load_frame_def [of m d "[]" "Some _"] Let_def)
    qed
  qed (use none in \<open>simp add: load_header_fd_def load_frame_def\<close>)
qed

lemma load_from_fd_frame:
  assumes l: "loading h dat (m, d, kv) rest"
  shows "load_frame m d kv (load_from_fd m d kv fd)"
proof -
  have ok: "mem_ok m" using l by (simp add: loading_def)
  consider "d_state d = StLoadingHeader" | "d_state d = StLoadingData"
    | "d_state d \<noteq> StLoadingHeader" "d_state d \<noteq> StLoadingData" by blast
  then show ?thesis
  proof cases
    case 1
    then have "d_buf d = None" "\<not> d_was_alloc d" "kv = []" using l by (simp_all add: loading_def header_part_def)
    then show ?thesis using load_header_fd_frame ok 1 by (simp add: load_from_fd_def load_begin_def)
  next
    case 2
    then obtain b where "d_buf d = Some (b, 0)" "d_was_alloc d" "kv = []" using l by (auto simp: loading_def data_part_def)
    then show ?thesis using load_data_fd_frame 2 by (simp add: load_from_fd_def load_begin_def)
  next
    case 3
    then have c: "can_load m d kv" using l by (cases "d_state d") (simp_all add: loading_def)
    let ?m = "free_blocks m (obj_blocks (ObjDson d kv))"
    let ?d = "(cleared d)\<lparr>d_offset := 0, d_state := StLoadingHeader, d_kind := DataBufNeedParse\<rparr>"
    have e: "load_from_fd m d kv fd = load_header_fd ?m ?d [] fd"
      using dson_clear_eq [of m d kv] c 3 by (simp add: load_from_fd_def load_begin_def can_load_def)
    have n: "d_buf ?d = None" "\<not> d_was_alloc ?d" using c by (auto simp: can_load_def cleared_def header_loc_def)
    then have "own_blocks ?d = []" by (simp add: own_blocks_def)
    then show ?thesis
      unfolding e by (intro load_frame_trans [OF load_header_fd_frame [OF n]]) (use ok in \<open>auto simp: mem_ok_free_blocks\<close>)
  qed
qed

text \<open>An object that waits for the first byte of a message.\<close>

definition idle :: "mem \<Rightarrow> dson \<Rightarrow> kvmap \<Rightarrow> bool" where
  "idle m d kv \<longleftrightarrow> mem_ok m \<and> length (d_header d) = 16 \<and> d_state d \<noteq> StLoadingData \<and>
     (if d_state d = StLoadingHeader
      then d_kind d = DataBufNeedParse \<and> kv = [] \<and> d_buf d = None \<and> \<not> d_was_alloc d \<and> d_offset d = 0
      else can_load m d kv)"

lemma idle_loading: "idle m d kv \<Longrightarrow> msg_fits m h dat \<Longrightarrow> loading h dat (m, d, kv) (h @ dat)"
  by (cases "d_state d") (simp_all add: idle_def loading_def header_part_def)

lemma idle_load:
  assumes "idle m d kv" "r_data fd = []" "soft_reads (r_script fd)"
  shows "\<exists>m' d' fd'. load_from_fd m d kv fd = Some (InProcess, m', d', [], fd') \<and> idle m' d' [] \<and> r_data fd' = []"
proof -
  have header: "\<exists>fd'. load_header_fd m d [] fd = Some (InProcess, m, d, [], fd') \<and> r_data fd' = []"
    if "d_offset d = 0" "length (d_header d) = 16" for m d
  proof -
    obtain k fd' where rd: "read_from_fd fd (nat (int header_size - d_offset d)) = (int k, take k (r_data fd), fd')"
      "k \<le> length (r_data fd)" "r_data fd' = drop k (r_data fd)"
      using read_from_fd_soft [OF assms(3)] by metis
    moreover have "store_header d [] = Some d" using that by (simp add: store_header_def)
    ultimately show ?thesis using that assms(2) by (simp add: load_header_fd_def header_size_def)
  qed
  show ?thesis
  proof (cases "d_state d = StLoadingHeader")
    case True
    then have "d_offset d = 0" "length (d_header d) = 16" "kv = []" using assms(1) by (simp_all add: idle_def)
    then obtain fd' where "load_header_fd m d [] fd = Some (InProcess, m, d, [], fd')" "r_data fd' = []"
      using header [of d m] by blast
    then show ?thesis using True assms(1) \<open>kv = []\<close> by (auto simp: load_from_fd_def load_begin_def)
  next
    case False
    then have c: "can_load m d kv" "d_state d \<noteq> StLoadingData" "mem_ok m" "length (d_header d) = 16"
      using assms(1) by (simp_all add: idle_def)
    let ?m = "free_blocks m (obj_blocks (ObjDson d kv))"
    let ?d = "(cleared d)\<lparr>d_offset := 0, d_state := StLoadingHeader, d_kind := DataBufNeedParse\<rparr>"
    have e: "load_from_fd m d kv fd = load_header_fd ?m ?d [] fd"
      using dson_clear_eq [of m d kv] c False by (simp add: load_from_fd_def load_begin_def can_load_def)
    have n: "d_buf ?d = None" "\<not> d_was_alloc ?d" using c by (auto simp: can_load_def cleared_def header_loc_def)
    then have "idle ?m ?d []" using c by (simp add: idle_def mem_ok_free_blocks) (simp add: cleared_def)
    then show ?thesis using e header [of ?d ?m] c(4) by (auto simp: cleared_def)
  qed
qed

section \<open>Requests and replies\<close>

text \<open>A request, as the client of \<open>star_routing\<close> sends it: its key, its address and its string.\<close>

record request =
  rq_key :: net_key
  rq_address :: address
  rq_text :: "byte list"

definition text_key :: "net_key \<Rightarrow> i32" where
  "text_key k = net_key_id (if k = WantAuth then Password else StringData)"

definition text_entry :: "request \<Rightarrow> byte list \<times> byte list" where
  "text_entry r = (host_hdr (int (length (rq_text r))) (text_key (rq_key r)) (types_map T_string), rq_text r)"

definition request_entries :: "bool \<Rightarrow> request \<Rightarrow> (byte list \<times> byte list) list" where
  "request_entries nw r = [(hdr_for nw 16 0 (types_map T_vector_uint32), addr_bytes nw (rq_address r)), text_entry r]"

definition request_header :: "request \<Rightarrow> byte list" where
  "request_header r = hdr_for True (int (length (rq_text r)) + 48) (net_key_id (rq_key r)) (types_map T_DsonContainer)"

definition request_wire :: "request \<Rightarrow> byte list" where
  "request_wire r = request_header r @ entries_wire (request_entries True r)"

text \<open>
  The client \<open>c\<close> may send it to anybody but itself, and everything it leads to fits into memory.
\<close>

definition good_request :: "u32 \<Rightarrow> mem \<Rightarrow> request \<Rightarrow> bool" where
  "good_request c m r \<longleftrightarrow> (rq_key r = WantAuth \<or> rq_key r = SimpleData) \<and> from_cli_id (rq_address r) = c \<and>
     to_cli_id (rq_address r) \<noteq> c \<and>
     int (length (rq_text r)) + 48 \<le> max_dson_ram_size \<and> length (rq_text r) + 48 \<le> malloc_limit m \<and>
     fits_reply m (rq_address r) (rq_text r)"

text \<open>
  The specification of the server: every service counts the requests it gets, a request for
  data is answered with the count and an echo, the right password is confirmed, a wrong one
  is ignored, and so is a request to somebody who is not there.
\<close>

definition is_service :: "u32 \<Rightarrow> bool" where
  "is_service i \<longleftrightarrow> 1 \<le> i \<and> i < 100"

definition count_request :: "request \<Rightarrow> (u32 \<Rightarrow> u32) \<Rightarrow> u32 \<Rightarrow> u32" where
  "count_request r ids = (let i = to_cli_id (rq_address r) in if is_service i then ids(i := ids i + 1) else ids)"

definition reply_for :: "(u32 \<Rightarrow> u32) \<Rightarrow> request \<Rightarrow> byte list" where
  "reply_for ids r = (let i = to_cli_id (rq_address r) in
     if is_service i then request_reply (net_key_id (rq_key r)) (rq_address r) (rq_text r) (ids i + 1) else [])"

fun replies :: "(u32 \<Rightarrow> u32) \<Rightarrow> request list \<Rightarrow> byte list" where
  "replies ids [] = []"
| "replies ids (r # rs) = reply_for ids r @ replies (count_request r ids) rs"

definition counted :: "(u32 \<Rightarrow> u32) \<Rightarrow> request list \<Rightarrow> u32 \<Rightarrow> u32" where
  "counted ids rs = fold count_request rs ids"

lemma counted_simps [simp]:
  "counted ids [] = ids" "counted ids (r # rs) = counted (count_request r ids) rs"
  "counted ids (xs @ ys) = counted (counted ids xs) ys"
  by (simp_all add: counted_def)

lemma replies_append: "replies ids (xs @ ys) = replies ids xs @ replies (counted ids xs) ys"
  by (induction xs arbitrary: ids) simp_all

lemma request_fields:
  assumes "good_request c m r"
  shows "hdr_field (request_header r) (Suc 0) = int (length (rq_text r)) + 48"
    "hdr_field (request_header r) 2 = net_key_id (rq_key r)" "hdr_field (request_header r) 3 = types_map T_DsonContainer"
    "hdr_field (fst (text_entry r)) (Suc 0) = int (length (rq_text r))"
    "hdr_field (fst (text_entry r)) 2 = text_key (rq_key r)" "hdr_field (fst (text_entry r)) 3 = types_map T_string"
    "hdr_field (hdr_for nw 16 0 (types_map T_vector_uint32)) (Suc 0) = 16"
    "hdr_field (hdr_for nw 16 0 (types_map T_vector_uint32)) 2 = 0"
proof -
  have i: "i32_ok (int (length (rq_text r)) + 48)" "i32_ok (int (length (rq_text r)))"
    "i32_ok (net_key_id (rq_key r))" "i32_ok (text_key (rq_key r))" "i32_ok 16" "i32_ok 0"
    using assms by (auto simp: good_request_def i32_ok_iff max_dson_ram_size_def text_key_def)
  show "hdr_field (request_header r) (Suc 0) = int (length (rq_text r)) + 48"
    "hdr_field (request_header r) 2 = net_key_id (rq_key r)" "hdr_field (request_header r) 3 = types_map T_DsonContainer"
    "hdr_field (fst (text_entry r)) (Suc 0) = int (length (rq_text r))"
    "hdr_field (fst (text_entry r)) 2 = text_key (rq_key r)" "hdr_field (fst (text_entry r)) 3 = types_map T_string"
    "hdr_field (hdr_for nw 16 0 (types_map T_vector_uint32)) (Suc 0) = 16"
    "hdr_field (hdr_for nw 16 0 (types_map T_vector_uint32)) 2 = 0"
    using i hdr_field_for [of _ True] hdr_field_for [of _ False] hdr_field_for [of _ nw]
    by (simp_all add: request_header_def text_entry_def hdr_for_def)
qed

lemma request_ok:
  assumes "good_request c m r"
  shows "\<forall>e \<in> set (request_entries nw r). entry_ok e" "distinct (map (\<lambda>e. hdr_field (fst e) 2) (request_entries nw r))"
    "msg_fits m (request_header r) (entries_wire (request_entries True r))" "length (request_header r) = 16"
proof -
  note f = request_fields [OF assms]
  show "\<forall>e \<in> set (request_entries nw r). entry_ok e" "distinct (map (\<lambda>e. hdr_field (fst e) 2) (request_entries nw r))"
    using assms f by (auto simp: request_entries_def entry_ok_def good_request_def max_dson_ram_size_def text_key_def)
      (simp_all add: text_entry_def)
  show "msg_fits m (request_header r) (entries_wire (request_entries True r))" "length (request_header r) = 16"
    using assms f(1) by (simp_all add: msg_fits_def good_request_def request_entries_def text_entry_def entries_wire_def)
      (simp_all add: request_header_def)
qed

section \<open>One request\<close>

text \<open>The server of \<open>star_routing\<close> between two calls, the client \<open>c\<close> registered or not yet.\<close>

definition serving :: "u32 \<Rightarrow> server \<Rightarrow> bool \<Rightarrow> bool" where
  "serving c sv need \<longleftrightarrow> server_ok sv \<and> mem_ok (sv_mem sv) \<and> keep_run sv \<and>
     (\<forall>i. i \<noteq> c \<longrightarrow> route_table sv i = (if is_service i then Some (EchoService i) else None)) \<and>
     \<not> is_service c \<and> (need \<or> route_table sv c = Some ToConnection)"

text \<open>A message for somebody who is not there is dropped; its address was read.\<close>

lemma route_nowhere:
  fixes xs ys a
  defines "es nw \<equiv> xs @ (hdr_for nw 16 0 (types_map T_vector_uint32), addr_bytes nw a) # ys"
  assumes sv: "server_ok sv" "mem_ok (sv_mem sv)" "b \<notin> set (deque_blocks (write_deque sv))"
    and o: "opened (sv_mem sv) d kv b (es nw)" and rt: "route_table sv (to_cli_id a) = None"
  shows "\<exists>sv' kv'. route 2 lib_converters sv d kv = Some (sv', d, kv') \<and> chunk_ids sv' = chunk_ids sv \<and>
    settled sv d b (es False) [] sv' kv'"
proof -
  have k0: "i32_ok 0" by (simp add: i32_ok_iff)
  define m1 where "m1 = upd_block (sv_mem sv) b (entries_wire (es False))"
  obtain kv1 where a1: "message_address lib_converters 0 (sv_mem sv) d kv = Some (Some a, m1, d, kv1)"
    and a2: "opened m1 d kv1 b (es False)"
    using opened_address [OF o [unfolded es_def [of nw]] k0] by (auto simp: hdr_for_def m1_def es_def [of False])
  let ?sv = "sv\<lparr>sv_mem := m1\<rparr>"
  have m1: "mem_ok m1" "malloc_limit m1 = malloc_limit (sv_mem sv)"
    using sv(2) opened_live [OF o] by (auto simp: mem_ok_def m1_def)
  have "\<forall>x \<in> set (deque_blocks (write_deque sv)). heap m1 x = heap (sv_mem sv) x" using sv(3) by (auto simp: m1_def)
  note ok = server_ok_mem [OF sv(1) this]
  have "route 2 lib_converters sv d kv = Some (?sv, d, kv1)" using a1 rt by (simp add: numeral_2_eq_2)
  then show ?thesis using ok m1 sv(3) a2 by (auto simp: settled_def)
qed

lemma handle_opened:
  assumes sv: "serving c sv need" "b \<notin> set (deque_blocks (write_deque sv))" and r: "good_request c (sv_mem sv) r"
    and o: "opened (sv_mem sv) d kv b (request_entries nw r)"
    and key: "dson_key (sv_mem sv) d = Some (net_key_id (rq_key r))" and nd: "\<not> need"
  shows "\<exists>sv' d'. handle_message 2 lib_converters sv False d kv = Some (sv', d', []) \<and> serving c sv' False \<and>
    idle (sv_mem sv') d' [] \<and> own_blocks d' = [] \<and> malloc_limit (sv_mem sv') = malloc_limit (sv_mem sv) \<and>
    chunk_ids sv' = count_request r (chunk_ids sv) \<and> outgoing sv' = outgoing sv @ reply_for (chunk_ids sv) r"
proof -
  let ?i = "to_cli_id (rq_address r)" and ?k = "net_key_id (rq_key r)" and ?a = "rq_address r"
  have k: "?k = 1 \<or> ?k = 3" "text_key (rq_key r) = (if ?k = 1 then 4 else 6)"
    using r by (auto simp: good_request_def text_key_def)
  note f = request_fields [OF r]
  have sv': "server_ok sv" "mem_ok (sv_mem sv)" using sv(1) by (simp_all add: serving_def)
  have rt: "route_table sv ?i = (if is_service ?i then Some (EchoService ?i) else None)" "route_table sv (from_cli_id ?a) = Some ToConnection"
    using sv(1) nd r by (auto simp: serving_def good_request_def)
  have here: "\<exists>sv' kv'. route 2 lib_converters sv d kv = Some (sv', d, kv') \<and>
    chunk_ids sv' = (chunk_ids sv)(?i := chunk_ids sv ?i + 1) \<and>
    settled sv d b ([] @ (hdr_for False 16 0 (types_map T_vector_uint32), addr_bytes False ?a) # [text_entry r])
      (request_reply ?k ?a (rq_text r) (chunk_ids sv ?i + 1)) sv' kv'" if "is_service ?i"
  proof (rule route_request [OF sv' sv(2) _ key k(1) _ _ _ _ rt(2)])
    show "route_table sv ?i = Some (EchoService ?i)" using rt(1) that by simp
    show "opened (sv_mem sv) d kv b ([] @ (hdr_for nw 16 0 (types_map T_vector_uint32), addr_bytes nw ?a) # [text_entry r])"
      using o by (simp add: request_entries_def)
    show "(fst (text_entry r), rq_text r) \<in> set [] \<union> set [text_entry r]" by (simp add: text_entry_def)
    show "hdr_field (fst (text_entry r)) 2 = (if ?k = 1 then 4 else 6)" "hdr_field (fst (text_entry r)) 3 = types_map T_string"
      using f k(2) by simp_all
    show "fits_reply (sv_mem sv) ?a (rq_text r)" using r by (simp add: good_request_def)
  qed
  have nowhere: "\<exists>sv' kv'. route 2 lib_converters sv d kv = Some (sv', d, kv') \<and> chunk_ids sv' = chunk_ids sv \<and>
    settled sv d b ([] @ (hdr_for False 16 0 (types_map T_vector_uint32), addr_bytes False ?a) # [text_entry r]) [] sv' kv'"
    if "\<not> is_service ?i"
    by (rule route_nowhere [OF sv' sv(2)]) (use o rt(1) that in \<open>simp_all add: request_entries_def\<close>)
  obtain sv1 kv1 where s: "route 2 lib_converters sv d kv = Some (sv1, d, kv1)"
    "chunk_ids sv1 = count_request r (chunk_ids sv)"
    "settled sv d b (request_entries False r) (reply_for (chunk_ids sv) r) sv1 kv1"
    using here nowhere
    by (cases "is_service ?i") (auto simp: request_entries_def count_request_def reply_for_def Let_def)
  have o1: "opened (sv_mem sv1) d kv1 b (request_entries False r)" and st: "server_ok sv1" "mem_ok (sv_mem sv1)"
    "b \<notin> set (deque_blocks (write_deque sv1))"
    using s(3) by (simp_all add: settled_def)
  let ?m = "free_blocks (sv_mem sv1) [b]"
  have cl: "dson_clear (sv_mem sv1) d kv1 = Some (?m, cleared d, [])"
    using dson_clear_eq [OF opened_owns(1) [OF o1]] opened_owns(2) [OF o1] by (simp del: obj_blocks.simps)
  have "d_buf (cleared d) = None" "\<not> d_was_alloc (cleared d)" "d_state (cleared d) = StReady" "length (d_header (cleared d)) = 16"
    using o1 by (simp_all add: cleared_def opened_def)
  then have d': "idle ?m (cleared d) []" "own_blocks (cleared d) = []"
    using st(2) by (simp_all add: idle_def can_load_def own_blocks_def mem_ok_free_blocks header_loc_def)
  have "\<forall>x \<in> set (deque_blocks (write_deque sv1)). heap ?m x = heap (sv_mem sv1) x" using st(3) by auto
  note ok = server_ok_mem [OF st(1) this]
  have "serving c (sv1\<lparr>sv_mem := ?m\<rparr>) False"
    using sv(1) nd s(3) ok st(2) by (simp add: serving_def settled_def mem_ok_free_blocks)
  then show ?thesis
    using s cl d' ok(2) by (intro exI [of _ "sv1\<lparr>sv_mem := ?m\<rparr>"] exI [of _ "cleared d"]) (simp add: handle_message_def settled_def)
qed

text \<open>A message that has just arrived, from a client that may have to be registered first.\<close>

lemma handle_loaded:
  assumes sv: "serving c sv need" "set (obj_blocks (ObjDson d kv)) \<inter> set (deque_blocks (write_deque sv)) = {}"
    and r: "good_request c (sv_mem sv) r"
    and l: "loaded_msg (request_header r) (entries_wire (request_entries True r)) (sv_mem sv, d, kv)"
  shows "\<exists>sv' d'. handle_message 2 lib_converters sv need d kv = Some (sv', d', []) \<and> serving c sv' False \<and>
    idle (sv_mem sv') d' [] \<and> own_blocks d' = [] \<and> malloc_limit (sv_mem sv') = malloc_limit (sv_mem sv) \<and>
    chunk_ids sv' = count_request r (chunk_ids sv) \<and> outgoing sv' = outgoing sv @ reply_for (chunk_ids sv) r"
proof -
  let ?d = "d\<lparr>d_kind := DsonContainer\<rparr>" and ?m = "sv_mem sv"
  note rok = request_ok [OF r] and f = request_fields [OF r]
  have ne: "request_entries True r \<noteq> []" by (simp add: request_entries_def)
  obtain b kv1 where o: "opened ?m ?d kv1 b (request_entries True r)" and b: "d_buf d = Some (b, 0)"
    and key: "dson_key ?m ?d = Some (hdr_field (request_header r) 2)"
    and ma: "message_address lib_converters 0 ?m d kv = message_address lib_converters 0 ?m ?d kv1"
    and rt: "route 2 lib_converters sv d kv = route 2 lib_converters sv ?d kv1"
    by (rule loaded_request [OF l rok(4) ne f(3) rok(1,2)]) metis
  have "d_was_alloc d" using o by (simp add: opened_def)
  then have nb: "b \<notin> set (deque_blocks (write_deque sv))" using sv(2) b by (auto simp: own_blocks_def)
  show ?thesis
  proof (cases need)
    case False
    have "handle_message 2 lib_converters sv False d kv = handle_message 2 lib_converters sv False ?d kv1"
      using rt by (simp add: handle_message_def)
    then show ?thesis
      using handle_opened [OF sv(1) nb r o _ False] key f(2) False by simp
  next
    case True
    define m1 where m1: "m1 = upd_block ?m b (entries_wire (request_entries False r))"
    obtain kv2 where a: "message_address lib_converters 0 ?m ?d kv1 = Some (Some (rq_address r), m1, ?d, kv2)"
        "opened m1 ?d kv2 b (request_entries False r)"
      using opened_address [of ?m ?d kv1 b "[]" True 0 "rq_address r" "[text_entry r]"] o
      by (auto simp: request_entries_def hdr_for_def i32_ok_iff m1)
    let ?sv = "add_route (from_cli_id (rq_address r)) ToConnection (sv\<lparr>sv_mem := m1\<rparr>)"
    have e: "handle_message 2 lib_converters sv need d kv = handle_message 2 lib_converters ?sv False ?d kv2"
      using True ma a(1) by (simp add: handle_message_def)
    have sf: "sv_mem ?sv = m1" "write_deque ?sv = write_deque sv" "chunk_ids ?sv = chunk_ids sv" by (simp_all add: add_route_def)
    have "\<forall>x \<in> set (deque_blocks (write_deque sv)). heap m1 x = heap ?m x" using nb by (auto simp: m1)
    from server_ok_mem [OF _ this] have ok: "server_ok ?sv" "outgoing ?sv = outgoing sv"
      using sv(1) by (simp_all add: serving_def add_route_def server_ok_def outgoing_def)
    have c: "from_cli_id (rq_address r) = c" using r by (simp add: good_request_def)
    have mem: "mem_ok m1" "malloc_limit m1 = malloc_limit ?m"
      using sv(1) opened_live [OF o] by (auto simp: serving_def mem_ok_def m1)
    have sv1: "serving c ?sv False"
      using sv(1) ok c mem by (auto simp: serving_def add_route_def)
    have r1: "good_request c (sv_mem ?sv) r" using r sf mem by (simp add: good_request_def fits_reply_def)
    have k1: "dson_key m1 ?d = Some (net_key_id (rq_key r))"
      using key f(2) o by (simp add: opened_def dson_key_def local_simps)
    show ?thesis
      unfolding e using handle_opened [of c ?sv False b r ?d kv2 False, OF sv1 _ r1] nb a(2) k1 sf ok(2) mem(2) by simp
  qed
qed

section \<open>One round\<close>

lemma can_load_frame:
  assumes "\<forall>x \<in> set (obj_blocks (ObjDson d kv)). heap m' x = heap m x"
  shows "can_load m' d kv = can_load m d kv"
  using obj_owned_frame [OF assms] by (simp add: can_load_def)

lemma loading_frame:
  assumes "loading h dat (m, d, kv) rest" "\<forall>x \<in> set (obj_blocks (ObjDson d kv)). heap m' x = heap m x"
    and "malloc_limit m' = malloc_limit m" "mem_ok m'"
  shows "loading h dat (m', d, kv) rest"
proof (cases "d_state d = StLoadingData")
  case True
  then obtain b bs where b: "d_buf d = Some (b, 0)" "heap m b = Some bs" "d_was_alloc d"
    using assms(1) by (auto simp: loading_def data_part_def)
  then have "heap m' b = Some bs" using assms(2) by (simp add: own_blocks_def)
  then show ?thesis using assms(1,3,4) True b by (simp add: loading_def msg_fits_def data_part_def)
next
  case False
  then show ?thesis using assms can_load_frame [OF assms(2)]
    by (cases "d_state d") (simp_all add: loading_def msg_fits_def)
qed

lemma idle_frame:
  assumes "idle m d kv" "\<forall>x \<in> set (obj_blocks (ObjDson d kv)). heap m' x = heap m x" "mem_ok m'"
  shows "idle m' d kv"
  using assms can_load_frame [OF assms(2)] by (simp add: idle_def)

lemma loading_rest: "loading h dat (m, d, kv) rest \<Longrightarrow> rest \<noteq> []"
  by (cases "d_state d") (auto simp: loading_def header_part_def data_part_def msg_fits_def)

text \<open>
  The requests \<open>rs\<close> are still to be answered: the first may have arrived in part, the rest of
  it and the others are all that the connection still holds.
\<close>

definition expecting :: "request list \<Rightarrow> mem \<Rightarrow> dson \<Rightarrow> kvmap \<Rightarrow> rfd \<Rightarrow> bool" where
  "expecting rs m d kv fd \<longleftrightarrow> (case rs of
     [] \<Rightarrow> idle m d kv \<and> r_data fd = []
   | r # rs' \<Rightarrow> \<exists>rest. loading (request_header r) (entries_wire (request_entries True r)) (m, d, kv) rest \<and>
       r_data fd = rest @ concat (map request_wire rs'))"

definition at_work :: "u32 \<Rightarrow> request list \<Rightarrow> server \<Rightarrow> bool \<Rightarrow> dson \<Rightarrow> kvmap \<Rightarrow> rfd \<Rightarrow> bool" where
  "at_work c rs sv need d kv fd \<longleftrightarrow> serving c sv need \<and> expecting rs (sv_mem sv) d kv fd \<and>
     set (obj_blocks (ObjDson d kv)) \<inter> set (deque_blocks (write_deque sv)) = {} \<and>
     (\<forall>r \<in> set rs. good_request c (sv_mem sv) r)"

lemma expecting_idle:
  assumes "idle m d kv" "r_data fd = concat (map request_wire rs)" "\<forall>r \<in> set rs. good_request c m r"
  shows "expecting rs m d kv fd"
proof (cases rs)
  case Nil
  then show ?thesis using assms by (simp add: expecting_def)
next
  case (Cons r rs')
  then have "msg_fits m (request_header r) (entries_wire (request_entries True r))"
    using assms(3) request_ok(3) by (metis list.set_intros(1))
  from idle_loading [OF assms(1) this] show ?thesis
    using assms(2) Cons by (auto simp: expecting_def request_wire_def)
qed

lemma expecting_frame:
  assumes "expecting rs m d kv fd" "\<forall>x \<in> set (obj_blocks (ObjDson d kv)). heap m' x = heap m x"
    and "malloc_limit m' = malloc_limit m" "mem_ok m'"
  shows "expecting rs m' d kv fd"
  using assms(1) loading_frame [OF _ assms(2-4)] idle_frame [OF _ assms(2,4)]
  by (cases rs) (auto simp: expecting_def simp del: obj_blocks.simps)

lemma good_request_limit: "malloc_limit m' = malloc_limit m \<Longrightarrow> good_request c m' r = good_request c m r"
  by (simp add: good_request_def fits_reply_def)

text \<open>The end of a round: the queue is sent as far as the connection takes it.\<close>

lemma round_send:
  assumes "at_work c rs sv need d kv fd"
  obtains sv' where "send_dson_from_deque lib_converters sv = Some sv'" "at_work c rs sv' need d kv fd"
    "chunk_ids sv' = chunk_ids sv" "outgoing sv' = outgoing sv"
    "malloc_limit (sv_mem sv') = malloc_limit (sv_mem sv)"
proof -
  have sv: "server_ok sv" "mem_ok (sv_mem sv)" using assms by (simp_all add: at_work_def serving_def)
  obtain sv' where s: "send_dson_from_deque lib_converters sv = Some sv'" "server_ok sv'" "outgoing sv' = outgoing sv"
    "untouched (set (deque_blocks (write_deque sv))) sv sv'"
    using send_from_deque_keeps [OF sv(1)] by blast
  have m: "mem_ok (sv_mem sv')" by (rule untouched_live [OF s(4) sv(2)]) (use queued_live [OF sv(1)] in blast)
  have lim: "malloc_limit (sv_mem sv') = malloc_limit (sv_mem sv)" using s(4) by (simp add: untouched_def same_alloc_def)
  have f: "\<forall>x \<in> set (obj_blocks (ObjDson d kv)). heap (sv_mem sv') x = heap (sv_mem sv) x"
    using s(4) assms unfolding untouched_def at_work_def by blast
  have "expecting rs (sv_mem sv') d kv fd"
    by (rule expecting_frame [OF _ f lim m]) (use assms in \<open>simp add: at_work_def\<close>)
  moreover have "serving c sv' need" using assms s(2,4) m by (simp add: at_work_def serving_def untouched_def)
  moreover have "set (obj_blocks (ObjDson d kv)) \<inter> set (deque_blocks (write_deque sv')) = {}"
    using s(4) assms unfolding untouched_def at_work_def by blast
  ultimately have "at_work c rs sv' need d kv fd"
    using assms good_request_limit [OF lim] by (simp add: at_work_def)
  then show ?thesis using that s lim by (simp add: untouched_def)
qed

text \<open>The start of a round: what arrives is loaded beside what is queued.\<close>

lemma round_load:
  assumes "serving c sv need" "set (obj_blocks (ObjDson d kv)) \<inter> set (deque_blocks (write_deque sv)) = {}"
    and "load_frame (sv_mem sv) d kv (Some (res, m', d', kv', fd'))" "mem_ok m'"
  shows "serving c (sv\<lparr>sv_mem := m'\<rparr>) need" "outgoing (sv\<lparr>sv_mem := m'\<rparr>) = outgoing sv"
    "set (obj_blocks (ObjDson d' kv')) \<inter> set (deque_blocks (write_deque sv)) = {}" "malloc_limit m' = malloc_limit (sv_mem sv)"
proof -
  have sv: "server_ok sv" using assms(1) by (simp add: serving_def)
  have f: "malloc_limit m' = malloc_limit (sv_mem sv)"
    "\<And>b. heap (sv_mem sv) b \<noteq> None \<Longrightarrow> b \<notin> set (obj_blocks (ObjDson d kv)) \<Longrightarrow>
       heap m' b = heap (sv_mem sv) b \<and> b \<notin> set (obj_blocks (ObjDson d' kv'))"
    using assms(3) unfolding load_frame_def by blast+
  have q: "heap m' b = heap (sv_mem sv) b \<and> b \<notin> set (obj_blocks (ObjDson d' kv'))" if "b \<in> set (deque_blocks (write_deque sv))" for b
    using f(2) [of b] queued_live [OF sv that] assms(2) that by blast
  then have "\<forall>b \<in> set (deque_blocks (write_deque sv)). heap m' b = heap (sv_mem sv) b" by blast
  from server_ok_mem [OF sv this] show "serving c (sv\<lparr>sv_mem := m'\<rparr>) need" "outgoing (sv\<lparr>sv_mem := m'\<rparr>) = outgoing sv"
    using assms(1,4) by (simp_all add: serving_def)
  show "set (obj_blocks (ObjDson d' kv')) \<inter> set (deque_blocks (write_deque sv)) = {}" using q by blast
  show "malloc_limit m' = malloc_limit (sv_mem sv)" by (rule f(1))
qed

text \<open>
  A round: the first of the requests that are still to be answered is through afterwards, or
  all are still there.
\<close>

lemma round_waits:
  assumes l: "load_from_fd (sv_mem sv) d kv fd = Some (InProcess, m', d', kv', fd')"
    and w: "at_work c rs (sv\<lparr>sv_mem := m'\<rparr>) need d' kv' fd'"
  shows "\<exists>sv'. server_round 2 lib_converters sv need d kv fd = Some (True, sv', need, d', kv', fd') \<and>
    at_work c rs sv' need d' kv' fd' \<and> chunk_ids sv' = chunk_ids sv \<and> outgoing sv' = outgoing (sv\<lparr>sv_mem := m'\<rparr>) \<and>
    malloc_limit (sv_mem sv') = malloc_limit m'"
proof -
  obtain sv' where s: "send_dson_from_deque lib_converters (sv\<lparr>sv_mem := m'\<rparr>) = Some sv'" "at_work c rs sv' need d' kv' fd'"
    "chunk_ids sv' = chunk_ids (sv\<lparr>sv_mem := m'\<rparr>)" "outgoing sv' = outgoing (sv\<lparr>sv_mem := m'\<rparr>)"
    "malloc_limit (sv_mem sv') = malloc_limit (sv_mem (sv\<lparr>sv_mem := m'\<rparr>))"
    by (rule round_send [OF w])
  have "keep_run sv'" using s(2) by (simp add: at_work_def serving_def)
  then show ?thesis using l s by (simp add: server_round_def)
qed

lemma idle_loaded:
  assumes "at_work c [] sv need d kv fd" "soft_reads (r_script fd)"
  obtains m' d' fd' where "load_from_fd (sv_mem sv) d kv fd = Some (InProcess, m', d', [], fd')"
    "at_work c [] (sv\<lparr>sv_mem := m'\<rparr>) need d' [] fd'" "outgoing (sv\<lparr>sv_mem := m'\<rparr>) = outgoing sv"
    "malloc_limit m' = malloc_limit (sv_mem sv)"
proof -
  have w: "serving c sv need" "idle (sv_mem sv) d kv" "r_data fd = []"
    "set (obj_blocks (ObjDson d kv)) \<inter> set (deque_blocks (write_deque sv)) = {}"
    using assms(1) by (simp_all add: at_work_def expecting_def)
  obtain m' d' fd' where l: "load_from_fd (sv_mem sv) d kv fd = Some (InProcess, m', d', [], fd')" "idle m' d' []" "r_data fd' = []"
    using idle_load [OF w(2,3) assms(2)] by blast
  have "msg_fits (sv_mem sv) (host_hdr 0 0 0) []"
    using hdr_field_for(1) [of 0 False 0 0] by (simp add: msg_fits_def hdr_for_def i32_ok_iff max_dson_ram_size_def)
  from load_from_fd_frame [OF idle_loading [OF w(2) this], of fd]
  have fr: "load_frame (sv_mem sv) d kv (Some (InProcess, m', d', [], fd'))" unfolding l(1) .
  have "mem_ok m'" using l(2) by (simp add: idle_def)
  note r = round_load [OF w(1,4) fr this]
  have "at_work c [] (sv\<lparr>sv_mem := m'\<rparr>) need d' [] fd'" using r l(2,3) by (simp add: at_work_def expecting_def)
  then show ?thesis using that l(1) r(2,4) by blast
qed

lemma round_idle:
  assumes "at_work c [] sv need d kv fd" "soft_reads (r_script fd)"
  shows "\<exists>sv' d' fd'. server_round 2 lib_converters sv need d kv fd = Some (True, sv', need, d', [], fd') \<and>
    at_work c [] sv' need d' [] fd' \<and> chunk_ids sv' = chunk_ids sv \<and> outgoing sv' = outgoing sv \<and>
    malloc_limit (sv_mem sv') = malloc_limit (sv_mem sv)"
proof -
  obtain m' d' fd' where l: "load_from_fd (sv_mem sv) d kv fd = Some (InProcess, m', d', [], fd')"
    "at_work c [] (sv\<lparr>sv_mem := m'\<rparr>) need d' [] fd'" "outgoing (sv\<lparr>sv_mem := m'\<rparr>) = outgoing sv"
    "malloc_limit m' = malloc_limit (sv_mem sv)"
    by (rule idle_loaded [OF assms])
  from round_waits [OF l(1,2)] show ?thesis using l(3,4) by auto
qed

lemma round_request:
  assumes "at_work c (r # rs) sv need d kv fd" "soft_reads (r_script fd)"
  shows "\<exists>sv' need' d' kv' fd' rs'. server_round 2 lib_converters sv need d kv fd = Some (True, sv', need', d', kv', fd') \<and>
    at_work c rs' sv' need' d' kv' fd' \<and> (rs' = r # rs \<or> rs' = rs) \<and> malloc_limit (sv_mem sv') = malloc_limit (sv_mem sv) \<and>
    (let gone = if rs' = r # rs then [] else [r] in
       outgoing sv' = outgoing sv @ replies (chunk_ids sv) gone \<and> chunk_ids sv' = counted (chunk_ids sv) gone)"
proof -
  obtain rest where rest: "loading (request_header r) (entries_wire (request_entries True r)) (sv_mem sv, d, kv) rest"
    "r_data fd = rest @ concat (map request_wire rs)"
    using assms(1) by (auto simp: at_work_def expecting_def)
  have w: "serving c sv need" "set (obj_blocks (ObjDson d kv)) \<inter> set (deque_blocks (write_deque sv)) = {}"
    "\<forall>q \<in> set (r # rs). good_request c (sv_mem sv) q"
    using assms(1) by (simp_all add: at_work_def)
  obtain k res m' d' kv' fd' where l: "load_from_fd (sv_mem sv) d kv fd = Some (res, m', d', kv', fd')"
    "k \<le> length rest" "r_data fd' = drop k rest @ concat (map request_wire rs)"
    "if k = length rest then res = Ready \<and> loaded_msg (request_header r) (entries_wire (request_entries True r)) (m', d', kv')
     else res = InProcess \<and> loading (request_header r) (entries_wire (request_entries True r)) (m', d', kv') (drop k rest)"
    using load_from_fd_fd_progress [OF rest assms(2)] unfolding fd_progress_def by blast
  have fr: "load_frame (sv_mem sv) d kv (Some (res, m', d', kv', fd'))"
    using load_from_fd_frame [OF rest(1), of fd] unfolding l(1) .
  have "mem_ok m'" using l(4) by (auto simp: loaded_msg_def loading_def split: if_splits)
  note rl = round_load [OF w(1,2) fr this]
  have good: "\<forall>q \<in> set (r # rs). good_request c m' q" using w(3) good_request_limit [OF rl(4)] by simp
  show ?thesis
  proof (cases "k = length rest")
    case False
    then have "at_work c (r # rs) (sv\<lparr>sv_mem := m'\<rparr>) need d' kv' fd'"
      using l(3,4) rl good by (auto simp: at_work_def expecting_def)
    moreover have "load_from_fd (sv_mem sv) d kv fd = Some (InProcess, m', d', kv', fd')" using l(1,4) False by simp
    ultimately obtain sv' where "server_round 2 lib_converters sv need d kv fd = Some (True, sv', need, d', kv', fd')"
      "at_work c (r # rs) sv' need d' kv' fd'" "chunk_ids sv' = chunk_ids sv" "outgoing sv' = outgoing sv"
      "malloc_limit (sv_mem sv') = malloc_limit (sv_mem sv)"
      using round_waits rl(2,4) by metis
    then show ?thesis
      by (intro exI [of _ sv'] exI [of _ need] exI [of _ d'] exI [of _ kv'] exI [of _ fd'] exI [of _ "r # rs"]) simp
  next
    case True
    let ?sv = "sv\<lparr>sv_mem := m'\<rparr>"
    obtain sv1 d1 where h: "handle_message 2 lib_converters ?sv need d' kv' = Some (sv1, d1, [])" "serving c sv1 False"
      "idle (sv_mem sv1) d1 []" "own_blocks d1 = []" "malloc_limit (sv_mem sv1) = malloc_limit (sv_mem ?sv)"
      "outgoing sv1 = outgoing sv @ replies (chunk_ids sv) [r]" "chunk_ids sv1 = counted (chunk_ids sv) [r]"
      using handle_loaded [OF rl(1), of d' kv' r] rl(2,3) good l(4) True by (auto simp: Let_def)
    have good1: "\<forall>q \<in> set rs. good_request c (sv_mem sv1) q"
      using good good_request_limit [OF h(5)] good_request_limit [of "sv_mem ?sv" m'] by simp
    have "expecting rs (sv_mem sv1) d1 [] fd'"
      by (rule expecting_idle [OF h(3) _ good1]) (use l(3) True in simp)
    then have "at_work c rs sv1 False d1 [] fd'" using h(2,4) good1 by (simp add: at_work_def)
    then obtain sv2 where s: "send_dson_from_deque lib_converters sv1 = Some sv2" "at_work c rs sv2 False d1 [] fd'"
      "chunk_ids sv2 = chunk_ids sv1" "outgoing sv2 = outgoing sv1" "malloc_limit (sv_mem sv2) = malloc_limit (sv_mem sv1)"
      by (rule round_send)
    have "keep_run sv2" using s(2) by (simp add: at_work_def serving_def)
    then have "server_round 2 lib_converters sv need d kv fd = Some (True, sv2, False, d1, [], fd')"
      using l(1,4) True h(1) s(1) by (simp add: server_round_def)
    moreover have "rs \<noteq> r # rs" by (metis not_Cons_self2)
    ultimately show ?thesis using s h(5-7) rl(4)
      by (intro exI [of _ sv2] exI [of _ False] exI [of _ d1] exI [of _ "[]"] exI [of _ fd'] exI [of _ rs]) simp
  qed
qed

section \<open>The loop\<close>

text \<open>
  \<open>server_loop\<close> over a sequence of rounds: before each, the scripts say how the kernel will
  answer the reads and the writes of the round.
\<close>

fun server_loop :: "nat \<Rightarrow> converters \<Rightarrow> (rcall list \<times> wcall list) list \<Rightarrow> server \<Rightarrow> bool \<Rightarrow> dson \<Rightarrow> kvmap \<Rightarrow> rfd \<Rightarrow>
    (server \<times> bool \<times> dson \<times> kvmap \<times> rfd) option" where
  "server_loop n cv [] sv need_set_route d kv fd = Some (sv, need_set_route, d, kv, fd)"
| "server_loop n cv ((reads, writes) # calls) sv need_set_route d kv fd = do {
     (go, sv, need_set_route, d, kv, fd) \<leftarrow> server_round n cv
        (sv\<lparr>connection := (connection sv)\<lparr>w_script := writes\<rparr>\<rparr>) need_set_route d kv (fd\<lparr>r_script := reads\<rparr>);
     if go then server_loop n cv calls sv need_set_route d kv fd else Some (sv, need_set_route, d, kv, fd)
   }"

lemma at_work_scripts:
  assumes "at_work c rs sv need d kv fd" "soft writes"
  shows "at_work c rs (sv\<lparr>connection := (connection sv)\<lparr>w_script := writes\<rparr>\<rparr>) need d kv (fd\<lparr>r_script := reads\<rparr>)"
  using assms by (cases rs) (simp_all add: at_work_def serving_def server_ok_def expecting_def)

lemma round_good:
  assumes "at_work c rs sv need d kv fd" "soft_reads (r_script fd)"
  shows "\<exists>sv' need' d' kv' fd' gone rs'. server_round 2 lib_converters sv need d kv fd = Some (True, sv', need', d', kv', fd') \<and>
    at_work c rs' sv' need' d' kv' fd' \<and> rs = gone @ rs' \<and> chunk_ids sv' = counted (chunk_ids sv) gone \<and>
    outgoing sv' = outgoing sv @ replies (chunk_ids sv) gone \<and> malloc_limit (sv_mem sv') = malloc_limit (sv_mem sv)"
proof (cases rs)
  case Nil
  then show ?thesis using round_idle assms by fastforce
next
  case (Cons r rs0)
  from round_request [OF assms(1) [unfolded Cons] assms(2)] obtain sv' need' d' kv' fd' rs' where
    s: "server_round 2 lib_converters sv need d kv fd = Some (True, sv', need', d', kv', fd')"
      "at_work c rs' sv' need' d' kv' fd'" "rs' = r # rs0 \<or> rs' = rs0" "malloc_limit (sv_mem sv') = malloc_limit (sv_mem sv)"
    and o: "let gone = if rs' = r # rs0 then [] else [r] in
       outgoing sv' = outgoing sv @ replies (chunk_ids sv) gone \<and> chunk_ids sv' = counted (chunk_ids sv) gone"
    by blast
  have "rs = (if rs' = r # rs0 then [] else [r]) @ rs'" using s(3) Cons by auto
  then show ?thesis using s(1,2,4) o unfolding Let_def by blast
qed

lemma loop_good:
  assumes "at_work c rs sv need d kv fd" "\<forall>(reads, writes) \<in> set calls. soft_reads reads \<and> soft writes"
  shows "\<exists>sv' need' d' kv' fd' gone rs'. server_loop 2 lib_converters calls sv need d kv fd = Some (sv', need', d', kv', fd') \<and>
    at_work c rs' sv' need' d' kv' fd' \<and> rs = gone @ rs' \<and> chunk_ids sv' = counted (chunk_ids sv) gone \<and>
    outgoing sv' = outgoing sv @ replies (chunk_ids sv) gone"
  using assms
proof (induction calls arbitrary: rs sv need d kv fd)
  case Nil
  then show ?case by (intro exI [of _ sv] exI [of _ need] exI [of _ d] exI [of _ kv] exI [of _ fd] exI [of _ "[]"] exI [of _ rs]) simp
next
  case (Cons call calls)
  obtain reads writes where call: "call = (reads, writes)" by (cases call)
  let ?sv = "sv\<lparr>connection := (connection sv)\<lparr>w_script := writes\<rparr>\<rparr>" and ?fd = "fd\<lparr>r_script := reads\<rparr>"
  have soft: "soft_reads reads" "soft writes" using Cons.prems(2) call by auto
  have "soft_reads (r_script ?fd)" using soft by simp
  from round_good [OF at_work_scripts [OF Cons.prems(1) soft(2), of reads] this]
  obtain sv1 need1 d1 kv1 fd1 gone1 rs1 where r: "server_round 2 lib_converters ?sv need d kv ?fd = Some (True, sv1, need1, d1, kv1, fd1)"
    "at_work c rs1 sv1 need1 d1 kv1 fd1" "rs = gone1 @ rs1" "chunk_ids sv1 = counted (chunk_ids sv) gone1"
    "outgoing sv1 = outgoing sv @ replies (chunk_ids sv) gone1"
    by (auto simp: outgoing_def)
  have "\<forall>(reads, writes) \<in> set calls. soft_reads reads \<and> soft writes" using Cons.prems(2) by simp
  from Cons.IH [OF r(2) this] obtain sv' need' d' kv' fd' gone2 rs' where
    "server_loop 2 lib_converters calls sv1 need1 d1 kv1 fd1 = Some (sv', need', d', kv', fd')"
    "at_work c rs' sv' need' d' kv' fd'" "rs1 = gone2 @ rs'" "chunk_ids sv' = counted (chunk_ids sv1) gone2"
    "outgoing sv' = outgoing sv1 @ replies (chunk_ids sv1) gone2" by blast
  then show ?case using r call
    by (intro exI [of _ sv'] exI [of _ need'] exI [of _ d'] exI [of _ kv'] exI [of _ fd'] exI [of _ "gone1 @ gone2"] exI [of _ rs'])
      (simp add: replies_append)
qed

text \<open>
  C4: the server answers what it is asked, in order.  A client sends any number of requests
  (\<open>WantAuth\<close> or \<open>SimpleData\<close>, to a service or to somebody who is not there) over its connection; they arrive and the
  replies leave in any pieces.  After any number of rounds of the loop the server is still
  running, some first part of the requests has been answered, and the bytes sent and still
  queued are exactly the replies of the specification to these; when everything was read, all
  have been answered.
\<close>

theorem server_answers_in_order:
  assumes "serving c sv True" "idle (sv_mem sv) d kv" "r_data fd = concat (map request_wire rs)"
    and "\<forall>r \<in> set rs. good_request c (sv_mem sv) r"
    and "set (obj_blocks (ObjDson d kv)) \<inter> set (deque_blocks (write_deque sv)) = {}"
    and "\<forall>(reads, writes) \<in> set calls. soft_reads reads \<and> soft writes"
  shows "\<exists>sv' need' d' kv' fd' answered waiting. server_loop 2 lib_converters calls sv True d kv fd = Some (sv', need', d', kv', fd') \<and>
    keep_run sv' \<and> rs = answered @ waiting \<and> (r_data fd' = [] \<longrightarrow> waiting = []) \<and>
    w_data (connection sv') @ deque_bytes (sv_mem sv') (write_deque sv') = outgoing sv @ replies (chunk_ids sv) answered"
proof -
  have "at_work c rs sv True d kv fd"
    using assms expecting_idle [OF assms(2-4)] by (simp add: at_work_def)
  from loop_good [OF this assms(6)] obtain sv' need' d' kv' fd' gone rs' where
    l: "server_loop 2 lib_converters calls sv True d kv fd = Some (sv', need', d', kv', fd')" "at_work c rs' sv' need' d' kv' fd'"
      "rs = gone @ rs'" "outgoing sv' = outgoing sv @ replies (chunk_ids sv) gone" by blast
  have "rs' = []" if "r_data fd' = []"
    using l(2) that by (cases rs') (auto simp: at_work_def expecting_def dest: loading_rest)
  moreover have "keep_run sv'" using l(2) by (simp add: at_work_def serving_def)
  ultimately show ?thesis using l(1,3,4) unfolding outgoing_def by blast
qed

end
