(* ===== verification/Client.thy ===== *)
theory Client
  imports Server_Loop
begin

text \<open>
  The client of \<open>star_routing\<close> (\<open>dson_network.cpp\<close>): the requests it sends and what it does
  with the replies.
\<close>

section \<open>The client\<close>

text \<open>
  Its memory, the bytes it has handed to its socket, the counter \<open>cnt\<close> and the lines it
  has printed.
\<close>

record client =
  cl_mem :: mem
  cl_sent :: "byte list"
  cnt :: u32
  console :: "byte list list"

text \<open>
  \<open>send_dson\<close> repeats \<open>copy_to_fd_network_order\<close> as long as it answers \<open>InProcess\<close>; the
  scripts say how the kernel answers during each call.  None when it has not returned by
  the end of the scripts.
\<close>

definition client_send :: "mem \<Rightarrow> dson \<Rightarrow> kvmap \<Rightarrow> wcall list list \<Rightarrow> (bool \<times> byte list \<times> mem \<times> dson_obj) option" where
  "client_send m d kv calls = do {
     (r, sent, m, obj) \<leftarrow> drive (fd_step True) (m, ObjDson d kv) calls;
     if r = InProcess then None else Some (r \<noteq> Error, sent, m, obj)
   }"

definition client_certificate_id :: u32 where "client_certificate_id = 12345"

text \<open>Writing through the pointer \<open>address->address()\<close> to the object under \<open>RouteAddress\<close>.\<close>

definition update_address :: "(address \<Rightarrow> address) \<Rightarrow> kvmap \<Rightarrow> kvmap option" where
  "update_address f kv = (case kv_find (net_key_id RouteAddress) kv of
     Some (ObjRoute r) \<Rightarrow> (case ro_address r of (a, r) \<Rightarrow>
       Some (kv_insert_or_assign (net_key_id RouteAddress) (ObjRoute (ro_put_address (f a) r)) kv))
   | _ \<Rightarrow> None)"

text \<open>The request of the client before the loop: key, password and sender.\<close>

definition client_request :: "mem \<Rightarrow> (mem \<times> dson \<times> kvmap) option" where
  "client_request m = do {
     (m, dson) \<leftarrow> dson_new m;
     (m, dson) \<leftarrow> dson_set_key m dson (net_key_id WantAuth);
     (m, pw) \<leftarrow> dson_of_string m password;
     (m, dson, kv) \<leftarrow> emplace_dson m dson [] (net_key_id Password) (pw, []);
     (m, dson, kv) \<leftarrow> emplace_ptr m dson kv
        (Some (ObjRoute (ro_new (map (malloc_fill m) [0..<32]) (net_key_id RouteAddress))));
     kv \<leftarrow> update_address (\<lambda>a. a\<lparr>from_cli_id := client_certificate_id\<rparr>) kv;
     Some (m, dson, kv)
   }"

text \<open>The texts of the client.\<close>

definition authed_line :: "address \<Rightarrow> byte list" where
  "authed_line a = chars ''Message::Authed from '' @ decimal (unat (from_cli_id a))"

definition echo_request_text :: "address \<Rightarrow> byte list" where
  "echo_request_text a = chars ''echo message for '' @ decimal (unat (from_cli_id a))"

definition data_line :: "address \<Rightarrow> u32 \<Rightarrow> byte list \<Rightarrow> byte list" where
  "data_line a chunk s = chars ''Message::SimpleData from '' @ decimal (unat (from_cli_id a)) @
     chars '' chunk{'' @ decimal (unat chunk) @ chars ''}, string{'' @ s"

text \<open>\<open>client_callback\<close>, its branches first.\<close>

definition on_authed :: "converters \<Rightarrow> wcall list list \<Rightarrow> client \<Rightarrow> address option \<Rightarrow> dson \<Rightarrow> kvmap \<Rightarrow>
    (client \<times> dson_obj) option" where
  "on_authed cv calls cl sender_address answer akv = do {
     a \<leftarrow> sender_address;
     (m, answer) \<leftarrow> dson_set_key (cl_mem cl) answer (net_key_id SimpleData);
     (m, str) \<leftarrow> dson_of_string m (echo_request_text a);
     (m, answer, akv) \<leftarrow> emplace_dson m answer akv (net_key_id StringData) (str, []);
     (ok, sent, m, obj) \<leftarrow> client_send m answer akv calls;
     Some (cl\<lparr>cl_mem := m, cl_sent := cl_sent cl @ sent, console := console cl @ [authed_line a]\<rparr>, obj)
   }"

definition on_data :: "converters \<Rightarrow> client \<Rightarrow> address option \<Rightarrow> dson \<Rightarrow> kvmap \<Rightarrow> (client \<times> dson \<times> kvmap) option" where
  "on_data cv cl sender_address d kv = do {
     a \<leftarrow> sender_address;
     (f, m, d, kv) \<leftarrow> dson_get cv (cl_mem cl) d kv (net_key_id ChunkID);
     (chunk, m, obj) \<leftarrow> of_obj (to_uint32 cv) m (pointed f d kv) 0;
     let (d, kv) = put_pointed f obj d kv;
     (f, m, d, kv) \<leftarrow> dson_get cv m d kv (net_key_id StringData);
     s \<leftarrow> to_string_view m (pointed f d kv);
     Some (cl\<lparr>cl_mem := m, cnt := cnt cl + 1, console := console cl @ [data_line a chunk s]\<rparr>, d, kv)
   }"

definition client_callback :: "converters \<Rightarrow> wcall list list \<Rightarrow> client \<Rightarrow> dson \<Rightarrow> kvmap \<Rightarrow> (client \<times> dson \<times> kvmap) option" where
  "client_callback cv calls cl d kv = do {
     (m, answer) \<leftarrow> dson_new (cl_mem cl);
     (sender_address, m, d, kv) \<leftarrow> message_address cv (net_key_id RouteAddress) m d kv;
     (m, answer, akv) \<leftarrow> emplace_reply_address m answer [] sender_address;
     key \<leftarrow> dson_key m d;
     let cl = cl\<lparr>cl_mem := m\<rparr>;
     (cl, obj, d, kv) \<leftarrow>
       (if key = net_key_id Authed then do {
          (cl, obj) \<leftarrow> on_authed cv calls cl sender_address answer akv;
          Some (cl, obj, d, kv)
        } else if key = net_key_id SimpleData then do {
          (cl, d, kv) \<leftarrow> on_data cv cl sender_address d kv;
          Some (cl, ObjDson answer akv, d, kv)
        } else Some (cl, ObjDson answer akv, d, kv));
     m \<leftarrow> obj_destroy (cl_mem cl) obj;
     Some (cl\<lparr>cl_mem := m\<rparr>, d, kv)
   }"

text \<open>
  Receiving: what has arrived whole is answered and dropped; the flag says whether anything
  was.  Asking: the request, addressed to the service, is sent.  The rounds of \<open>client.execute\<close>, one for each service with the kernel's answers
  to the calls of the round, and the loop that waits for a first answer; the first component
  says whether the function goes on.
\<close>

definition client_receive :: "converters \<Rightarrow> wcall list list \<Rightarrow> client \<Rightarrow> bool \<Rightarrow> dson \<Rightarrow> kvmap \<Rightarrow> rfd \<Rightarrow>
    (bool \<times> client \<times> dson \<times> kvmap \<times> rfd) option" where
  "client_receive cv calls cl was_answers d kv fd = do {
     (res, m, d, kv, fd) \<leftarrow> load_from_fd (cl_mem cl) d kv fd;
     let cl = cl\<lparr>cl_mem := m\<rparr>;
     if res = Ready then do {
       (cl, d, kv) \<leftarrow> client_callback cv calls cl d kv;
       (m, d, kv) \<leftarrow> dson_clear (cl_mem cl) d kv;
       Some (True, cl\<lparr>cl_mem := m\<rparr>, d, kv, fd)
     } else Some (was_answers, cl, d, kv, fd)
   }"

definition client_ask :: "u32 \<Rightarrow> wcall list list \<Rightarrow> client \<Rightarrow> dson \<Rightarrow> kvmap \<Rightarrow> (bool \<times> client \<times> dson \<times> kvmap) option" where
  "client_ask service_id writes cl d kv = do {
     kv \<leftarrow> update_address (\<lambda>a. a\<lparr>to_cli_id := service_id\<rparr>) kv;
     (ok, sent, m, obj) \<leftarrow> client_send (cl_mem cl) d kv writes;
     (d, kv) \<leftarrow> (case obj of ObjDson d kv \<Rightarrow> Some (d, kv) | _ \<Rightarrow> None);
     Some (ok, cl\<lparr>cl_mem := m, cl_sent := cl_sent cl @ sent\<rparr>, d, kv)
   }"

fun client_rounds :: "converters \<Rightarrow> (u32 \<times> wcall list list \<times> rcall list \<times> wcall list list) list \<Rightarrow> client \<Rightarrow> dson \<Rightarrow> kvmap \<Rightarrow>
    bool \<Rightarrow> dson \<Rightarrow> kvmap \<Rightarrow> rfd \<Rightarrow> (bool \<times> client \<times> dson \<times> kvmap \<times> bool \<times> dson \<times> kvmap \<times> rfd) option" where
  "client_rounds cv [] cl d kv was_answers ad akv fd = Some (True, cl, d, kv, was_answers, ad, akv, fd)"
| "client_rounds cv ((service_id, writes, reads, echoes) # rounds) cl d kv was_answers ad akv fd = do {
     (ok, cl, d, kv) \<leftarrow> client_ask service_id writes cl d kv;
     if \<not> ok then Some (False, cl, d, kv, was_answers, ad, akv, fd)
     else do {
       (was_answers, cl, ad, akv, fd) \<leftarrow> client_receive cv echoes cl was_answers ad akv (fd\<lparr>r_script := reads\<rparr>);
       client_rounds cv rounds cl d kv was_answers ad akv fd
     }
   }"

fun client_waits :: "converters \<Rightarrow> (rcall list \<times> wcall list list) list \<Rightarrow> client \<Rightarrow> bool \<Rightarrow> dson \<Rightarrow> kvmap \<Rightarrow> rfd \<Rightarrow>
    (bool \<times> client \<times> dson \<times> kvmap \<times> rfd) option" where
  "client_waits cv [] cl was_answers d kv fd = Some (was_answers, cl, d, kv, fd)"
| "client_waits cv ((reads, echoes) # rounds) cl was_answers d kv fd =
     (if was_answers then Some (was_answers, cl, d, kv, fd)
      else do {
        (was_answers, cl, d, kv, fd) \<leftarrow> client_receive cv echoes cl was_answers d kv (fd\<lparr>r_script := reads\<rparr>);
        client_waits cv rounds cl was_answers d kv fd
      })"

section \<open>What a request is on the wire\<close>

text \<open>A container with an address and a string.\<close>

lemma text_message_ok:
  fixes m m0 k tk s r
  defines "obj \<equiv> ObjDson (answer_dson k) [(0, ObjRoute r), (tk, ObjDson (keyed tk (built m0 T_string (int (length s)))) [])]"
  assumes s: "s \<noteq> []" "int (length s) + 48 \<le> i32_max" and k: "i32_ok k" "i32_ok tk"
    and hp: "heap m (next_block m0) = Some s" and r: "ro_wf r" "ro_state r = StReady" "ro_key r = 0"
  shows "obj_ok lib_data True m obj" "obj_owned m obj" "distinct (obj_blocks obj)" "obj_rest obj"
    "obj_blocks obj = [next_block m0]"
    "obj_wire lib_converters True m obj = hdr_for True (int (length s) + 48) k (types_map T_DsonContainer) @
       route_wire True 0 (ro_addr r) @ host_hdr (int (length s)) tk (types_map T_string) @ s"
proof -
  have n: "0 < int (length s)" "i32_ok (int (length s))" using s by (simp_all add: i32_ok_iff i32_max_def)
  let ?t = "keyed tk (built m0 T_string (int (length s)))"
  have t: "buf_ok lib_data True m ?t" "own_data m ?t = s" "d_header ?t = host_hdr (int (length s)) tk (types_map T_string)"
    by (rule keyed_built_ok [OF _ n(1) n(2) _ k(2) hp]; simp)+
  have sel: "d_kind ?t = OneObjectInDataBuf" "d_state ?t = StReady" "own_blocks ?t = [next_block m0]" by simp_all
  have hf: "hdr_field (host_hdr sz k (types_map ty)) (Suc 0) = sz" "hdr_field (host_hdr sz k (types_map ty)) 2 = k"
    "hdr_field (host_hdr sz k (types_map ty)) 3 = types_map ty" if "i32_ok sz" "i32_ok k" for sz k ty
    using that hdr_field_for [of _ False] by (simp_all add: hdr_for_def)
  have k0: "i32_ok 0" by (simp add: i32_ok_iff)
  have v: "hdr_valid (host_hdr 0 k (types_map T_DsonContainer))"
    using hdr_for_valid [of False 0 k "types_map T_DsonContainer"] by (simp add: hdr_for_def)
  have sz: "map_size [(0, ObjRoute r), (tk, ObjDson ?t [])] = int (length s) + 48"
    using t(3) sel hf [OF n(2) k(2)] by (simp add: header_size_def ro_data_size_def address_size_def)
  show "obj_ok lib_data True m obj"
    using t(1) r v sz s(2) hf [OF k0 k(1)] sel by (simp add: obj_def container_ok_def)
  show "obj_owned m obj" using buf_ok_owned [OF t(1)] by (simp add: obj_def)
  show bl: "obj_blocks obj = [next_block m0]" using sel by (simp add: obj_def)
  show "distinct (obj_blocks obj)" by (simp add: bl)
  show "obj_rest obj" using sel r by (simp add: obj_def)
  have "to_network_order lib_converters (of_i32 (types_map T_string)) = None"
    by (simp add: lib_converters_eq type_key_def [symmetric])
  then have b: "buf_out lib_converters True (host_hdr (int (length s)) tk (types_map T_string)) s =
      (host_hdr (int (length s)) tk (types_map T_string), s)"
    using hf [OF n(2) k(2)] by (simp add: buf_out_def)
  show "obj_wire lib_converters True m obj = hdr_for True (int (length s) + 48) k (types_map T_DsonContainer) @
       route_wire True 0 (ro_addr r) @ host_hdr (int (length s)) tk (types_map T_string) @ s"
    using sel t(2,3) r sz hf [OF k0 k(1)] b by (simp add: obj_def)
qed

lemma request_wire_eq:
  "request_wire \<lparr>rq_key = k, rq_address = a, rq_text = s\<rparr> =
     hdr_for True (int (length s) + 48) (net_key_id k) (types_map T_DsonContainer) @
     route_wire True 0 a @ host_hdr (int (length s)) (text_key k) (types_map T_string) @ s"
  by (simp add: request_wire_def request_header_def request_entries_def text_entry_def entries_wire_def route_wire_def)

section \<open>Sending\<close>

text \<open>
  What the sender keeps while it sends: the object has the same parts and owns the same blocks,
  and nothing else changes.
\<close>

definition sending_from :: "bool \<Rightarrow> byte list \<Rightarrow> mem \<Rightarrow> nat list \<Rightarrow> shape \<Rightarrow> loaded \<Rightarrow> bool" where
  "sending_from nw W m0 bs sh s \<longleftrightarrow> sending nw W s \<and> obj_owned (fst s) (snd s) \<and> obj_blocks (snd s) = bs \<and>
     obj_shape (snd s) = sh \<and> (\<forall>b. b \<notin> set bs \<longrightarrow> heap (fst s) b = heap m0 b) \<and> same_alloc m0 (fst s)"

lemma fd_step_kept:
  assumes "sending nw W s" "soft script" "fd_step nw s script = Some (r, xs, s')"
  shows "lib_fd.kept nw (fst s) (snd s) (fst s') (snd s')"
proof -
  let ?fd = "\<lparr>w_script = script, w_data = []\<rparr>"
  have "lib_fd.good_call nw (fst s) (snd s) ?fd (copy_obj (obj_depth (snd s)) fd_sink lib_converters nw (fst s) (snd s) ?fd)"
    by (rule lib_fd.copy_obj_good) (use assms in \<open>simp_all add: sending_def\<close>)
  then show ?thesis using assms(3) by (auto simp: lib_fd.good_call_def copy_to_fd_def fd_step_def)
qed

interpretation fd_owner: live_writer "fd_step nw" "sending_from nw W m0 bs sh" "to_send nw" "\<lambda>s. obj_rest (snd s)" soft taking
  for nw W m0 bs sh
proof
  fix s script
  assume s: "sending_from nw W m0 bs sh s" and soft: "soft script"
  then obtain k r s' where st: "fd_step nw s script = Some (r, take k (to_send nw s), s')"
    "advances (to_send nw s) k r (to_send nw s') (obj_rest (snd s'))" "sending nw W s'"
    using fd_writer.step_advances [of nw W s script] by (auto simp: sending_from_def)
  have "lib_fd.kept nw (fst s) (snd s) (fst s') (snd s')"
    using fd_step_kept [where W = W, OF _ soft st(1)] s unfolding sending_from_def by blast
  then have "sending_from nw W m0 bs sh s'"
    using s st(3) same_alloc_trans by (auto simp: sending_from_def lib_fd.kept_def still_live_def)
  then show "\<exists>k r s'. fd_step nw s script = Some (r, take k (to_send nw s), s') \<and>
      advances (to_send nw s) k r (to_send nw s') (obj_rest (snd s')) \<and> sending_from nw W m0 bs sh s'"
    using st(1,2) by blast
next
  show "soft e" if "taking e" for e using that by (rule fd_live.lively_ok)
  show "xs \<noteq> []" if "sending_from nw W m0 bs sh s" "taking e" "to_send nw s \<noteq> []" "fd_step nw s e = Some (r, xs, s')" for s e r xs s'
    using fd_live.lively_step [of nw W s e r xs s'] that by (simp add: sending_from_def)
qed

lemma client_send_completes:
  assumes "obj_ok lib_data True m (ObjDson d kv)" "obj_owned m (ObjDson d kv)" "distinct (obj_blocks (ObjDson d kv))"
    "obj_rest (ObjDson d kv)" "\<forall>e \<in> set calls. taking e"
    "length (obj_wire lib_converters True m (ObjDson d kv)) \<le> length calls"
  obtains m' obj' where "client_send m d kv calls = Some (True, obj_wire lib_converters True m (ObjDson d kv), m', obj')"
    "obj_owned m' obj'" "obj_blocks obj' = obj_blocks (ObjDson d kv)" "obj_rest obj'" "obj_ok lib_data True m' obj'"
    "\<forall>b. b \<notin> set (obj_blocks (ObjDson d kv)) \<longrightarrow> heap m' b = heap m b" "same_alloc m m'"
    "obj_shape obj' = obj_shape (ObjDson d kv)"
    "obj_wire lib_converters True m' obj' = obj_wire lib_converters True m (ObjDson d kv)"
proof -
  let ?obj = "ObjDson d kv"
  let ?W = "obj_wire lib_converters True m ?obj"
  have p: "to_send True (m, ?obj) = ?W" using obj_rest_pending [OF assms(1,4)] by simp
  have "sending_from True ?W m (obj_blocks ?obj) (obj_shape ?obj) (m, ?obj)"
    using assms by (simp add: sending_from_def sending_def del: obj_ok.simps obj_wire.simps)
  from fd_owner.drive_completes [OF this assms(5)] obj_wire_nonempty [OF assms(1)] assms(6)
  obtain s' where s: "drive (fd_step True) (m, ?obj) calls = Some (Ready, ?W, s')" "obj_rest (snd s')"
    "sending_from True ?W m (obj_blocks ?obj) (obj_shape ?obj) s'"
    unfolding p by blast
  then show ?thesis
    using that [of "fst s'" "snd s'"] by (cases s') (simp add: client_send_def sending_from_def sending_def del: obj_wire.simps)
qed

section \<open>The request of the client\<close>

lemma ro_of_addr:
  fixes a
  defines "r \<equiv> \<lparr>ro_buf = route_wire False 0 a, ro_state = StReady, ro_offset = 0\<rparr>"
  shows "ro_wf r" "ro_state r = StReady" "ro_key r = 0" "ro_addr r = a"
    "update_address f ((0, ObjRoute r) # kv) =
      Some ((0, ObjRoute \<lparr>ro_buf = route_wire False 0 (f a), ro_state = StReady, ro_offset = 0\<rparr>) # kv)"
proof -
  have k: "i32_ok 0" by (simp add: i32_ok_iff)
  have b: "ro_buf r = route_wire False 0 a" by (simp add: r_def)
  have e: "ro_address r = (a, r)" using ro_address_eq [OF b k] by (simp add: r_def)
  show "ro_wf r" "ro_state r = StReady" "ro_key r = 0" "ro_addr r = a"
    using ro_wfI [OF b k] ro_buf_order(3) [OF b k] e by (simp_all add: r_def ro_addr_def)
  show "update_address f ((0, ObjRoute r) # kv) =
      Some ((0, ObjRoute \<lparr>ro_buf = route_wire False 0 (f a), ro_state = StReady, ro_offset = 0\<rparr>) # kv)"
    using e ro_put_address_eq [OF b, of "f a"] by (simp add: update_address_def r_def)
qed

definition asking :: "mem \<Rightarrow> u32 \<Rightarrow> kvmap" where
  "asking m i = [(0, ObjRoute \<lparr>ro_buf = route_wire False 0
      \<lparr>from_serv_id = 0, from_cli_id = client_certificate_id, to_serv_id = 0, to_cli_id = i\<rparr>, ro_state = StReady, ro_offset = 0\<rparr>),
     (4, ObjDson (keyed 4 (built m T_string (int (length password)))) [])]"

lemma length_password [simp]: "length password = 8" "password \<noteq> []"
  by (simp_all add: password_def chars_def)

lemma client_request_eq:
  assumes "8 \<le> malloc_limit m"
  shows "client_request m = Some (fresh m password, answer_dson 1, asking m 0)"
proof -
  let ?d = "dson_fields (host_hdr 0 1 (types_map T_Empty))"
  have l: "header_loc (dson_fields h) = None" for h by (simp add: dson_fields_def header_loc_def)
  have n: "dson_set_key m (dson_fields (host_hdr 0 0 (types_map T_Empty))) 1 = Some (m, ?d)"
    using hdr_set_field_simps(2) [of False 0 0 "types_map T_Empty" 1]
    by (simp add: dson_set_key_def local_simps l hdr_for_def) (simp add: dson_fields_def)
  have d: "?d\<lparr>d_header := hdr_set_field (d_header ?d) 3 (types_map T_DsonContainer)\<rparr> = answer_dson 1"
    using hdr_set_field_simps(3) [of False 0 1 "types_map T_Empty" "types_map T_DsonContainer"]
    by (simp add: answer_dson_def dson_fields_def hdr_for_def)
  have sel: "d_kind ?d = DsonContainer" "d_state ?d = StReady" "header_loc ?d = None"
    by (simp_all add: dson_fields_def header_loc_def)
  have t: "dson_of_string m password = Some (fresh m password, built m T_string 8)"
    using dson_of_values(2) [of password m] assms by simp
  have e: "emplace_dson (fresh m password) ?d [] 4 (built m T_string 8, []) =
      Some (fresh m password, answer_dson 1, [(4, ObjDson (keyed 4 (built m T_string 8)) [])])"
    using emplace_new [OF sel, of 4 "[]" "built m T_string 8" "fresh m password"] d by simp
  have r: "ro_new (map (malloc_fill (fresh m password)) [0..<32]) 0 = \<lparr>ro_buf = route_wire False 0
      \<lparr>from_serv_id = 0, from_cli_id = 0, to_serv_id = 0, to_cli_id = 0\<rparr>, ro_state = StReady, ro_offset = 0\<rparr>" (is "_ = ?r")
    by (rule ro_new_eq) (simp_all add: i32_ok_iff)
  have p: "emplace_ptr (fresh m password) (answer_dson 1) [(4, ObjDson (keyed 4 (built m T_string 8)) [])] (Some (ObjRoute ?r)) =
      Some (fresh m password, answer_dson 1, [(0, ObjRoute ?r), (4, ObjDson (keyed 4 (built m T_string 8)) [])])"
    using insert_new [of "answer_dson 1" 0 "[(4, ObjDson (keyed 4 (built m T_string 8)) [])]"] ro_of_addr(3)
    by (simp add: emplace_ptr_def obj_key_def)
  show ?thesis
    using n t e p r ro_of_addr(5) by (simp add: client_request_def dson_new_eq asking_def client_certificate_id_def)
qed

text \<open>
  C31: the requests the server gets are those the client sends.  For every service the client
  addresses, what it writes to a socket that takes at least one byte at a time is, byte for
  byte, the request \<open>WantAuth\<close> with its own id and the password.
\<close>

theorem client_asks_service:
  assumes "8 \<le> malloc_limit m" "\<forall>e \<in> set calls. taking e" "72 \<le> length calls"
  shows "\<exists>m1 d kv kv1 m2 obj. client_request m = Some (m1, d, kv) \<and>
    update_address (\<lambda>a. a\<lparr>to_cli_id := i\<rparr>) kv = Some kv1 \<and>
    client_send m1 d kv1 calls = Some (True, request_wire \<lparr>rq_key = WantAuth, rq_address =
      \<lparr>from_serv_id = 0, from_cli_id = client_certificate_id, to_serv_id = 0, to_cli_id = i\<rparr>, rq_text = password\<rparr>, m2, obj) \<and>
    obj_rest obj"
proof -
  let ?a = "\<lparr>from_serv_id = 0, from_cli_id = client_certificate_id, to_serv_id = 0, to_cli_id = i\<rparr>"
  let ?m = "fresh m password"
  have u: "update_address (\<lambda>a. a\<lparr>to_cli_id := i\<rparr>) (asking m 0) = Some (asking m i)"
    using ro_of_addr(5) by (simp add: asking_def)
  have i: "i32_ok 1" "i32_ok 4" by (simp_all add: i32_ok_iff)
  have h: "heap ?m (next_block m) = Some password" "int (length password) + 48 \<le> i32_max" by (simp_all add: i32_max_def)
  note ok = text_message_ok [OF length_password(2) h(2) i h(1) ro_of_addr(1-3) [of ?a], folded asking_def]
  have w: "obj_wire lib_converters True ?m (ObjDson (answer_dson 1) (asking m i)) =
      request_wire \<lparr>rq_key = WantAuth, rq_address = ?a, rq_text = password\<rparr>"
    using ok(6) ro_of_addr(4) by (simp only: request_wire_eq) (simp add: text_key_def)
  have len: "length (request_wire \<lparr>rq_key = WantAuth, rq_address = ?a, rq_text = password\<rparr>) \<le> length calls"
    using assms(3) by (simp add: request_wire_eq)
  obtain m2 obj where "client_send ?m (answer_dson 1) (asking m i) calls =
      Some (True, obj_wire lib_converters True ?m (ObjDson (answer_dson 1) (asking m i)), m2, obj)" "obj_rest obj"
    by (rule client_send_completes [OF ok(1-4) assms(2) len [folded w]])
  then show ?thesis using client_request_eq [OF assms(1)] u w by auto
qed

lemma client_asks_service_witness:
  "\<exists>m1 d kv kv1 m2 obj. client_request sample_mem = Some (m1, d, kv) \<and>
    update_address (\<lambda>a. a\<lparr>to_cli_id := 7\<rparr>) kv = Some kv1 \<and>
    client_send m1 d kv1 (replicate 72 [WrTake 1]) = Some (True, request_wire \<lparr>rq_key = WantAuth, rq_address =
      \<lparr>from_serv_id = 0, from_cli_id = client_certificate_id, to_serv_id = 0, to_cli_id = 7\<rparr>, rq_text = password\<rparr>, m2, obj) \<and>
    obj_rest obj"
  by (rule client_asks_service) (simp_all add: sample_mem_def taking_def soft_call_def)

section \<open>What the client does with replies\<close>

lemma client_authed:
  assumes l: "message_address lib_converters 0 (cl_mem cl) d kv = Some (Some a, m1, d1, kv1)" "dson_key m1 d1 = Some 2"
    and t: "length (echo_request_text a) \<le> malloc_limit m1" "int (length (echo_request_text a)) + 48 \<le> i32_max"
    and c: "\<forall>e \<in> set calls. taking e" "length (echo_request_text a) + 64 \<le> length calls"
  shows "\<exists>cl'. client_callback lib_converters calls cl d kv = Some (cl', d1, kv1) \<and> cnt cl' = cnt cl \<and>
    cl_sent cl' = cl_sent cl @ request_wire \<lparr>rq_key = SimpleData, rq_address = reply_to a, rq_text = echo_request_text a\<rparr> \<and>
    console cl' = console cl @ [authed_line a] \<and> (mem_ok m1 \<longrightarrow> extends m1 (cl_mem cl'))"
proof -
  let ?t = "echo_request_text a" and ?r = "\<lparr>rq_key = SimpleData, rq_address = reply_to a, rq_text = echo_request_text a\<rparr>"
  let ?m = "fresh m1 ?t" and ?kv = "[(0, ObjRoute (reply_obj a)), (6, ObjDson (keyed 6 (built m1 T_string (int (length ?t)))) [])]"
  have ne: "?t \<noteq> []" by (simp add: echo_request_text_def chars_def)
  have i: "i32_ok 3" "i32_ok 6" by (simp_all add: i32_ok_iff)
  have s: "dson_of_string m1 ?t = Some (?m, built m1 T_string (int (length ?t)))"
    using dson_of_values(2) [OF ne t(1)] t(2) by (simp add: i32_max_def)
  have e: "emplace_dson ?m (answer_dson 3) [(0, ObjRoute (reply_obj a))] 6 (built m1 T_string (int (length ?t)), []) =
      Some (?m, answer_dson 3, ?kv)"
    using emplace_new [of "answer_dson 3"] by simp
  have hp: "heap ?m (next_block m1) = Some ?t" by simp
  note ok = text_message_ok [OF ne t(2) i hp reply_obj_facts(1-3) [of a]]
  have w: "obj_wire lib_converters True ?m (ObjDson (answer_dson 3) ?kv) = request_wire ?r"
    using ok(6) by (simp only: request_wire_eq) (simp add: text_key_def)
  have len: "length (request_wire ?r) \<le> length calls" using c(2) by (simp add: request_wire_eq)
  obtain m2 obj where sent: "client_send ?m (answer_dson 3) ?kv calls = Some (True, request_wire ?r, m2, obj)"
    "obj_owned m2 obj" "obj_blocks obj = obj_blocks (ObjDson (answer_dson 3) ?kv)"
    and same: "\<forall>b. b \<notin> set (obj_blocks (ObjDson (answer_dson 3) ?kv)) \<longrightarrow> heap m2 b = heap ?m b" "same_alloc ?m m2"
    using client_send_completes [OF ok(1-4) c(1) len [folded w]] unfolding w by metis
  have "distinct (obj_blocks obj)" using ok(3) sent(3) by (simp only:)
  then have d: "obj_destroy m2 obj = Some (free_blocks m2 (obj_blocks obj))" by (rule obj_destroy_frees [OF sent(2)])
  have bl: "obj_blocks obj = [next_block m1]" using sent(3) ok(5) by (simp only:)
  have kept: "extends m1 (free_blocks m2 (obj_blocks obj))" if "mem_ok m1"
    using that same bl ok(5) by (auto simp: extends_def mem_ok_def same_alloc_def simp del: obj_blocks.simps)
  show ?thesis
    using l s e sent(1) d kept
    by (simp add: client_callback_def on_authed_def dson_new_eq emplace_reply_eq answer_key Let_def)
qed

text \<open>An unsigned number in network order is found, converted and read.\<close>

lemma opened_get_uint32:
  assumes o: "opened m d kv b (xs @ (net_hdr 4 k (types_map T_uint32), be32 w) # ys)" and k: "i32_ok k"
  shows "\<exists>m1 kv1 v. m1 = upd_block m b (entries_wire (xs @ (host_hdr 4 k (types_map T_uint32), store32 w) # ys)) \<and>
    dson_get lib_converters m d kv k = Some (Child k, m1, d, kv1) \<and> kv_find k kv1 = Some (ObjDson v []) \<and>
    of_obj (to_uint32 lib_converters) m1 (Some (ObjDson v [])) 0 = Some (w, m1, Some (ObjDson v [])) \<and>
    opened m1 d (kv_insert_or_assign k (ObjDson v []) kv1) b (xs @ (host_hdr 4 k (types_map T_uint32), store32 w) # ys)"
proof -
  have f: "to_host_order lib_converters (type_key T_uint32) = Some (conv32 ntohl)" by (simp add: lib_converters_eq)
  let ?es = "xs @ (host_hdr 4 k (types_map T_uint32), store32 w) # ys"
  obtain m1 kv1 v where g: "m1 = upd_block m b (entries_wire ?es)" "dson_get lib_converters m d kv k = Some (Child k, m1, d, kv1)"
    "kv_find k kv1 = Some (ObjDson v [])" "host_leaf m1 v T_uint32 (store32 w)"
    "opened m1 d (kv_insert_or_assign k (ObjDson v []) kv1) b ?es"
    by (rule opened_get_word [OF o k f])
  have "to_uint32 lib_converters m1 v 0 = Some (w, m1, v)"
    unfolding to_uint32_def
    by (rule from_number_leaf [OF g(4), where sz = 4 and n = "NumU32 w"]) (simp_all add: fits_def num_at_def seg_def)
  then show ?thesis
    using g(2,3,5) by (intro exI [of _ m1] exI [of _ kv1] exI [of _ v]) (simp add: of_obj_def, simp add: g(1))
qed

lemma client_data:
  assumes l: "message_address lib_converters 0 (cl_mem cl) d kv = Some (Some a, m1, d1, kv1)" "dson_key m1 d1 = Some 3"
    and o: "opened m1 d1 kv1 b (xs @ (net_hdr 4 5 (types_map T_uint32), be32 w) # [(host_hdr (int (length s)) 6 (types_map T_string), s)])"
    and n: "i32_ok (int (length s))"
  shows "\<exists>cl' kv'. client_callback lib_converters calls cl d kv = Some (cl', d1, kv') \<and> cnt cl' = cnt cl + 1 \<and>
    cl_sent cl' = cl_sent cl \<and> console cl' = console cl @ [data_line a w s] \<and>
    (\<exists>bs es. cl_mem cl' = upd_block m1 b bs \<and> opened (cl_mem cl') d1 kv' b es)"
proof -
  let ?es = "xs @ (host_hdr 4 5 (types_map T_uint32), store32 w) # [(host_hdr (int (length s)) 6 (types_map T_string), s)]"
  have k: "i32_ok 5" "i32_ok 6" by (simp_all add: i32_ok_iff)
  have hf: "hdr_field (host_hdr (int (length s)) 6 (types_map T_string)) 2 = 6"
    "hdr_field (host_hdr (int (length s)) 6 (types_map T_string)) 3 = types_map T_string"
    using hdr_field_for [of _ False] k by (simp_all add: hdr_for_def)
  obtain m2 kv2 v where m2: "m2 = upd_block m1 b (entries_wire ?es)"
    and c: "dson_get lib_converters m1 d1 kv1 5 = Some (Child 5, m2, d1, kv2)"
    "kv_find 5 kv2 = Some (ObjDson v [])"
    "of_obj (to_uint32 lib_converters) m2 (Some (ObjDson v [])) 0 = Some (w, m2, Some (ObjDson v []))"
    "opened m2 d1 (kv_insert_or_assign 5 (ObjDson v []) kv2) b ((xs @ [(host_hdr 4 5 (types_map T_uint32), store32 w)]) @ (host_hdr (int (length s)) 6 (types_map T_string), s) # [])"
    using opened_get_uint32 [OF o k(1)] by auto
  obtain kv4 v4 where t: "dson_get lib_converters m2 d1 (kv_insert_or_assign 5 (ObjDson v []) kv2) 6 = Some (Child 6, m2, d1, kv4)" "kv_find 6 kv4 = Some (ObjDson v4 [])"
    "to_string_view m2 (Some (ObjDson v4 [])) = Some s"
    and o4: "opened m2 d1 kv4 b ?es"
    using opened_get_string [OF c(4) hf(2)] unfolding hf(1) by (metis append.assoc append_Cons append_Nil)
  have "\<exists>bs es. m2 = upd_block m1 b bs \<and> opened m2 d1 kv4 b es" using m2 o4 by blast
  then show ?thesis
    using l c(1-3) t
    by (simp add: client_callback_def on_data_def dson_new_eq emplace_reply_eq pointed_def put_pointed_def Let_def)
qed

text \<open>The replies of the server, as messages with entries.\<close>

definition reply_entries :: "address \<Rightarrow> u32 \<Rightarrow> byte list \<Rightarrow> (byte list \<times> byte list) list" where
  "reply_entries a w s = [] @ (hdr_for True 16 0 (types_map T_vector_uint32), addr_bytes True a) #
     [(net_hdr 4 5 (types_map T_uint32), be32 w), (host_hdr (int (length s)) 6 (types_map T_string), s)]"

lemma replies_as_entries:
  "authed_wire a = hdr_for True 32 2 (types_map T_DsonContainer) @
     entries_wire [(hdr_for True 16 0 (types_map T_vector_uint32), addr_bytes True (reply_to a))]"
  "answer_wire a w s = hdr_for True (int (length s) + 68) 3 (types_map T_DsonContainer) @
     entries_wire (reply_entries (reply_to a) w s)"
  by (simp_all add: authed_wire_def answer_wire_def route_wire_def reply_entries_def entries_wire_def)

lemma reply_entries_ok:
  assumes "int (length s) \<le> max_dson_ram_size"
  shows "\<forall>e \<in> set (reply_entries a w s). entry_ok e" "distinct (map (\<lambda>e. hdr_field (fst e) 2) (reply_entries a w s))"
    "entry_ok (hdr_for True 16 0 (types_map T_vector_uint32), addr_bytes True a)" "i32_ok (int (length s))"
proof -
  show n: "i32_ok (int (length s))" using assms by (simp add: i32_ok_iff max_dson_ram_size_def)
  have i: "i32_ok 0" "i32_ok 16" "i32_ok 4" "i32_ok 5" "i32_ok 6" by (simp_all add: i32_ok_iff)
  show "\<forall>e \<in> set (reply_entries a w s). entry_ok e" "distinct (map (\<lambda>e. hdr_field (fst e) 2) (reply_entries a w s))"
    "entry_ok (hdr_for True 16 0 (types_map T_vector_uint32), addr_bytes True a)"
    using i n assms hdr_field_for [of _ False] hdr_field_for [of _ True]
    by (simp_all add: reply_entries_def entry_ok_def max_dson_ram_size_def hdr_for_def)
qed

lemma reply_opened:
  assumes l: "loaded_msg h (entries_wire es) (m, d, kv)" "length h = 16" "hdr_field h 3 = types_map T_DsonContainer"
    and es: "es = [] @ (hdr_for True 16 0 (types_map T_vector_uint32), addr_bytes True a) # ys"
      "\<forall>e \<in> set es. entry_ok e" "distinct (map (\<lambda>e. hdr_field (fst e) 2) es)"
  obtains b m1 kv1 where "message_address lib_converters 0 m d kv = Some (Some a, m1, d\<lparr>d_kind := DsonContainer\<rparr>, kv1)"
    "dson_key m1 (d\<lparr>d_kind := DsonContainer\<rparr>) = Some (hdr_field h 2)" "malloc_limit m1 = malloc_limit m"
    "opened m1 (d\<lparr>d_kind := DsonContainer\<rparr>) kv1 b ((hdr_for False 16 0 (types_map T_vector_uint32), addr_bytes False a) # ys)"
    "\<exists>bs. m1 = upd_block m b bs"
proof -
  let ?d = "d\<lparr>d_kind := DsonContainer\<rparr>" and ?es = "(hdr_for False 16 0 (types_map T_vector_uint32), addr_bytes False a) # ys"
  have ne: "es \<noteq> []" by (simp add: es(1))
  obtain b kv0 where o: "opened m ?d kv0 b es" and k: "dson_key m ?d = Some (hdr_field h 2)"
    and ma: "message_address lib_converters 0 m d kv = message_address lib_converters 0 m ?d kv0"
    by (rule loaded_request [OF l(1,2) ne l(3) es(2,3)]) metis
  define m1 where "m1 = upd_block m b (entries_wire ?es)"
  obtain kv1 where a: "message_address lib_converters 0 m ?d kv0 = Some (Some a, m1, ?d, kv1)" "opened m1 ?d kv1 b ?es"
    using opened_address [OF o [unfolded es(1)]] by (auto simp: hdr_for_def i32_ok_iff m1_def)
  have "dson_key m1 ?d = Some (hdr_field h 2)" using k a(2) by (simp add: opened_def dson_key_def local_simps)
  moreover have "\<exists>bs. m1 = upd_block m b bs" by (auto simp: m1_def)
  ultimately show ?thesis using that [OF _ _ _ a(2)] a(1) ma by (simp add: m1_def)
qed

text \<open>
  The client takes the conversation on.  When the server's confirmation \<open>Authed\<close> has
  arrived, it reports it and sends the service a request \<open>SimpleData\<close> to the address it had
  asked before, byte for byte as the server expects it; nothing is counted.
\<close>

theorem client_follows_up:
  assumes "authed_wire a = h @ dat" "length h = 16" "loaded_msg h dat (cl_mem cl, d, kv)"
    and "length (echo_request_text (reply_to a)) \<le> malloc_limit (cl_mem cl)"
    and "int (length (echo_request_text (reply_to a))) + 48 \<le> i32_max"
    and "\<forall>e \<in> set calls. taking e" "length (echo_request_text (reply_to a)) + 64 \<le> length calls"
  shows "\<exists>cl' d' kv'. client_callback lib_converters calls cl d kv = Some (cl', d', kv') \<and> cnt cl' = cnt cl \<and>
    cl_sent cl' = cl_sent cl @ request_wire \<lparr>rq_key = SimpleData, rq_address = a, rq_text = echo_request_text (reply_to a)\<rparr> \<and>
    console cl' = console cl @ [authed_line (reply_to a)]"
proof -
  let ?es = "[] @ (hdr_for True 16 0 (types_map T_vector_uint32), addr_bytes True (reply_to a)) # []"
  have h: "h = hdr_for True 32 2 (types_map T_DsonContainer)" "dat = entries_wire ?es"
    using assms(1,2) by (simp_all add: replies_as_entries)
  have i: "i32_ok 2" by (simp add: i32_ok_iff)
  have f: "hdr_field h 3 = types_map T_DsonContainer" "hdr_field h 2 = 2"
    using hdr_field_for [of _ True] i by (simp_all add: h hdr_for_def)
  have e: "\<forall>e \<in> set ?es. entry_ok e" "distinct (map (\<lambda>e. hdr_field (fst e) 2) ?es)"
    using reply_entries_ok(3) [of "[]"] by (simp_all add: max_dson_ram_size_def)
  obtain b m1 kv1 where "message_address lib_converters 0 (cl_mem cl) d kv = Some (Some (reply_to a), m1, d\<lparr>d_kind := DsonContainer\<rparr>, kv1)"
    "dson_key m1 (d\<lparr>d_kind := DsonContainer\<rparr>) = Some 2" "malloc_limit m1 = malloc_limit (cl_mem cl)"
    by (rule reply_opened [OF assms(3) [unfolded h(2)] assms(2) f(1) refl e]) (simp add: f(2))
  from client_authed [OF this(1,2) _ assms(5-7)] this(3) assms(4) show ?thesis by auto
qed

text \<open>
  The client counts the answers.  When an answer \<open>SimpleData\<close> of a service has arrived, the
  counter \<open>cnt\<close> goes up by one, the number of the chunk and the string in the line printed are
  those the service put in, and nothing is sent.
\<close>

theorem client_counts_answers:
  assumes "answer_wire a w s = h @ dat" "length h = 16" "loaded_msg h dat (cl_mem cl, d, kv)"
    and "int (length s) + 52 \<le> max_dson_ram_size"
  shows "\<exists>cl' d' kv'. client_callback lib_converters calls cl d kv = Some (cl', d', kv') \<and> cnt cl' = cnt cl + 1 \<and>
    cl_sent cl' = cl_sent cl \<and> console cl' = console cl @ [data_line (reply_to a) w s]"
proof -
  let ?es = "reply_entries (reply_to a) w s"
  have h: "h = hdr_for True (int (length s) + 68) 3 (types_map T_DsonContainer)" "dat = entries_wire ?es"
    using assms(1,2) by (simp_all add: replies_as_entries)
  have i: "i32_ok 3" by (simp add: i32_ok_iff)
  have f: "hdr_field h 3 = types_map T_DsonContainer" "hdr_field h 2 = 3"
    using hdr_field_for [of _ True] i by (simp_all add: h hdr_for_def)
  have n: "int (length s) \<le> max_dson_ram_size" using assms(4) by simp
  note e = reply_entries_ok(1,2) [OF n, of "reply_to a" w] reply_entries_ok(4) [OF n]
  obtain b m1 kv1 where m: "message_address lib_converters 0 (cl_mem cl) d kv = Some (Some (reply_to a), m1, d\<lparr>d_kind := DsonContainer\<rparr>, kv1)"
    "dson_key m1 (d\<lparr>d_kind := DsonContainer\<rparr>) = Some 3"
    "opened m1 (d\<lparr>d_kind := DsonContainer\<rparr>) kv1 b ([(hdr_for False 16 0 (types_map T_vector_uint32), addr_bytes False (reply_to a))] @
      (net_hdr 4 5 (types_map T_uint32), be32 w) # [(host_hdr (int (length s)) 6 (types_map T_string), s)])"
    by (rule reply_opened [OF assms(3) [unfolded h(2)] assms(2) f(1) reply_entries_def e(1,2)]) (simp add: f(2))
  from client_data [OF m e(3), of calls] show ?thesis by blast
qed

end
