(* ===== verification/Channel.thy ===== *)
theory Channel
  imports Server_Loop
begin

text \<open>
  Messages that come through a channel to which the other side still writes: what a call of
  \<open>load_from_fd\<close> does when the channel holds only a first part of what is to come.
\<close>

section \<open>A channel that holds less\<close>

text \<open>The result of a load with the bytes that are still unread, here or to come.\<close>

definition unread :: "byte list \<Rightarrow> (result \<times> mem \<times> dson \<times> kvmap \<times> rfd) option \<Rightarrow>
    (result \<times> mem \<times> dson \<times> kvmap \<times> byte list) option" where
  "unread later res = map_option (\<lambda>(r, m, d, kv, fd). (r, m, d, kv, r_data fd @ later)) res"

lemma read_more:
  assumes "soft_reads (r_script fd)"
  obtains k fd' where "read_from_fd fd n = (int k, take k (r_data fd), fd')" "soft_reads (r_script fd')"
    "\<And>s. read_from_fd \<lparr>r_script = RdGive k # s, r_data = r_data fd @ later\<rparr> n =
      (int k, take k (r_data fd), \<lparr>r_script = s, r_data = r_data fd' @ later\<rparr>)"
proof -
  obtain k fd' where r: "read_from_fd fd n = (int k, take k (r_data fd), fd')" "k \<le> n" "k \<le> length (r_data fd)"
    "r_data fd' = drop k (r_data fd)" "soft_reads (r_script fd')"
    using read_from_fd_soft [OF assms] by metis
  show ?thesis
    by (rule that [OF r(1,5)]) (use r(2-4) in \<open>simp add: read_from_fd_def sys_read_def min_def\<close>)
qed

lemma load_data_fd_more:
  assumes "soft_reads (r_script fd)"
  obtains s where "soft_reads s"
    "unread [] (load_data_fd m d kv \<lparr>r_script = s, r_data = r_data fd @ later\<rparr>) = unread later (load_data_fd m d kv fd)"
proof -
  obtain k fd' where r: "read_from_fd fd (nat (d_buf_size d - d_offset d)) = (int k, take k (r_data fd), fd')"
    "\<And>s. read_from_fd \<lparr>r_script = RdGive k # s, r_data = r_data fd @ later\<rparr> (nat (d_buf_size d - d_offset d)) =
      (int k, take k (r_data fd), \<lparr>r_script = s, r_data = r_data fd' @ later\<rparr>)"
    using read_more [OF assms] by metis
  show ?thesis
    by (rule that [of "[RdGive k]"]) (simp_all add: r load_data_fd_def unread_def soft_reads_def Let_def split: bind_splits)
qed

lemma load_header_fd_more:
  assumes "soft_reads (r_script fd)"
  obtains s where "soft_reads s"
    "unread [] (load_header_fd m d kv \<lparr>r_script = s, r_data = r_data fd @ later\<rparr>) = unread later (load_header_fd m d kv fd)"
proof -
  obtain k fd' where r: "read_from_fd fd (nat (int header_size - d_offset d)) = (int k, take k (r_data fd), fd')"
    and soft: "soft_reads (r_script fd')"
    and r2: "\<And>s. read_from_fd \<lparr>r_script = RdGive k # s, r_data = r_data fd @ later\<rparr> (nat (int header_size - d_offset d)) =
      (int k, take k (r_data fd), \<lparr>r_script = s, r_data = r_data fd' @ later\<rparr>)"
    using read_more [OF assms] by metis
  have give: "soft_reads (RdGive k # s)" if "soft_reads s" for s using that by (simp add: soft_reads_def)
  let ?d = "\<lambda>d1. d1\<lparr>d_offset := d_offset d1 + int k\<rparr>"
  show ?thesis
  proof (cases "\<exists>d1 m2 d2. store_header d (take k (r_data fd)) = Some d1 \<and> header_loaded m (?d d1) kv = Some (None, m2, d2)")
    case True
    then obtain d1 m2 d2 where "store_header d (take k (r_data fd)) = Some d1" "header_loaded m (?d d1) kv = Some (None, m2, d2)"
      by blast
    moreover obtain s where "soft_reads s"
      "unread [] (load_data_fd m2 d2 kv \<lparr>r_script = s, r_data = r_data fd' @ later\<rparr>) = unread later (load_data_fd m2 d2 kv fd')"
      using load_data_fd_more [OF soft] by metis
    ultimately show ?thesis
      by (intro that [of "RdGive k # s"] give) (simp_all add: r r2 load_header_fd_def unread_def Let_def)
  next
    case False
    have "soft_reads []" by (simp add: soft_reads_def)
    then show ?thesis
      by (intro that [of "[RdGive k]"] give)
        (use False in \<open>auto simp: r r2 load_header_fd_def unread_def Let_def split: bind_splits option.splits\<close>)
  qed
qed

lemma load_from_fd_more:
  assumes "soft_reads (r_script fd)"
  obtains s where "soft_reads s"
    "unread [] (load_from_fd m d kv \<lparr>r_script = s, r_data = r_data fd @ later\<rparr>) = unread later (load_from_fd m d kv fd)"
proof (cases "load_begin m d kv")
  case None
  then show ?thesis using that [of "[]"] by (simp add: load_from_fd_def unread_def soft_reads_def)
next
  case (Some st)
  obtain m1 d1 kv1 where "st = (m1, d1, kv1)" by (cases st)
  then show ?thesis
    using Some load_header_fd_more [OF assms, of m1 d1 kv1 later] load_data_fd_more [OF assms, of m1 d1 kv1 later] that
    by (cases "d_state d1 = StLoadingHeader") (simp_all add: load_from_fd_def, metis+)
qed

section \<open>Listening\<close>

text \<open>
  The messages \<open>ms\<close> (header and data) are still to come, the first of them has perhaps arrived in
  part; \<open>full\<close> are their bytes that have not been read yet.
\<close>

type_synonym message = "byte list \<times> byte list"

abbreviation message_bytes :: "message list \<Rightarrow> byte list" where
  "message_bytes ms \<equiv> concat (map (\<lambda>(h, dat). h @ dat) ms)"

definition hears :: "message list \<Rightarrow> mem \<Rightarrow> dson \<Rightarrow> kvmap \<Rightarrow> byte list \<Rightarrow> bool" where
  "hears ms m d kv full \<longleftrightarrow> (case ms of
     [] \<Rightarrow> idle m d kv \<and> full = []
   | (h, dat) # ms' \<Rightarrow> \<exists>rest. loading h dat (m, d, kv) rest \<and> full = rest @ message_bytes ms')"

lemma hears_idle:
  assumes "idle m d kv" "\<forall>(h, dat) \<in> set ms. msg_fits m h dat"
  shows "hears ms m d kv (message_bytes ms)"
  using assms idle_loading [OF assms(1)] by (cases ms) (auto simp: hears_def)

lemma hears_append:
  assumes "hears ms m d kv full" "\<forall>(h, dat) \<in> set ms'. msg_fits m h dat"
  shows "hears (ms @ ms') m d kv (full @ message_bytes ms')"
proof (cases ms)
  case Nil
  then show ?thesis using assms hears_idle by (auto simp: hears_def)
qed (use assms in \<open>auto simp: hears_def\<close>)

lemma hears_frame:
  assumes "hears ms m d kv full" "\<forall>x \<in> set (obj_blocks (ObjDson d kv)). heap m' x = heap m x"
    and "malloc_limit m' = malloc_limit m" "mem_ok m'"
  shows "hears ms m' d kv full"
  using assms(1) loading_frame [OF _ assms(2-4)] idle_frame [OF _ assms(2,4)]
  by (cases ms) (auto simp: hears_def simp del: obj_blocks.simps)

lemma hears_nothing: "hears ms m d kv [] \<Longrightarrow> ms = []"
  by (cases ms) (auto simp: hears_def dest: loading_rest)

lemma hears_mem_ok: "hears ms m d kv full \<Longrightarrow> mem_ok m"
  by (cases ms) (auto simp: hears_def idle_def loading_def)

text \<open>One call: the first message is through, or all are still to come.\<close>

definition heard_one :: "message list \<Rightarrow> byte list \<Rightarrow> result \<Rightarrow> mem \<Rightarrow> dson \<Rightarrow> kvmap \<Rightarrow> byte list \<Rightarrow> bool" where
  "heard_one ms full r m d kv full' \<longleftrightarrow> r = InProcess \<and> hears ms m d kv full' \<or>
     (\<exists>h dat ms'. ms = (h, dat) # ms' \<and> r = Ready \<and> loaded_msg h dat (m, d, kv) \<and> full' = message_bytes ms')"

lemma hears_all_there:
  assumes "hears ms m d kv (r_data fd)" "soft_reads (r_script fd)"
  shows "\<exists>r m' d' kv' fd'. load_from_fd m d kv fd = Some (r, m', d', kv', fd') \<and>
    heard_one ms (r_data fd) r m' d' kv' (r_data fd')"
proof (cases ms)
  case Nil
  then show ?thesis using idle_load [of m d kv fd] assms by (auto simp: hears_def heard_one_def)
next
  case (Cons x ms')
  obtain h dat where x: "x = (h, dat)" by (cases x)
  obtain rest where rest: "loading h dat (m, d, kv) rest" "r_data fd = rest @ message_bytes ms'"
    using assms(1) Cons x by (auto simp: hears_def)
  obtain k r m' d' kv' fd' where "load_from_fd m d kv fd = Some (r, m', d', kv', fd')" "k \<le> length rest"
    "r_data fd' = drop k rest @ message_bytes ms'"
    "if k = length rest then r = Ready \<and> loaded_msg h dat (m', d', kv') else r = InProcess \<and> loading h dat (m', d', kv') (drop k rest)"
    using load_from_fd_fd_progress [OF rest assms(2)] unfolding fd_progress_def by blast
  then show ?thesis using Cons x by (cases "k = length rest") (auto simp: heard_one_def hears_def)
qed

lemma hears_load:
  assumes "hears ms m d kv (r_data fd @ later)" "soft_reads (r_script fd)"
  obtains r m' d' kv' fd' where "load_from_fd m d kv fd = Some (r, m', d', kv', fd')"
    "heard_one ms (r_data fd @ later) r m' d' kv' (r_data fd' @ later)"
    "load_frame m d kv (Some (r, m', d', kv', fd'))" "mem_ok m'"
proof -
  obtain s where s: "soft_reads s"
    "unread [] (load_from_fd m d kv \<lparr>r_script = s, r_data = r_data fd @ later\<rparr>) = unread later (load_from_fd m d kv fd)"
    using load_from_fd_more [OF assms(2)] by metis
  let ?fd = "\<lparr>r_script = s, r_data = r_data fd @ later\<rparr>"
  obtain r m' d' kv' fd1 where l: "load_from_fd m d kv ?fd = Some (r, m', d', kv', fd1)"
    "heard_one ms (r_data ?fd) r m' d' kv' (r_data fd1)"
    using hears_all_there [of ms m d kv ?fd] assms(1) s(1) by auto
  then obtain fd' where e: "load_from_fd m d kv fd = Some (r, m', d', kv', fd')" "r_data fd1 = r_data fd' @ later"
    using s(2) l(1) by (cases "load_from_fd m d kv fd") (auto simp: unread_def)
  have "msg_fits m (host_hdr 0 0 0) []"
    using hdr_field_for(1) [of 0 False 0 0] by (simp add: msg_fits_def hdr_for_def i32_ok_iff max_dson_ram_size_def)
  then have "\<exists>h dat rest. loading h dat (m, d, kv) rest"
    using assms(1) idle_loading [of m d kv] by (cases ms) (auto simp: hears_def, blast)
  then obtain h dat rest where "loading h dat (m, d, kv) rest" by blast
  from load_from_fd_frame [OF this, of fd] have "load_frame m d kv (Some (r, m', d', kv', fd'))" unfolding e(1) .
  moreover have "mem_ok m'" using l(2) by (auto simp: heard_one_def loaded_msg_def dest: hears_mem_ok)
  ultimately show ?thesis using that [OF e(1)] l(2) e(2) by simp
qed

end
