(* ===== verification/Star_Session.thy ===== *)
theory Star_Session
  imports Client Channel
begin

text \<open>
  The whole of \<open>star_routing\<close> (\<open>dson_network.cpp\<close>): the client and the server with the connection
  between them, in every interleaving of their rounds.
\<close>

section \<open>Questions and answers\<close>

text \<open>What the client asks: to be authorised by a service, and afterwards to get an echo.\<close>

datatype question = Auth u32 | Echo u32

datatype answer = Authed_By u32 | Echoed_By u32 u32

definition ask_address :: "u32 \<Rightarrow> address" where
  "ask_address i = \<lparr>from_serv_id = 0, from_cli_id = client_certificate_id, to_serv_id = 0, to_cli_id = i\<rparr>"

definition echo_question :: "u32 \<Rightarrow> byte list" where
  "echo_question i = echo_request_text (reply_to (ask_address i))"

fun question_request :: "question \<Rightarrow> request" where
  "question_request (Auth i) = \<lparr>rq_key = WantAuth, rq_address = ask_address i, rq_text = password\<rparr>"
| "question_request (Echo i) = \<lparr>rq_key = SimpleData, rq_address = ask_address i, rq_text = echo_question i\<rparr>"

fun answer_bytes :: "answer \<Rightarrow> byte list" where
  "answer_bytes (Authed_By i) = authed_wire (ask_address i)"
| "answer_bytes (Echoed_By i w) = answer_wire (ask_address i) w (echo_text (ask_address i) (echo_question i))"

definition answer_message :: "answer \<Rightarrow> message" where
  "answer_message x = (take 16 (answer_bytes x), drop 16 (answer_bytes x))"

text \<open>The answers of the services, each with its own counter.\<close>

fun answers :: "(u32 \<Rightarrow> u32) \<Rightarrow> question list \<Rightarrow> answer list" where
  "answers ids [] = []"
| "answers ids (q # qs) =
     (case q of
        Auth i \<Rightarrow> if is_service i then [Authed_By i] else []
      | Echo i \<Rightarrow> if is_service i then [Echoed_By i (ids i + 1)] else []) @
     answers (count_request (question_request q) ids) qs"

text \<open>What the client does with answers: further questions, the lines it prints, the echoes it counts.\<close>

fun follow_ups :: "answer list \<Rightarrow> question list" where
  "follow_ups [] = []"
| "follow_ups (Authed_By i # xs) = Echo i # follow_ups xs"
| "follow_ups (Echoed_By i w # xs) = follow_ups xs"

fun answer_line :: "answer \<Rightarrow> byte list" where
  "answer_line (Authed_By i) = authed_line (reply_to (ask_address i))"
| "answer_line (Echoed_By i w) =
     data_line (reply_to (ask_address i)) w (echo_text (ask_address i) (echo_question i))"

fun echoed :: "answer list \<Rightarrow> nat" where
  "echoed [] = 0"
| "echoed (Authed_By i # xs) = echoed xs"
| "echoed (Echoed_By i w # xs) = Suc (echoed xs)"

lemma ask_address_sel [simp]:
  "to_cli_id (ask_address i) = i" "from_cli_id (ask_address i) = client_certificate_id"
  by (simp_all add: ask_address_def)

lemma appends [simp]:
  "follow_ups (xs @ ys) = follow_ups xs @ follow_ups ys" "echoed (xs @ ys) = echoed xs + echoed ys"
  by (induction xs rule: follow_ups.induct) simp_all

lemma answers_append: "answers ids (xs @ ys) = answers ids xs @ answers (counted ids (map question_request xs)) ys"
  by (induction xs arbitrary: ids) simp_all

lemma answer_message_bytes [simp]: "message_bytes (map answer_message xs) = concat (map answer_bytes xs)"
  by (induction xs) (simp_all add: answer_message_def)

lemma replies_answers: "replies ids (map question_request qs) = concat (map answer_bytes (answers ids qs))"
proof (induction qs arbitrary: ids)
  case (Cons q qs)
  have "reply_for ids (question_request q) = concat (map answer_bytes (case q of
        Auth i \<Rightarrow> if is_service i then [Authed_By i] else []
      | Echo i \<Rightarrow> if is_service i then [Echoed_By i (ids i + 1)] else []))"
    by (cases q) (simp_all add: reply_for_def request_reply_def Let_def)
  then show ?case using Cons.IH by simp
qed simp

section \<open>Sizes\<close>

lemma length_decimal: "n < 10 ^ k \<Longrightarrow> 0 < k \<Longrightarrow> length (decimal n) \<le> k"
proof (induction n arbitrary: k rule: decimal.induct)
  case (1 n)
  show ?case
  proof (cases "n < 10")
    case False
    then have k: "1 < k" using "1.prems" by (cases "k = 1") auto
    then have "n div 10 < 10 ^ (k - 1)" using "1.prems"(1) by (cases k) (simp_all add: less_mult_imp_div_less mult.commute)
    then show ?thesis using "1.IH" [of "k - 1"] False k by (subst decimal.simps) simp
  qed (use "1.prems" in \<open>simp add: decimal.simps\<close>)
qed

lemma length_decimal_u32: "length (decimal (unat (w :: u32))) \<le> 10"
proof -
  have "unat w < 2 ^ 32" using unsigned_less [of w] by simp
  also have "\<dots> \<le> 10 ^ 10" by simp
  finally show ?thesis by (rule length_decimal) simp
qed

lemma text_sizes:
  "length (echo_question i) \<le> 27" "length (echo_text (ask_address i) password) \<le> 51"
  "length (echo_text (ask_address i) (echo_question i)) \<le> 70"
proof -
  show q: "length (echo_question i) \<le> 27"
    using length_decimal_u32 [of i]
    by (simp add: echo_question_def echo_request_text_def chars_def)
  have t: "length (echo_text (ask_address i) s) \<le> 43 + length s" for s
    using length_decimal_u32 [of i] length_decimal_u32 [of client_certificate_id]
    by (simp add: echo_text_def chars_def)
  show "length (echo_text (ask_address i) password) \<le> 51"
    "length (echo_text (ask_address i) (echo_question i)) \<le> 70"
    using t [of password] t [of "echo_question i"] q by simp_all
qed

lemma question_good:
  assumes "200 \<le> malloc_limit m" "q \<noteq> Auth client_certificate_id" "q \<noteq> Echo client_certificate_id"
  shows "good_request client_certificate_id m (question_request q)"
proof -
  obtain i where "q = Auth i \<or> q = Echo i" by (cases q) auto
  then show ?thesis
    using assms text_sizes [of i] by (auto simp: good_request_def fits_reply_def max_dson_ram_size_def i32_max_def)
qed

lemma answer_fits:
  assumes "200 \<le> malloc_limit m"
  shows "case answer_message x of (h, dat) \<Rightarrow> msg_fits m h dat"
proof (cases x)
  case (Authed_By i)
  have "i32_ok 32" by (simp add: i32_ok_iff)
  then show ?thesis
    using assms Authed_By hdr_field_for(1) [of 32 True 2]
    by (simp add: answer_message_def authed_wire_def msg_fits_def max_dson_ram_size_def)
next
  case (Echoed_By i w)
  let ?s = "echo_text (ask_address i) (echo_question i)"
  have "i32_ok (int (length ?s) + 68)" using text_sizes(3) [of i] by (simp add: i32_ok_iff)
  then show ?thesis
    using assms Echoed_By hdr_field_for(1) [of "int (length ?s) + 68" True 3] text_sizes(3) [of i]
    by (simp add: answer_message_def answer_wire_def msg_fits_def max_dson_ram_size_def)
qed

section \<open>Asking\<close>

text \<open>The request object of the client between two rounds: it is addressed to \<open>i\<close>.\<close>

definition ready_to_ask :: "mem \<Rightarrow> dson \<Rightarrow> kvmap \<Rightarrow> u32 \<Rightarrow> bool" where
  "ready_to_ask m d kv i \<longleftrightarrow> obj_ok lib_data True m (ObjDson d kv) \<and> obj_owned m (ObjDson d kv) \<and>
     distinct (obj_blocks (ObjDson d kv)) \<and> obj_rest (ObjDson d kv) \<and>
     obj_shape (ObjDson d kv) = Dson_Shape [(0, Route_Shape), (4, Dson_Shape [])] \<and>
     obj_wire lib_converters True m (ObjDson d kv) = request_wire (question_request (Auth i))"

lemma route_wire_inj:
  assumes "route_wire nw k a = route_wire nw k' a'" "i32_ok k" "i32_ok k'"
  shows "k = k' \<and> a = a'"
proof -
  let ?r = "\<lparr>ro_buf = route_wire nw k a, ro_state = StReady, ro_offset = 0\<rparr>"
  have b: "ro_buf ?r = route_wire nw k a" "ro_buf ?r = route_wire nw k' a'" using assms(1) by simp_all
  then show ?thesis
    using ro_buf_order(3) [OF b(1) assms(2)] ro_buf_order(3) [OF b(2) assms(3)]
      ro_address_eq [OF b(1) assms(2)] ro_address_eq [OF b(2) assms(3)] by simp
qed

lemma shape_list:
  "map_shape kv = [] \<longleftrightarrow> kv = []"
  "map_shape kv = (k, sh) # shs \<longleftrightarrow> (\<exists>obj kv'. kv = (k, obj) # kv' \<and> obj_shape obj = sh \<and> map_shape kv' = shs)"
  "obj_shape obj = Route_Shape \<longleftrightarrow> (\<exists>r. obj = ObjRoute r)"
  "obj_shape obj = Dson_Shape shs \<longleftrightarrow> (\<exists>d kv. obj = ObjDson d kv \<and> map_shape kv = shs)"
proof -
  show "map_shape kv = [] \<longleftrightarrow> kv = []"
    "map_shape kv = (k, sh) # shs \<longleftrightarrow> (\<exists>obj kv'. kv = (k, obj) # kv' \<and> obj_shape obj = sh \<and> map_shape kv' = shs)"
    by (cases kv; force)+
  show "obj_shape obj = Route_Shape \<longleftrightarrow> (\<exists>r. obj = ObjRoute r)"
    "obj_shape obj = Dson_Shape shs \<longleftrightarrow> (\<exists>d kv. obj = ObjDson d kv \<and> map_shape kv = shs)"
    by (cases obj; simp)+
qed

lemma ready_addressed:
  assumes "ready_to_ask m d kv i"
  shows "\<exists>kv'. update_address (\<lambda>a. a\<lparr>to_cli_id := j\<rparr>) kv = Some kv' \<and> ready_to_ask m d kv' j \<and>
    obj_blocks (ObjDson d kv') = obj_blocks (ObjDson d kv)"
proof -
  obtain r p where kv: "kv = [(0, ObjRoute r), (4, ObjDson p [])]"
    using assms by (auto simp: ready_to_ask_def shape_list)
  have ok: "obj_ok lib_data True m (ObjDson d kv)" "obj_rest (ObjDson d kv)"
    and w: "obj_wire lib_converters True m (ObjDson d kv) = request_wire (question_request (Auth i))"
    using assms by (simp_all add: ready_to_ask_def)
  have c: "d_kind d = DsonContainer" using ok(1) kv by (cases "d_kind d = DsonContainer") simp_all
  then have r: "ro_wf r" "ro_state r = StReady" using ok kv by (auto simp: container_ok_def)
  obtain nw k a where b: "i32_ok k" "ro_buf r = route_wire nw k a" using r(1) by (auto simp: ro_wf_def)
  have e: "ro_address r = (a, r\<lparr>ro_buf := route_wire False k a\<rparr>)" "ro_key r = k" "ro_addr r = a"
    using ro_address_eq [OF b(2,1)] ro_buf_order(3) [OF b(2,1)] by (simp_all add: ro_addr_def)
  have wi: "request_wire (question_request (Auth n)) = hdr_for True 56 1 (types_map T_DsonContainer) @
      route_wire True 0 (ask_address n) @ host_hdr 8 4 (types_map T_string) @ password" for n
    by (simp add: request_wire_eq text_key_def)
  have eq: "hdr_for True (map_size kv) (hdr_field (d_header d) 2) (hdr_field (d_header d) 3) = hdr_for True 56 1 (types_map T_DsonContainer)"
    "route_wire True k a = route_wire True 0 (ask_address i)"
    "obj_wire lib_converters True m (ObjDson p []) = host_hdr 8 4 (types_map T_string) @ password"
    using w c kv e unfolding wi by (simp_all del: obj_wire.simps(1)) (auto simp: append_eq_append_conv)
  have i0: "i32_ok 0" by (simp add: i32_ok_iff)
  have k: "k = 0" "a = ask_address i" using route_wire_inj [OF eq(2) b(1) i0] by simp_all
  let ?r = "r\<lparr>ro_buf := route_wire False 0 (ask_address j)\<rparr>" and ?a = "(ask_address i)\<lparr>to_cli_id := j\<rparr>"
  let ?kv = "[(0, ObjRoute ?r), (4, ObjDson p [])]"
  have "?a = ask_address j" by (simp add: ask_address_def)
  then have "ro_put_address ?a (r\<lparr>ro_buf := route_wire False 0 (ask_address i)\<rparr>) = ?r"
    by (subst ro_put_address_eq [where key = 0 and ?a0.0 = "ask_address i"]) simp_all
  then have u: "update_address (\<lambda>a. a\<lparr>to_cli_id := j\<rparr>) kv = Some ?kv"
    using e(1) k by (simp add: update_address_def kv)
  have b2: "ro_buf ?r = route_wire False 0 (ask_address j)" by simp
  have r2: "ro_wf ?r" "ro_state ?r = StReady" "ro_key ?r = 0" "ro_addr ?r = ask_address j"
    using r(2) ro_wfI [OF b2 i0] ro_buf_order(3) [OF b2 i0] ro_address_eq [OF b2 i0] by (simp_all add: ro_addr_def)
  have "obj_wire lib_converters True m (ObjDson d ?kv) = request_wire (question_request (Auth j))"
    using c kv eq r2 e(2) k(1) unfolding wi by (simp del: obj_wire.simps(1)) (simp add: ro_data_size_def)
  then show ?thesis
    using assms u r2 c kv
    by (cases "d_kind p = DsonContainer") (simp_all add: ready_to_ask_def container_ok_def ro_data_size_def del: obj_wire.simps)
qed

lemma ready_sent:
  assumes "ready_to_ask m d kv i" "\<forall>e \<in> set calls. taking e" "72 \<le> length calls"
  obtains m' d' kv' where
    "client_send m d kv calls = Some (True, request_wire (question_request (Auth i)), m', ObjDson d' kv')"
    "ready_to_ask m' d' kv' i" "obj_blocks (ObjDson d' kv') = obj_blocks (ObjDson d kv)"
    "\<forall>b. b \<notin> set (obj_blocks (ObjDson d kv)) \<longrightarrow> heap m' b = heap m b" "same_alloc m m'"
proof -
  let ?w = "request_wire (question_request (Auth i))"
  have r: "obj_ok lib_data True m (ObjDson d kv)" "obj_owned m (ObjDson d kv)" "distinct (obj_blocks (ObjDson d kv))"
    "obj_rest (ObjDson d kv)" "obj_wire lib_converters True m (ObjDson d kv) = ?w"
    and sh: "obj_shape (ObjDson d kv) = Dson_Shape [(0, Route_Shape), (4, Dson_Shape [])]"
    using assms(1) unfolding ready_to_ask_def by blast+
  have "length ?w \<le> length calls" using assms(3) by (simp add: request_wire_eq)
  then obtain m' obj' where o: "client_send m d kv calls = Some (True, ?w, m', obj')"
    "obj_owned m' obj'" "obj_blocks obj' = obj_blocks (ObjDson d kv)" "obj_rest obj'" "obj_ok lib_data True m' obj'"
    "\<forall>b. b \<notin> set (obj_blocks (ObjDson d kv)) \<longrightarrow> heap m' b = heap m b" "same_alloc m m'"
    "obj_shape obj' = obj_shape (ObjDson d kv)" "obj_wire lib_converters True m' obj' = ?w"
    using client_send_completes [OF r(1-4) assms(2)] unfolding r(5) by metis
  obtain d' kv' where obj: "obj' = ObjDson d' kv'" using o(8) unfolding sh shape_list by blast
  have "distinct (obj_blocks obj')" unfolding o(3) by (rule r(3))
  then have "ready_to_ask m' d' kv' i"
    unfolding ready_to_ask_def obj [symmetric] using o(2,4,5,8,9) sh by simp
  then show ?thesis using that o(1,3,6,7) unfolding obj by blast
qed

section \<open>Listening\<close>

text \<open>What an answer that has arrived leads to, in the client and in its memory.\<close>

definition took :: "client \<Rightarrow> answer list \<Rightarrow> client \<Rightarrow> bool" where
  "took cl xs cl' \<longleftrightarrow> cnt cl' = cnt cl + of_nat (echoed xs) \<and> console cl' = console cl @ map answer_line xs \<and>
     cl_sent cl' = cl_sent cl @ concat (map (request_wire \<circ> question_request) (follow_ups xs))"

lemma answer_opened_mem:
  assumes "loaded_msg h dat (m, d, kv)" "dat \<noteq> []" "opened m1 (d\<lparr>d_kind := DsonContainer\<rparr>) kv1 b es" "m1 = upd_block m b bs"
  shows "own_blocks d = [b]" "mem_ok m1" "malloc_limit m1 = malloc_limit m"
    "y \<noteq> b \<Longrightarrow> heap m1 y = heap m y"
  using assms by (auto simp: loaded_msg_def opened_def own_blocks_def mem_ok_def)

lemma answer_taken:
  assumes l: "loaded_msg h dat (cl_mem cl, d, kv)" "answer_message x = (h, dat)"
    and c: "\<forall>e \<in> set calls. taking e" "91 \<le> length calls" "200 \<le> malloc_limit (cl_mem cl)"
  obtains cl' d' kv' b es where "client_callback lib_converters calls cl d kv = Some (cl', d', kv')" "took cl [x] cl'"
    "own_blocks d = [b]" "opened (cl_mem cl') d' kv' b es" "mem_ok (cl_mem cl')" "malloc_limit (cl_mem cl') = malloc_limit (cl_mem cl)"
    "\<forall>y. y \<noteq> b \<longrightarrow> heap (cl_mem cl) y \<noteq> None \<longrightarrow> heap (cl_mem cl') y = heap (cl_mem cl) y"
proof (cases x)
  case (Authed_By i)
  let ?a = "reply_to (ask_address i)" and ?d = "d\<lparr>d_kind := DsonContainer\<rparr>"
  let ?es = "[] @ (hdr_for True 16 0 (types_map T_vector_uint32), addr_bytes True ?a) # []"
  have h: "h = hdr_for True 32 2 (types_map T_DsonContainer)" "dat = entries_wire ?es"
    using l(2) Authed_By by (simp_all add: answer_message_def replies_as_entries)
  have i2: "i32_ok 2" by (simp add: i32_ok_iff)
  have f: "length h = 16" "hdr_field h 3 = types_map T_DsonContainer" "hdr_field h 2 = 2"
    using hdr_field_for [of _ True] i2 by (simp_all add: h hdr_for_def)
  have e: "\<forall>e \<in> set ?es. entry_ok e" "distinct (map (\<lambda>e. hdr_field (fst e) 2) ?es)" "dat \<noteq> []"
    using reply_entries_ok(3) [of "[]"] h(2) by (simp_all add: max_dson_ram_size_def)
  obtain b m1 kv1 bs where m: "message_address lib_converters 0 (cl_mem cl) d kv = Some (Some ?a, m1, ?d, kv1)"
    "dson_key m1 ?d = Some 2" and lim: "malloc_limit m1 = malloc_limit (cl_mem cl)"
    and o: "opened m1 ?d kv1 b ((hdr_for False 16 0 (types_map T_vector_uint32), addr_bytes False ?a) # [])"
    and m1: "m1 = upd_block (cl_mem cl) b bs"
    using reply_opened [OF l(1) [unfolded h(2)] f(1,2) refl e(1,2)] unfolding f(3) by metis
  note om = answer_opened_mem [OF l(1) e(3) o m1]
  have t: "length (echo_request_text ?a) \<le> 27" using text_sizes(1) [of i] by (simp add: echo_question_def)
  obtain cl' where cl': "client_callback lib_converters calls cl d kv = Some (cl', ?d, kv1)" "took cl [x] cl'"
    "extends m1 (cl_mem cl')"
    using client_authed [OF m _ _ c(1)] t c(2,3) om(2) lim Authed_By
    by (auto simp: took_def echo_question_def i32_max_def)
  have "opened (cl_mem cl') ?d kv1 b ((hdr_for False 16 0 (types_map T_vector_uint32), addr_bytes False ?a) # [])"
    by (rule opened_frame [OF o]) (use cl'(3) opened_live [OF o] in \<open>simp_all add: extends_def\<close>)
  then show ?thesis
    using that [OF cl'(1,2) om(1)] cl'(3) om lim by (auto simp: extends_def)
next
  case (Echoed_By i w)
  let ?a = "reply_to (ask_address i)" and ?d = "d\<lparr>d_kind := DsonContainer\<rparr>"
  let ?s = "echo_text (ask_address i) (echo_question i)"
  let ?es = "reply_entries ?a w ?s"
  have n: "int (length ?s) \<le> max_dson_ram_size" using text_sizes(3) [of i] by (simp add: max_dson_ram_size_def)
  note e = reply_entries_ok(1,2) [OF n, of ?a w] reply_entries_ok(4) [OF n]
  have h: "h = hdr_for True (int (length ?s) + 68) 3 (types_map T_DsonContainer)" "dat = entries_wire ?es"
    using l(2) Echoed_By by (simp_all add: answer_message_def replies_as_entries)
  have i3: "i32_ok 3" by (simp add: i32_ok_iff)
  have f: "length h = 16" "hdr_field h 3 = types_map T_DsonContainer" "hdr_field h 2 = 3"
    using hdr_field_for [of _ True] i3 by (simp_all add: h hdr_for_def)
  have ne: "dat \<noteq> []" by (simp add: h(2) reply_entries_def)
  obtain b m1 kv1 bs where m: "message_address lib_converters 0 (cl_mem cl) d kv = Some (Some ?a, m1, ?d, kv1)"
    "dson_key m1 ?d = Some 3" "opened m1 ?d kv1 b ([(hdr_for False 16 0 (types_map T_vector_uint32), addr_bytes False ?a)] @
      (net_hdr 4 5 (types_map T_uint32), be32 w) # [(host_hdr (int (length ?s)) 6 (types_map T_string), ?s)])"
    and m1: "m1 = upd_block (cl_mem cl) b bs"
    using reply_opened [OF l(1) [unfolded h(2)] f(1,2) reply_entries_def e(1,2)] unfolding f(3) by (metis append_Cons append_Nil)
  note om = answer_opened_mem [OF l(1) ne m(3) m1]
  obtain cl' kv' bs' es where cl': "client_callback lib_converters calls cl d kv = Some (cl', ?d, kv')" "took cl [x] cl'"
    "cl_mem cl' = upd_block m1 b bs'" "opened (cl_mem cl') ?d kv' b es"
    using client_data [OF m e(3), of calls] Echoed_By by (auto simp: took_def)
  have "mem_ok (cl_mem cl')" using cl'(3) om(2) opened_live [OF m(3)] by (auto simp: mem_ok_def)
  then show ?thesis using that [OF cl'(1,2) om(1) cl'(4)] cl'(3) om by auto
qed

lemma opened_cleared:
  assumes "opened m d kv b es" "mem_ok m"
  shows "dson_clear m d kv = Some (free_blocks m [b], cleared d, [])" "idle (free_blocks m [b]) (cleared d) []"
    "obj_blocks (ObjDson (cleared d) []) = []"
proof -
  show "dson_clear m d kv = Some (free_blocks m [b], cleared d, [])"
    using dson_clear_eq [OF opened_owns(1) [OF assms(1)]] opened_owns(2) [OF assms(1)] by (simp del: obj_blocks.simps)
  have "d_buf (cleared d) = None" "\<not> d_was_alloc (cleared d)" "d_state (cleared d) = StReady" "length (d_header (cleared d)) = 16"
    using assms(1) by (simp_all add: cleared_def opened_def)
  then show "idle (free_blocks m [b]) (cleared d) []" "obj_blocks (ObjDson (cleared d) []) = []"
    using assms(2) by (simp_all add: idle_def can_load_def own_blocks_def mem_ok_free_blocks header_loc_def)
qed

lemma client_hears:
  assumes "hears (map answer_message pend) (cl_mem cl) ad akv (r_data fd @ later)" "soft_reads (r_script fd)"
    and c: "\<forall>e \<in> set calls. taking e" "91 \<le> length calls" "200 \<le> malloc_limit (cl_mem cl)"
  obtains heard pend' cl' ad' akv' fd' where
    "client_receive lib_converters calls cl was ad akv fd = Some (was \<or> heard \<noteq> [], cl', ad', akv', fd')"
    "pend = heard @ pend'" "hears (map answer_message pend') (cl_mem cl') ad' akv' (r_data fd' @ later)"
    "took cl heard cl'" "malloc_limit (cl_mem cl') = malloc_limit (cl_mem cl)"
    "\<forall>y. heap (cl_mem cl) y \<noteq> None \<longrightarrow> y \<notin> set (obj_blocks (ObjDson ad akv)) \<longrightarrow>
       heap (cl_mem cl') y = heap (cl_mem cl) y \<and> y \<notin> set (obj_blocks (ObjDson ad' akv'))"
proof -
  obtain r m d kv fd1 where l: "load_from_fd (cl_mem cl) ad akv fd = Some (r, m, d, kv, fd1)"
    "heard_one (map answer_message pend) (r_data fd @ later) r m d kv (r_data fd1 @ later)"
    "load_frame (cl_mem cl) ad akv (Some (r, m, d, kv, fd1))" "mem_ok m"
    by (rule hears_load [OF assms(1,2)])
  have lim: "malloc_limit m = malloc_limit (cl_mem cl)" using l(3) unfolding load_frame_def by blast
  have fr: "heap m y = heap (cl_mem cl) y \<and> y \<notin> set (obj_blocks (ObjDson d kv))"
    if "heap (cl_mem cl) y \<noteq> None" "y \<notin> set (obj_blocks (ObjDson ad akv))" for y
    using l(3) that unfolding load_frame_def by blast
  show ?thesis
  proof (cases "r = Ready")
    case False
    then have "r = InProcess" "hears (map answer_message pend) m d kv (r_data fd1 @ later)"
      using l(2) by (auto simp: heard_one_def)
    then show ?thesis
      using that [of "[]" "cl\<lparr>cl_mem := m\<rparr>" d kv fd1 pend] l(1) fr lim
      by (simp add: client_receive_def took_def del: obj_blocks.simps)
  next
    case True
    then obtain h dat ms where one: "map answer_message pend = (h, dat) # ms" "loaded_msg h dat (m, d, kv)"
      "r_data fd1 @ later = message_bytes ms"
      using l(2) by (auto simp: heard_one_def)
    define cl0 where "cl0 = cl\<lparr>cl_mem := m\<rparr>"
    then have m0: "cl_mem cl0 = m" by simp
    obtain x pend' where x: "pend = x # pend'" "answer_message x = (h, dat)" "loaded_msg h dat (cl_mem cl0, d, kv)"
      "r_data fd1 @ later = message_bytes (map answer_message pend')"
      using one m0 by auto
    have c3: "200 \<le> malloc_limit (cl_mem cl0)" using c(3) lim m0 by simp
    obtain cl1 d1 kv1 b es where t: "client_callback lib_converters calls cl0 d kv = Some (cl1, d1, kv1)"
      "took cl0 [x] cl1" "own_blocks d = [b]" "opened (cl_mem cl1) d1 kv1 b es" "mem_ok (cl_mem cl1)"
      "malloc_limit (cl_mem cl1) = malloc_limit (cl_mem cl0)"
      "\<forall>y. y \<noteq> b \<longrightarrow> heap (cl_mem cl0) y \<noteq> None \<longrightarrow> heap (cl_mem cl1) y = heap (cl_mem cl0) y"
      by (rule answer_taken [OF x(3,2) c(1,2) c3])
    note cl = opened_cleared [OF t(4,5)]
    let ?cl = "cl1\<lparr>cl_mem := free_blocks (cl_mem cl1) [b]\<rparr>"
    have e: "client_receive lib_converters calls cl was ad akv fd = Some (True, ?cl, cleared d1, [], fd1)"
      using l(1) True t(1) cl(1) by (simp add: client_receive_def cl0_def)
    have "\<forall>(h, dat) \<in> set (map answer_message pend'). msg_fits (cl_mem ?cl) h dat"
      using answer_fits [of "cl_mem ?cl"] c3 t(6) by simp
    from hears_idle [OF _ this, of "cleared d1" "[]"] cl(2)
    have hs: "hears (map answer_message pend') (cl_mem ?cl) (cleared d1) [] (r_data fd1 @ later)" using x(4) by simp
    have f: "heap (cl_mem ?cl) y = heap (cl_mem cl) y"
      if y: "heap (cl_mem cl) y \<noteq> None" "y \<notin> set (obj_blocks (ObjDson ad akv))" for y
    proof -
      have "y \<noteq> b" "heap m y \<noteq> None" "heap m y = heap (cl_mem cl) y" using fr [OF y] t(3) y(1) by auto
      then show ?thesis using t(7) m0 by simp
    qed
    have "took cl [x] ?cl" using t(2) by (simp add: took_def cl0_def)
    then show ?thesis
      by (intro that [of "[x]" ?cl "cleared d1" "[]" fd1 pend']) (use e x(1) hs f t(6) lim m0 cl(3) in \<open>simp_all del: obj_blocks.simps\<close>)
  qed
qed

lemma ready_frame:
  assumes "ready_to_ask m d kv i" "\<forall>b \<in> set (obj_blocks (ObjDson d kv)). heap m' b = heap m b"
  shows "ready_to_ask m' d kv i"
proof -
  have "obj_ok lib_data True m' (ObjDson d kv) = obj_ok lib_data True m (ObjDson d kv)"
    "obj_wire lib_converters True m' (ObjDson d kv) = obj_wire lib_converters True m (ObjDson d kv)"
    using obj_frame [OF assms(2), of lib_data True lib_converters] assms(1) unfolding ready_to_ask_def by blast+
  then show ?thesis using assms(1) obj_owned_frame [OF assms(2)] unfolding ready_to_ask_def by metis
qed

text \<open>The two objects of the client side by side.\<close>

definition talking :: "client \<Rightarrow> dson \<Rightarrow> kvmap \<Rightarrow> u32 \<Rightarrow> dson \<Rightarrow> kvmap \<Rightarrow> answer list \<Rightarrow> byte list \<Rightarrow> bool" where
  "talking cl d kv i ad akv pend full \<longleftrightarrow> ready_to_ask (cl_mem cl) d kv i \<and>
     hears (map answer_message pend) (cl_mem cl) ad akv full \<and>
     set (obj_blocks (ObjDson d kv)) \<inter> set (obj_blocks (ObjDson ad akv)) = {} \<and> 200 \<le> malloc_limit (cl_mem cl)"

lemma talking_hears:
  assumes "talking cl d kv i ad akv pend (r_data fd @ later)" "soft_reads (r_script fd)"
    "\<forall>e \<in> set calls. taking e" "91 \<le> length calls"
  obtains heard pend' cl' ad' akv' fd' where
    "client_receive lib_converters calls cl was ad akv fd = Some (was \<or> heard \<noteq> [], cl', ad', akv', fd')"
    "pend = heard @ pend'" "talking cl' d kv i ad' akv' pend' (r_data fd' @ later)" "took cl heard cl'"
proof -
  have t: "ready_to_ask (cl_mem cl) d kv i" "hears (map answer_message pend) (cl_mem cl) ad akv (r_data fd @ later)"
    "set (obj_blocks (ObjDson d kv)) \<inter> set (obj_blocks (ObjDson ad akv)) = {}" "200 \<le> malloc_limit (cl_mem cl)"
    using assms(1) by (simp_all add: talking_def)
  obtain heard pend' cl' ad' akv' fd' where
    r: "client_receive lib_converters calls cl was ad akv fd = Some (was \<or> heard \<noteq> [], cl', ad', akv', fd')"
      "pend = heard @ pend'" "hears (map answer_message pend') (cl_mem cl') ad' akv' (r_data fd' @ later)" "took cl heard cl'"
    and m: "malloc_limit (cl_mem cl') = malloc_limit (cl_mem cl)"
      "\<forall>y. heap (cl_mem cl) y \<noteq> None \<longrightarrow> y \<notin> set (obj_blocks (ObjDson ad akv)) \<longrightarrow>
         heap (cl_mem cl') y = heap (cl_mem cl) y \<and> y \<notin> set (obj_blocks (ObjDson ad' akv'))"
    by (rule client_hears [OF t(2) assms(2-4) t(4)])
  have live: "heap (cl_mem cl) y \<noteq> None" if "y \<in> set (obj_blocks (ObjDson d kv))" for y
    using t(1) that obj_owned_blocks unfolding ready_to_ask_def by blast
  have "heap (cl_mem cl') y = heap (cl_mem cl) y \<and> y \<notin> set (obj_blocks (ObjDson ad' akv'))"
    if "y \<in> set (obj_blocks (ObjDson d kv))" for y
    using m(2) live [OF that] t(3) that by blast
  then have "ready_to_ask (cl_mem cl') d kv i" "set (obj_blocks (ObjDson d kv)) \<inter> set (obj_blocks (ObjDson ad' akv')) = {}"
    using ready_frame [OF t(1)] by blast+
  then have "talking cl' d kv i ad' akv' pend' (r_data fd' @ later)"
    using r(3) t(4) m(1) by (simp add: talking_def del: obj_blocks.simps)
  then show ?thesis using that r(1,2,4) by blast
qed

lemma talking_asks:
  assumes "talking cl d kv i ad akv pend full" "\<forall>e \<in> set writes. taking e" "72 \<le> length writes"
  obtains cl' d' kv' where "client_ask j writes cl d kv = Some (True, cl', d', kv')"
    "talking cl' d' kv' j ad akv pend full" "cnt cl' = cnt cl" "console cl' = console cl"
    "cl_sent cl' = cl_sent cl @ request_wire (question_request (Auth j))"
proof -
  have t: "ready_to_ask (cl_mem cl) d kv i" "hears (map answer_message pend) (cl_mem cl) ad akv full"
    "set (obj_blocks (ObjDson d kv)) \<inter> set (obj_blocks (ObjDson ad akv)) = {}" "200 \<le> malloc_limit (cl_mem cl)"
    using assms(1) by (simp_all add: talking_def)
  obtain kv1 where kv1: "update_address (\<lambda>a. a\<lparr>to_cli_id := j\<rparr>) kv = Some kv1" "ready_to_ask (cl_mem cl) d kv1 j"
    "obj_blocks (ObjDson d kv1) = obj_blocks (ObjDson d kv)"
    using ready_addressed [OF t(1)] by blast
  obtain m' d' kv' where s: "client_send (cl_mem cl) d kv1 writes = Some (True, request_wire (question_request (Auth j)), m', ObjDson d' kv')"
    "ready_to_ask m' d' kv' j" "obj_blocks (ObjDson d' kv') = obj_blocks (ObjDson d kv)"
    and m: "\<forall>b. b \<notin> set (obj_blocks (ObjDson d kv)) \<longrightarrow> heap m' b = heap (cl_mem cl) b" "same_alloc (cl_mem cl) m'"
    using ready_sent [OF kv1(2) assms(2,3)] unfolding kv1(3) by blast
  have live: "heap (cl_mem cl) y \<noteq> None" if "y \<in> set (obj_blocks (ObjDson d kv))" for y
    using t(1) that obj_owned_blocks unfolding ready_to_ask_def by blast
  have "heap m' b = None" if "heap (cl_mem cl) b = None" for b using m(1) live [of b] that by metis
  then have "mem_ok m'" using hears_mem_ok [OF t(2)] m(2) by (simp add: mem_ok_def same_alloc_def)
  moreover have "\<forall>x \<in> set (obj_blocks (ObjDson ad akv)). heap m' x = heap (cl_mem cl) x" using m(1) t(3) by blast
  moreover have "malloc_limit m' = malloc_limit (cl_mem cl)" using m(2) by (simp add: same_alloc_def)
  ultimately have h: "hears (map answer_message pend) m' ad akv full" using hears_frame [OF t(2)] by blast
  let ?cl = "cl\<lparr>cl_mem := m', cl_sent := cl_sent cl @ request_wire (question_request (Auth j))\<rparr>"
  have "talking ?cl d' kv' j ad akv pend full"
    using s(2) h t(3,4) m(2) unfolding talking_def s(3) by (simp add: same_alloc_def)
  then show ?thesis using that [of ?cl d' kv'] kv1(1) s(1) by (simp add: client_ask_def)
qed

lemma talking_append:
  assumes "talking cl d kv i ad akv pend full"
  shows "talking cl d kv i ad akv (pend @ xs) (full @ concat (map answer_bytes xs))"
proof -
  have "\<forall>(h, dat) \<in> set (map answer_message xs). msg_fits (cl_mem cl) h dat"
    using assms answer_fits [of "cl_mem cl"] by (auto simp: talking_def)
  from hears_append [OF _ this, of "map answer_message pend" ad akv full, unfolded answer_message_bytes] show ?thesis
    using assms by (simp add: talking_def del: obj_blocks.simps)
qed

lemma talking_cong: "cl_mem cl' = cl_mem cl \<Longrightarrow> talking cl' d kv i ad akv pend full = talking cl d kv i ad akv pend full"
  by (simp add: talking_def)

text \<open>The client at the start: its request is made, nothing is to come.\<close>

lemma talking_start:
  assumes "mem_ok m" "200 \<le> malloc_limit m"
  obtains m1 d kv d2 where "client_request m = Some (m1, d, kv)" "dson_new m1 = Some (m1, d2)"
    "talking \<lparr>cl_mem = m1, cl_sent = [], cnt = 0, console = []\<rparr> d kv 0 d2 [] [] []"
proof -
  let ?m = "fresh m password" and ?d = "answer_dson 1" and ?d2 = "dson_fields (host_hdr 0 0 (types_map T_Empty))"
  have i: "i32_ok 1" "i32_ok 4" by (simp_all add: i32_ok_iff)
  have h: "heap ?m (next_block m) = Some password" "int (length password) + 48 \<le> i32_max" by (simp_all add: i32_max_def)
  have as: "asking m 0 = [(0, ObjRoute \<lparr>ro_buf = route_wire False 0 (ask_address 0), ro_state = StReady, ro_offset = 0\<rparr>),
      (4, ObjDson (keyed 4 (built m T_string (int (length password)))) [])]"
    by (simp add: asking_def ask_address_def)
  note ok = text_message_ok [OF length_password(2) h(2) i h(1) ro_of_addr(1-3) [of "ask_address 0"], folded as]
  have w: "obj_wire lib_converters True ?m (ObjDson ?d (asking m 0)) = request_wire (question_request (Auth 0))"
    using ok(6) ro_of_addr(4) by (simp only: request_wire_eq question_request.simps) (simp add: text_key_def)
  have sh: "obj_shape (ObjDson ?d (asking m 0)) = Dson_Shape [(0, Route_Shape), (4, Dson_Shape [])]"
    by (simp add: asking_def)
  have r: "ready_to_ask ?m ?d (asking m 0) 0"
    unfolding ready_to_ask_def using ok(1-4) w sh by blast
  have mo: "mem_ok ?m" using assms(1) by (simp add: mem_ok_def fresh_def)
  have idle: "idle ?m ?d2 []"
    using mo by (simp add: idle_def can_load_def dson_fields_def header_loc_def own_blocks_def)
  then have hr: "hears [] ?m ?d2 [] []" by (simp add: hears_def)
  have "obj_blocks (ObjDson ?d2 []) = []" by (simp add: dson_fields_def own_blocks_def)
  then have "talking \<lparr>cl_mem = ?m, cl_sent = [], cnt = 0, console = []\<rparr> ?d (asking m 0) 0 ?d2 [] [] []"
    using r hr assms(2) by (simp add: talking_def fresh_def del: obj_blocks.simps)
  then show ?thesis
    using that [of ?m ?d "asking m 0" ?d2] client_request_eq [of m] assms(2) by (simp add: dson_new_eq)
qed

end
