(* ===== verification/Sockets.thy ===== *)
theory Sockets
  imports Prelude
begin

text \<open>
  How the server and the client of \<open>star_routing\<close> get their connection: \<open>create_socket\<close>,
  \<open>setup_socket\<close>, \<open>set_io_flag\<close> and \<open>accept_connection\<close> of \<open>socket_server.h\<close>, and their
  counterparts in \<open>socket_client.h\<close>.
\<close>

unbundle bit_operations_syntax

section \<open>The system calls\<close>

text \<open>
  What the calls for UNIX-domain sockets do, as POSIX describes them: a descriptor is a socket
  without a name, one bound to a name, one that listens, with the connections nobody has
  accepted yet, or one end of a connection.  Every call can also fail for reasons of its own
  (no descriptors left, a signal); \<open>faults\<close> says which of the next calls do.  Numbers of
  descriptors are not used again.
\<close>

datatype sock = Unnamed | Bound | Listening "nat list" | Server_End nat | Client_End nat

record descr =
  sock :: sock
  fl :: "32 word"

record kernel =
  fds :: "nat \<Rightarrow> descr option"
  next_fd :: nat
  names :: "string \<Rightarrow> nat option"
  next_conn :: nat
  faults :: "bool list"

definition fault :: "kernel \<Rightarrow> bool \<times> kernel" where
  "fault k = (case faults k of [] \<Rightarrow> (False, k) | f # fs \<Rightarrow> (f, k\<lparr>faults := fs\<rparr>))"

definition open_fd :: "kernel \<Rightarrow> sock \<Rightarrow> int \<times> kernel" where
  "open_fd k x = (int (next_fd k), k\<lparr>fds := (fds k)(next_fd k \<mapsto> \<lparr>sock = x, fl = 0\<rparr>), next_fd := Suc (next_fd k)\<rparr>)"

definition fd_of :: "kernel \<Rightarrow> int \<Rightarrow> descr option" where
  "fd_of k fd = (if fd < 0 then None else fds k (nat fd))"

definition put_fd :: "kernel \<Rightarrow> int \<Rightarrow> descr \<Rightarrow> kernel" where
  "put_fd k fd x = k\<lparr>fds := (fds k)(nat fd \<mapsto> x)\<rparr>"

definition sys_socket :: "kernel \<Rightarrow> int \<times> kernel" where
  "sys_socket k = (case fault k of (f, k) \<Rightarrow> if f then (-1, k) else open_fd k Unnamed)"

definition sys_remove :: "kernel \<Rightarrow> string \<Rightarrow> kernel" where
  "sys_remove k path = (case fault k of (f, k) \<Rightarrow> if f then k else k\<lparr>names := (names k)(path := None)\<rparr>)"

definition sys_bind :: "kernel \<Rightarrow> int \<Rightarrow> string \<Rightarrow> int \<times> kernel" where
  "sys_bind k fd path = (case fault k of (f, k) \<Rightarrow> (case fd_of k fd of
     None \<Rightarrow> (-1, k)
   | Some d \<Rightarrow> if f \<or> sock d \<noteq> Unnamed \<or> names k path \<noteq> None then (-1, k)
       else (0, (put_fd k fd (d\<lparr>sock := Bound\<rparr>))\<lparr>names := (names k)(path \<mapsto> nat fd)\<rparr>)))"

definition sys_listen :: "kernel \<Rightarrow> int \<Rightarrow> int \<times> kernel" where
  "sys_listen k fd = (case fault k of (f, k) \<Rightarrow> (case fd_of k fd of
     None \<Rightarrow> (-1, k)
   | Some d \<Rightarrow> if f \<or> sock d \<noteq> Bound then (-1, k) else (0, put_fd k fd (d\<lparr>sock := Listening []\<rparr>))))"

definition sys_connect :: "kernel \<Rightarrow> int \<Rightarrow> string \<Rightarrow> int \<times> kernel" where
  "sys_connect k fd path = (case fault k of (f, k) \<Rightarrow> (case (fd_of k fd, Option.bind (names k path) (\<lambda>l. map_option (\<lambda>d. (l, d)) (fds k l))) of
     (Some c, Some (l, d)) \<Rightarrow> (case sock d of
        Listening q \<Rightarrow> if f \<or> sock c \<noteq> Unnamed then (-1, k)
          else (0, (put_fd (put_fd k (int l) (d\<lparr>sock := Listening (q @ [next_conn k])\<rparr>)) fd (c\<lparr>sock := Client_End (next_conn k)\<rparr>))
                 \<lparr>next_conn := Suc (next_conn k)\<rparr>)
      | _ \<Rightarrow> (-1, k))
   | _ \<Rightarrow> (-1, k)))"

text \<open>\<open>accept\<close> on a socket without the flag \<open>O_NONBLOCK\<close> waits for a connection: none as long as there is none.\<close>

definition sys_accept :: "kernel \<Rightarrow> int \<Rightarrow> (int \<times> kernel) option" where
  "sys_accept k fd = (case fault k of (f, k) \<Rightarrow> (case fd_of k fd of
     None \<Rightarrow> Some (-1, k)
   | Some d \<Rightarrow> (case sock d of
        Listening q \<Rightarrow> if f then Some (-1, k) else (case q of [] \<Rightarrow> None
          | c # q \<Rightarrow> Some (open_fd (put_fd k fd (d\<lparr>sock := Listening q\<rparr>)) (Server_End c)))
      | _ \<Rightarrow> Some (-1, k))))"

text \<open>\<open>fcntl\<close> with \<open>F_GETFL\<close> and \<open>F_SETFL\<close>; the flags of a socket are not negative.\<close>

definition sys_getfl :: "kernel \<Rightarrow> int \<Rightarrow> (32 word) option \<times> kernel" where
  "sys_getfl k fd = (case fault k of (f, k) \<Rightarrow> (if f then None else map_option fl (fd_of k fd), k))"

definition sys_setfl :: "kernel \<Rightarrow> int \<Rightarrow> 32 word \<Rightarrow> int \<times> kernel" where
  "sys_setfl k fd v = (case fault k of (f, k) \<Rightarrow> (case fd_of k fd of
     None \<Rightarrow> (-1, k)
   | Some d \<Rightarrow> if f then (-1, k) else (0, put_fd k fd (d\<lparr>fl := v\<rparr>))))"

definition sys_close :: "kernel \<Rightarrow> int \<Rightarrow> kernel" where
  "sys_close k fd = (if fd < 0 then k else k\<lparr>fds := (fds k)(nat fd := None)\<rparr>)"

definition O_NONBLOCK :: "32 word" where "O_NONBLOCK = 0x800"

section \<open>The server\<close>

text \<open>An exception is the text that is thrown, beside the state it leaves.\<close>

definition socket_name :: string where "socket_name = ''socket_name''"

definition set_io_flag :: "kernel \<Rightarrow> int \<Rightarrow> 32 word \<Rightarrow> int \<times> kernel" where
  "set_io_flag k socket_fd flag = (case sys_getfl k socket_fd of
     (None, k) \<Rightarrow> (-1, k)
   | (Some old_flags, k) \<Rightarrow> (case sys_setfl k socket_fd (old_flags OR flag) of
       (r, k) \<Rightarrow> if r \<noteq> 0 then (-1, k) else (0, k)))"

definition setup_socket :: "kernel \<Rightarrow> int \<Rightarrow> (string + unit) \<times> kernel" where
  "setup_socket k socket_descriptor = (
     let k = sys_remove k socket_name in
     case sys_bind k socket_descriptor socket_name of (return_code, k) \<Rightarrow>
       if return_code = -1 then (Inl ''Error binding socket to address'', k)
       else case sys_listen k socket_descriptor of (return_code, k) \<Rightarrow>
         if return_code = -1 then (Inl ''Could not start listening on socket'', k) else (Inr (), k))"

definition create_socket :: "kernel \<Rightarrow> (string + int) \<times> kernel" where
  "create_socket k = (case sys_socket k of (socket_descriptor, k) \<Rightarrow>
     if socket_descriptor = -1 then (Inl ''Error opening socket on server-side'', k)
     else (case setup_socket k socket_descriptor of
       (Inl e, k) \<Rightarrow> (Inl e, k)
     | (Inr _, k) \<Rightarrow> (Inr socket_descriptor, k)))"

text \<open>None when \<open>accept\<close> never returns.\<close>

definition accept_connection :: "kernel \<Rightarrow> int \<Rightarrow> ((string + int) \<times> kernel) option" where
  "accept_connection k socket_descriptor = (case sys_accept k socket_descriptor of
     None \<Rightarrow> None
   | Some (connection, k) \<Rightarrow> Some (
       if connection = -1 then (Inl ''Error accepting connection'', k)
       else case set_io_flag k connection O_NONBLOCK of (r, k) \<Rightarrow>
         if r = -1 then (Inl ''Error setting socket to non-blocking on server-side'', k)
         else (Inr connection, sys_close k socket_descriptor)))"

section \<open>The client\<close>

text \<open>The same text as in the server.\<close>

definition client_set_io_flag :: "kernel \<Rightarrow> int \<Rightarrow> 32 word \<Rightarrow> int \<times> kernel" where
  "client_set_io_flag k socket_fd flag = set_io_flag k socket_fd flag"

definition client_setup_socket :: "kernel \<Rightarrow> int \<Rightarrow> (string + unit) \<times> kernel" where
  "client_setup_socket k connection = (case client_set_io_flag k connection O_NONBLOCK of (r, k) \<Rightarrow>
     if r = -1 then (Inl ''Error setting socket to non-blocking on client-side'', k)
     else case sys_connect k connection socket_name of (return_code, k) \<Rightarrow>
       if return_code = -1 then (Inl ''Error connecting to server'', k) else (Inr (), k))"

definition create_connection :: "kernel \<Rightarrow> (string + int) \<times> kernel" where
  "create_connection k = (case sys_socket k of (connection, k) \<Rightarrow>
     if connection = -1 then (Inl ''Error opening socket on client-side'', k)
     else (case client_setup_socket k connection of
       (Inl e, k) \<Rightarrow> (Inl e, k)
     | (Inr _, k) \<Rightarrow> (Inr connection, k)))"

text \<open>The destructor.\<close>

definition client_close :: "kernel \<Rightarrow> int \<Rightarrow> kernel" where
  "client_close k connection = (if 0 \<le> connection then sys_close k connection else k)"

section \<open>What they do\<close>

definition kernel_ok :: "kernel \<Rightarrow> bool" where
  "kernel_ok k \<longleftrightarrow> (\<forall>n \<ge> next_fd k. fds k n = None)"

lemma fault_cases:
  obtains f fs where "fault k = (f, k\<lparr>faults := fs\<rparr>)" "faults k = [] \<longrightarrow> \<not> f"
proof (cases "faults k")
  case Nil
  then have "fault k = (False, k\<lparr>faults := []\<rparr>)" by (cases k) (simp add: fault_def)
  then show ?thesis using that by blast
qed (use that in \<open>simp add: fault_def\<close>)

lemma fd_simps [simp]:
  "fd_of k (int n) = fds k n" "fds (put_fd k (int n) x) = (fds k)(n \<mapsto> x)"
  "fd_of (k\<lparr>faults := fs\<rparr>) fd = fd_of k fd" "names (put_fd k fd x) = names k" "next_fd (put_fd k fd x) = next_fd k"
  "next_conn (put_fd k fd x) = next_conn k"
  by (simp_all add: fd_of_def put_fd_def)

lemma setup_socket_outcome:
  assumes "fds k n = Some \<lparr>sock = Unnamed, fl = 0\<rparr>"
  shows "case setup_socket k (int n) of
     (Inr _, k') \<Rightarrow> fds k' = (fds k)(n \<mapsto> \<lparr>sock = Listening [], fl = 0\<rparr>) \<and> names k' = (names k)(socket_name \<mapsto> n) \<and>
       next_fd k' = next_fd k
   | (Inl e, k') \<Rightarrow> e \<noteq> ''Error opening socket on server-side'' \<and> (\<exists>x. fds k' = (fds k)(n \<mapsto> x)) \<and> next_fd k' = next_fd k"
proof -
  obtain k1 where k1: "sys_remove k socket_name = k1" "fds k1 = fds k" "next_fd k1 = next_fd k"
    "names k1 = names k \<or> names k1 = (names k)(socket_name := None)"
    by (rule fault_cases [of k]) (auto simp: sys_remove_def)
  obtain f2 fs2 where f2: "fault k1 = (f2, k1\<lparr>faults := fs2\<rparr>)" by (rule fault_cases)
  define k2 where "k2 = (put_fd (k1\<lparr>faults := fs2\<rparr>) (int n) \<lparr>sock = Bound, fl = 0\<rparr>)\<lparr>names := (names k1)(socket_name \<mapsto> n)\<rparr>"
  obtain f3 fs3 where f3: "fault k2 = (f3, k2\<lparr>faults := fs3\<rparr>)" by (rule fault_cases)
  have b: "sys_bind k1 (int n) socket_name = (if f2 \<or> names k1 socket_name \<noteq> None then (-1, k1\<lparr>faults := fs2\<rparr>) else (0, k2))"
    using assms k1(2) f2 by (simp add: sys_bind_def k2_def)
  have "sys_listen k2 (int n) = (if f3 then (-1, k2\<lparr>faults := fs3\<rparr>)
      else (0, put_fd (k2\<lparr>faults := fs3\<rparr>) (int n) \<lparr>sock = Listening [], fl = 0\<rparr>))"
    using f3 by (simp add: sys_listen_def k2_def fd_of_def put_fd_def)
  moreover have "fds k1 = (fds k)(n \<mapsto> \<lparr>sock = Unnamed, fl = 0\<rparr>)" using assms k1(2) by auto
  ultimately show ?thesis using k1 b by (auto simp: setup_socket_def Let_def k2_def)
qed

lemma create_socket_result:
  assumes "kernel_ok k"
  shows "case create_socket k of
     (Inr s, k') \<Rightarrow> s = int (next_fd k) \<and> fds k' = (fds k)(next_fd k \<mapsto> \<lparr>sock = Listening [], fl = 0\<rparr>) \<and>
       names k' = (names k)(socket_name \<mapsto> next_fd k)
   | (Inl e, k') \<Rightarrow> if e = ''Error opening socket on server-side'' then fds k' = fds k
       else fds k (next_fd k) = None \<and> fds k' (next_fd k) \<noteq> None \<and> (\<forall>n. n \<noteq> next_fd k \<longrightarrow> fds k' n = fds k n)"
proof -
  obtain f fs where f: "fault k = (f, k\<lparr>faults := fs\<rparr>)" by (rule fault_cases)
  let ?k = "k\<lparr>faults := fs, fds := (fds k)(next_fd k \<mapsto> \<lparr>sock = Unnamed, fl = 0\<rparr>), next_fd := Suc (next_fd k)\<rparr>"
  have "fds ?k (next_fd k) = Some \<lparr>sock = Unnamed, fl = 0\<rparr>" by simp
  from setup_socket_outcome [OF this] show ?thesis
    using f assms
    by (cases "setup_socket ?k (int (next_fd k))")
      (auto simp: create_socket_def sys_socket_def open_fd_def kernel_ok_def split: sum.splits if_splits)
qed

text \<open>
  C39: \<open>create_socket\<close> gives a new socket that listens under the name, and changes no other
  descriptor; or it throws.  When what failed was not the call \<open>socket\<close> itself, the
  descriptor it had got is still open and nobody knows its number.
\<close>

theorem create_socket_outcome:
  assumes "kernel_ok k"
  shows "case create_socket k of
     (Inr s, k') \<Rightarrow> s = int (next_fd k) \<and> fds k' = (fds k)(next_fd k \<mapsto> \<lparr>sock = Listening [], fl = 0\<rparr>) \<and>
       names k' = (names k)(socket_name \<mapsto> next_fd k)
   | (Inl e, k') \<Rightarrow> if e = ''Error opening socket on server-side'' then fds k' = fds k
       else fds k (next_fd k) = None \<and> fds k' (next_fd k) \<noteq> None \<and> (\<forall>n. n \<noteq> next_fd k \<longrightarrow> fds k' n = fds k n)"
  using assms by (rule create_socket_result)

lemma set_io_flag_outcome:
  assumes "fds k n = Some d" "set_io_flag k (int n) flag = (r, k')"
  shows "(r = 0 \<and> fds k' = (fds k)(n \<mapsto> d\<lparr>fl := fl d OR flag\<rparr>) \<or> r = -1 \<and> fds k' = fds k) \<and>
    names k' = names k \<and> next_fd k' = next_fd k \<and> next_conn k' = next_conn k"
proof -
  obtain f fs where f: "fault k = (f, k\<lparr>faults := fs\<rparr>)" by (rule fault_cases)
  obtain g gs where g: "fault (k\<lparr>faults := fs\<rparr>) = (g, k\<lparr>faults := gs\<rparr>)" by (rule fault_cases [of "k\<lparr>faults := fs\<rparr>"]) simp
  show ?thesis
    using assms f g by (auto simp: set_io_flag_def sys_getfl_def sys_setfl_def split: if_splits)
qed

lemma create_socket_next:
  assumes "create_socket k = (Inr s, k')"
  shows "next_fd k' = Suc (next_fd k)"
proof -
  obtain f fs where f: "fault k = (f, k\<lparr>faults := fs\<rparr>)" by (rule fault_cases)
  let ?k = "k\<lparr>faults := fs, fds := (fds k)(next_fd k \<mapsto> \<lparr>sock = Unnamed, fl = 0\<rparr>), next_fd := Suc (next_fd k)\<rparr>"
  have "fds ?k (next_fd k) = Some \<lparr>sock = Unnamed, fl = 0\<rparr>" by simp
  from setup_socket_outcome [OF this] show ?thesis
    using f assms
    by (cases "setup_socket ?k (int (next_fd k))")
      (auto simp: create_socket_def sys_socket_def open_fd_def split: sum.splits if_splits)
qed

text \<open>A server that listens under the name, with the connections \<open>q\<close> waiting.\<close>

definition listening :: "kernel \<Rightarrow> nat \<Rightarrow> nat list \<Rightarrow> bool" where
  "listening k l q \<longleftrightarrow> names k socket_name = Some l \<and> fds k l = Some \<lparr>sock = Listening q, fl = 0\<rparr>"

lemma create_connection_outcome:
  assumes "listening k l q" "kernel_ok k" "create_connection k = (Inr c, k')"
  shows "c = int (next_fd k) \<and> listening k' l (q @ [next_conn k]) \<and> next_fd k' = Suc (next_fd k) \<and>
    fds k' = (fds k)(l \<mapsto> \<lparr>sock = Listening (q @ [next_conn k]), fl = 0\<rparr>, next_fd k \<mapsto> \<lparr>sock = Client_End (next_conn k), fl = O_NONBLOCK\<rparr>)"
proof -
  let ?n = "next_fd k"
  have l: "fds k l = Some \<lparr>sock = Listening q, fl = 0\<rparr>" "names k socket_name = Some l" "l \<noteq> ?n"
    using assms(1,2) by (auto simp: listening_def kernel_ok_def)
  obtain f fs where f: "fault k = (f, k\<lparr>faults := fs\<rparr>)" by (rule fault_cases)
  let ?k = "k\<lparr>faults := fs, fds := (fds k)(?n \<mapsto> \<lparr>sock = Unnamed, fl = 0\<rparr>), next_fd := Suc ?n\<rparr>"
  have s: "sys_socket k = (if f then (-1, k\<lparr>faults := fs\<rparr>) else (int ?n, ?k))" using f by (simp add: sys_socket_def open_fd_def)
  then have nf: "\<not> f" using assms(3) by (auto simp: create_connection_def)
  then have c: "c = int ?n" "client_setup_socket ?k (int ?n) = (Inr (), k')"
    using s assms(3) by (auto simp: create_connection_def split: prod.splits sum.splits)
  obtain r k2 where k2: "set_io_flag ?k (int ?n) O_NONBLOCK = (r, k2)" by (cases "set_io_flag ?k (int ?n) O_NONBLOCK")
  have "fds ?k ?n = Some \<lparr>sock = Unnamed, fl = 0\<rparr>" by simp
  from set_io_flag_outcome [OF this k2] c(2) k2
  have o: "r = 0" "fds k2 = (fds k)(?n \<mapsto> \<lparr>sock = Unnamed, fl = O_NONBLOCK\<rparr>)" "names k2 = names k" "next_fd k2 = Suc ?n"
    "next_conn k2 = next_conn k"
    by (auto simp: client_setup_socket_def client_set_io_flag_def)
  obtain g gs where g: "fault k2 = (g, k2\<lparr>faults := gs\<rparr>)" by (rule fault_cases)
  have "sys_connect k2 (int ?n) socket_name = (if g then (-1, k2\<lparr>faults := gs\<rparr>)
      else (0, (put_fd (put_fd (k2\<lparr>faults := gs\<rparr>) (int l) \<lparr>sock = Listening (q @ [next_conn k]), fl = 0\<rparr>) (int ?n)
        \<lparr>sock = Client_End (next_conn k), fl = O_NONBLOCK\<rparr>)\<lparr>next_conn := Suc (next_conn k)\<rparr>))"
    using g o l by (simp add: sys_connect_def)
  then have "k' = (put_fd (put_fd (k2\<lparr>faults := gs\<rparr>) (int l) \<lparr>sock = Listening (q @ [next_conn k]), fl = 0\<rparr>) (int ?n)
        \<lparr>sock = Client_End (next_conn k), fl = O_NONBLOCK\<rparr>)\<lparr>next_conn := Suc (next_conn k)\<rparr>"
    using c(2) k2 o(1) by (auto simp: client_setup_socket_def client_set_io_flag_def split: if_splits)
  then show ?thesis using c(1) o l(2,3) by (auto simp: listening_def fun_eq_iff)
qed

lemma accept_connection_outcome:
  assumes "fds k l = Some \<lparr>sock = Listening (c # q), fl = 0\<rparr>" "kernel_ok k"
  shows "\<exists>r k'. accept_connection k (int l) = Some (r, k') \<and>
    (\<forall>a. r = Inr a \<longrightarrow> a = int (next_fd k) \<and>
       fds k' = (fds k)(next_fd k \<mapsto> \<lparr>sock = Server_End c, fl = O_NONBLOCK\<rparr>, l := None))"
proof -
  let ?n = "next_fd k"
  have n: "l \<noteq> ?n" using assms by (auto simp: kernel_ok_def)
  obtain f fs where f: "fault k = (f, k\<lparr>faults := fs\<rparr>)" by (rule fault_cases)
  let ?k = "k\<lparr>faults := fs, fds := (fds k)(l \<mapsto> \<lparr>sock = Listening q, fl = 0\<rparr>, ?n \<mapsto> \<lparr>sock = Server_End c, fl = 0\<rparr>), next_fd := Suc ?n\<rparr>"
  have a: "sys_accept k (int l) = Some (if f then (-1, k\<lparr>faults := fs\<rparr>) else (int ?n, ?k))"
    using f assms(1) by (simp add: sys_accept_def open_fd_def put_fd_def)
  obtain r k2 where k2: "set_io_flag ?k (int ?n) O_NONBLOCK = (r, k2)" by (cases "set_io_flag ?k (int ?n) O_NONBLOCK")
  have "fds ?k ?n = Some \<lparr>sock = Server_End c, fl = 0\<rparr>" by simp
  from set_io_flag_outcome [OF this k2] show ?thesis
    using a k2 n by (auto simp: accept_connection_def sys_close_def fun_eq_iff)
qed

lemma connection_made:
  assumes "kernel_ok k" "create_socket k = (Inr s, k1)" "create_connection k1 = (Inr c, k2)"
  shows "\<exists>r k3. accept_connection k2 s = Some (r, k3) \<and>
    (\<forall>a. r = Inr a \<longrightarrow> (\<exists>n. fds k3 (nat a) = Some \<lparr>sock = Server_End n, fl = O_NONBLOCK\<rparr> \<and>
       fds k3 (nat c) = Some \<lparr>sock = Client_End n, fl = O_NONBLOCK\<rparr>) \<and> fds k3 (nat s) = None \<and>
       (\<forall>m. m \<notin> {nat a, nat c, nat s} \<longrightarrow> fds k3 m = fds k m))"
proof -
  have s: "s = int (next_fd k)" "fds k1 = (fds k)(next_fd k \<mapsto> \<lparr>sock = Listening [], fl = 0\<rparr>)"
    "names k1 = (names k)(socket_name \<mapsto> next_fd k)"
    using create_socket_result [OF assms(1)] assms(2) by auto
  have n1: "next_fd k1 = Suc (next_fd k)"
    using create_socket_next [OF assms(2)] by simp
  have k1: "kernel_ok k1" "listening k1 (next_fd k) []"
    using assms(1) s n1 by (auto simp: kernel_ok_def listening_def)
  note c = create_connection_outcome [OF k1(2,1) assms(3)]
  have k2: "kernel_ok k2" "fds k2 (next_fd k) = Some \<lparr>sock = Listening [next_conn k1], fl = 0\<rparr>"
    using c k1(1) n1 by (auto simp: kernel_ok_def listening_def)
  obtain r k3 where a: "accept_connection k2 (int (next_fd k)) = Some (r, k3)"
    "\<forall>a. r = Inr a \<longrightarrow> a = int (next_fd k2) \<and>
       fds k3 = (fds k2)(next_fd k2 \<mapsto> \<lparr>sock = Server_End (next_conn k1), fl = O_NONBLOCK\<rparr>, next_fd k := None)"
    using accept_connection_outcome [OF k2(2,1)] by blast
  let ?N = "next_fd k"
  have n: "c = int (Suc ?N)" "next_fd k2 = Suc (Suc ?N)" "s = int ?N" using c n1 s(1) by simp_all
  have f: "fds k2 = (fds k)(?N \<mapsto> \<lparr>sock = Listening [next_conn k1], fl = 0\<rparr>, Suc ?N \<mapsto> \<lparr>sock = Client_End (next_conn k1), fl = O_NONBLOCK\<rparr>)"
    using c n1 s(2) by simp
  have x: "x = int (Suc (Suc ?N)) \<and> fds k3 = (fds k)(Suc ?N \<mapsto> \<lparr>sock = Client_End (next_conn k1), fl = O_NONBLOCK\<rparr>,
      Suc (Suc ?N) \<mapsto> \<lparr>sock = Server_End (next_conn k1), fl = O_NONBLOCK\<rparr>, ?N := None)" if "r = Inr x" for x
    using a(2) that n(2) f by (auto simp: fun_eq_iff)
  have "(\<exists>n. fds k3 (nat x) = Some \<lparr>sock = Server_End n, fl = O_NONBLOCK\<rparr> \<and>
       fds k3 (nat c) = Some \<lparr>sock = Client_End n, fl = O_NONBLOCK\<rparr>) \<and> fds k3 (nat s) = None \<and>
       (\<forall>m. m \<notin> {nat x, nat c, nat s} \<longrightarrow> fds k3 m = fds k m)" if r: "r = Inr x" for x
    using x [OF r] by (simp add: n(1,3) del: of_nat_Suc)
  then show ?thesis using a(1) n(3) by blast
qed

text \<open>
  C38: the server and the client find each other.  Whatever calls fail on the way: when the
  server has its socket and after it the client has its connection, \<open>accept_connection\<close>
  returns, and unless it throws, the two descriptors are the two ends of one connection, both
  with \<open>O_NONBLOCK\<close> set (so that a read or write that cannot go on answers at once, as the
  transfers expect), the socket that listened is closed, and no other descriptor is touched.
\<close>

theorem connection_established:
  assumes "kernel_ok k" "create_socket k = (Inr s, k1)" "create_connection k1 = (Inr c, k2)"
  shows "\<exists>r k3. accept_connection k2 s = Some (r, k3) \<and>
    (\<forall>a. r = Inr a \<longrightarrow> (\<exists>n. fds k3 (nat a) = Some \<lparr>sock = Server_End n, fl = O_NONBLOCK\<rparr> \<and>
       fds k3 (nat c) = Some \<lparr>sock = Client_End n, fl = O_NONBLOCK\<rparr>) \<and> fds k3 (nat s) = None \<and>
       (\<forall>m. m \<notin> {nat a, nat c, nat s} \<longrightarrow> fds k3 m = fds k m))"
  using assms by (rule connection_made)

lemma accepted_fresh:
  assumes "kernel_ok k" "create_socket k = (Inr s, k1)" "create_connection k1 = (Inr c, k2)" "accept_connection k2 s = Some (Inr a, k3)"
  shows "\<exists>n. a = int n \<and> fds k n = None"
proof -
  have s: "s = int (next_fd k)" "fds k1 = (fds k)(next_fd k \<mapsto> \<lparr>sock = Listening [], fl = 0\<rparr>)"
    "names k1 = (names k)(socket_name \<mapsto> next_fd k)"
    using create_socket_result [OF assms(1)] assms(2) by auto
  have n1: "next_fd k1 = Suc (next_fd k)" using create_socket_next [OF assms(2)] by simp
  have k1: "kernel_ok k1" "listening k1 (next_fd k) []"
    using assms(1) s n1 by (auto simp: kernel_ok_def listening_def)
  note c = create_connection_outcome [OF k1(2,1) assms(3)]
  have k2: "kernel_ok k2" "fds k2 (next_fd k) = Some \<lparr>sock = Listening [next_conn k1], fl = 0\<rparr>"
    using c k1(1) n1 by (auto simp: kernel_ok_def listening_def)
  have "a = int (next_fd k2)" using accept_connection_outcome [OF k2(2,1)] assms(4) s(1) by auto
  then show ?thesis using c n1 assms(1) by (intro exI [of _ "next_fd k2"]) (simp add: kernel_ok_def)
qed

text \<open>Three descriptors are in use and nothing fails.\<close>

definition sample_kernel :: kernel where
  "sample_kernel = \<lparr>fds = Map.empty, next_fd = 3, names = Map.empty, next_conn = 0, faults = []\<rparr>"

lemma create_socket_outcome_witness:
  "case create_socket sample_kernel of
     (Inr s, k') \<Rightarrow> s = int (next_fd sample_kernel) \<and>
       fds k' = (fds sample_kernel)(next_fd sample_kernel \<mapsto> \<lparr>sock = Listening [], fl = 0\<rparr>) \<and>
       names k' = (names sample_kernel)(socket_name \<mapsto> next_fd sample_kernel)
   | (Inl e, k') \<Rightarrow> if e = ''Error opening socket on server-side'' then fds k' = fds sample_kernel
       else fds sample_kernel (next_fd sample_kernel) = None \<and> fds k' (next_fd sample_kernel) \<noteq> None \<and>
         (\<forall>n. n \<noteq> next_fd sample_kernel \<longrightarrow> fds k' n = fds sample_kernel n)"
  by (rule create_socket_outcome) (simp add: kernel_ok_def sample_kernel_def)

lemma sample_sockets:
  "\<exists>k1. create_socket sample_kernel = (Inr 3, k1) \<and> (\<exists>k2. create_connection k1 = (Inr 4, k2) \<and>
     (\<exists>k3. accept_connection k2 3 = Some (Inr 5, k3)))"
  by (simp add: create_socket_def sys_socket_def fault_def open_fd_def setup_socket_def sys_remove_def sys_bind_def sys_listen_def
      fd_of_def put_fd_def create_connection_def client_setup_socket_def client_set_io_flag_def set_io_flag_def sys_getfl_def
      sys_setfl_def sys_connect_def sample_kernel_def accept_connection_def sys_accept_def)

lemma connection_established_witness:
  "\<exists>k1 k2 r k3. create_socket sample_kernel = (Inr 3, k1) \<and> create_connection k1 = (Inr 4, k2) \<and>
    accept_connection k2 3 = Some (r, k3) \<and>
    (\<forall>a. r = Inr a \<longrightarrow> (\<exists>n. fds k3 (nat a) = Some \<lparr>sock = Server_End n, fl = O_NONBLOCK\<rparr> \<and>
       fds k3 (nat 4) = Some \<lparr>sock = Client_End n, fl = O_NONBLOCK\<rparr>) \<and> fds k3 (nat 3) = None \<and>
       (\<forall>m. m \<notin> {nat a, nat 4, nat 3} \<longrightarrow> fds k3 m = fds sample_kernel m))"
proof -
  obtain k1 k2 where k: "create_socket sample_kernel = (Inr 3, k1)" "create_connection k1 = (Inr 4, k2)"
    using sample_sockets by blast
  have "kernel_ok sample_kernel" by (simp add: kernel_ok_def sample_kernel_def)
  from connection_established [OF this k] show ?thesis using k by blast
qed

end
