(* ===== verification/Threads.thy ===== *)
theory Threads
  imports Prelude
begin

text \<open>
  \<open>RAIIthread\<close> (\<open>examples/network/src/raii_thread.h\<close>): a movable owner of a \<open>std::thread\<close> that
  joins it when it is destroyed or assigned to.
\<close>

section \<open>Threads and owners\<close>

text \<open>
  A \<open>std::thread\<close> is the number of the thread it stands for, none when it is not joinable.
  Joining what is not joinable throws, and destroying what is joinable ends the program:
  both are none.  The state of the system is the list of the threads that have been joined.
\<close>

type_synonym std_thread = "nat option"

definition thread_join :: "std_thread \<Rightarrow> nat list \<Rightarrow> (std_thread \<times> nat list) option" where
  "thread_join t joined = (case t of None \<Rightarrow> None | Some i \<Rightarrow> Some (None, joined @ [i]))"

definition thread_destroy :: "std_thread \<Rightarrow> nat list \<Rightarrow> nat list option" where
  "thread_destroy t joined = (if t = None then Some joined else None)"

record thread_bundle =
  b_thread :: std_thread
  b_joinable :: bool

definition bundle_new :: "std_thread \<Rightarrow> thread_bundle" where
  "bundle_new t = \<lparr>b_thread = t, b_joinable = (t \<noteq> None)\<rparr>"

definition bundle_join :: "thread_bundle \<Rightarrow> nat list \<Rightarrow> (thread_bundle \<times> nat list) option" where
  "bundle_join b joined = do {
     (t, joined) \<leftarrow> (if b_joinable b \<and> b_thread b \<noteq> None then thread_join (b_thread b) joined else Some (b_thread b, joined));
     Some (b\<lparr>b_thread := t, b_joinable := False\<rparr>, joined)
   }"

definition bundle_destroy :: "thread_bundle \<Rightarrow> nat list \<Rightarrow> nat list option" where
  "bundle_destroy b joined = do {
     (b, joined) \<leftarrow> bundle_join b joined;
     thread_destroy (b_thread b) joined
   }"

text \<open>The owner is the pointer \<open>bundle_\<close>; \<open>reset\<close> destroys what it points to.\<close>

type_synonym raii_thread = "thread_bundle option"

definition raii_new :: "std_thread \<Rightarrow> raii_thread" where
  "raii_new move_thread = Some (bundle_new move_thread)"

definition bundle_reset :: "raii_thread \<Rightarrow> nat list \<Rightarrow> nat list option" where
  "bundle_reset r joined = (case r of None \<Rightarrow> Some joined | Some b \<Rightarrow> bundle_destroy b joined)"

definition raii_join :: "raii_thread \<Rightarrow> nat list \<Rightarrow> (raii_thread \<times> nat list) option" where
  "raii_join r joined = (case r of None \<Rightarrow> Some (None, joined)
   | Some b \<Rightarrow> do {
       (b, joined) \<leftarrow> bundle_join b joined;
       joined \<leftarrow> bundle_reset (Some b) joined;
       Some (None, joined)
     })"

definition raii_destroy :: "raii_thread \<Rightarrow> nat list \<Rightarrow> nat list option" where
  "raii_destroy r joined = do { (r, joined) \<leftarrow> raii_join r joined; bundle_reset r joined }"

definition move_bundle :: "raii_thread \<Rightarrow> raii_thread \<times> raii_thread" where
  "move_bundle other = (other, None)"

definition raii_assign :: "raii_thread \<Rightarrow> raii_thread \<Rightarrow> nat list \<Rightarrow> (raii_thread \<times> raii_thread \<times> nat list) option" where
  "raii_assign r other joined = do {
     (r, joined) \<leftarrow> raii_join r joined;
     let (b, other) = move_bundle other;
     joined \<leftarrow> bundle_reset r joined;
     Some (b, other, joined)
   }"

section \<open>Programs with owners\<close>

text \<open>
  The operations of a program on its variables: an owner is made of a new thread (or of a
  \<open>std::thread\<close> that stands for none), by default or by moving another one, it is assigned to,
  joined and destroyed.
\<close>

datatype thread_action = Start nat bool | Default nat | Move_New nat nat | Move_Assign nat nat | Join nat | Destroy nat

record threads =
  owners :: "nat \<Rightarrow> raii_thread option"
  started :: nat
  joined :: "nat list"

fun thread_op :: "thread_action \<Rightarrow> threads \<Rightarrow> threads option" where
  "thread_op (Start v real) s =
     Some (s\<lparr>owners := (owners s)(v \<mapsto> raii_new (if real then Some (started s) else None)),
       started := started s + (if real then 1 else 0)\<rparr>)"
| "thread_op (Default v) s = Some (s\<lparr>owners := (owners s)(v \<mapsto> None)\<rparr>)"
| "thread_op (Move_New v u) s = do {
     other \<leftarrow> owners s u;
     let (b, other) = move_bundle other;
     Some (s\<lparr>owners := (owners s)(u \<mapsto> other, v \<mapsto> b)\<rparr>)
   }"
| "thread_op (Move_Assign v u) s = do {
     r \<leftarrow> owners s v;
     other \<leftarrow> owners s u;
     if v = u then Some s else do {
       (r, other, j) \<leftarrow> raii_assign r other (joined s);
       Some (s\<lparr>owners := (owners s)(v \<mapsto> r, u \<mapsto> other), joined := j\<rparr>)
     }
   }"
| "thread_op (Join v) s = do {
     r \<leftarrow> owners s v;
     (r, j) \<leftarrow> raii_join r (joined s);
     Some (s\<lparr>owners := (owners s)(v \<mapsto> r), joined := j\<rparr>)
   }"
| "thread_op (Destroy v) s = do {
     r \<leftarrow> owners s v;
     j \<leftarrow> raii_destroy r (joined s);
     Some (s\<lparr>owners := (owners s)(v := None), joined := j\<rparr>)
   }"

fun thread_ops :: "thread_action list \<Rightarrow> threads \<Rightarrow> threads option" where
  "thread_ops [] s = Some s"
| "thread_ops (x # xs) s = do { s \<leftarrow> thread_op x s; thread_ops xs s }"

text \<open>The rules of scope: what is used exists, what is made does not.\<close>

fun scoped_op :: "thread_action \<Rightarrow> nat set \<Rightarrow> bool" where
  "scoped_op (Start v real) live \<longleftrightarrow> v \<notin> live"
| "scoped_op (Default v) live \<longleftrightarrow> v \<notin> live"
| "scoped_op (Move_New v u) live \<longleftrightarrow> v \<notin> live \<and> u \<in> live"
| "scoped_op (Move_Assign v u) live \<longleftrightarrow> v \<in> live \<and> u \<in> live"
| "scoped_op (Join v) live \<longleftrightarrow> v \<in> live"
| "scoped_op (Destroy v) live \<longleftrightarrow> v \<in> live"

fun scope_after :: "thread_action \<Rightarrow> nat set \<Rightarrow> nat set" where
  "scope_after (Start v real) live = insert v live"
| "scope_after (Default v) live = insert v live"
| "scope_after (Move_New v u) live = insert v live"
| "scope_after (Destroy v) live = live - {v}"
| "scope_after _ live = live"

fun scoped :: "thread_action list \<Rightarrow> nat set \<Rightarrow> bool" where
  "scoped [] live \<longleftrightarrow> True"
| "scoped (x # xs) live \<longleftrightarrow> scoped_op x live \<and> scoped xs (scope_after x live)"

section \<open>Every thread is joined once\<close>

text \<open>The thread an owner has to join.\<close>

definition holds :: "raii_thread \<Rightarrow> nat option" where
  "holds r = (case r of None \<Rightarrow> None | Some b \<Rightarrow> b_thread b)"

text \<open>A bundle that may be destroyed: it knows that its thread is joinable.\<close>

definition raii_ok :: "raii_thread \<Rightarrow> bool" where
  "raii_ok r = (case r of None \<Rightarrow> True | Some b \<Rightarrow> b_joinable b = (b_thread b \<noteq> None))"

lemma raii_new_ok [simp]: "raii_ok (raii_new t)" "holds (raii_new t) = t" "raii_ok None" "holds None = None"
  by (simp_all add: raii_ok_def holds_def raii_new_def bundle_new_def)

lemma raii_join_eq:
  "raii_ok r \<Longrightarrow> raii_join r j = Some (None, j @ (case holds r of None \<Rightarrow> [] | Some i \<Rightarrow> [i]))"
  by (auto simp: raii_ok_def holds_def raii_join_def bundle_join_def thread_join_def bundle_reset_def bundle_destroy_def
      thread_destroy_def split: option.splits)

lemma raii_destroy_eq:
  "raii_ok r \<Longrightarrow> raii_destroy r j = Some (j @ (case holds r of None \<Rightarrow> [] | Some i \<Rightarrow> [i]))"
  by (simp add: raii_destroy_def raii_join_eq bundle_reset_def)

lemma raii_assign_eq:
  "raii_ok r \<Longrightarrow> raii_assign r other j = Some (other, None, j @ (case holds r of None \<Rightarrow> [] | Some i \<Rightarrow> [i]))"
  by (simp add: raii_assign_def raii_join_eq bundle_reset_def move_bundle_def)

text \<open>
  The invariant: every thread that was started is either joined, once, or held by exactly one
  owner that is alive.
\<close>

definition held :: "threads \<Rightarrow> nat \<Rightarrow> nat option" where
  "held s v = (case owners s v of None \<Rightarrow> None | Some r \<Rightarrow> holds r)"

definition tracked :: "(nat \<Rightarrow> nat option) \<Rightarrow> nat \<Rightarrow> nat list \<Rightarrow> bool" where
  "tracked h n js \<longleftrightarrow> distinct js \<and> (\<forall>i. i < n \<longleftrightarrow> i \<in> set js \<or> (\<exists>v. h v = Some i)) \<and>
     (\<forall>v i. h v = Some i \<longrightarrow> i \<notin> set js) \<and> (\<forall>v u i. h v = Some i \<and> h u = Some i \<longrightarrow> v = u)"

definition threads_ok :: "threads \<Rightarrow> bool" where
  "threads_ok s \<longleftrightarrow> (\<forall>v r. owners s v = Some r \<longrightarrow> raii_ok r) \<and> tracked (held s) (started s) (joined s)"

definition joins :: "nat option \<Rightarrow> nat list" where
  "joins t = (case t of None \<Rightarrow> [] | Some i \<Rightarrow> [i])"

lemma tracked_start: "tracked h n js \<Longrightarrow> h v = None \<Longrightarrow> tracked (h(v \<mapsto> n)) (Suc n) js"
proof -
  assume t: "tracked h n js" and v: "h v = None"
  have ex: "(\<exists>w. (h(v \<mapsto> n)) w = Some i) \<longleftrightarrow> i = n \<or> (\<exists>w. h w = Some i)" for i
    using v by (metis fun_upd_apply option.inject option.distinct(1))
  have "n \<notin> set js" "h w \<noteq> Some n" for w using t unfolding tracked_def by blast+
  then show ?thesis using t ex unfolding tracked_def by (simp add: less_Suc_eq) blast
qed

lemma tracked_move:
  assumes "tracked h n js" "h v = None" "v \<noteq> u"
  shows "tracked (h(u := None, v := h u)) n js"
proof -
  have "(\<exists>w. (h(u := None, v := h u)) w = Some i) \<longleftrightarrow> (\<exists>w. h w = Some i)" for i
    using assms(2,3) by (metis fun_upd_apply option.distinct(1))
  then show ?thesis using assms unfolding tracked_def by (auto split: if_splits)
qed

lemma tracked_join:
  assumes "tracked h n js"
  shows "tracked (h(v := None)) n (js @ joins (h v))"
proof (cases "h v")
  case None
  then show ?thesis using assms by (simp add: joins_def fun_upd_idem)
next
  case (Some i)
  have "(\<exists>w. (h(v := None)) w = Some j) \<longleftrightarrow> (\<exists>w. h w = Some j) \<and> j \<noteq> i" for j
    using assms Some unfolding tracked_def by (metis fun_upd_apply option.inject option.distinct(1))
  then show ?thesis using assms Some unfolding tracked_def joins_def by (auto split: if_splits)
qed

lemma held_upd:
  "held (s\<lparr>owners := (owners s)(v := r)\<rparr>) = (held s)(v := Option.bind r holds)"
  "held (s\<lparr>joined := j\<rparr>) = held s" "held (s\<lparr>started := n\<rparr>) = held s"
  by (auto simp: held_def fun_eq_iff split: option.splits)

lemma raii_steps:
  assumes "threads_ok s" "owners s v = Some r"
  shows "raii_join r j = Some (None, j @ joins (held s v))" "raii_destroy r j = Some (j @ joins (held s v))"
    "raii_assign r other j = Some (other, None, j @ joins (held s v))"
  using assms raii_join_eq raii_destroy_eq raii_assign_eq by (simp_all add: threads_ok_def held_def joins_def)

lemma thread_op_ok:
  assumes "threads_ok s" "scoped_op x (dom (owners s))"
  shows "\<exists>s'. thread_op x s = Some s' \<and> threads_ok s' \<and> dom (owners s') = scope_after x (dom (owners s))"
proof -
  have ok: "\<And>v r. owners s v = Some r \<Longrightarrow> raii_ok r" "tracked (held s) (started s) (joined s)"
    using assms(1) by (auto simp: threads_ok_def)
  note st = raii_steps [OF assms(1)]
  show ?thesis
  proof (cases x)
    case (Start v real)
    then have "held s v = None" using assms(2) by (auto simp: held_def split: option.splits)
    then show ?thesis using Start ok tracked_start [OF ok(2), of v]
      by (auto simp: threads_ok_def held_upd fun_upd_idem)
  next
    case (Default v)
    then have "held s v = None" using assms(2) by (auto simp: held_def split: option.splits)
    then show ?thesis using Default ok by (auto simp: threads_ok_def held_upd fun_upd_idem)
  next
    case (Move_New v u)
    then have n: "owners s v = None" "v \<noteq> u" and u: "\<exists>b. owners s u = Some b" using assms(2) by auto
    then obtain b where b: "owners s u = Some b" "held s u = holds b" "v \<noteq> u" "held s v = None"
      by (auto simp: held_def)
    then have "held (s\<lparr>owners := (owners s)(u \<mapsto> None, v \<mapsto> b)\<rparr>) = (held s)(u := None, v := held s u)"
      by (auto simp: held_def fun_eq_iff)
    then show ?thesis using Move_New b ok tracked_move [OF ok(2) b(4,3)]
      by (auto simp: threads_ok_def move_bundle_def)
  next
    case (Move_Assign v u)
    then obtain r b where b: "owners s v = Some r" "owners s u = Some b" "held s u = holds b" "held s v = holds r"
      using assms(2) by (auto simp: held_def)
    show ?thesis
    proof (cases "v = u")
      case False
      let ?s = "s\<lparr>owners := (owners s)(v \<mapsto> b, u \<mapsto> None), joined := joined s @ joins (held s v)\<rparr>"
      have "held ?s = (held s)(v := None, u := None, v := held s u)" using b False by (auto simp: held_def fun_eq_iff)
      moreover have "tracked ((held s)(v := None, u := None, v := held s u)) (started s) (joined s @ joins (held s v))"
        using tracked_move [OF tracked_join [OF ok(2), of v], of v u] False by simp
      ultimately have "threads_ok ?s" using ok(1) b(2) by (auto simp: threads_ok_def)
      then show ?thesis using Move_Assign False b st(3) [OF b(1)] by auto
    qed (use Move_Assign assms b in auto)
  next
    case (Join v)
    then obtain r where r: "owners s v = Some r" using assms(2) by auto
    have "held (s\<lparr>owners := (owners s)(v \<mapsto> None), joined := joined s @ joins (held s v)\<rparr>) = (held s)(v := None)"
      by (auto simp: held_def fun_eq_iff)
    then have "threads_ok (s\<lparr>owners := (owners s)(v \<mapsto> None), joined := joined s @ joins (held s v)\<rparr>)"
      using ok(1) tracked_join [OF ok(2), of v] by (simp add: threads_ok_def)
    then show ?thesis using Join r st(1) [OF r] by auto
  next
    case (Destroy v)
    then obtain r where r: "owners s v = Some r" using assms(2) by auto
    have "held (s\<lparr>owners := (owners s)(v := None), joined := joined s @ joins (held s v)\<rparr>) = (held s)(v := None)"
      by (auto simp: held_def fun_eq_iff)
    then have "threads_ok (s\<lparr>owners := (owners s)(v := None), joined := joined s @ joins (held s v)\<rparr>)"
      using ok(1) tracked_join [OF ok(2), of v] by (simp add: threads_ok_def)
    then show ?thesis using Destroy r st(2) [OF r] by auto
  qed
qed

lemma thread_ops_ok:
  assumes "threads_ok s" "scoped xs (dom (owners s))"
  shows "\<exists>s'. thread_ops xs s = Some s' \<and> threads_ok s'"
  using assms
proof (induction xs arbitrary: s)
  case (Cons x xs)
  then obtain s1 where "thread_op x s = Some s1" "threads_ok s1" "scoped xs (dom (owners s1))"
    using thread_op_ok [of s x] by auto
  then show ?case using Cons.IH by auto
qed simp

text \<open>
  C40: whatever a program does with owners of threads within the rules of scope (starting
  threads, moving, assigning, joining and destroying owners, in any order), it never joins
  what cannot be joined and never destroys a thread that is still to be joined; no thread is
  joined twice, and when no owner is alive any more every thread that was started has been.
\<close>

theorem threads_joined_once:
  assumes "scoped ops {}"
  shows "\<exists>s. thread_ops ops \<lparr>owners = Map.empty, started = 0, joined = []\<rparr> = Some s \<and>
    distinct (joined s) \<and> set (joined s) \<subseteq> {..<started s} \<and>
    (owners s = Map.empty \<longrightarrow> set (joined s) = {..<started s})"
proof -
  let ?s = "\<lparr>owners = Map.empty, started = 0, joined = []\<rparr>"
  have "threads_ok ?s" "scoped ops (dom (owners ?s))"
    using assms by (simp_all add: threads_ok_def tracked_def held_def)
  from thread_ops_ok [OF this] obtain s where s: "thread_ops ops ?s = Some s" "threads_ok s" by blast
  then have t: "tracked (held s) (started s) (joined s)" by (simp add: threads_ok_def)
  have "set (joined s) = {..<started s}" if "owners s = Map.empty"
  proof -
    have "held s v = None" for v using that by (simp add: held_def)
    then show ?thesis using t unfolding tracked_def by auto
  qed
  then show ?thesis using s(1) t unfolding tracked_def by auto
qed

text \<open>A thread handed over by assignment, as the server does in its constructor, and joined by \<open>stop\<close>.\<close>

lemma threads_joined_once_witness:
  "\<exists>s. thread_ops [Default 0, Start 1 True, Move_Assign 0 1, Destroy 1, Join 0, Destroy 0]
      \<lparr>owners = Map.empty, started = 0, joined = []\<rparr> = Some s \<and>
    distinct (joined s) \<and> set (joined s) \<subseteq> {..<started s} \<and>
    (owners s = Map.empty \<longrightarrow> set (joined s) = {..<started s})"
  by (rule threads_joined_once) simp

end
