(* ===== verification/Server_Thread.thy ===== *)
theory Server_Thread
  imports Server_Loop Sockets Threads
begin

text \<open>
  The thread of \<open>SocketServer\<close> from its start to its end (\<open>socket_server.h\<close>): the constructor,
  \<open>server_loop\<close> with the connection it accepts and the flag that stops it, and \<open>stop\<close>.
\<close>

section \<open>The thread function\<close>

text \<open>
  Over a sequence of rounds the loop goes on, ends because the flag is no longer set, or the
  function returns from inside it.  Each round says whether \<open>stop\<close> has cleared the flag
  before the loop tests it, and how the kernel answers the reads and writes of the round.
\<close>

datatype loop_end = Goes_On | Flag_Cleared | Returns

fun serve :: "nat \<Rightarrow> converters \<Rightarrow> (bool \<times> rcall list \<times> wcall list) list \<Rightarrow> server \<Rightarrow> bool \<Rightarrow> dson \<Rightarrow> kvmap \<Rightarrow> rfd \<Rightarrow>
    (loop_end \<times> server \<times> dson \<times> kvmap \<times> rfd) option" where
  "serve n cv [] sv need_set_route d kv fd = Some (Goes_On, sv, d, kv, fd)"
| "serve n cv ((stopped, reads, writes) # calls) sv need_set_route d kv fd = (
     let sv = (if stopped then sv\<lparr>keep_run := False\<rparr> else sv) in
     if \<not> keep_run sv then Some (Flag_Cleared, sv, d, kv, fd)
     else do {
       (go, sv, need_set_route, d, kv, fd) \<leftarrow> server_round n cv
          (sv\<lparr>connection := (connection sv)\<lparr>w_script := writes\<rparr>\<rparr>) need_set_route d kv (fd\<lparr>r_script := reads\<rparr>);
       if go \<or> \<not> keep_run sv then serve n cv calls sv need_set_route d kv fd
       else Some (Returns, sv, d, kv, fd)
     })"

text \<open>The end of the scope: the queue is destroyed, then \<open>dson\<close>.\<close>

fun deque_destroy :: "mem \<Rightarrow> dson_obj list \<Rightarrow> mem option" where
  "deque_destroy m [] = Some m"
| "deque_destroy m (obj # q) = do { m \<leftarrow> obj_destroy m obj; deque_destroy m q }"

definition leave_scope :: "server \<Rightarrow> dson \<Rightarrow> kvmap \<Rightarrow> server option" where
  "leave_scope sv d kv = do {
     m \<leftarrow> deque_destroy (sv_mem sv) (write_deque sv);
     m \<leftarrow> obj_destroy m (ObjDson d kv);
     Some (sv\<lparr>sv_mem := m, write_deque := []\<rparr>)
   }"

text \<open>
  How the function ends: it still waits in \<open>accept\<close>, an exception leaves it (which ends the
  program), it has returned with or without closing the connection, or it still runs.
\<close>

datatype thread_end = Waits | Uncaught string kernel | Left_Open kernel server | Closed kernel server | Runs kernel server

definition server_thread :: "nat \<Rightarrow> converters \<Rightarrow> kernel \<Rightarrow> int \<Rightarrow> (bool \<times> rcall list \<times> wcall list) list \<Rightarrow> server \<Rightarrow> byte list \<Rightarrow>
    thread_end option" where
  "server_thread n cv k socket calls sv input = (case accept_connection k socket of
     None \<Rightarrow> Some Waits
   | Some (Inl e, k) \<Rightarrow> Some (Uncaught e k)
   | Some (Inr conn, k) \<Rightarrow>
       if conn < 0 then Some (Left_Open k sv) else do {
         (m, dson) \<leftarrow> dson_new (sv_mem sv);
         (e, sv, d, kv, fd) \<leftarrow> serve n cv calls (sv\<lparr>sv_mem := m\<rparr>) True dson [] \<lparr>r_script = [], r_data = input\<rparr>;
         (case e of
            Goes_On \<Rightarrow> Some (Runs k sv)
          | Flag_Cleared \<Rightarrow> do { sv \<leftarrow> leave_scope sv d kv; Some (Closed (sys_close k conn) sv) }
          | Returns \<Rightarrow> do { sv \<leftarrow> leave_scope sv d kv; Some (Left_Open k sv) })
       })"

section \<open>The object\<close>

text \<open>
  The constructor (\<open>worker\<close> is the member, \<open>tmp\<close> the temporary that is assigned to it) and
  \<open>stop\<close>; a member that was made is destroyed when the constructor throws.
\<close>

definition server_new :: "nat \<Rightarrow> nat \<Rightarrow> kernel \<Rightarrow> threads \<Rightarrow> ((string + int) \<times> kernel \<times> threads) option" where
  "server_new worker tmp k th = do {
     th \<leftarrow> thread_op (Default worker) th;
     (case create_socket k of
        (Inl e, k) \<Rightarrow> do { th \<leftarrow> thread_op (Destroy worker) th; Some (Inl e, k, th) }
      | (Inr socket, k) \<Rightarrow> do {
          th \<leftarrow> thread_ops [Start tmp True, Move_Assign worker tmp, Destroy tmp] th;
          Some (Inr socket, k, th)
        })
   }"

definition server_stop :: "nat \<Rightarrow> server \<Rightarrow> threads \<Rightarrow> (server \<times> threads) option" where
  "server_stop worker sv th = do { th \<leftarrow> thread_op (Join worker) th; Some (sv\<lparr>keep_run := False\<rparr>, th) }"

section \<open>The end of the loop\<close>

lemma deque_destroy_frees:
  "queued m q \<Longrightarrow> deque_destroy m q = Some (free_blocks m (deque_blocks q))"
proof (induction q arbitrary: m)
  case (Cons obj q)
  then have q: "obj_owned m obj" "distinct (obj_blocks obj)" "set (obj_blocks obj) \<inter> set (deque_blocks q) = {}" "queued m q"
    by (simp_all add: queued_Cons)
  have "\<forall>b \<in> set (deque_blocks q). heap (free_blocks m (obj_blocks obj)) b = heap m b" using q(3) by auto
  from queued_frame(1) [OF this] have "queued (free_blocks m (obj_blocks obj)) q" using q(4) by simp
  then show ?case using Cons.IH obj_destroy_frees [OF q(1,2)] by (simp add: free_blocks_append)
qed simp

text \<open>Whatever part of a message has arrived, the object it is loaded into can be destroyed.\<close>

lemma own_blocks_distinct [simp]: "distinct (own_blocks d)"
  by (cases "d_was_alloc d"; cases "d_buf d") (simp_all add: own_blocks_def)

lemma loading_owned:
  "loading h dat (m, d, kv) rest \<Longrightarrow> obj_owned m (ObjDson d kv) \<and> distinct (obj_blocks (ObjDson d kv))"
  by (cases "d_state d") (auto simp: loading_def header_part_def data_part_def can_load_def own_blocks_simps)

lemma idle_owned:
  "idle m d kv \<Longrightarrow> obj_owned m (ObjDson d kv) \<and> distinct (obj_blocks (ObjDson d kv))"
  by (auto simp: idle_def can_load_def own_blocks_simps split: if_splits)

lemma leave_scope_ok:
  assumes "at_work c rs sv need d kv fd"
  shows "leave_scope (sv\<lparr>keep_run := go\<rparr>) d kv = Some (sv\<lparr>keep_run := go, sv_mem := free_blocks (sv_mem sv) (deque_blocks (write_deque sv) @ obj_blocks (ObjDson d kv)),
      write_deque := []\<rparr>)"
proof -
  have w: "queued (sv_mem sv) (write_deque sv)" "expecting rs (sv_mem sv) d kv fd"
    "set (obj_blocks (ObjDson d kv)) \<inter> set (deque_blocks (write_deque sv)) = {}"
    using assms by (simp_all add: at_work_def serving_def server_ok_def)
  let ?m = "free_blocks (sv_mem sv) (deque_blocks (write_deque sv))"
  have o: "obj_owned (sv_mem sv) (ObjDson d kv)" "distinct (obj_blocks (ObjDson d kv))"
    using w(2) loading_owned idle_owned by (cases rs; fastforce simp: expecting_def simp del: obj_owned.simps obj_blocks.simps)+
  have "obj_owned ?m (ObjDson d kv)" using o(1) w(3) by (subst obj_owned_frame [of _ _ "sv_mem sv"]) auto
  then show ?thesis
    using deque_destroy_frees [OF w(1)] obj_destroy_frees o(2) by (simp add: leave_scope_def free_blocks_append del: obj_destroy.simps obj_owned.simps obj_blocks.simps)
qed

lemma serve_stops:
  assumes "at_work c rs sv need d kv fd" "\<forall>(reads, writes) \<in> set calls. soft_reads reads \<and> soft writes"
  shows "\<exists>sv' need' d' kv' fd' gone rs'. at_work c rs' sv' need' d' kv' fd' \<and> rs = gone @ rs' \<and>
    serve 2 lib_converters (map (Pair False) calls @ (True, rw) # after) sv need d kv fd =
      Some (Flag_Cleared, sv'\<lparr>keep_run := False\<rparr>, d', kv', fd') \<and>
    outgoing sv' = outgoing sv @ replies (chunk_ids sv) gone"
  using assms
proof (induction calls arbitrary: rs sv need d kv fd)
  case Nil
  then show ?case by (cases rw)
    (intro exI [of _ sv] exI [of _ need] exI [of _ d] exI [of _ kv] exI [of _ fd] exI [of _ "[]"] exI [of _ rs], simp)
next
  case (Cons call calls)
  obtain reads writes where call: "call = (reads, writes)" by (cases call)
  let ?sv = "sv\<lparr>connection := (connection sv)\<lparr>w_script := writes\<rparr>\<rparr>" and ?fd = "fd\<lparr>r_script := reads\<rparr>"
  have soft: "soft_reads reads" "soft writes" using Cons.prems(2) call by auto
  have k: "keep_run sv" using Cons.prems(1) by (simp add: at_work_def serving_def)
  have "soft_reads (r_script ?fd)" using soft by simp
  from round_good [OF at_work_scripts [OF Cons.prems(1) soft(2), of reads] this]
  obtain sv1 need1 d1 kv1 fd1 gone1 rs1 where r: "server_round 2 lib_converters ?sv need d kv ?fd = Some (True, sv1, need1, d1, kv1, fd1)"
    "at_work c rs1 sv1 need1 d1 kv1 fd1" "rs = gone1 @ rs1" "chunk_ids sv1 = counted (chunk_ids sv) gone1"
    "outgoing sv1 = outgoing sv @ replies (chunk_ids sv) gone1"
    by (auto simp: outgoing_def)
  have "\<forall>(reads, writes) \<in> set calls. soft_reads reads \<and> soft writes" using Cons.prems(2) by simp
  from Cons.IH [OF r(2) this] obtain sv' need' d' kv' fd' gone2 rs' where
    "at_work c rs' sv' need' d' kv' fd'" "rs1 = gone2 @ rs'"
    "serve 2 lib_converters (map (Pair False) calls @ (True, rw) # after) sv1 need1 d1 kv1 fd1 =
      Some (Flag_Cleared, sv'\<lparr>keep_run := False\<rparr>, d', kv', fd')"
    "outgoing sv' = outgoing sv1 @ replies (chunk_ids sv1) gone2" by blast
  then show ?case using r call k
    by (intro exI [of _ sv'] exI [of _ need'] exI [of _ d'] exI [of _ kv'] exI [of _ fd'] exI [of _ "gone1 @ gone2"] exI [of _ rs'])
      (simp add: replies_append)
qed

lemma idle_new:
  "mem_ok m \<Longrightarrow> idle m (dson_fields (host_hdr 0 0 (types_map T_Empty))) []"
  by (simp add: idle_def can_load_def dson_fields_def header_loc_def own_blocks_def)


text \<open>
  Without a client the thread waits in \<open>accept\<close>, whatever \<open>stop\<close> does, and \<open>stop\<close> waits for the
  thread.
\<close>

lemma server_waits_for_client:
  assumes "kernel_ok k" "create_socket k = (Inr s, k1)" "faults k1 = []"
  shows "server_thread n cv k1 s calls sv input = Some Waits"
proof -
  have "fds k1 (next_fd k) = Some \<lparr>sock = Listening [], fl = 0\<rparr>" "s = int (next_fd k)"
    using create_socket_result [OF assms(1)] assms(2) by auto
  moreover have "fault k1 = (False, k1)" using assms(3) by (simp add: fault_def)
  ultimately show ?thesis by (simp add: server_thread_def accept_connection_def sys_accept_def)
qed

text \<open>A constructed server has one thread, and \<open>stop\<close> joins it.\<close>

lemma server_joined:
  assumes "server_new worker tmp k \<lparr>owners = Map.empty, started = 0, joined = []\<rparr> = Some (Inr s, k', th)" "worker \<noteq> tmp"
  shows "\<exists>th'. server_stop worker sv th = Some (sv\<lparr>keep_run := False\<rparr>, th') \<and> started th' = 1 \<and> joined th' = [0]"
proof -
  have "started th = 1 \<and> joined th = [] \<and> owners th worker = Some (raii_new (Some 0))"
    using assms
    by (auto simp: server_new_def raii_assign_eq raii_destroy_eq raii_new_ok split: prod.splits sum.splits)
  then show ?thesis by (simp add: server_stop_def raii_join_eq)
qed

end
