(* ===== verification/Network_Samples.thy ===== *)
theory Network_Samples
  imports Client Server_Thread
begin

text \<open>
  The properties of the router, the server and the services at concrete messages: a request
  that has arrived, the server of \<open>star_routing\<close> with one client connected.
\<close>

section \<open>Messages\<close>

definition sample_address :: address where
  "sample_address = \<lparr>from_serv_id = 0, from_cli_id = 12345, to_serv_id = 0, to_cli_id = 7\<rparr>"

definition bounce_address :: address where
  "bounce_address = \<lparr>from_serv_id = 0, from_cli_id = 8, to_serv_id = 0, to_cli_id = 7\<rparr>"

definition sample_text :: "byte list \<times> byte list" where
  "sample_text = (host_hdr 2 6 (types_map T_string), [104, 105])"

definition sample_request :: "address \<Rightarrow> (byte list \<times> byte list) list" where
  "sample_request a = [] @ (hdr_for True 16 0 (types_map T_vector_uint32), addr_bytes True a) # [sample_text]"

abbreviation "request_hdr \<equiv> hdr_for True 50 3 (types_map T_DsonContainer)"

lemma sample_request_fields:
  "hdr_field request_hdr 2 = net_key_id SimpleData" "hdr_field request_hdr 3 = types_map T_DsonContainer"
  "hdr_field (fst sample_text) 2 = net_key_id StringData" "hdr_field (fst sample_text) 3 = types_map T_string"
  "hdr_field (fst sample_text) (Suc 0) = 2"
  "hdr_field (hdr_for True 16 0 (types_map T_vector_uint32)) (Suc 0) = 16"
  "hdr_field (hdr_for True 16 0 (types_map T_vector_uint32)) 2 = 0"
proof -
  have i: "i32_ok 50" "i32_ok 3" "i32_ok 2" "i32_ok 6" "i32_ok 16" "i32_ok 0" by (simp_all add: i32_ok_iff)
  show "hdr_field request_hdr 2 = net_key_id SimpleData" "hdr_field request_hdr 3 = types_map T_DsonContainer"
    "hdr_field (fst sample_text) 2 = net_key_id StringData" "hdr_field (fst sample_text) 3 = types_map T_string"
    "hdr_field (fst sample_text) (Suc 0) = 2"
    "hdr_field (hdr_for True 16 0 (types_map T_vector_uint32)) (Suc 0) = 16"
    "hdr_field (hdr_for True 16 0 (types_map T_vector_uint32)) 2 = 0"
    using i hdr_field_for [of _ True] hdr_field_for [of _ False] by (simp_all add: sample_text_def hdr_for_def)
qed

lemma sample_request_ok:
  "\<forall>e \<in> set (sample_request a). entry_ok e" "distinct (map (\<lambda>e. hdr_field (fst e) 2) (sample_request a))"
  "length (entries_wire (sample_request a)) = 50"
  using sample_request_fields
  by (simp_all add: sample_request_def entry_ok_def max_dson_ram_size_def) (simp_all add: sample_text_def)

definition request_mem :: "address \<Rightarrow> mem" where
  "request_mem a = \<lparr>heap = [0 \<mapsto> entries_wire (sample_request a)], next_block = 1, malloc_limit = 1000,
     malloc_fill = (\<lambda>_. 0)\<rparr>"

definition request_dson :: dson where
  "request_dson = (dson_fields request_hdr)
     \<lparr>d_buf := Some (0, 0), d_was_alloc := True, d_buf_size := 50, d_kind := DataBufNeedParse, d_offset := 50\<rparr>"

lemma request_loaded: "loaded_msg request_hdr (entries_wire (sample_request a)) (request_mem a, request_dson, [])"
proof -
  have "entries_wire (sample_request a) \<noteq> []" using sample_request_ok(3) [of a] by force
  then show ?thesis
    using sample_request_ok(3) [of a] by (simp add: loaded_msg_def request_dson_def request_mem_def dson_fields_def mem_ok_def)
qed

definition sample_server :: "address \<Rightarrow> server" where
  "sample_server a = \<lparr>sv_mem = request_mem a, route_table = star_table(12345 \<mapsto> ToConnection), chunk_ids = (\<lambda>_. 0),
     write_deque = [], connection = \<lparr>w_script = [WrTake 3, WrFail EAGAIN], w_data = []\<rparr>, keep_run = True\<rparr>"

lemma sample_server_ok: "server_ok (sample_server a)" "mem_ok (sv_mem (sample_server a))"
  by (simp_all add: sample_server_def server_ok_def queued_def soft_call_def request_mem_def mem_ok_def)

section \<open>The properties there\<close>

definition sample_routed :: kvmap where
  "sample_routed = [(0, ObjRoute (reply_obj sample_address))]"

lemma sample_routed_ok: "message_ok sample_mem (answer_dson 3) sample_routed" "map_size sample_routed = 32"
  using hdr_for_valid [of False 0 3 "types_map T_DsonContainer"] hdr_field_for(3) [of "types_map T_DsonContainer" False 0 3]
  by (simp_all add: message_ok_def sample_routed_def kv_sorted_def hdr_for_def container_ok_def i32_max_def max_dson_ram_size_def
      header_size_def ro_data_size_def address_size_def)

lemma address_received_witness:
  "\<exists>bytes s. drive (buf_step True) (sample_mem, ObjDson (answer_dson 3) sample_routed) [7, 41] = Some (Ready, bytes, s) \<and>
    (\<forall>portions. concat portions = bytes \<longrightarrow> (\<forall>xs \<in> set portions. xs \<noteq> []) \<longrightarrow>
      (\<exists>m3 d3 kv3 m4 d4 kv4. feed buf_load_step (\<lparr>heap = Map.empty, next_block = 0, malloc_limit = 32,
           malloc_fill = (\<lambda>_. 0)\<rparr>, dson_fields (replicate 16 0), []) portions = Some (Ready, (m3, d3, kv3)) \<and>
         message_address lib_converters 0 m3 d3 kv3 = Some (Some (reply_to sample_address), m4, d4, kv4)))"
proof -
  have k: "(0, ObjRoute (reply_obj sample_address)) \<in> set sample_routed" by (simp add: sample_routed_def)
  have w: "length (obj_wire lib_converters True sample_mem (ObjDson (answer_dson 3) sample_routed)) \<le> sum_list [7, 41]"
    by (simp add: sample_routed_def)
  show ?thesis
    using address_received [OF sample_routed_ok(1) k w, of "\<lparr>heap = Map.empty, next_block = 0, malloc_limit = 32,
           malloc_fill = (\<lambda>_. 0)\<rparr>" "dson_fields (replicate 16 0)" "[]"]
    by (simp add: can_load_def own_blocks_def mem_ok_def dson_fields_def sample_routed_ok(2) header_loc_def)
qed

definition queue_server :: server where
  "queue_server = \<lparr>sv_mem = sample_mem, route_table = Map.empty, chunk_ids = (\<lambda>_. 0),
     write_deque = [], connection = \<lparr>w_script = [WrTake 3, WrFail EAGAIN], w_data = []\<rparr>, keep_run = True\<rparr>"

lemma write_deque_in_order_witness:
  "(\<exists>sv' d'. server_send_dson lib_converters queue_server (answer_dson 3) sample_routed = Some (sv', d', []) \<and>
      server_ok sv' \<and> d_buf d' = None \<and> keep_run sv' = keep_run queue_server \<and>
      outgoing sv' = outgoing queue_server @ obj_wire lib_converters True (sv_mem queue_server) (ObjDson (answer_dson 3) sample_routed)) \<and>
    (\<exists>sv'. send_dson_from_deque lib_converters queue_server = Some sv' \<and> server_ok sv' \<and>
      keep_run sv' = keep_run queue_server \<and> outgoing sv' = outgoing queue_server)"
proof (rule write_deque_in_order)
  show "server_ok queue_server" by (simp add: queue_server_def server_ok_def queued_def soft_call_def)
  show "obj_ok lib_data True (sv_mem queue_server) (ObjDson (answer_dson 3) sample_routed)"
    "distinct (obj_blocks (ObjDson (answer_dson 3) sample_routed))" "obj_rest (ObjDson (answer_dson 3) sample_routed)"
    using message_okD(1-3) [OF sample_routed_ok(1)] by (simp_all only: queue_server_def server.simps)
  show "obj_owned (sv_mem queue_server) (ObjDson (answer_dson 3) sample_routed)"
    "set (obj_blocks (ObjDson (answer_dson 3) sample_routed)) \<inter> set (deque_blocks (write_deque queue_server)) = {}"
    by (simp_all add: sample_routed_def)
qed

lemma echo_text_length: "length (echo_text sample_address [104, 105]) = 31"
  by (simp add: echo_text_def sample_address_def chars_def decimal.simps [of 7] decimal.simps [of 12345]
    decimal.simps [of 1234] decimal.simps [of 123] decimal.simps [of 12] decimal.simps [of "Suc 0"])

lemma echo_answers_sender_witness:
  "\<exists>sv' d' kv'. route 2 lib_converters (sample_server sample_address) request_dson [] = Some (sv', d', kv') \<and>
    server_ok sv' \<and> keep_run sv' \<and> chunk_ids sv' = (\<lambda>_. 0)(7 := 1) \<and>
    outgoing sv' = answer_wire sample_address 1 (echo_text sample_address [104, 105])"
proof -
  let ?sv = "sample_server sample_address"
  have "\<exists>sv' d' kv'. route 2 lib_converters ?sv request_dson [] = Some (sv', d', kv') \<and> server_ok sv' \<and>
    keep_run sv' = keep_run ?sv \<and> chunk_ids sv' = (chunk_ids ?sv)(7 := chunk_ids ?sv 7 + 1) \<and>
    outgoing sv' = outgoing ?sv @ answer_wire sample_address (chunk_ids ?sv 7 + 1) (echo_text sample_address [104, 105])"
    by (rule echo_answers_sender [OF sample_server_ok _ sample_request_fields(1,2) length_hdrs(3)
          sample_request_ok(1,2) [of sample_address, unfolded sample_request_def],
          where s = "[104, 105]" and hs = "fst sample_text"])
      (use request_loaded [of sample_address] sample_request_fields in \<open>simp_all add: sample_server_def sample_request_def
          sample_address_def star_table_def echo_text_length [unfolded sample_address_def] i32_max_def request_mem_def\<close>,
       simp_all add: sample_text_def)
  then show ?thesis by (simp add: sample_server_def outgoing_def)
qed


section \<open>A session\<close>

definition session :: "request list" where
  "session = [\<lparr>rq_key = WantAuth, rq_address = sample_address, rq_text = password\<rparr>,
     \<lparr>rq_key = SimpleData, rq_address = sample_address, rq_text = [104, 105]\<rparr>]"

definition session_calls :: "(rcall list \<times> wcall list) list" where
  "session_calls = [([RdGive 100], []), ([RdGive 7, RdFail EAGAIN], [WrTake 3]), ([RdGive 16, RdGive 200], [WrTake 500])]"

definition fresh_server :: server where
  "fresh_server = \<lparr>sv_mem = \<lparr>heap = Map.empty, next_block = 0, malloc_limit = 1000, malloc_fill = (\<lambda>_. 0)\<rparr>,
     route_table = star_table, chunk_ids = (\<lambda>_. 0), write_deque = [],
     connection = \<lparr>w_script = [], w_data = []\<rparr>, keep_run = True\<rparr>"

lemma fresh_server_serving: "serving 12345 fresh_server True"
  by (simp add: serving_def fresh_server_def server_ok_def queued_def mem_ok_def star_table_def is_service_def)

lemma session_good: "\<forall>r \<in> set session. good_request 12345 (sv_mem fresh_server) r"
proof -
  have d: "decimal 7 = [55]" "length (decimal 12345) = 5"
    by (simp_all add: decimal.simps [of 7] decimal.simps [of 12345]
        decimal.simps [of 1234] decimal.simps [of 123] decimal.simps [of 12] decimal.simps [of "Suc 0"])
  show ?thesis
    by (simp add: session_def good_request_def fits_reply_def sample_address_def fresh_server_def max_dson_ram_size_def
        i32_max_def echo_text_def chars_def password_def d)
qed

lemma server_answers_in_order_witness:
  "\<exists>sv' need' d' kv' fd' answered waiting. server_loop 2 lib_converters session_calls
      fresh_server True (dson_fields (replicate 16 0)) [] \<lparr>r_script = [], r_data = concat (map request_wire session)\<rparr> =
      Some (sv', need', d', kv', fd') \<and>
    keep_run sv' \<and> session = answered @ waiting \<and> (r_data fd' = [] \<longrightarrow> waiting = []) \<and>
    w_data (connection sv') @ deque_bytes (sv_mem sv') (write_deque sv') = replies (\<lambda>_. 0) answered"
proof -
  have i: "idle (sv_mem fresh_server) (dson_fields (replicate 16 0)) []"
    by (simp add: idle_def fresh_server_def mem_ok_def can_load_def dson_fields_def header_loc_def own_blocks_def)
  have "outgoing fresh_server = []" "chunk_ids fresh_server = (\<lambda>_. 0)" by (simp_all add: fresh_server_def outgoing_def)
  moreover have "set (obj_blocks (ObjDson (dson_fields (replicate 16 0)) [])) \<inter> set (deque_blocks (write_deque fresh_server)) = {}"
    by (simp add: fresh_server_def)
  moreover have "\<forall>(reads, writes) \<in> set session_calls. soft_reads reads \<and> soft writes"
    by (simp add: session_calls_def soft_reads_def soft_call_def)
  ultimately show ?thesis
    using server_answers_in_order [OF fresh_server_serving i _ session_good,
        where fd = "\<lparr>r_script = [], r_data = concat (map request_wire session)\<rparr>"] by simp
qed


section \<open>Replies that have arrived\<close>

definition arrived :: "byte list \<Rightarrow> byte list \<Rightarrow> mem \<times> dson" where
  "arrived h dat = (\<lparr>heap = [0 \<mapsto> dat], next_block = 1, malloc_limit = 1000, malloc_fill = (\<lambda>_. 0)\<rparr>,
     (dson_fields h)\<lparr>d_buf := Some (0, 0), d_was_alloc := True, d_buf_size := int (length dat), d_kind := DataBufNeedParse\<rparr>)"

lemma arrived_loaded: "dat \<noteq> [] \<Longrightarrow> loaded_msg h dat (fst (arrived h dat), snd (arrived h dat), [])"
  by (simp add: loaded_msg_def arrived_def dson_fields_def mem_ok_def)

definition sample_client :: "byte list \<Rightarrow> byte list \<Rightarrow> client" where
  "sample_client h dat = \<lparr>cl_mem = fst (arrived h dat), cl_sent = [], cnt = 0, console = []\<rparr>"

lemma client_follows_up_witness:
  "\<exists>h dat cl' d' kv'. h @ dat = authed_wire sample_address \<and>
    client_callback lib_converters (replicate 200 [WrTake 1]) (sample_client h dat) (snd (arrived h dat)) [] = Some (cl', d', kv') \<and>
    cnt cl' = 0 \<and> cl_sent cl' = request_wire \<lparr>rq_key = SimpleData, rq_address = sample_address,
      rq_text = echo_request_text (reply_to sample_address)\<rparr> \<and>
    console cl' = [authed_line (reply_to sample_address)]"
proof -
  let ?h = "take 16 (authed_wire sample_address)" and ?dat = "drop 16 (authed_wire sample_address)"
  have len: "length (authed_wire sample_address) = 48" by (simp add: authed_wire_def)
  have "length (drop 16 (authed_wire sample_address)) = 32" using len by simp
  then have "?dat \<noteq> []" by (metis list.size(3) zero_neq_numeral)
  then have l: "loaded_msg ?h ?dat (cl_mem (sample_client ?h ?dat), snd (arrived ?h ?dat), [])"
    using arrived_loaded by (simp add: sample_client_def)
  have t: "length (echo_request_text (reply_to sample_address)) = 18"
    by (simp add: echo_request_text_def reply_to_def sample_address_def chars_def decimal.simps [of 7])
  show ?thesis
    by (rule exI [of _ ?h], rule exI [of _ ?dat])
      (use client_follows_up [OF append_take_drop_id [symmetric] _ l, of "replicate 200 [WrTake 1]"] len t in
        \<open>simp add: sample_client_def arrived_def i32_max_def taking_def soft_call_def\<close>)
qed

lemma client_counts_answers_witness:
  "\<exists>h dat cl' d' kv'. h @ dat = answer_wire sample_address 2 [104, 105] \<and>
    client_callback lib_converters [] (sample_client h dat) (snd (arrived h dat)) [] = Some (cl', d', kv') \<and>
    cnt cl' = 1 \<and> cl_sent cl' = [] \<and> console cl' = [data_line (reply_to sample_address) 2 [104, 105]]"
proof -
  let ?w = "answer_wire sample_address 2 [104, 105]"
  let ?h = "take 16 ?w" and ?dat = "drop 16 ?w"
  have len: "length ?w = 86" by (simp add: answer_wire_def)
  have "length ?dat = 70" using len by simp
  then have "?dat \<noteq> []" by (metis list.size(3) zero_neq_numeral)
  then have l: "loaded_msg ?h ?dat (cl_mem (sample_client ?h ?dat), snd (arrived ?h ?dat), [])"
    using arrived_loaded by (simp add: sample_client_def)
  show ?thesis
    by (rule exI [of _ ?h], rule exI [of _ ?dat])
      (use client_counts_answers [OF append_take_drop_id [symmetric] _ l, of "[]"] len in
        \<open>simp add: sample_client_def max_dson_ram_size_def\<close>)
qed

end
