(* ===== verification/Star_Routing.thy ===== *)
theory Star_Routing
  imports Star_Session Network_Samples
begin

text \<open>
  The program \<open>star_routing\<close> (\<open>dson_network.cpp\<close>) as one system: the client in its thread, the
  server in its own, and between them the two directions of the connection.  The theorem is
  about every interleaving of their steps.
\<close>

section \<open>The system\<close>

text \<open>
  The two threads with the objects they keep between the steps of their loops, and what has
  been written to the connection and not been read yet.  The flags say whether the loops go on.
\<close>

record star =
  star_server :: server
  star_need :: bool
  star_request :: "dson \<times> kvmap"
  server_goes :: bool
  star_client :: client
  star_ask :: "dson \<times> kvmap"
  star_was_answers :: bool
  star_answer :: "dson \<times> kvmap"
  client_goes :: bool
  to_server :: "byte list"
  to_client :: "byte list"

text \<open>
  The steps, each with the kernel's answers to its calls: a round of \<open>server_loop\<close>; the client
  sends its request to a service; it looks for an answer.
\<close>

datatype star_event =
    Server_Round "rcall list" "wcall list"
  | Client_Asks u32 "wcall list list"
  | Client_Receives "rcall list" "wcall list list"

definition star_start :: "server \<Rightarrow> mem \<Rightarrow> star option" where
  "star_start sv m = do {
     (ms, request) \<leftarrow> dson_new (sv_mem sv);
     (m, dson, kv) \<leftarrow> client_request m;
     (m, answer_dson) \<leftarrow> dson_new m;
     Some \<lparr>star_server = sv\<lparr>sv_mem := ms\<rparr>, star_need = True, star_request = (request, []), server_goes = True,
       star_client = \<lparr>cl_mem = m, cl_sent = [], cnt = 0, console = []\<rparr>, star_ask = (dson, kv),
       star_was_answers = False, star_answer = (answer_dson, []), client_goes = True, to_server = [], to_client = []\<rparr>
   }"

text \<open>What a step writes is appended to what the other side has still to read.\<close>

fun star_act :: "star_event \<Rightarrow> star \<Rightarrow> star option" where
  "star_act (Server_Round reads writes) st = (
     if \<not> server_goes st then Some st
     else do {
       (go, sv, need, d, kv, fd) \<leftarrow> server_round 2 lib_converters
          ((star_server st)\<lparr>connection := \<lparr>w_script = writes, w_data = []\<rparr>\<rparr>) (star_need st)
          (fst (star_request st)) (snd (star_request st)) \<lparr>r_script = reads, r_data = to_server st\<rparr>;
       Some (st\<lparr>star_server := sv, star_need := need, star_request := (d, kv), server_goes := go,
         to_server := r_data fd, to_client := to_client st @ w_data (connection sv)\<rparr>)
     })"
| "star_act (Client_Asks service_id writes) st = (
     if \<not> client_goes st then Some st
     else do {
       (go, cl, d, kv) \<leftarrow> client_ask service_id writes ((star_client st)\<lparr>cl_sent := []\<rparr>)
          (fst (star_ask st)) (snd (star_ask st));
       Some (st\<lparr>star_client := cl, star_ask := (d, kv), client_goes := go, to_server := to_server st @ cl_sent cl\<rparr>)
     })"
| "star_act (Client_Receives reads echoes) st = (
     if \<not> client_goes st then Some st
     else do {
       (was, cl, d, kv, fd) \<leftarrow> client_receive lib_converters echoes ((star_client st)\<lparr>cl_sent := []\<rparr>) (star_was_answers st)
          (fst (star_answer st)) (snd (star_answer st)) \<lparr>r_script = reads, r_data = to_client st\<rparr>;
       Some (st\<lparr>star_client := cl, star_was_answers := was, star_answer := (d, kv),
         to_client := r_data fd, to_server := to_server st @ cl_sent cl\<rparr>)
     })"

fun star_run :: "star_event list \<Rightarrow> star \<Rightarrow> star option" where
  "star_run [] st = Some st"
| "star_run (e # es) st = do { st \<leftarrow> star_act e st; star_run es st }"

text \<open>
  The kernel takes at least one byte of what the client sends at each call, and does not fail;
  a service has not the client's own number.
\<close>

fun star_fair :: "star_event \<Rightarrow> bool" where
  "star_fair (Server_Round reads writes) \<longleftrightarrow> soft_reads reads \<and> soft writes"
| "star_fair (Client_Asks i writes) \<longleftrightarrow> i \<noteq> client_certificate_id \<and> (\<forall>e \<in> set writes. taking e) \<and> 72 \<le> length writes"
| "star_fair (Client_Receives reads echoes) \<longleftrightarrow> soft_reads reads \<and> (\<forall>e \<in> set echoes. taking e) \<and> 91 \<le> length echoes"

fun asked :: "star_event list \<Rightarrow> u32 list" where
  "asked [] = []"
| "asked (Client_Asks i writes # es) = i # asked es"
| "asked (Server_Round reads writes # es) = asked es"
| "asked (Client_Receives reads echoes # es) = asked es"

section \<open>Who is asked and who answers\<close>

fun auths :: "question list \<Rightarrow> u32 list" where
  "auths [] = []"
| "auths (Auth i # qs) = i # auths qs"
| "auths (Echo i # qs) = auths qs"

fun echoes :: "question list \<Rightarrow> u32 list" where
  "echoes [] = []"
| "echoes (Auth i # qs) = echoes qs"
| "echoes (Echo i # qs) = i # echoes qs"

fun authed :: "answer list \<Rightarrow> u32 list" where
  "authed [] = []"
| "authed (Authed_By i # xs) = i # authed xs"
| "authed (Echoed_By i w # xs) = authed xs"

lemma auths_append [simp]: "auths (xs @ ys) = auths xs @ auths ys" "echoes (xs @ ys) = echoes xs @ echoes ys"
  by (induction xs rule: auths.induct) simp_all

lemma authed_append [simp]: "authed (xs @ ys) = authed xs @ authed ys"
  by (induction xs rule: authed.induct) simp_all

lemma follow_ups_eq [simp]: "auths (follow_ups xs) = []" "echoes (follow_ups xs) = authed xs"
  by (induction xs rule: authed.induct) simp_all

lemma set_questions: "Auth i \<in> set qs \<longleftrightarrow> i \<in> set (auths qs)" "Echo i \<in> set qs \<longleftrightarrow> i \<in> set (echoes qs)"
  by (induction qs rule: auths.induct) auto

text \<open>Only services answer, and each of them every question.\<close>

lemma answers_of_services:
  "authed (answers ids qs) = filter is_service (auths qs)"
  "echoed (answers ids qs) = length (filter is_service (echoes qs))"
  by (induction qs arbitrary: ids rule: auths.induct) simp_all

section \<open>The invariant\<close>

lemma at_work_append:
  assumes "at_work c rs sv need d kv fd" "\<forall>r \<in> set rs'. good_request c (sv_mem sv) r"
  shows "at_work c (rs @ rs') sv need d kv (fd\<lparr>r_data := r_data fd @ concat (map request_wire rs')\<rparr>)"
proof (cases rs)
  case Nil
  then have "idle (sv_mem sv) d kv" "r_data fd = []" using assms(1) by (simp_all add: at_work_def expecting_def)
  then have "expecting rs' (sv_mem sv) d kv (fd\<lparr>r_data := r_data fd @ concat (map request_wire rs')\<rparr>)"
    by (intro expecting_idle [OF _ _ assms(2)]) simp_all
  then show ?thesis using assms Nil by (simp add: at_work_def)
next
  case (Cons r rs0)
  then show ?thesis using assms by (auto simp: at_work_def expecting_def)
qed

lemma at_work_connection:
  assumes "at_work c rs sv need d kv fd" "soft writes" "r_data fd' = r_data fd"
  shows "at_work c rs (sv\<lparr>connection := \<lparr>w_script = writes, w_data = xs\<rparr>\<rparr>) need d kv fd'"
  using assms by (cases rs) (simp_all add: at_work_def serving_def server_ok_def expecting_def)

lemma at_work_nothing: "at_work c rs sv need d kv fd \<Longrightarrow> r_data fd = [] \<Longrightarrow> rs = []"
  by (cases rs) (auto simp: at_work_def expecting_def dest: loading_rest)

text \<open>What the server has still to send.\<close>

abbreviation star_queue :: "star \<Rightarrow> byte list" where
  "star_queue st \<equiv> deque_bytes (sv_mem (star_server st)) (write_deque (star_server st))"

text \<open>
  The server has taken the questions \<open>past\<close> and not yet \<open>waiting\<close>; of its answers the client
  has heard \<open>heard\<close>, and \<open>pend\<close> are queued or on their way.
\<close>

definition star_ok :: "(u32 \<Rightarrow> u32) \<Rightarrow> u32 list \<Rightarrow> question list \<Rightarrow> question list \<Rightarrow> answer list \<Rightarrow> answer list \<Rightarrow> star \<Rightarrow> bool" where
  "star_ok ids wanted past waiting heard pend st \<longleftrightarrow> server_goes st \<and> client_goes st \<and>
     at_work client_certificate_id (map question_request waiting) (star_server st) (star_need st)
       (fst (star_request st)) (snd (star_request st)) \<lparr>r_script = [], r_data = to_server st\<rparr> \<and>
     200 \<le> malloc_limit (sv_mem (star_server st)) \<and>
     chunk_ids (star_server st) = counted ids (map question_request past) \<and> answers ids past = heard @ pend \<and>
     (\<exists>i. talking (star_client st) (fst (star_ask st)) (snd (star_ask st)) i (fst (star_answer st)) (snd (star_answer st)) pend
        (to_client st @ star_queue st)) \<and>
     star_was_answers st = (heard \<noteq> []) \<and> cnt (star_client st) = of_nat (echoed heard) \<and>
     console (star_client st) = map answer_line heard \<and>
     auths (past @ waiting) = wanted \<and> echoes (past @ waiting) = authed heard"

lemma new_questions:
  assumes "at_work client_certificate_id (map question_request qs) sv need d kv \<lparr>r_script = [], r_data = xs\<rparr>"
    and "200 \<le> malloc_limit (sv_mem sv)" "\<forall>q \<in> set qs'. q \<noteq> Auth client_certificate_id \<and> q \<noteq> Echo client_certificate_id"
  shows "at_work client_certificate_id (map question_request (qs @ qs')) sv need d kv
    \<lparr>r_script = [], r_data = xs @ concat (map (request_wire \<circ> question_request) qs')\<rparr>"
  using at_work_append [OF assms(1), of "map question_request qs'"] question_good [OF assms(2)] assms(3) by simp

lemma star_server_step:
  assumes st: "star_ok ids wanted past waiting heard pend st" and soft: "soft_reads reads" "soft writes"
  shows "\<exists>st' g w'. star_act (Server_Round reads writes) st = Some st' \<and> waiting = g @ w' \<and>
    (let new = answers (counted ids (map question_request past)) g in
       star_ok ids wanted (past @ g) w' heard (pend @ new) st' \<and>
       to_client st' @ star_queue st' = (to_client st @ star_queue st) @ concat (map answer_bytes new))"
proof -
  let ?sv = "(star_server st)\<lparr>connection := \<lparr>w_script = writes, w_data = []\<rparr>\<rparr>"
    and ?fd = "\<lparr>r_script = reads, r_data = to_server st\<rparr>"
  have w: "at_work client_certificate_id (map question_request waiting) ?sv (star_need st) (fst (star_request st)) (snd (star_request st)) ?fd"
    by (rule at_work_connection [OF _ soft(2)]) (use st in \<open>auto simp: star_ok_def\<close>)
  obtain sv need d kv fd gone rs' where
    r: "server_round 2 lib_converters ?sv (star_need st) (fst (star_request st)) (snd (star_request st)) ?fd = Some (True, sv, need, d, kv, fd)"
    "at_work client_certificate_id rs' sv need d kv fd" "map question_request waiting = gone @ rs'"
    "chunk_ids sv = counted (chunk_ids ?sv) gone" "outgoing sv = outgoing ?sv @ replies (chunk_ids ?sv) gone"
    "malloc_limit (sv_mem sv) = malloc_limit (sv_mem ?sv)"
    using round_good [OF w] soft(1) by auto
  obtain g w' where g: "waiting = g @ w'" "gone = map question_request g" "rs' = map question_request w'"
    using r(3) by (auto simp: map_eq_append_conv)
  define st' where "st' = st\<lparr>star_server := sv, star_need := need, star_request := (d, kv), server_goes := True,
         to_server := r_data fd, to_client := to_client st @ w_data (connection sv)\<rparr>"
  let ?new = "answers (counted ids (map question_request past)) g"
  have act: "star_act (Server_Round reads writes) st = Some st'"
    using r(1) st by (simp add: st'_def star_ok_def)
  obtain i where t: "talking (star_client st) (fst (star_ask st)) (snd (star_ask st)) i (fst (star_answer st)) (snd (star_answer st)) pend
        (to_client st @ deque_bytes (sv_mem (star_server st)) (write_deque (star_server st)))"
    using st by (auto simp: star_ok_def)
  have ids: "chunk_ids (star_server st) = counted ids (map question_request past)" using st by (simp add: star_ok_def)
  have "w_data (connection sv) @ deque_bytes (sv_mem sv) (write_deque sv) =
      deque_bytes (sv_mem (star_server st)) (write_deque (star_server st)) @ concat (map answer_bytes ?new)"
    using r(5) g(2) ids by (simp add: outgoing_def replies_answers)
  then have full: "to_client st' @ deque_bytes (sv_mem (star_server st')) (write_deque (star_server st')) =
      (to_client st @ deque_bytes (sv_mem (star_server st)) (write_deque (star_server st))) @ concat (map answer_bytes ?new)"
    by (simp add: st'_def)
  have "talking (star_client st') (fst (star_ask st')) (snd (star_ask st')) i (fst (star_answer st')) (snd (star_answer st')) (pend @ ?new)
      (to_client st' @ deque_bytes (sv_mem (star_server st')) (write_deque (star_server st')))"
    unfolding full using talking_append [OF t, of ?new] by (simp add: st'_def)
  moreover have "at_work client_certificate_id (map question_request w') sv need d kv \<lparr>r_script = [], r_data = r_data fd\<rparr>"
    using r(2) g(3) by (cases w') (simp_all add: at_work_def expecting_def)
  moreover have "answers ids (past @ g) = heard @ pend @ ?new" using st by (simp add: star_ok_def answers_append)
  moreover have "chunk_ids sv = counted ids (map question_request (past @ g))" using r(4) g(2) ids by simp
  moreover have "200 \<le> malloc_limit (sv_mem sv)" using r(6) st by (simp add: star_ok_def)
  ultimately have "star_ok ids wanted (past @ g) w' heard (pend @ ?new) st'"
    using st g(1) by (auto simp: star_ok_def st'_def)
  then show ?thesis using act g(1) full unfolding Let_def by blast
qed

lemma star_ask_step:
  assumes st: "star_ok ids wanted past waiting heard pend st"
    and e: "i \<noteq> client_certificate_id" "\<forall>e \<in> set writes. taking e" "72 \<le> length writes"
  shows "\<exists>st'. star_act (Client_Asks i writes) st = Some st' \<and>
    star_ok ids (wanted @ [i]) past (waiting @ [Auth i]) heard pend st' \<and>
    to_server st' = to_server st @ request_wire (question_request (Auth i)) \<and> to_client st' = to_client st \<and>
    star_server st' = star_server st"
proof -
  let ?cl = "(star_client st)\<lparr>cl_sent := []\<rparr>"
    and ?full = "to_client st @ deque_bytes (sv_mem (star_server st)) (write_deque (star_server st))"
  obtain j where t: "talking ?cl (fst (star_ask st)) (snd (star_ask st)) j (fst (star_answer st)) (snd (star_answer st)) pend ?full"
    using st talking_cong [of ?cl "star_client st"] by (auto simp: star_ok_def)
  obtain cl d kv where c: "client_ask i writes ?cl (fst (star_ask st)) (snd (star_ask st)) = Some (True, cl, d, kv)"
    "talking cl d kv i (fst (star_answer st)) (snd (star_answer st)) pend ?full" "cnt cl = cnt ?cl" "console cl = console ?cl"
    "cl_sent cl = cl_sent ?cl @ request_wire (question_request (Auth i))"
    by (rule talking_asks [OF t e(2,3), of i])
  define st' where "st' = st\<lparr>star_client := cl, star_ask := (d, kv), client_goes := True,
    to_server := to_server st @ request_wire (question_request (Auth i))\<rparr>"
  have act: "star_act (Client_Asks i writes) st = Some st'" using c(1,5) st by (simp add: st'_def star_ok_def)
  have "at_work client_certificate_id (map question_request (waiting @ [Auth i])) (star_server st) (star_need st)
      (fst (star_request st)) (snd (star_request st)) \<lparr>r_script = [], r_data = to_server st'\<rparr>"
    using new_questions [of waiting _ _ _ _ "to_server st" "[Auth i]"] st e(1) by (simp add: star_ok_def st'_def)
  then have "star_ok ids (wanted @ [i]) past (waiting @ [Auth i]) heard pend st'"
    using st c(2-4) by (auto simp: star_ok_def st'_def)
  moreover have "to_server st' = to_server st @ request_wire (question_request (Auth i))" "to_client st' = to_client st"
    "star_server st' = star_server st" by (simp_all add: st'_def del: question_request.simps)
  ultimately show ?thesis using act by blast
qed

lemma star_receive_step:
  assumes st: "star_ok ids wanted past waiting heard pend st"
    and e: "soft_reads reads" "\<forall>e \<in> set calls. taking e" "91 \<le> length calls"
  shows "\<exists>st' new pend'. star_act (Client_Receives reads calls) st = Some st' \<and> pend = new @ pend' \<and>
    star_ok ids wanted past (waiting @ follow_ups new) (heard @ new) pend' st' \<and>
    to_server st' = to_server st @ concat (map (request_wire \<circ> question_request) (follow_ups new)) \<and>
    star_server st' = star_server st"
proof -
  let ?cl = "(star_client st)\<lparr>cl_sent := []\<rparr>" and ?fd = "\<lparr>r_script = reads, r_data = to_client st\<rparr>"
    and ?later = "deque_bytes (sv_mem (star_server st)) (write_deque (star_server st))"
  obtain j where t: "talking ?cl (fst (star_ask st)) (snd (star_ask st)) j (fst (star_answer st)) (snd (star_answer st)) pend (r_data ?fd @ ?later)"
    using st talking_cong [of ?cl "star_client st"] by (auto simp: star_ok_def)
  have soft: "soft_reads (r_script ?fd)" using e(1) by simp
  obtain new pend' cl d kv fd where
    c: "client_receive lib_converters calls ?cl (star_was_answers st) (fst (star_answer st)) (snd (star_answer st)) ?fd =
      Some (star_was_answers st \<or> new \<noteq> [], cl, d, kv, fd)" "pend = new @ pend'"
      "talking cl (fst (star_ask st)) (snd (star_ask st)) j d kv pend' (r_data fd @ ?later)" "took ?cl new cl"
    by (rule talking_hears [OF t soft e(2,3)])
  have k: "cnt cl = cnt (star_client st) + of_nat (echoed new)" "console cl = console (star_client st) @ map answer_line new"
    "cl_sent cl = concat (map (request_wire \<circ> question_request) (follow_ups new))"
    using c(4) by (simp_all add: took_def)
  define st' where "st' = st\<lparr>star_client := cl, star_was_answers := star_was_answers st \<or> new \<noteq> [], star_answer := (d, kv),
    to_client := r_data fd, to_server := to_server st @ cl_sent cl\<rparr>"
  have act: "star_act (Client_Receives reads calls) st = Some st'" using c(1) st by (simp add: st'_def star_ok_def)
  have a: "answers ids past = heard @ new @ pend'" using st c(2) by (simp add: star_ok_def)
  have f: "filter is_service (auths past) = authed heard @ authed new @ authed pend'"
    using answers_of_services(1) [of ids past] unfolding a by simp
  have "set (authed new) \<subseteq> set (filter is_service (auths past))" unfolding f by auto
  then have "is_service i" if "i \<in> set (authed new)" for i using that by auto
  moreover have "\<not> is_service client_certificate_id" using st by (simp add: star_ok_def at_work_def serving_def)
  ultimately have "\<forall>q \<in> set (follow_ups new). q \<noteq> Auth client_certificate_id \<and> q \<noteq> Echo client_certificate_id"
    using set_questions [of _ "follow_ups new"] by auto
  then have "at_work client_certificate_id (map question_request (waiting @ follow_ups new)) (star_server st) (star_need st)
      (fst (star_request st)) (snd (star_request st)) \<lparr>r_script = [], r_data = to_server st'\<rparr>"
    using new_questions [of waiting _ _ _ _ "to_server st" "follow_ups new"] st k(3) by (simp add: star_ok_def st'_def)
  then have "star_ok ids wanted past (waiting @ follow_ups new) (heard @ new) pend' st'"
    using st c(3) a k(1,2) by (auto simp: star_ok_def st'_def)
  moreover have "to_server st' = to_server st @ concat (map (request_wire \<circ> question_request) (follow_ups new))"
    "star_server st' = star_server st" using k(3) by (simp_all add: st'_def)
  ultimately show ?thesis using act c(2) by blast
qed

section \<open>Every interleaving\<close>

lemma star_run_ok:
  assumes "star_ok ids wanted past waiting heard pend st" "\<forall>e \<in> set es. star_fair e"
  shows "\<exists>st' past' waiting' heard' pend'. star_run es st = Some st' \<and>
    star_ok ids (wanted @ asked es) past' waiting' heard' pend' st'"
  using assms
proof (induction es arbitrary: wanted past waiting heard pend st)
  case Nil
  then show ?case by auto
next
  case (Cons e es)
  obtain st1 past1 waiting1 heard1 pend1 where s: "star_act e st = Some st1"
    "star_ok ids (wanted @ asked [e]) past1 waiting1 heard1 pend1 st1"
  proof (cases e)
    case (Server_Round reads writes)
    then show ?thesis using that star_server_step [OF Cons.prems(1), of reads writes] Cons.prems(2) by (auto simp: Let_def)
  next
    case (Client_Asks i writes)
    then show ?thesis using that star_ask_step [OF Cons.prems(1), of i writes] Cons.prems(2) by auto
  next
    case (Client_Receives reads calls)
    then show ?thesis using that star_receive_step [OF Cons.prems(1), of reads calls] Cons.prems(2) by auto
  qed
  have "asked (e # es) = asked [e] @ asked es" by (cases e) simp_all
  then show ?case using Cons.IH [OF s(2)] Cons.prems(2) s(1) by auto
qed

lemma star_start_ok:
  assumes "serving client_certificate_id sv True" "write_deque sv = []" "200 \<le> malloc_limit (sv_mem sv)"
    and "mem_ok m" "200 \<le> malloc_limit m"
  shows "\<exists>st. star_start sv m = Some st \<and> star_ok (chunk_ids sv) [] [] [] [] [] st"
proof -
  obtain m1 d kv d2 where c: "client_request m = Some (m1, d, kv)" "dson_new m1 = Some (m1, d2)"
    "talking \<lparr>cl_mem = m1, cl_sent = [], cnt = 0, console = []\<rparr> d kv 0 d2 [] [] []"
    by (rule talking_start [OF assms(4,5)])
  let ?d = "dson_fields (host_hdr 0 0 (types_map T_Empty))"
  have "idle (sv_mem sv) ?d []" using assms(1) by (intro idle_new) (simp add: serving_def)
  then have "at_work client_certificate_id [] sv True ?d [] \<lparr>r_script = [], r_data = []\<rparr>"
    using assms(1,2) by (simp add: at_work_def expecting_def)
  then show ?thesis using assms(2,3) c by (auto simp: star_start_def dson_new_eq star_ok_def deque_blocks_def)
qed

lemma star_ok_done:
  assumes "star_ok ids wanted past waiting heard pend st"
    and "to_server st = []" "to_client st = []" "star_queue st = []"
  shows "waiting = []" "pend = []" "echoed heard = length (filter is_service wanted)"
proof -
  show w: "waiting = []" using assms(1,2) at_work_nothing by (fastforce simp: star_ok_def)
  show p: "pend = []" using assms(1,3,4) hears_nothing by (fastforce simp: star_ok_def talking_def)
  have a: "answers ids past = heard" "auths past = wanted" "echoes past = authed heard"
    using assms(1) w p by (simp_all add: star_ok_def)
  have "authed heard = filter is_service wanted" using answers_of_services(1) [of ids past] a by simp
  then show "echoed heard = length (filter is_service wanted)"
    using answers_of_services(2) [of ids past] a by simp
qed

text \<open>
  C6: the whole program.  The client asks any services in any order, and its steps and the
  rounds of the server interleave in any way; requests and answers arrive in any pieces and
  leave as the kernel takes them.  No step fails or goes wrong and both loops go on.  The
  client has sent a request for every service it has asked and an echo request for every
  confirmation it has got; what it has heard is, in order, a first part of the answers the
  specification gives to what it has sent; it has printed a line for each, \<open>cnt\<close> counts the
  echoes, and \<open>was_answers\<close> says whether anything was heard.  When nothing is left in either
  direction, it has heard everything and \<open>cnt\<close> is the number of services among those asked.
\<close>

theorem star_session:
  assumes "serving client_certificate_id sv True" "write_deque sv = []" "200 \<le> malloc_limit (sv_mem sv)"
    and "mem_ok m" "200 \<le> malloc_limit m" "\<forall>e \<in> set events. star_fair e"
  shows "\<exists>st st' sent heard rest. star_start sv m = Some st \<and> star_run events st = Some st' \<and>
    server_goes st' \<and> client_goes st' \<and>
    auths sent = asked events \<and> echoes sent = authed heard \<and> answers (chunk_ids sv) sent = heard @ rest \<and>
    console (star_client st') = map answer_line heard \<and> cnt (star_client st') = of_nat (echoed heard) \<and>
    star_was_answers st' = (heard \<noteq> []) \<and>
    (to_server st' = [] \<and> to_client st' = [] \<and> star_queue st' = [] \<longrightarrow>
       rest = [] \<and> cnt (star_client st') = of_nat (length (filter is_service (asked events))))"
proof -
  obtain st where st: "star_start sv m = Some st" "star_ok (chunk_ids sv) [] [] [] [] [] st"
    using star_start_ok [OF assms(1-5)] by blast
  obtain st' past waiting heard pend where r: "star_run events st = Some st'"
    "star_ok (chunk_ids sv) (asked events) past waiting heard pend st'"
    using star_run_ok [OF st(2) assms(6)] by auto
  let ?rest = "pend @ answers (counted (chunk_ids sv) (map question_request past)) waiting"
  have k: "server_goes st'" "client_goes st'" "auths (past @ waiting) = asked events" "echoes (past @ waiting) = authed heard"
    "answers (chunk_ids sv) (past @ waiting) = heard @ ?rest" "console (star_client st') = map answer_line heard"
    "cnt (star_client st') = of_nat (echoed heard)" "star_was_answers st' = (heard \<noteq> [])"
    using r(2) by (simp_all add: star_ok_def answers_append)
  have "?rest = [] \<and> cnt (star_client st') = of_nat (length (filter is_service (asked events)))"
    if "to_server st' = [] \<and> to_client st' = [] \<and> star_queue st' = []"
    using star_ok_done [OF r(2)] that k(7) by simp
  then show ?thesis using st(1) r(1) k by blast
qed

text \<open>The client of the program asks the numbers 0 to 499, and 99 of them are services.\<close>

definition star_events :: "star_event list" where
  "star_events = concat (map (\<lambda>i. [Client_Asks (of_nat i) (replicate 72 [WrTake 1]), Server_Round [RdGive 50] [WrTake 10],
     Client_Receives [RdGive 3] (replicate 91 [WrTake 2])]) [0..<500])"

lemma unat_small: "i < 500 \<Longrightarrow> unat (of_nat i :: u32) = i"
  by (simp add: unat_of_nat)

lemma star_events_fair: "\<forall>e \<in> set star_events. star_fair e"
proof -
  have "of_nat i \<noteq> client_certificate_id" if "i < 500" for i
    using unat_small [OF that] that by (auto simp: client_certificate_id_def)
  then show ?thesis by (auto simp: star_events_def soft_reads_def soft_call_def taking_def)
qed

lemma star_events_asked: "asked star_events = map of_nat [0..<500]"
proof -
  have "asked (concat (map (\<lambda>i. [Client_Asks (of_nat i) ws, Server_Round r w, Client_Receives rs es]) xs)) = map of_nat xs"
    for ws r w rs es xs by (induction xs) simp_all
  then show ?thesis by (simp add: star_events_def)
qed

lemma star_services: "length (filter is_service (map of_nat [0..<500])) = 99"
proof -
  have "is_service (of_nat i) \<longleftrightarrow> 1 \<le> i \<and> i < 100" if "i < 500" for i
    using unat_small [OF that] by (simp add: is_service_def word_le_nat_alt word_less_nat_alt)
  then have "filter (is_service \<circ> of_nat) [0..<500] = filter (\<lambda>i. 1 \<le> i \<and> i < 100) [0..<500]"
    by (intro filter_cong) simp_all
  moreover have "{i. 1 \<le> i \<and> i < 100} \<inter> set [0..<500] = {1..<100::nat}" by auto
  ultimately show ?thesis
    using distinct_length_filter [of "[0..<500]" "\<lambda>i. 1 \<le> i \<and> i < 100"] by (simp add: filter_map)
qed

lemma star_session_witness:
  "\<exists>st st' sent heard rest. star_start fresh_server (sv_mem fresh_server) = Some st \<and> star_run star_events st = Some st' \<and>
    server_goes st' \<and> client_goes st' \<and>
    auths sent = map of_nat [0..<500] \<and> echoes sent = authed heard \<and> answers (\<lambda>_. 0) sent = heard @ rest \<and>
    console (star_client st') = map answer_line heard \<and> cnt (star_client st') = of_nat (echoed heard) \<and>
    star_was_answers st' = (heard \<noteq> []) \<and>
    (to_server st' = [] \<and> to_client st' = [] \<and> star_queue st' = [] \<longrightarrow>
       rest = [] \<and> cnt (star_client st') = 99)"
proof -
  have s: "serving client_certificate_id fresh_server True"
    using fresh_server_serving by (simp add: client_certificate_id_def)
  have m: "write_deque fresh_server = []" "200 \<le> malloc_limit (sv_mem fresh_server)" "mem_ok (sv_mem fresh_server)"
    "chunk_ids fresh_server = (\<lambda>_. 0)"
    by (simp_all add: fresh_server_def mem_ok_def)
  show ?thesis
    using star_session [OF s m(1-3) m(2) star_events_fair] unfolding m(4) star_events_asked star_services by simp
qed

end
