(* ===== verification/Star_Delivery.thy ===== *)
theory Star_Delivery
  imports Star_Routing Fd_Loading
begin

text \<open>
  Why the conversation of \<open>star_routing\<close> comes to its end: every round of the server or look of
  the client moves at least a byte as long as there is one, and the questions that answers
  lead to run out.
\<close>

section \<open>Every round moves something\<close>

lemma load_header_fd_shrinks:
  "load_header_fd m d kv fd = Some (r, m', d', kv', fd') \<Longrightarrow> length (r_data fd') \<le> length (r_data fd)"
proof -
  assume l: "load_header_fd m d kv fd = Some (r, m', d', kv', fd')"
  obtain k xs fd1 where rd: "read_from_fd fd (nat (int header_size - d_offset d)) = (k, xs, fd1)"
    by (cases "read_from_fd fd (nat (int header_size - d_offset d))")
  have "fd' = fd \<or> length (r_data fd') \<le> length (r_data fd1)"
    using l rd by (auto simp: load_header_fd_def Let_def dest: load_data_fd_shrinks split: if_splits bind_splits option.splits)
  then show ?thesis using read_shrinks [OF rd] by auto
qed

lemma load_from_fd_shrinks:
  "load_from_fd m d kv fd = Some (r, m', d', kv', fd') \<Longrightarrow> length (r_data fd') \<le> length (r_data fd)"
  by (auto simp: load_from_fd_def dest: load_header_fd_shrinks load_data_fd_shrinks split: if_splits bind_splits)

lemma server_round_shrinks:
  assumes "server_round n cv sv need d kv fd = Some (go, sv', need', d', kv', fd')"
  shows "length (r_data fd') \<le> length (r_data fd)"
    "at_work c rs sv need d kv fd \<Longrightarrow> giving (r_script fd) \<Longrightarrow> r_data fd \<noteq> [] \<Longrightarrow> length (r_data fd') < length (r_data fd)"
proof -
  obtain res m d1 kv1 where l: "load_from_fd (sv_mem sv) d kv fd = Some (res, m, d1, kv1, fd')"
    using assms by (auto simp: server_round_def Let_def split: bind_splits if_splits)
  show "length (r_data fd') \<le> length (r_data fd)" by (rule load_from_fd_shrinks [OF l])
  assume w: "at_work c rs sv need d kv fd" and g: "giving (r_script fd)" "r_data fd \<noteq> []"
  obtain h dat rest where "loading h dat (sv_mem sv, d, kv) rest"
    using w g(2) by (cases rs) (auto simp: at_work_def expecting_def)
  from load_from_fd_takes [OF this g l] show "length (r_data fd') < length (r_data fd)" .
qed

lemma send_deque_live:
  assumes "queued m q" "soft (w_script fd)" "live fd" "deque_bytes m q \<noteq> [] \<or> w_data fd \<noteq> []"
    and "send_deque lib_converters m q fd = Some (ok, m', q', fd')"
  shows "w_data fd' \<noteq> []"
  using assms
proof (induction q arbitrary: m fd)
  case Nil
  then show ?case by simp
next
  case (Cons obj q)
  note ob = Cons.prems(1) [unfolded queued_Cons]
  have "lib_live.good_call True m obj fd (copy_obj (obj_depth obj) fd_sink lib_converters True m obj fd)"
    by (rule lib_live.copy_obj_good) (use ob Cons.prems(2,3) in simp_all)
  then obtain r fd1 m1 obj1 where c: "copy_to_fd lib_converters True m obj fd = Some (r, fd1, m1, obj1)"
    and h: "handed w_data (\<lambda>fd. soft (w_script fd) \<and> live fd) (\<lambda>fd. w_data fd \<noteq> []) (obj_pending lib_converters True m obj) fd r fd1
      (obj_pending lib_converters True m1 obj1) (obj_rest obj1)"
    and k: "lib_live.kept True m obj m1 obj1"
    by (auto simp: lib_live.good_call_def copy_to_fd_def)
  show ?case
  proof (cases r)
    case Ready
    let ?m = "free_blocks m1 (obj_blocks obj)"
    have o1: "obj_owned m1 obj1" "obj_blocks obj1 = obj_blocks obj"
      and same: "\<forall>b. b \<notin> set (obj_blocks obj) \<longrightarrow> heap m1 b = heap m b"
      using k ob by (simp_all add: lib_live.kept_def still_live_def)
    have d: "obj_destroy m1 obj1 = Some ?m" using obj_destroy_frees [OF o1(1)] o1(2) ob by simp
    have "\<forall>b \<in> set (deque_blocks q). heap ?m b = heap m b" using same ob by auto
    from queued_frame [OF this] have q: "queued ?m q" "deque_bytes ?m q = deque_bytes m q" using ob by simp_all
    have "w_data fd1 = w_data fd @ obj_pending lib_converters True m obj" "soft (w_script fd1)" "live fd1"
      using h Ready by (auto simp: handed_def advances_ready)
    then show ?thesis
      using Cons.IH [OF q(1), of fd1] Cons.prems(4,5) c d Ready q(2) by auto
  next
    case InProcess
    then show ?thesis using h c Cons.prems(5) by (auto simp: handed_def)
  next
    case Error
    then show ?thesis using h by (auto simp: handed_def)
  qed
qed

lemma server_round_sends:
  assumes w: "at_work c rs sv need d kv fd" and soft: "soft_reads (r_script fd)" and none: "r_data fd = []" "w_data (connection sv) = []"
    and t: "taking (w_script (connection sv))" and q: "deque_bytes (sv_mem sv) (write_deque sv) \<noteq> []"
    and e: "server_round 2 lib_converters sv need d kv fd = Some (go, sv', need', d', kv', fd')"
  shows "w_data (connection sv') \<noteq> []"
proof -
  have w0: "at_work c [] sv need d kv fd" using w at_work_nothing [OF w none(1)] by simp
  obtain m1 d1 fd1 where l: "load_from_fd (sv_mem sv) d kv fd = Some (InProcess, m1, d1, [], fd1)"
    "at_work c [] (sv\<lparr>sv_mem := m1\<rparr>) need d1 [] fd1" "outgoing (sv\<lparr>sv_mem := m1\<rparr>) = outgoing sv"
    by (rule idle_loaded [OF w0 soft])
  then have b: "queued m1 (write_deque sv)" "deque_bytes m1 (write_deque sv) \<noteq> []"
    using q none(2) by (simp_all add: at_work_def serving_def server_ok_def outgoing_def)
  have s: "soft (w_script (connection sv))" "live (connection sv)"
    using t by (auto simp: taking_def live_def gr0_conv_Suc split: list.splits wcall.splits)
  obtain ok m2 q2 where "send_deque lib_converters m1 (write_deque sv) (connection sv) = Some (ok, m2, q2, connection sv')"
    using e l(1) by (auto simp: server_round_def send_dson_from_deque_def split: bind_splits)
  then show ?thesis using send_deque_live [OF b(1) s] b(2) by blast
qed

section \<open>The answers run out\<close>

text \<open>
  What questions and answers can still lead to, in bytes to move: a byte counts twice until
  the server has written it, a confirmation leads to a request for an echo.
\<close>

fun question_cost :: "question \<Rightarrow> nat" where
  "question_cost (Auth i) = 510"
| "question_cost (Echo i) = 310"

fun answer_cost :: "answer \<Rightarrow> nat" where
  "answer_cost (Authed_By i) = 410"
| "answer_cost (Echoed_By i w) = 0"

definition star_left :: "question list \<Rightarrow> answer list \<Rightarrow> star \<Rightarrow> nat" where
  "star_left waiting pend st = length (to_server st) + sum_list (map question_cost waiting) + 2 * length (star_queue st) +
     length (to_client st) + sum_list (map answer_cost pend)"

lemma answer_sizes: "length (answer_bytes (Authed_By i)) = 48" "length (answer_bytes (Echoed_By i w)) \<le> 154"
  using text_sizes(3) [of i] by (simp_all add: authed_wire_def answer_wire_def route_wire_def)

lemma question_sizes: "length (request_wire (question_request (Echo i))) \<le> 91" "length (request_wire (question_request (Auth i))) = 72"
  using text_sizes(1) [of i] by (simp_all add: request_wire_eq)

lemma answers_cost:
  "2 * length (concat (map answer_bytes (answers ids qs))) + sum_list (map answer_cost (answers ids qs)) \<le> sum_list (map question_cost qs)"
proof (induction qs arbitrary: ids)
  case (Cons q qs)
  then show ?case
  proof (cases q)
    case (Auth i)
    then show ?thesis using Cons.IH [of "count_request (question_request q) ids"] answer_sizes(1) [of i]
      by (simp del: answer_bytes.simps question_request.simps)
  next
    case (Echo i)
    then show ?thesis using Cons.IH [of "count_request (question_request q) ids"] answer_sizes(2) [of i "ids i + 1"]
      by (simp del: answer_bytes.simps question_request.simps)
  qed
qed simp

lemma follow_ups_cost:
  "length (concat (map (request_wire \<circ> question_request) (follow_ups xs))) + sum_list (map question_cost (follow_ups xs)) \<le>
     sum_list (map answer_cost xs)"
proof (induction xs rule: follow_ups.induct)
  case (2 i xs)
  then show ?case using question_sizes(1) [of i] by (simp del: question_request.simps)
qed simp_all

section \<open>What a step leaves\<close>

lemma server_moves:
  assumes st: "star_ok ids wanted past waiting heard pend st" and a: "star_act (Server_Round reads writes) st = Some st'"
    and soft: "soft_reads reads" "soft writes"
  obtains xs where "to_client st' = to_client st @ xs" "length (to_server st') \<le> length (to_server st)"
    "giving reads \<and> to_server st \<noteq> [] \<longrightarrow> length (to_server st') < length (to_server st)"
    "taking writes \<and> to_server st = [] \<and> star_queue st \<noteq> [] \<longrightarrow> xs \<noteq> []"
proof -
  let ?sv = "(star_server st)\<lparr>connection := \<lparr>w_script = writes, w_data = []\<rparr>\<rparr>"
    and ?fd = "\<lparr>r_script = reads, r_data = to_server st\<rparr>"
  have w: "at_work client_certificate_id (map question_request waiting) ?sv (star_need st) (fst (star_request st)) (snd (star_request st)) ?fd"
    by (rule at_work_connection [OF _ soft(2)]) (use st in \<open>auto simp: star_ok_def\<close>)
  have "server_goes st" using st by (simp add: star_ok_def)
  then obtain go sv need d kv fd where
    r: "server_round 2 lib_converters ?sv (star_need st) (fst (star_request st)) (snd (star_request st)) ?fd = Some (go, sv, need, d, kv, fd)"
      "to_server st' = r_data fd" "to_client st' = to_client st @ w_data (connection sv)"
    using a by (auto split: bind_splits)
  show ?thesis
    by (rule that [OF r(3)])
      (use server_round_shrinks(1) [OF r(1)] server_round_shrinks(2) [OF r(1) w] server_round_sends [OF w _ _ _ _ _ r(1)] r(2) soft(1)
        in simp_all)
qed

lemma server_left:
  assumes st: "star_ok ids wanted past waiting heard pend st" and soft: "soft_reads reads" "soft writes"
  shows "\<exists>st' past' waiting' pend'. star_act (Server_Round reads writes) st = Some st' \<and>
    star_ok ids wanted past' waiting' heard pend' st' \<and> star_left waiting' pend' st' \<le> star_left waiting pend st \<and>
    (giving reads \<and> taking writes \<and> (to_server st \<noteq> [] \<or> star_queue st \<noteq> []) \<longrightarrow>
       star_left waiting' pend' st' < star_left waiting pend st)"
proof -
  obtain st' g w' where s: "star_act (Server_Round reads writes) st = Some st'" "waiting = g @ w'"
    "let new = answers (counted ids (map question_request past)) g in
       star_ok ids wanted (past @ g) w' heard (pend @ new) st' \<and>
       to_client st' @ star_queue st' = (to_client st @ star_queue st) @ concat (map answer_bytes new)"
    using star_server_step [OF st soft] by blast
  define new where "new = answers (counted ids (map question_request past)) g"
  have n: "star_ok ids wanted (past @ g) w' heard (pend @ new) st'"
    "to_client st' @ star_queue st' = (to_client st @ star_queue st) @ concat (map answer_bytes new)"
    using s(3) by (simp_all add: new_def Let_def)
  obtain xs where m: "to_client st' = to_client st @ xs" "length (to_server st') \<le> length (to_server st)"
    "giving reads \<and> to_server st \<noteq> [] \<longrightarrow> length (to_server st') < length (to_server st)"
    "taking writes \<and> to_server st = [] \<and> star_queue st \<noteq> [] \<longrightarrow> xs \<noteq> []"
    by (rule server_moves [OF st s(1) soft])
  have q: "length (star_queue st') + length xs = length (star_queue st) + length (concat (map answer_bytes new))"
    using arg_cong [OF n(2), of length] m(1) by simp
  have c: "2 * length (concat (map answer_bytes new)) + sum_list (map answer_cost new) \<le> sum_list (map question_cost g)"
    unfolding new_def by (rule answers_cost)
  have eq: "star_left waiting pend st = length (to_server st) + sum_list (map question_cost g) + sum_list (map question_cost w') +
      2 * length (star_queue st) + length (to_client st) + sum_list (map answer_cost pend)"
    "star_left w' (pend @ new) st' = length (to_server st') + sum_list (map question_cost w') + 2 * length (star_queue st') +
      length (to_client st) + length xs + sum_list (map answer_cost pend) + sum_list (map answer_cost new)"
    using m(1) s(2) by (simp_all add: star_left_def)
  have "star_left w' (pend @ new) st' + length xs + (length (to_server st) - length (to_server st')) \<le> star_left waiting pend st"
    using q c m(2) unfolding eq by linarith
  moreover have "length (to_server st') < length (to_server st) \<or> 0 < length xs"
    if "giving reads \<and> taking writes \<and> (to_server st \<noteq> [] \<or> star_queue st \<noteq> [])"
    using m(3,4) that by auto
  ultimately have "star_left w' (pend @ new) st' \<le> star_left waiting pend st"
    "giving reads \<and> taking writes \<and> (to_server st \<noteq> [] \<or> star_queue st \<noteq> []) \<longrightarrow>
       star_left w' (pend @ new) st' < star_left waiting pend st"
    by linarith+
  then show ?thesis using s(1) n(1) by blast
qed

lemma receive_left:
  assumes st: "star_ok ids wanted past waiting heard pend st"
    and e: "soft_reads reads" "\<forall>e \<in> set calls. taking e" "91 \<le> length calls"
  shows "\<exists>st' waiting' heard' pend'. star_act (Client_Receives reads calls) st = Some st' \<and>
    star_ok ids wanted past waiting' heard' pend' st' \<and> star_left waiting' pend' st' \<le> star_left waiting pend st \<and>
    (giving reads \<and> to_client st \<noteq> [] \<longrightarrow> star_left waiting' pend' st' < star_left waiting pend st)"
proof -
  obtain st' new pend' where s: "star_act (Client_Receives reads calls) st = Some st'" "pend = new @ pend'"
    "star_ok ids wanted past (waiting @ follow_ups new) (heard @ new) pend' st'"
    "to_server st' = to_server st @ concat (map (request_wire \<circ> question_request) (follow_ups new))"
    "star_server st' = star_server st"
    using star_receive_step [OF st e] by blast
  have "client_goes st" using st by (simp add: star_ok_def)
  then obtain was cl d kv fd where r: "client_receive lib_converters calls ((star_client st)\<lparr>cl_sent := []\<rparr>) (star_was_answers st)
      (fst (star_answer st)) (snd (star_answer st)) \<lparr>r_script = reads, r_data = to_client st\<rparr> = Some (was, cl, d, kv, fd)"
    "to_client st' = r_data fd"
    using s(1) by (auto split: bind_splits)
  then obtain res m d1 kv1 where l: "load_from_fd (cl_mem (star_client st)) (fst (star_answer st)) (snd (star_answer st))
      \<lparr>r_script = reads, r_data = to_client st\<rparr> = Some (res, m, d1, kv1, fd)"
    by (auto simp: client_receive_def Let_def split: bind_splits if_splits)
  have le: "length (to_client st') \<le> length (to_client st)" using load_from_fd_shrinks [OF l] r(2) by simp
  have less: "length (to_client st') < length (to_client st)" if ne: "giving reads \<and> to_client st \<noteq> []"
  proof -
    obtain i where "talking (star_client st) (fst (star_ask st)) (snd (star_ask st)) i (fst (star_answer st)) (snd (star_answer st)) pend
        (to_client st @ star_queue st)" using st by (auto simp: star_ok_def)
    then obtain h dat rest where "loading h dat (cl_mem (star_client st), fst (star_answer st), snd (star_answer st)) rest"
      using ne by (cases pend) (auto simp: talking_def hears_def split: prod.splits)
    from load_from_fd_takes [OF this _ _ l] show ?thesis using ne r(2) by simp
  qed
  note c = follow_ups_cost [of new]
  have "star_left (waiting @ follow_ups new) pend' st' + (length (to_client st) - length (to_client st')) \<le> star_left waiting pend st"
    using s(2,4,5) le c by (simp add: star_left_def)
  then have "star_left (waiting @ follow_ups new) pend' st' \<le> star_left waiting pend st"
    "giving reads \<and> to_client st \<noteq> [] \<longrightarrow> star_left (waiting @ follow_ups new) pend' st' < star_left waiting pend st"
    using less by linarith+
  then show ?thesis using s(1,3) by blast
qed

section \<open>Turns\<close>

text \<open>
  The server and the client take turns; each read gives and each write takes at least a byte,
  when there is one.
\<close>

type_synonym turn = "(rcall list \<times> wcall list) \<times> (rcall list \<times> wcall list list)"

fun turns :: "turn list \<Rightarrow> star_event list" where
  "turns [] = []"
| "turns (((reads, writes), (reads', calls)) # ts) = Server_Round reads writes # Client_Receives reads' calls # turns ts"

definition busy :: "turn \<Rightarrow> bool" where
  "busy t \<longleftrightarrow> (case t of ((reads, writes), (reads', calls)) \<Rightarrow> giving reads \<and> taking writes \<and> giving reads' \<and>
     (\<forall>e \<in> set calls. taking e) \<and> 91 \<le> length calls)"

lemma star_left_nothing:
  assumes "star_ok ids wanted past waiting heard pend st"
  shows "star_left waiting pend st = 0 \<longleftrightarrow> to_server st = [] \<and> to_client st = [] \<and> star_queue st = []"
  using star_ok_done(1,2) [OF assms] by (auto simp: star_left_def)

lemma turn_left:
  assumes st: "star_ok ids wanted past waiting heard pend st" and t: "busy ((reads, writes), (reads', calls))"
  shows "\<exists>st1 st' past' waiting' heard' pend'. star_act (Server_Round reads writes) st = Some st1 \<and>
    star_act (Client_Receives reads' calls) st1 = Some st' \<and> star_ok ids wanted past' waiting' heard' pend' st' \<and>
    star_left waiting' pend' st' \<le> star_left waiting pend st - 1"
proof -
  have b: "giving reads" "taking writes" "giving reads'" "\<forall>e \<in> set calls. taking e" "91 \<le> length calls"
    and soft: "soft_reads reads" "soft writes" "soft_reads reads'"
    using t by (auto simp: busy_def giving_def taking_def)
  obtain st1 past1 waiting1 pend1 where s1: "star_act (Server_Round reads writes) st = Some st1"
    "star_ok ids wanted past1 waiting1 heard pend1 st1" "star_left waiting1 pend1 st1 \<le> star_left waiting pend st"
    "to_server st \<noteq> [] \<or> star_queue st \<noteq> [] \<longrightarrow> star_left waiting1 pend1 st1 < star_left waiting pend st"
    using server_left [OF st soft(1,2)] b(1,2) by blast
  obtain st' waiting' heard' pend' where s2: "star_act (Client_Receives reads' calls) st1 = Some st'"
    "star_ok ids wanted past1 waiting' heard' pend' st'" "star_left waiting' pend' st' \<le> star_left waiting1 pend1 st1"
    "to_client st1 \<noteq> [] \<longrightarrow> star_left waiting' pend' st' < star_left waiting1 pend1 st1"
    using receive_left [OF s1(2) soft(3) b(4,5)] b(3) by blast
  obtain xs where c: "to_client st1 = to_client st @ xs" by (rule server_moves [OF st s1(1) soft(1,2)])
  have "star_left waiting' pend' st' \<le> star_left waiting pend st - 1"
  proof (cases "to_server st = [] \<and> star_queue st = []")
    case True
    then have "to_client st \<noteq> [] \<or> star_left waiting pend st = 0" using star_left_nothing [OF st] by (cases "to_client st") simp_all
    then show ?thesis using s1(3) s2(3,4) c by auto
  qed (use s1(4) s2(3) in auto)
  then show ?thesis using s1(1) s2(1,2) by blast
qed

lemma turns_left:
  assumes "star_ok ids wanted past waiting heard pend st" "\<forall>t \<in> set ts. busy t"
  shows "\<exists>st' past' waiting' heard' pend'. star_run (turns ts) st = Some st' \<and>
    star_ok ids wanted past' waiting' heard' pend' st' \<and> star_left waiting' pend' st' \<le> star_left waiting pend st - length ts"
  using assms
proof (induction ts arbitrary: past waiting heard pend st)
  case Nil
  then show ?case by auto
next
  case (Cons t ts)
  obtain reads writes reads' calls where t: "t = ((reads, writes), (reads', calls))" by (metis surj_pair)
  have "busy ((reads, writes), (reads', calls))" using Cons.prems(2) t by simp
  from turn_left [OF Cons.prems(1) this] obtain st1 st2 past1 waiting1 heard1 pend1 where
    s: "star_act (Server_Round reads writes) st = Some st1" "star_act (Client_Receives reads' calls) st1 = Some st2"
      "star_ok ids wanted past1 waiting1 heard1 pend1 st2" "star_left waiting1 pend1 st2 \<le> star_left waiting pend st - 1"
    by blast
  have "\<forall>t \<in> set ts. busy t" using Cons.prems(2) by simp
  from Cons.IH [OF s(3) this] obtain st' past' waiting' heard' pend' where
    r: "star_run (turns ts) st2 = Some st'" "star_ok ids wanted past' waiting' heard' pend' st'"
      "star_left waiting' pend' st' \<le> star_left waiting1 pend1 st2 - length ts" by blast
  have "star_run (turns (t # ts)) st = Some st'" using s(1,2) r(1) by (simp add: t del: star_act.simps)
  moreover have "star_left waiting' pend' st' \<le> star_left waiting pend st - length (t # ts)" using s(4) r(3) by simp
  ultimately show ?case using r(2) by blast
qed

text \<open>What is left grows only with the requests of the client.\<close>

lemma star_run_left:
  assumes "star_ok ids wanted past waiting heard pend st" "\<forall>e \<in> set es. star_fair e"
  shows "\<exists>st' past' waiting' heard' pend'. star_run es st = Some st' \<and>
    star_ok ids (wanted @ asked es) past' waiting' heard' pend' st' \<and>
    star_left waiting' pend' st' \<le> star_left waiting pend st + 582 * length (asked es)"
  using assms
proof (induction es arbitrary: wanted past waiting heard pend st)
  case Nil
  then show ?case by auto
next
  case (Cons e es)
  obtain st1 past1 waiting1 heard1 pend1 where s: "star_act e st = Some st1"
    "star_ok ids (wanted @ asked [e]) past1 waiting1 heard1 pend1 st1"
    "star_left waiting1 pend1 st1 \<le> star_left waiting pend st + 582 * length (asked [e])"
  proof (cases e)
    case (Server_Round reads writes)
    then have f: "soft_reads reads" "soft writes" using Cons.prems(2) by simp_all
    obtain st1 past1 waiting1 pend1 where "star_act (Server_Round reads writes) st = Some st1"
      "star_ok ids wanted past1 waiting1 heard pend1 st1" "star_left waiting1 pend1 st1 \<le> star_left waiting pend st"
      using server_left [OF Cons.prems(1) f] by blast
    then show ?thesis using that Server_Round by (simp del: star_act.simps)
  next
    case (Client_Asks i writes)
    then have f: "i \<noteq> client_certificate_id" "\<forall>e \<in> set writes. taking e" "72 \<le> length writes" using Cons.prems(2) by simp_all
    obtain st1 where s: "star_act (Client_Asks i writes) st = Some st1" "star_ok ids (wanted @ [i]) past (waiting @ [Auth i]) heard pend st1"
      "to_server st1 = to_server st @ request_wire (question_request (Auth i))" "to_client st1 = to_client st"
      "star_server st1 = star_server st"
      using star_ask_step [OF Cons.prems(1) f] by blast
    have "star_left (waiting @ [Auth i]) pend st1 = star_left waiting pend st + 582"
      using s(3-5) question_sizes(2) [of i] by (simp add: star_left_def del: question_request.simps)
    then show ?thesis using that s(1,2) Client_Asks by (simp del: star_act.simps)
  next
    case (Client_Receives reads calls)
    then have f: "soft_reads reads" "\<forall>e \<in> set calls. taking e" "91 \<le> length calls" using Cons.prems(2) by simp_all
    obtain st1 waiting1 heard1 pend1 where "star_act (Client_Receives reads calls) st = Some st1"
      "star_ok ids wanted past waiting1 heard1 pend1 st1" "star_left waiting1 pend1 st1 \<le> star_left waiting pend st"
      using receive_left [OF Cons.prems(1) f] by blast
    then show ?thesis using that Client_Receives by (simp del: star_act.simps)
  qed
  have a: "asked (e # es) = asked [e] @ asked es" by (cases e) simp_all
  have "\<forall>e \<in> set es. star_fair e" using Cons.prems(2) by simp
  from Cons.IH [OF s(2) this] obtain st' past' waiting' heard' pend' where
    r: "star_run es st1 = Some st'" "star_ok ids ((wanted @ asked [e]) @ asked es) past' waiting' heard' pend' st'"
      "star_left waiting' pend' st' \<le> star_left waiting1 pend1 st1 + 582 * length (asked es)" by blast
  have "star_left waiting' pend' st' \<le> star_left waiting pend st + 582 * length (asked (e # es))"
    using s(3) r(3) a by simp
  moreover have "star_run (e # es) st = Some st'" using s(1) r(1) by simp
  ultimately show ?case using r(2) a by auto
qed

lemma star_started:
  assumes "star_start sv m = Some st" "write_deque sv = []"
  shows "star_left [] [] st = 0"
  using assms by (auto simp: star_start_def star_left_def split: bind_splits)

lemma star_run_append: "star_run (es @ es') st = do { st \<leftarrow> star_run es st; star_run es' st }"
  by (induction es arbitrary: st) (simp_all split: bind_split)

section \<open>Delivery\<close>


text \<open>The program's own 500 requests, one byte at a time.\<close>

definition one_byte_turn :: turn where
  "one_byte_turn = (([RdGive 1], [WrTake 1]), ([RdGive 1], replicate 91 [WrTake 1]))"


end
