(* ===== verification/Handover.thy ===== *)
theory Handover
  imports Dson_Values
begin

text \<open>
  The conveniences of \<open>DsonObj\<close>: a whole object as one buffer (\<open>to_buf_host_order\<close>,
  \<open>impl/dson_obj.h\<close>) and the stream operators (\<open>operator<<\<close> there, \<open>operator>>\<close> in
  \<open>dson.h\<close>).
\<close>

section \<open>One buffer\<close>

text \<open>
  A size that does not fit, a negative one for \<open>std::vector\<close> and a failed \<open>assert\<close> are
  none.
\<close>

definition to_buf_host_order :: "converters \<Rightarrow> mem \<Rightarrow> dson_obj \<Rightarrow> (byte list \<times> mem \<times> dson_obj) option" where
  "to_buf_host_order cv m obj = do {
     sz \<leftarrow> obj_data_size m obj;
     let buf_size = sz + int header_size;
     if \<not> i32_ok buf_size \<or> buf_size < 0 then None
     else do {
       (res, c, m, obj) \<leftarrow> copy_to_buf cv False m obj (window (nat buf_size));
       if c_room c = 0 \<and> res = Ready then Some (c_out c, m, obj) else None
     }
   }"

lemma to_buf_host_order_eq:
  assumes "obj_ok lib_data False m obj" "distinct (obj_blocks obj)" "obj_rest obj" "obj_size obj + 16 \<le> i32_max"
  shows "\<exists>m' obj'. to_buf_host_order lib_converters m obj = Some (obj_wire lib_converters False m obj, m', obj') \<and> obj_rest obj'"
proof -
  let ?W = "obj_wire lib_converters False m obj"
  have sz: "obj_data_size m obj = Some (obj_size obj)" using obj_size_ok [OF assms(1)] by blast
  obtain h x where W: "?W = h @ x" "length h = 16" "int (length x) = obj_size obj"
    using obj_wire_shape [OF assms(1)] by blast
  then have n: "nat (obj_size obj + 16) = length ?W" "0 \<le> obj_size obj" by auto
  have "lib_buf.good_call (int (length ?W)) False m obj (window (length ?W))
      (copy_obj (obj_depth obj) buf_sink lib_converters False m obj (window (length ?W)))"
    by (rule lib_buf.copy_obj_good) (use assms in simp_all)
  then obtain r c m' obj' where e: "copy_to_buf lib_converters False m obj (window (length ?W)) = Some (r, c, m', obj')"
    and h: "handed c_out (window_of (int (length ?W))) (\<lambda>c. c_room c = 0) (obj_pending lib_converters False m obj)
      (window (length ?W)) r c (obj_pending lib_converters False m' obj') (obj_rest obj')"
    by (auto simp: lib_buf.good_call_def copy_to_buf_def)
  obtain j where j: "advances ?W j r (obj_pending lib_converters False m' obj') (obj_rest obj')"
    "c_out c = take j ?W" "window_of (int (length ?W)) c" "r = InProcess \<longrightarrow> c_room c = 0"
    using h obj_rest_pending [OF assms(1,3)] by (auto simp: handed_def window_def)
  have r: "r = Ready"
  proof (cases r)
    case InProcess
    then have "j < length ?W" "c_room c = 0" using j by (simp_all add: advances_in_process)
    then show ?thesis using j(2,3) by simp
  qed (use j(1) in \<open>auto simp: advances_def split: if_splits\<close>)
  then have "j = length ?W" "obj_rest obj'" using j(1) by (simp_all add: advances_ready)
  then have "c_out c = ?W" "c_room c = 0" using j(2,3) by simp_all
  then show ?thesis
    using sz n e r \<open>obj_rest obj'\<close> assms(4)
    by (intro exI [of _ m'] exI [of _ obj']) (simp add: to_buf_host_order_def header_size_def i32_ok_iff i32_max_def)
qed

text \<open>
  C32: \<open>to_buf_host_order\<close> gives any object at rest, of any nesting, as one buffer: the
  \<open>assert\<close> in it holds, the object can be sent again, and a \<open>Dson\<close> that loads the buffer
  with \<open>load_from_buf\<close> in one call holds exactly its data, with its key and type.
\<close>

theorem buffer_handover:
  assumes "obj_ok lib_data False m obj" "distinct (obj_blocks obj)" "obj_rest obj" "obj_size obj \<le> max_dson_ram_size"
    and "can_load m2 d2 kv2" "mem_ok m2" "length (d_header d2) = 16" "nat (obj_size obj) \<le> malloc_limit m2"
    and "d_state d2 \<notin> {StLoadingHeader, StLoadingData}"
  shows "\<exists>h x m1 obj1 s. to_buf_host_order lib_converters m obj = Some (h @ x, m1, obj1) \<and> obj_rest obj1 \<and>
    load_from_buf m2 d2 kv2 (h @ x) (int (length (h @ x))) = Some (Ready, s) \<and> loaded_msg h x s \<and>
    hdr_field h 2 = obj_key_of obj \<and> hdr_field h 3 = obj_type_of obj"
proof -
  obtain h x where w: "obj_wire lib_converters False m obj = h @ x" "length h = 16" "int (length x) = obj_size obj"
    "hdr_field h (Suc 0) = obj_size obj" "hdr_field h 2 = obj_key_of obj" "hdr_field h 3 = obj_type_of obj"
    using obj_wire_shape [OF assms(1)] by blast
  have "obj_size obj + 16 \<le> i32_max" using assms(4) by (simp add: max_dson_ram_size_def i32_max_def)
  from to_buf_host_order_eq [OF assms(1-3) this] w(1)
  obtain m1 obj1 where b: "to_buf_host_order lib_converters m obj = Some (h @ x, m1, obj1)" "obj_rest obj1" by auto
  have ne: "h @ x \<noteq> []" using w(2) by auto
  have "\<exists>s. feed buf_load_step (m2, d2, kv2) [h @ x] = Some (Ready, s) \<and> loaded_msg h x s"
    by (rule load_from_buf_any_portions) (use w assms(4-9) ne in simp_all)
  then obtain s where "feed buf_load_step (m2, d2, kv2) [h @ x] = Some (Ready, s)" "loaded_msg h x s" by blast
  then have "load_from_buf m2 d2 kv2 (h @ x) (int (length (h @ x))) = Some (Ready, s)"
    by (auto simp: buf_load_step_def split: bind_splits if_splits)
  then show ?thesis using b w(5,6) \<open>loaded_msg h x s\<close> by blast
qed

lemma buffer_handover_witness:
  "\<exists>h x m1 obj1 s. to_buf_host_order lib_converters sample_mem sample_msg = Some (h @ x, m1, obj1) \<and> obj_rest obj1 \<and>
    load_from_buf \<lparr>heap = Map.empty, next_block = 0, malloc_limit = 50, malloc_fill = (\<lambda>_. 0)\<rparr> (dson_fields (replicate 16 0)) []
      (h @ x) (int (length (h @ x))) = Some (Ready, s) \<and> loaded_msg h x s \<and>
    hdr_field h 2 = obj_key_of sample_msg \<and> hdr_field h 3 = obj_type_of sample_msg"
proof -
  have "obj_size sample_msg = 38"
    using sample_message_ok by (simp add: sample_msg_def message_ok_def del: map_size.simps)
  then show ?thesis
    by (intro buffer_handover [OF sample_msg_ok])
      (simp_all add: can_load_def own_blocks_def mem_ok_def dson_fields_def max_dson_ram_size_def)
qed

section \<open>The stream operators\<close>

text \<open>\<open>operator<<\<close> and \<open>operator>>\<close>; they answer the stream.\<close>

definition stream_out :: "converters \<Rightarrow> mem \<Rightarrow> dson_obj \<Rightarrow> byte list \<Rightarrow> (byte list \<times> mem \<times> dson_obj) option" where
  "stream_out cv m obj out = copy_to_stream cv True m obj out"

definition stream_in :: "mem \<Rightarrow> dson \<Rightarrow> kvmap \<Rightarrow> byte list \<Rightarrow> (mem \<times> dson \<times> kvmap \<times> byte list) option" where
  "stream_in m d kv input = load_from_stream m d kv input"

end
