(* ===== verification/Examples.thy ===== *)
theory Examples
  imports Network Handover
begin

text \<open>
  The first program of the documentation (\<open>examples/simple/src/dson_simple.cpp\<close>): numbers
  put into a \<open>Dson\<close>, one of them replaced, and read in the order of the keys.
\<close>

section \<open>The program\<close>

datatype simple_keys = X | Y | Z

fun simple_key :: "simple_keys \<Rightarrow> i32" where
  "simple_key X = 0"
| "simple_key Y = 1"
| "simple_key Z = 2"

text \<open>The loop over \<open>map()\<close>: each key with \<open>to_int64\<close> of its value.\<close>

fun number_lines :: "converters \<Rightarrow> mem \<Rightarrow> kvmap \<Rightarrow> ((i32 \<times> int) list \<times> mem \<times> kvmap) option" where
  "number_lines cv m [] = Some ([], m, [])"
| "number_lines cv m ((k, obj) # kv) = do {
     (v, m, obj) \<leftarrow> of_obj (to_int64 cv) m (Some obj) 0;
     obj \<leftarrow> obj;
     (rest, m, kv) \<leftarrow> number_lines cv m kv;
     Some ((k, v) # rest, m, (k, obj) # kv)
   }"

text \<open>A conversion applied to \<open>dson[key]\<close>.\<close>

definition at_key :: "(mem \<Rightarrow> dson \<Rightarrow> 'a \<Rightarrow> ('a \<times> mem \<times> dson) option) \<Rightarrow> converters \<Rightarrow> mem \<Rightarrow> dson \<Rightarrow> kvmap \<Rightarrow>
    i32 \<Rightarrow> 'a \<Rightarrow> ('a \<times> mem \<times> dson \<times> kvmap) option" where
  "at_key conv cv m d kv key def = do {
     (f, m, d, kv) \<leftarrow> dson_get cv m d kv key;
     (v, m, obj) \<leftarrow> of_obj conv m (pointed f d kv) def;
     let (d, kv) = put_pointed f obj d kv;
     Some (v, m, d, kv)
   }"

definition store_numbers :: "converters \<Rightarrow> mem \<Rightarrow> ((i32 \<times> int) list \<times> u32 \<times> i32 \<times> mem) option" where
  "store_numbers cv m = do {
     (m, dson) \<leftarrow> dson_new m;
     (m, a) \<leftarrow> dson_of_uint32 m 12345;
     (m, dson, kv) \<leftarrow> emplace_dson m dson [] (simple_key Z) (a, []);
     (m, a) \<leftarrow> dson_of_int32 m 1;
     (m, dson, kv) \<leftarrow> emplace_dson m dson kv (simple_key X) (a, []);
     (m, a) \<leftarrow> dson_of_int32 m (- 2);
     (m, dson, kv) \<leftarrow> emplace_dson m dson kv (simple_key Y) (a, []);
     (m, a) \<leftarrow> dson_of_uint32 m 3;
     (m, dson, kv) \<leftarrow> emplace_dson m dson kv (simple_key Z) (a, []);
     (m, dson, kv) \<leftarrow> dson_map cv m dson kv;
     (lines, m, kv) \<leftarrow> number_lines cv m kv;
     (u, m, dson, kv) \<leftarrow> at_key (to_uint32 cv) cv m dson kv (simple_key Y) 0;
     (i, m, dson, kv) \<leftarrow> at_key (to_int32 cv) cv m dson kv (simple_key Y) 0;
     m \<leftarrow> obj_destroy m (ObjDson dson kv);
     Some (lines, u, i, m)
   }"

section \<open>What it shows\<close>

text \<open>Emplacing a freshly made number into a container.\<close>

definition plain_container :: "dson \<Rightarrow> bool" where
  "plain_container d \<longleftrightarrow> d_state d = StReady \<and> d_kind d = DsonContainer \<and> d_buf d = None \<and> \<not> d_was_alloc d"

lemma plain_emplace:
  assumes "plain_container d" "map_put m k (ObjDson (keyed k (built m0 t sz)) []) kv = Some (m', kv')"
  shows "\<exists>d'. emplace_dson m d kv k (built m0 t sz, []) = Some (m', d', kv') \<and> plain_container d'"
proof -
  have "dson_set_key m (built m0 t sz) k = Some (m, keyed k (built m0 t sz))"
    by (simp add: dson_set_key_def local_simps keyed_def)
  moreover have "header_loc d = None" using assms(1) by (simp add: plain_container_def header_loc_def)
  ultimately show ?thesis
    using assms
    by (simp add: emplace_dson_def move_construct_eq insert_internal_def to_container_def plain_container_def
        set_data_type_internal_def local_simps free_buf_def)
qed

text \<open>A number that was put in, as it is read.\<close>

definition number_at :: "mem \<Rightarrow> mem \<Rightarrow> i32 \<Rightarrow> lib_type \<Rightarrow> u32 \<Rightarrow> bool" where
  "number_at m m0 k t w \<longleftrightarrow> i32_ok k \<and> (t = T_uint32 \<or> t = T_int32) \<and> heap m (next_block m0) = Some (store32 w)"

abbreviation number :: "mem \<Rightarrow> i32 \<Rightarrow> lib_type \<Rightarrow> dson_obj" where
  "number m0 k t \<equiv> ObjDson (keyed k (built m0 t 4)) []"

lemma number_leaf:
  assumes "number_at m m0 k t w"
  shows "host_leaf m (keyed k (built m0 t 4)) t (store32 w)" "is_host_order m (keyed k (built m0 t 4)) = Some True"
    "lib_data_ok t 4 (store32 w)" "t \<in> integer_types"
proof -
  let ?d = "keyed k (built m0 t 4)"
  have h: "i32_ok 4" "i32_ok k" using assms by (simp_all add: number_at_def i32_ok_iff)
  have hd: "d_header ?d = host_hdr 4 k (types_map t)"
    by (rule keyed_built_ok(3) [of "store32 w" _ t _ m]) (use assms h in \<open>auto simp: number_at_def fits_def\<close>)
  have ty: "hdr_field (host_hdr 4 k (types_map t)) 3 = types_map t" "hdr_is_host (host_hdr 4 k (types_map t))"
    using h hdr_field_for [of _ False] by (simp_all add: hdr_for_def hdr_simps)
  show "is_host_order m ?d = Some True" using hd ty(2) by (simp add: local_simps)
  moreover have "dson_data_type m ?d = Some (types_map t)" using hd ty(1) by (simp add: dson_data_type_def local_simps)
  moreover have "mread m (next_block m0, 0) (length (store32 w)) = Some (store32 w)"
    using mread_at [of m "next_block m0" "[]" "store32 w" "[]"] assms by (simp add: number_at_def)
  ultimately show "host_leaf m ?d t (store32 w)" by (simp add: host_leaf_def data_ptr_def)
  show "lib_data_ok t 4 (store32 w)" "t \<in> integer_types" using assms by (auto simp: number_at_def fits_def integer_types_def)
qed

definition number_value :: "lib_type \<Rightarrow> u32 \<Rightarrow> int" where
  "number_value t w = (if t = T_int32 then to_i32 w else uint w)"

lemma number_value_range: "i64_min \<le> number_value t w" "number_value t w \<le> i64_max"
proof -
  have "i64_min \<le> 0" using u32_max_small by simp
  then have "i64_min \<le> uint w" by (rule order_trans) simp
  then show "i64_min \<le> number_value t w" "number_value t w \<le> i64_max"
    using word_ranges(1-4) [of w] u32_max_small
    by (cases "t = T_int32"; simp only: number_value_def simp_thms if_True if_False; linarith)+
qed

lemma number_reads:
  assumes "number_at m m0 k t w"
  shows "of_obj (to_int64 cv) m (Some (number m0 k t)) 0 = Some (number_value t w, m, Some (number m0 k t))"
    "of_obj (to_uint32 cv) m (Some (number m0 k t)) 0 =
       Some (if 0 \<le> number_value t w \<and> number_value t w \<le> u32_max then word_of_int (number_value t w) else 0, m, Some (number m0 k t))"
    "of_obj (to_int32 cv) m (Some (number m0 k t)) 0 =
       Some (if i32_min \<le> number_value t w \<and> number_value t w \<le> i32_max then number_value t w else 0, m, Some (number m0 k t))"
    "obj_to_host cv m (number m0 k t) = Some (m, number m0 k t)"
proof -
  note l = number_leaf [OF assms]
  have "lib_int t (store32 w) = number_value t w"
    using assms by (auto simp: lib_int_def number_value_def number_at_def seg_def)
  then show "of_obj (to_int64 cv) m (Some (number m0 k t)) 0 = Some (number_value t w, m, Some (number m0 k t))"
    "of_obj (to_uint32 cv) m (Some (number m0 k t)) 0 =
       Some (if 0 \<le> number_value t w \<and> number_value t w \<le> u32_max then word_of_int (number_value t w) else 0, m, Some (number m0 k t))"
    "of_obj (to_int32 cv) m (Some (number m0 k t)) 0 =
       Some (if i32_min \<le> number_value t w \<and> number_value t w \<le> i32_max then number_value t w else 0, m, Some (number m0 k t))"
    using integers_convert [OF l(1,3,4), of cv 0 0 0 0] number_value_range [of t w] by (simp_all add: of_obj_def)
  show "obj_to_host cv m (number m0 k t) = Some (m, number m0 k t)" using l(2) by (simp add: obj_to_host_def to_host_def)
qed

lemma at_key_number:
  assumes "plain_container d" "kv_find k kv = Some (number m0 k t)" "number_at m m0 k t w"
    and "of_obj conv m (Some (number m0 k t)) x = Some (v, m, Some (number m0 k t))"
    and "kv_insert_or_assign k (number m0 k t) kv = kv"
  shows "at_key conv cv m d kv k x = Some (v, m, d, kv)"
  using assms number_reads(4) [OF assms(3), of cv]
  by (simp add: at_key_def dson_get_def plain_container_def get_internal_def pointed_def put_pointed_def)

text \<open>
  \<open>dson_simple\<close> prints what its documentation shows: the numbers in the order of their
  keys, the second value of \<open>z\<close>, the default for the negative number read as unsigned and
  the number itself; and every block it allocated has been freed.
\<close>

theorem store_numbers_output:
  assumes "mem_ok m" "4 \<le> malloc_limit m"
  shows "\<exists>m'. store_numbers lib_converters m = Some ([(0, 1), (1, - 2), (2, 3)], 0, - 2, m') \<and> heap m' = heap m"
proof -
  define m1 where "m1 = fresh m (store32 12345)"
  define m2 where "m2 = fresh m1 (store32 1)"
  define m3 where "m3 = fresh m2 (store32 (of_i32 (- 2)))"
  define m4 where "m4 = fresh m3 (store32 3)"
  define m5 where "m5 = m4\<lparr>heap := (heap m4)(next_block m := None)\<rparr>"
  let ?old = "number m 2 T_uint32" and ?x = "number m1 0 T_int32" and ?y = "number m2 1 T_int32" and ?z = "number m3 2 T_uint32"
  let ?kv = "[(0, ?x), (1, ?y), (2, ?z)]"
  have new: "dson_of_uint32 m 12345 = Some (m1, built m T_uint32 4)" "dson_of_int32 m1 1 = Some (m2, built m1 T_int32 4)"
    "dson_of_int32 m2 (- 2) = Some (m3, built m2 T_int32 4)" "dson_of_uint32 m3 3 = Some (m4, built m3 T_uint32 4)"
    using assms(2) dson_of_bytes_eq [of 4]
    by (simp_all add: dson_of_uint32_def dson_of_int32_def m1_def m2_def m3_def m4_def)
  define d0 where "d0 = dson_fields (host_hdr 0 0 (types_map T_Empty))"
  have d0: "plain_container d0" by (simp add: d0_def plain_container_def dson_fields_def)
  obtain d1 where d1: "emplace_dson m1 d0 [] 2 (built m T_uint32 4, []) = Some (m1, d1, [(2, ?old)])" "plain_container d1"
    using plain_emplace [OF d0, of m1 2 m T_uint32 4 "[]"] by (auto simp: map_put_def)
  obtain d2 where d2: "emplace_dson m2 d1 [(2, ?old)] 0 (built m1 T_int32 4, []) = Some (m2, d2, [(0, ?x), (2, ?old)])" "plain_container d2"
    using plain_emplace [OF d1(2), of m2 0 m1 T_int32 4 "[(2, ?old)]"] by (auto simp: map_put_def)
  obtain d3 where d3: "emplace_dson m3 d2 [(0, ?x), (2, ?old)] 1 (built m2 T_int32 4, []) = Some (m3, d3, [(0, ?x), (1, ?y), (2, ?old)])" "plain_container d3"
    using plain_emplace [OF d2(2), of m3 1 m2 T_int32 4 "[(0, ?x), (2, ?old)]"] by (auto simp: map_put_def)
  have free: "obj_destroy m4 ?old = Some m5"
    by (simp add: free_buf_def mfree_def m5_def) (simp add: m4_def m3_def m2_def m1_def)
  then obtain d4 where d4: "emplace_dson m4 d3 [(0, ?x), (1, ?y), (2, ?old)] 2 (built m3 T_uint32 4, []) = Some (m5, d4, ?kv)" "plain_container d4"
    using plain_emplace [OF d3(2), of m4 2 m3 T_uint32 4 "[(0, ?x), (1, ?y), (2, ?old)]"] by (auto simp: map_put_def)
  have at: "number_at m5 m1 0 T_int32 1" "number_at m5 m2 1 T_int32 (of_i32 (- 2))" "number_at m5 m3 2 T_uint32 3"
    by (simp_all add: number_at_def m5_def m4_def m3_def m2_def m1_def i32_ok_iff)
  have v: "number_value T_int32 1 = 1" "number_value T_int32 (of_i32 (- 2)) = - 2" "number_value T_uint32 3 = 3"
    by (simp_all add: number_value_def)
  note r = number_reads [OF at(1)] number_reads [OF at(2)] number_reads [OF at(3)]
  have map: "dson_map lib_converters m5 d4 ?kv = Some (m5, d4, ?kv)"
    using d4(2) r(4,8,12) by (simp add: dson_map_def plain_container_def to_container_def)
  have lines: "number_lines lib_converters m5 ?kv = Some ([(0, 1), (1, - 2), (2, 3)], m5, ?kv)"
    using r(1,5,9) v by simp
  have u: "at_key (to_uint32 lib_converters) lib_converters m5 d4 ?kv 1 0 = Some (0, m5, d4, ?kv)"
    by (rule at_key_number [OF d4(2) _ at(2)]) (use r(6) v in simp_all)
  have i: "at_key (to_int32 lib_converters) lib_converters m5 d4 ?kv 1 0 = Some (- 2, m5, d4, ?kv)"
    by (rule at_key_number [OF d4(2) _ at(2)]) (use r(7) v in \<open>simp_all add: i32_min_def i32_max_def\<close>)
  have none: "heap m (next_block m) = None" "heap m (Suc (next_block m)) = None" "heap m (Suc (Suc (next_block m))) = None"
    "heap m (Suc (Suc (Suc (next_block m)))) = None"
    using assms(1) by (simp_all add: mem_ok_def)
  obtain m' where e: "obj_destroy m5 (ObjDson d4 ?kv) = Some m'" "heap m' = heap m"
    using d4(2) none
    by (simp add: plain_container_def free_buf_def mfree_def m5_def m4_def m3_def m2_def m1_def fun_upd_twist fun_eq_iff)
  have "store_numbers lib_converters m = Some ([(0, 1), (1, - 2), (2, 3)], 0, - 2, m')"
    using new d1(1) d2(1) d3(1) d4(1) map lines u i e(1) by (simp add: store_numbers_def dson_new_eq d0_def [symmetric] del: obj_destroy.simps)
  then show ?thesis using e(2) by blast
qed

lemma store_numbers_output_witness:
  "\<exists>m'. store_numbers lib_converters \<lparr>heap = Map.empty, next_block = 0, malloc_limit = 4, malloc_fill = (\<lambda>_. 255)\<rparr> =
      Some ([(0, 1), (1, - 2), (2, 3)], 0, - 2, m') \<and>
    heap m' = heap \<lparr>heap = Map.empty, next_block = 0, malloc_limit = 4, malloc_fill = (\<lambda>_. 255)\<rparr>"
  by (rule store_numbers_output) (simp_all add: mem_ok_def)

end
