(* ===== verification/Streams.thy ===== *)
theory Streams
  imports Examples
begin

text \<open>
  The program \<open>examples/streams/src/dson_streams.cpp\<close>: five values put into a \<open>Dson\<close>, which
  is written to a file, printed again, loaded from the file into another one and printed.
\<close>

section \<open>The program\<close>

datatype stream_keys = Key_x | Key_y | Key_z | Key_string_message | Key_string_view_message

fun stream_key :: "stream_keys \<Rightarrow> i32" where
  "stream_key Key_x = 0"
| "stream_key Key_y = 1"
| "stream_key Key_z = 2"
| "stream_key Key_string_message = 3"
| "stream_key Key_string_view_message = 4"

text \<open>The loop over \<open>map()\<close> in \<open>print\<close>: each key with \<open>to_string\<close> of its value.\<close>

fun text_lines :: "converters \<Rightarrow> mem \<Rightarrow> kvmap \<Rightarrow> ((i32 \<times> byte list) list \<times> mem \<times> kvmap) option" where
  "text_lines cv m [] = Some ([], m, [])"
| "text_lines cv m ((key, value) # kv) = do {
     (txt, m, value) \<leftarrow> to_string cv m (Some value);
     value \<leftarrow> value;
     (rest, m, kv) \<leftarrow> text_lines cv m kv;
     Some ((key, txt) # rest, m, (key, value) # kv)
   }"

definition print_dson :: "converters \<Rightarrow> mem \<Rightarrow> dson \<Rightarrow> kvmap \<Rightarrow> ((i32 \<times> byte list) list \<times> mem \<times> dson \<times> kvmap) option" where
  "print_dson cv m d kv = do {
     (m, d, kv) \<leftarrow> dson_map cv m d kv;
     (txt, m, kv) \<leftarrow> text_lines cv m kv;
     Some (txt, m, d, kv)
   }"

text \<open>\<open>to_string(dson[key])\<close> and \<open>to_string_view(dson[key])\<close>.\<close>

definition string_at :: "converters \<Rightarrow> mem \<Rightarrow> dson \<Rightarrow> kvmap \<Rightarrow> i32 \<Rightarrow> (byte list \<times> mem \<times> dson \<times> kvmap) option" where
  "string_at cv m d kv key = do {
     (f, m, d, kv) \<leftarrow> dson_get cv m d kv key;
     (txt, m, obj) \<leftarrow> to_string cv m (pointed f d kv);
     let (d, kv) = put_pointed f obj d kv;
     Some (txt, m, d, kv)
   }"

definition view_at :: "converters \<Rightarrow> mem \<Rightarrow> dson \<Rightarrow> kvmap \<Rightarrow> i32 \<Rightarrow> (byte list \<times> mem \<times> dson \<times> kvmap) option" where
  "view_at cv m d kv key = do {
     (f, m, d, kv) \<leftarrow> dson_get cv m d kv key;
     txt \<leftarrow> to_string_view m (pointed f d kv);
     Some (txt, m, d, kv)
   }"

text \<open>The values that go into \<open>dson1\<close>.\<close>

definition mother_text :: "byte list" where "mother_text = map of_char ''Mother washed the frame''"

definition father_text :: "byte list" where "father_text = map of_char ''Father eats banana''"

definition fill_dson1 :: "mem \<Rightarrow> (mem \<times> dson \<times> kvmap) option" where
  "fill_dson1 m = do {
     (m, dson1) \<leftarrow> dson_new m;
     (m, a) \<leftarrow> dson_of_int32 m 4;
     (m, dson1, kv) \<leftarrow> emplace_dson m dson1 [] (stream_key Key_x) (a, []);
     (m, a) \<leftarrow> dson_of_int32 m 2;
     (m, dson1, kv) \<leftarrow> emplace_dson m dson1 kv (stream_key Key_y) (a, []);
     (m, a) \<leftarrow> dson_of_uint32 m 3;
     (m, dson1, kv) \<leftarrow> emplace_dson m dson1 kv (stream_key Key_z) (a, []);
     (m, a) \<leftarrow> dson_of_string m mother_text;
     (m, dson1, kv) \<leftarrow> emplace_dson m dson1 kv (stream_key Key_string_message) (a, []);
     (m, a) \<leftarrow> dson_of_string m father_text;
     emplace_dson m dson1 kv (stream_key Key_string_view_message) (a, [])
   }"

text \<open>
  What is printed: the value under \<open>z\<close> and all of \<open>dson1\<close>, all of it after the copy, then of
  \<open>dson2\<close> the message, the value under \<open>z\<close> and all of it.
\<close>

record streams_output =
  z_before :: "byte list"
  dson1_lines :: "(i32 \<times> byte list) list"
  dson1_after_copy :: "(i32 \<times> byte list) list"
  message_after :: "byte list"
  z_after :: "byte list"
  dson2_lines :: "(i32 \<times> byte list) list"

definition streams_program :: "converters \<Rightarrow> mem \<Rightarrow> (streams_output \<times> mem) option" where
  "streams_program cv m = do {
     (m, dson1, kv1) \<leftarrow> fill_dson1 m;
     (z1, m, dson1, kv1) \<leftarrow> string_at cv m dson1 kv1 (stream_key Key_z);
     (l1, m, dson1, kv1) \<leftarrow> print_dson cv m dson1 kv1;
     (file, m, obj) \<leftarrow> stream_out cv m (ObjDson dson1 kv1) [];
     (case obj of ObjDson dson1 kv1 \<Rightarrow> do {
        (l2, m, dson1, kv1) \<leftarrow> print_dson cv m dson1 kv1;
        (m, dson2) \<leftarrow> dson_new m;
        (m, dson2, kv2, rest) \<leftarrow> stream_in m dson2 [] file;
        (s2, m, dson2, kv2) \<leftarrow> view_at cv m dson2 kv2 (stream_key Key_string_message);
        (z2, m, dson2, kv2) \<leftarrow> string_at cv m dson2 kv2 (stream_key Key_z);
        (l3, m, dson2, kv2) \<leftarrow> print_dson cv m dson2 kv2;
        m \<leftarrow> obj_destroy m (ObjDson dson2 kv2);
        m \<leftarrow> obj_destroy m (ObjDson dson1 kv1);
        Some (\<lparr>z_before = z1, dson1_lines = l1, dson1_after_copy = l2, message_after = s2, z_after = z2,
          dson2_lines = l3\<rparr>, m)
      }
    | _ \<Rightarrow> None)
   }"

end
