(* ===== verification/Dson_Move.thy ===== *)
theory Dson_Move
  imports Dson_Send
begin

text \<open>
  Move assignment: \<open>operator=(Dson &&)\<close> and \<open>move_from_other\<close> (\<open>dson.h\<close>), with the branch for
  an object that is a view on a buffer of somebody else.
\<close>

section \<open>The operation\<close>

text \<open>
  The object assigned to comes first, the other one second; \<open>std::swap\<close> exchanges the maps
  and the iterators.  Both are the objects as they are left.
\<close>

definition move_fields :: "dson \<Rightarrow> kvmap \<Rightarrow> dson \<Rightarrow> kvmap \<Rightarrow> (dson \<times> kvmap) \<times> (dson \<times> kvmap)" where
  "move_fields d kv other okv =
     ((d\<lparr>d_header := d_header other, d_state := d_state other, d_buf := d_buf other, d_buf_size := d_buf_size other,
         d_was_alloc := d_was_alloc other, d_kind := d_kind other, d_offset := d_offset other, d_iter := d_iter other\<rparr>, okv),
      (other\<lparr>d_state := StError, d_buf := None, d_iter := d_iter d\<rparr>, kv))"

text \<open>
  The branch for a view: memory for as many bytes as the view has (\<open>static_cast<size_t>\<close> of a
  negative number is huge), the header of the other object copied into the own one, then its
  data into the memory.
\<close>

definition move_into_view :: "converters \<Rightarrow> mem \<Rightarrow> dson \<Rightarrow> kvmap \<Rightarrow> dson_obj \<Rightarrow>
    (mem \<times> dson \<times> kvmap \<times> dson_obj) option" where
  "move_into_view cv m d kv other = do {
     sz \<leftarrow> dson_data_size m d kv;
     let d = d\<lparr>d_buf_size := sz\<rparr>;
     case malloc m (nat (sz mod 2 ^ 64)) of
       (None, m) \<Rightarrow> Some (m, d\<lparr>d_buf := None\<rparr>, kv, other)
     | (Some p, m) \<Rightarrow> do {
         let d = d\<lparr>d_buf := Some p, d_was_alloc := True\<rparr>;
         (r, c, m, other) \<leftarrow> copy_to_buf cv False m other \<lparr>c_out = [], c_room = int header_size\<rparr>;
         let d = d\<lparr>d_header := patch (d_header d) 0 (c_out c)\<rparr>;
         if r = Error \<or> c_room c \<noteq> 0 then Some (m, d\<lparr>d_state := StError\<rparr>, kv, other)
         else do {
           (r, c, m, other) \<leftarrow> copy_to_buf cv False m other \<lparr>c_out = [], c_room = sz\<rparr>;
           m \<leftarrow> mwrite m p (c_out c);
           if r \<noteq> Ready \<or> c_room c \<noteq> 0 then Some (m, d\<lparr>d_state := StError\<rparr>, kv, other)
           else Some (m, d, kv, other)
         }
       }
   }"

definition move_assign :: "converters \<Rightarrow> mem \<Rightarrow> dson \<Rightarrow> kvmap \<Rightarrow> dson \<Rightarrow> kvmap \<Rightarrow> (mem \<times> dson \<times> kvmap \<times> dson_obj) option" where
  "move_assign cv m d kv other okv =
     (if \<not> d_was_alloc d \<and> d_buf d \<noteq> None then move_into_view cv m d kv (ObjDson other okv)
      else (case move_fields d kv other okv of ((d, kv), (other, okv)) \<Rightarrow> Some (m, d, kv, ObjDson other okv)))"

section \<open>Assignment to an object that is not a view\<close>

text \<open>
  C33: what move assignment does with memory.  The object assigned to takes over everything
  the other one had, its buffer and its objects, and is what the other one was; what it held
  itself is gone with the other object, except for a buffer of its own, which nobody frees:
  when both objects have been destroyed, exactly that buffer is still allocated.
\<close>

theorem move_assign_leaks_buffer:
  assumes "d_was_alloc d \<or> d_buf d = None" "obj_owned m (ObjDson d kv)" "obj_owned m (ObjDson other okv)"
    and "distinct (obj_blocks (ObjDson d kv) @ obj_blocks (ObjDson other okv))"
  shows "\<exists>moved m1 m2. move_assign cv m d kv other okv = Some (m, other, okv, moved) \<and>
    obj_destroy m moved = Some m1 \<and> obj_destroy m1 (ObjDson other okv) = Some m2 \<and>
    (\<forall>b. heap m2 b = (if b \<in> set (map_blocks kv) \<or> b \<in> set (obj_blocks (ObjDson other okv)) then None else heap m b)) \<and>
    (\<forall>b \<in> set (own_blocks d). heap m2 b \<noteq> None)"
proof -
  let ?moved = "ObjDson (other\<lparr>d_state := StError, d_buf := None, d_iter := d_iter d\<rparr>) kv"
  have a: "move_assign cv m d kv other okv = Some (m, other, okv, ?moved)"
    using assms(1) by (auto simp: move_assign_def move_fields_def)
  have bl: "obj_blocks ?moved = map_blocks kv" by (simp add: own_blocks_def)
  have "obj_owned m ?moved" using assms(2) by simp
  then have d1: "obj_destroy m ?moved = Some (free_blocks m (map_blocks kv))"
    using obj_destroy_frees [of m ?moved] assms(4) unfolding bl by simp
  have "obj_owned (free_blocks m (map_blocks kv)) (ObjDson other okv)"
    using assms(3,4) by (subst obj_owned_frame [of _ _ m]) auto
  then have d2: "obj_destroy (free_blocks m (map_blocks kv)) (ObjDson other okv) =
      Some (free_blocks (free_blocks m (map_blocks kv)) (obj_blocks (ObjDson other okv)))"
    using obj_destroy_frees assms(4) by fastforce
  have "heap m b \<noteq> None" if "b \<in> set (own_blocks d)" for b
    using own_blocks_live [OF assms(2) that] .
  moreover have "set (own_blocks d) \<inter> (set (map_blocks kv) \<union> set (obj_blocks (ObjDson other okv))) = {}"
    using assms(4) by auto
  ultimately show ?thesis using a d1 d2
    by (intro exI [of _ ?moved] exI [of _ "free_blocks m (map_blocks kv)"]
        exI [of _ "free_blocks (free_blocks m (map_blocks kv)) (obj_blocks (ObjDson other okv))"])
      (auto simp del: obj_blocks.simps obj_destroy.simps)
qed

lemma move_assign_leaks_buffer_witness:
  "\<exists>moved m1 m2. move_assign lib_converters (sample_mem\<lparr>heap := [0 \<mapsto> [1, 2, 3, 4], 1 \<mapsto> [5]]\<rparr>)
      ((dson_fields [])\<lparr>d_buf := Some (1, 0), d_was_alloc := True\<rparr>) [] sample_int [] =
      Some (sample_mem\<lparr>heap := [0 \<mapsto> [1, 2, 3, 4], 1 \<mapsto> [5]]\<rparr>, sample_int, [], moved) \<and>
    obj_destroy (sample_mem\<lparr>heap := [0 \<mapsto> [1, 2, 3, 4], 1 \<mapsto> [5]]\<rparr>) moved = Some m1 \<and>
    obj_destroy m1 (ObjDson sample_int []) = Some m2 \<and>
    (\<forall>b. heap m2 b = (if b \<in> set (map_blocks []) \<or> b \<in> set (obj_blocks (ObjDson sample_int [])) then None
       else heap (sample_mem\<lparr>heap := [0 \<mapsto> [1, 2, 3, 4], 1 \<mapsto> [5]]\<rparr>) b)) \<and>
    (\<forall>b \<in> set (own_blocks ((dson_fields [])\<lparr>d_buf := Some (1, 0), d_was_alloc := True\<rparr>)). heap m2 b \<noteq> None)"
  by (rule move_assign_leaks_buffer) (simp_all add: sample_int_def sample_mem_def dson_fields_def own_blocks_def)

section \<open>Assignment to a view\<close>

text \<open>One call with one window.\<close>

lemma copy_window:
  assumes "sending nw W (m, obj)"
  defines "P \<equiv> to_send nw (m, obj)"
  shows "\<exists>r m' obj'. copy_to_buf lib_converters nw m obj \<lparr>c_out = [], c_room = int n\<rparr> =
      Some (r, \<lparr>c_out = take n P, c_room = int n - int (min n (length P))\<rparr>, m', obj') \<and>
    advances P (min n (length P)) r (to_send nw (m', obj')) (obj_rest obj') \<and> sending nw W (m', obj') \<and>
    lib_buf.kept nw m obj m' obj'"
proof -
  have w: "\<lparr>c_out = [], c_room = int n\<rparr> = window n" by (simp add: window_def)
  have "lib_buf.good_call (int n) nw m obj (window n) (copy_obj (obj_depth obj) buf_sink lib_converters nw m obj (window n))"
    by (rule lib_buf.copy_obj_good) (use assms in \<open>simp_all add: sending_def\<close>)
  then obtain r c m' obj' where e: "copy_to_buf lib_converters nw m obj (window n) = Some (r, c, m', obj')"
    and h: "handed c_out (window_of (int n)) (\<lambda>c. c_room c = 0) P (window n) r c (to_send nw (m', obj')) (obj_rest obj')"
    and k: "lib_buf.kept nw m obj m' obj'"
    by (auto simp: lib_buf.good_call_def copy_to_buf_def P_def)
  obtain j where j: "advances P j r (to_send nw (m', obj')) (obj_rest obj')" "c_out c = take j P"
    "window_of (int n) c" "r = InProcess \<longrightarrow> c_room c = 0"
    using h by (auto simp: handed_def)
  have m: "j = min n (length P)"
    using j by (cases r) (auto simp: advances_ready advances_in_process)
  then have "c = \<lparr>c_out = take n P, c_room = int n - int (min n (length P))\<rparr>"
    using j(2,3) by (cases c) (auto simp: min_def split: if_splits)
  moreover have "sending nw W (m', obj')" using assms(1) k by (auto simp: sending_def lib_buf.kept_def)
  ultimately show ?thesis unfolding w using e j(1) k m by blast
qed

text \<open>What the view becomes: an object with memory of its own and the bytes it was given.\<close>

lemma move_into_view_eq:
  assumes d: "d_state d \<noteq> StError" "length (d_header d) = 16" "dson_data_size m d kv = Some sz"
    and sz: "0 < sz" "nat sz \<le> malloc_limit m" "i32_ok sz" "mem_ok m"
    and other: "obj_ok lib_data False m other" "obj_owned m other" "distinct (obj_blocks other)" "obj_rest other" "0 < obj_size other"
    and W: "obj_wire lib_converters False m other = h @ x" "length h = 16" "int (length x) = obj_size other"
  shows "\<exists>m' other'. move_into_view lib_converters m d kv other = Some (m',
      d\<lparr>d_buf_size := sz, d_buf := Some (next_block m, 0), d_was_alloc := True, d_header := h,
        d_state := if sz = obj_size other then d_state d else StError\<rparr>, kv, other') \<and>
    heap m' (next_block m) = Some (take (nat sz) x @ drop (length x) (map (malloc_fill m) [0..<nat sz]))"
proof -
  let ?p = "next_block m" and ?raw = "map (malloc_fill m) [0..<nat sz]"
  define m0 where "m0 = m\<lparr>heap := (heap m)(next_block m \<mapsto> ?raw), next_block := Suc (next_block m)\<rparr>"
  have n: "nat (sz mod 2 ^ 64) = nat sz" using sz(1,3) by (simp add: i32_ok_iff)
  have mal: "malloc m (nat (sz mod 2 ^ 64)) = (Some (?p, 0), m0)" using sz(2) unfolding n by (simp add: malloc_def m0_def)
  have fresh: "?p \<notin> set (obj_blocks other)"
    using obj_owned_blocks [OF other(2), of ?p] sz(4) by (auto simp: mem_ok_def)
  then have same: "\<forall>b \<in> set (obj_blocks other). heap m0 b = heap m b" by (auto simp: m0_def)
  then have s0: "sending False (h @ x) (m0, other)"
    using obj_frame [OF same, of lib_data False lib_converters] other(1,3) W(1) by (simp add: sending_def)
  have p0: "to_send False (m0, other) = h @ x"
    using obj_rest_pending [of lib_data False m0 other lib_converters] s0 other(4) by (simp add: sending_def)
  have x: "x \<noteq> []" using other(5) W(3) by auto
  obtain r1 m1 o1 where c1: "copy_to_buf lib_converters False m0 other \<lparr>c_out = [], c_room = int header_size\<rparr> =
      Some (r1, \<lparr>c_out = h, c_room = 0\<rparr>, m1, o1)"
    "advances (h @ x) 16 r1 (to_send False (m1, o1)) (obj_rest o1)" "sending False (h @ x) (m1, o1)"
    "lib_buf.kept False m0 other m1 o1"
    using copy_window [OF s0, of 16] W(2) unfolding p0 by (auto simp: header_size_def)
  then have r1: "r1 = InProcess" "to_send False (m1, o1) = x"
    using W(2) x by (auto simp: advances_def)
  obtain r2 m2 o2 where c2: "copy_to_buf lib_converters False m1 o1 \<lparr>c_out = [], c_room = sz\<rparr> =
      Some (r2, \<lparr>c_out = take (nat sz) x, c_room = sz - int (min (nat sz) (length x))\<rparr>, m2, o2)"
    "advances x (min (nat sz) (length x)) r2 (to_send False (m2, o2)) (obj_rest o2)"
    "lib_buf.kept False m1 o1 m2 o2"
    using copy_window [OF c1(3), of "nat sz"] sz(1) unfolding r1(2) by auto
  have "heap m2 ?p = Some ?raw"
    using c1(4) c2(3) fresh by (simp add: lib_buf.kept_def m0_def)
  then have w: "mwrite m2 (?p, 0) (take (nat sz) x) = Some (upd_block m2 ?p (patch ?raw 0 (take (nat sz) x)))"
    by (subst mwrite_eq [of _ _ ?raw]) simp_all
  have h: "patch (d_header d) 0 h = h" using d(2) W(2) by (simp add: patch_def)
  have ready: "r2 = Ready \<and> sz = int (min (nat sz) (length x)) \<longleftrightarrow> sz = obj_size other"
    using c2(2) sz(1) W(3) by (auto simp: advances_def min_def split: if_splits)
  have data: "patch ?raw 0 (take (nat sz) x) = take (nat sz) x @ drop (length x) ?raw"
    by (cases "length x \<le> nat sz") (simp_all add: patch_def)
  have st: "d\<lparr>d_buf_size := sz, d_buf := b, d_was_alloc := True, d_header := g, d_state := d_state d\<rparr> =
      d\<lparr>d_buf_size := sz, d_buf := b, d_was_alloc := True, d_header := g\<rparr>" for b g by simp
  show ?thesis
  proof (cases "sz = obj_size other")
    case True
    then have "r2 = Ready" "sz = int (min (nat sz) (length x))" using ready by blast+
    then show ?thesis
      using d(3) mal c1(1) r1(1) c2(1) w h data True
      by (simp add: move_into_view_def Let_def st)
  next
    case False
    then have "r2 \<noteq> Ready \<or> sz - int (min (nat sz) (length x)) \<noteq> 0" using ready by auto
    then show ?thesis
      using d(3) mal c1(1) r1(1) c2(1) w h data False
      by (simp add: move_into_view_def Let_def)
  qed
qed

text \<open>
  C34: assignment to a view of \<open>n\<close> bytes copies (it does not take over): when the other object
  has exactly \<open>n\<close> bytes of data, the view becomes an object with memory of its own that holds
  them, with the other one's key and type; with any other size it becomes \<open>Error\<close>.
\<close>

theorem move_assign_to_view:
  assumes "\<not> d_was_alloc d" "d_buf d \<noteq> None" "d_state d \<noteq> StError" "length (d_header d) = 16" "dson_data_size m d kv = Some sz"
    and "0 < sz" "nat sz \<le> malloc_limit m" "i32_ok sz" "mem_ok m"
    and "obj_ok lib_data False m (ObjDson other okv)" "obj_owned m (ObjDson other okv)"
    and "distinct (obj_blocks (ObjDson other okv))" "obj_rest (ObjDson other okv)" "0 < obj_size (ObjDson other okv)"
  shows "\<exists>m' d' other'. move_assign lib_converters m d kv other okv = Some (m', d', kv, other') \<and>
    d_was_alloc d' \<and> d_buf d' = Some (next_block m, 0) \<and>
    (if sz = obj_size (ObjDson other okv)
     then d_state d' = d_state d \<and> (\<exists>x. obj_wire lib_converters False m (ObjDson other okv) = d_header d' @ x \<and> heap m' (next_block m) = Some x) \<and>
       hdr_field (d_header d') 2 = obj_key_of (ObjDson other okv) \<and> hdr_field (d_header d') 3 = obj_type_of (ObjDson other okv)
     else d_state d' = StError)"
proof -
  let ?o = "ObjDson other okv"
  obtain h x where w: "obj_wire lib_converters False m ?o = h @ x" "length h = 16" "int (length x) = obj_size ?o"
    "hdr_field h 2 = obj_key_of ?o" "hdr_field h 3 = obj_type_of ?o"
    using obj_wire_shape [OF assms(10)] by blast
  let ?d = "d\<lparr>d_buf_size := sz, d_buf := Some (next_block m, 0), d_was_alloc := True, d_header := h,
    d_state := if sz = obj_size ?o then d_state d else StError\<rparr>"
  obtain m' other' where v: "move_into_view lib_converters m d kv ?o = Some (m', ?d, kv, other')"
    "heap m' (next_block m) = Some (take (nat sz) x @ drop (length x) (map (malloc_fill m) [0..<nat sz]))"
    using move_into_view_eq [OF assms(3-14) w(1-3)] by blast
  have "move_assign lib_converters m d kv other okv = Some (m', ?d, kv, other')"
    using v(1) assms(1,2) by (simp add: move_assign_def)
  moreover have "take (nat sz) x @ drop (length x) (map (malloc_fill m) [0..<nat sz]) = x" if "sz = obj_size ?o"
    using that w(3) by simp
  ultimately show ?thesis using v(2) w
    by (intro exI [of _ m'] exI [of _ ?d] exI [of _ other']) (simp del: obj_wire.simps obj_size.simps)
qed

text \<open>A view of four bytes beside the integer of the samples.\<close>

definition view_mem :: mem where
  "view_mem = sample_mem\<lparr>heap := [0 \<mapsto> [1, 2, 3, 4], 1 \<mapsto> host_hdr 4 9 (types_map T_int32) @ [0, 0, 0, 0]], next_block := 2\<rparr>"

definition sample_view :: dson where
  "sample_view = (dson_fields (replicate 16 0))\<lparr>d_buf := Some (1, 0), d_kind := OneObjectInDataBuf\<rparr>"

lemma sample_view_size: "dson_data_size view_mem sample_view [] = Some 4"
proof -
  have h: "header_loc sample_view = Some (1, 0)" "heap view_mem 1 = Some (host_hdr 4 9 (types_map T_int32) @ [0, 0, 0, 0])"
    by (simp_all add: sample_view_def view_mem_def header_loc_def dson_fields_def)
  have r: "hdr_get view_mem sample_view i = Some (get32 (host_hdr 4 9 (types_map T_int32)) i)" if "i < 4" for i
    using h that by (simp add: hdr_get_def mread32_def mread_eq get32_def padd_def seg_append1)
  have k: "d_kind sample_view = OneObjectInDataBuf" "d_state sample_view = StReady" by (simp_all add: sample_view_def dson_fields_def)
  have i: "i32_ok 4" by (simp add: i32_ok_iff)
  have f: "hdr_field (host_hdr 4 9 (types_map T_int32)) 1 = 4" using hdr_field_for(1) [OF i, of False 9] by (simp add: hdr_for_def)
  show ?thesis using r k f by (simp add: dson_data_size_def hdr_read_field_def hdr_field_def hdr_is_host_def)
qed

lemma move_assign_to_view_witness:
  "\<exists>m' d' other'. move_assign lib_converters view_mem sample_view [] sample_int [] = Some (m', d', [], other') \<and>
    d_was_alloc d' \<and> d_buf d' = Some (next_block view_mem, 0) \<and>
    (if (4::int) = obj_size (ObjDson sample_int [])
     then d_state d' = d_state sample_view \<and>
       (\<exists>x. obj_wire lib_converters False view_mem (ObjDson sample_int []) = d_header d' @ x \<and> heap m' (next_block view_mem) = Some x) \<and>
       hdr_field (d_header d') 2 = obj_key_of (ObjDson sample_int []) \<and> hdr_field (d_header d') 3 = obj_type_of (ObjDson sample_int [])
     else d_state d' = StError)"
proof (rule move_assign_to_view)
  show "dson_data_size view_mem sample_view [] = Some 4" by (rule sample_view_size)
  show "obj_ok lib_data False view_mem (ObjDson sample_int [])"
    using obj_frame [of "ObjDson sample_int []" view_mem sample_mem lib_data False lib_converters] sample_int_ok [of False]
    by (simp add: view_mem_def sample_mem_def) (simp add: sample_int_def own_blocks_def dson_fields_def)
  show "mem_ok view_mem" by (simp add: mem_ok_def view_mem_def)
  show "obj_owned view_mem (ObjDson sample_int [])" "distinct (obj_blocks (ObjDson sample_int []))"
    by (simp_all add: sample_int_def view_mem_def own_blocks_def dson_fields_def)
  show "obj_rest (ObjDson sample_int [])" by (simp add: sample_int_def dson_fields_def)
  show "0 < obj_size (ObjDson sample_int [])" by (simp add: sample_int_def dson_fields_def hdr_simps)
qed (simp_all add: sample_view_def dson_fields_def view_mem_def sample_mem_def i32_ok_iff)

end
