(* ===== verification/Spec2Isabelle.thy ===== *)
theory Spec2Isabelle
  imports Composite_Program Ipc Star_Delivery Streams Dson_Move
begin

text \<open>
  A verification library for \<open>dson\<close>, a C++ library that keeps typed objects in one
  serialisable container and moves it through memory windows, file descriptors and streams,
  and for the programs that come with it.  All paths are relative to \<open>src/\<close>.

  \<^bold>\<open>The program.\<close>  \<open>include/dson/impl/dson_obj.h\<close> is the interface of an object: a header of
  four 32-bit fields (byte-order mark, data size, key, type) followed by the data.  Three
  classes implement it: \<open>Dson\<close> (\<open>include/dson/dson.h\<close>: a value in a buffer of its own, a view
  on a buffer of somebody else, or a container, a map from keys to objects),
  \<open>DsonStringObj\<close> and \<open>DsonRouteObj\<close> (\<open>include/dson/custom_dson_objs/\<close>).  A container is
  written header first, then its objects in the order of the keys, each with its header; it is
  loaded into one buffer and parsed into views when somebody asks for an object.  Integers
  and doubles are converted between host and network order in place, by converters found by
  type (\<open>include/dson/dson_tools.h\<close>, \<open>Dson::Converters\<close>).  Copying and loading are resumable: a
  call moves as many bytes as it can and answers \<open>Ready\<close>, \<open>InProcess\<close> or \<open>Error\<close>.  The examples
  (\<open>examples/\<close>) use this for saving and loading, for two threads that talk over pipes, and for
  a server that routes messages between services and a client.

  \<^bold>\<open>The theories.\<close>
  \<^item> Foundations: \<open>Prelude\<close> (lists of bytes, \<open>seg\<close> and \<open>patch\<close>), \<open>Byte_Order\<close> and \<open>Doubles\<close>
    (\<open>dson_tools.h\<close>; 32- and 64-bit values are words, a double is its IEEE 754 pattern),
    \<open>Words16\<close>, \<open>Memory\<close> (blocks of bytes, \<open>malloc\<close> with a limit, \<open>free\<close>; every access is
    checked, so an access out of bounds, a double free and a null dereference are \<open>None\<close>),
    \<open>Key_Map\<close> (\<open>std::map\<close> as an association list sorted by key).
  \<^item> Objects: \<open>Dson_Obj\<close> (results, states, headers, type identifiers), \<open>Resumable_IO\<close> (memory
    windows, descriptors and \<open>os/linux/linux_network.h\<close>), \<open>String_Obj\<close>, \<open>Route_Obj\<close>, \<open>Converters\<close>.
  \<^item> \<open>Dson\<close>: \<open>Dson_Core\<close> (fields, header, allocation, destruction, constructors), \<open>Dson_Map\<close>
    (views, \<open>parse_buf\<close>, \<open>emplace\<close>, \<open>get\<close>, \<open>map\<close>), \<open>Dson_Load\<close>, \<open>Dson_Copy\<close>, \<open>Dson_Stream\<close>,
    \<open>Dson_Move\<close> (move assignment), \<open>From_Dson\<close> (\<open>from_dson_converters.h\<close>), \<open>Handover\<close>
    (\<open>to_buf_host_order\<close>, stream operators).
  \<^item> Its proofs: \<open>Dson_Objects\<close> (well-formed objects, what they own, their serialisation
    \<open>obj_wire\<close> and what is still to be sent of it, \<open>obj_pending\<close>), \<open>Dson_Memory\<close>, \<open>Dson_Transfer\<close>
    and \<open>Dson_Send\<close> (copying), \<open>Dson_Receive\<close> (loading), \<open>Dson_Parse\<close>, \<open>Dson_Get\<close>, \<open>Dson_Build\<close>,
    \<open>Dson_Values\<close>.
  \<^item> The examples: \<open>Examples\<close> (\<open>simple\<close>) and \<open>Streams\<close> (\<open>streams\<close>); \<open>Big_Struct\<close>, \<open>User_Types\<close>,
    \<open>Fd_Loading\<close>, \<open>Save_Load\<close>, \<open>Composite\<close>, \<open>Composite_Program\<close> (\<open>user_defined_type\<close>); \<open>Ipc\<close> (\<open>ipc\<close>); \<open>Received\<close>, \<open>Routing\<close>, \<open>Network\<close>,
    \<open>Server_Loop\<close>, \<open>Client\<close> and \<open>Network_Samples\<close> (\<open>network\<close>: \<open>router.h\<close>, \<open>dson_network.cpp\<close>);
    \<open>Threads\<close> (\<open>raii_thread.h\<close>), \<open>Sockets\<close> and \<open>Server_Thread\<close> (\<open>socket_server.h\<close> and
    \<open>socket_client.h\<close>: the connection, the thread of the server and how it is stopped);
    \<open>Channel\<close> (loading from a channel to which the other side still writes), \<open>Star_Session\<close>,
    \<open>Star_Routing\<close> and \<open>Star_Delivery\<close> (\<open>star_routing\<close> as a whole: client and server with the two
    directions of their connection, as a system of steps).

  \<^bold>\<open>Conventions.\<close>  A member function is a definition that takes the memory and the object and
  answers them changed, inside the option type: \<open>None\<close> is undefined behaviour or a failed
  assertion, never an error the code reports (those are values of \<open>result\<close> and states of the
  object).  \<open>std::int32_t\<close> values that the code computes with are integers with a check for
  overflow; unsigned values are words.  Objects owned by a container are values inside it, and
  the theorems that speak of ownership say that the blocks of all objects are distinct.  The
  answers of the kernel are scripts: how many bytes each \<open>::read\<close> or \<open>::write\<close> moves, or the
  error it gives; an exhausted script answers \<open>EAGAIN\<close>.  The calls on sockets work on a table
  of descriptors and names (\<open>Sockets\<close>), and \<open>faults\<close> says which of them fail beside those that
  must; an exception is a value, with the state it leaves.

  \<^bold>\<open>Interfaces.\<close>  \<open>byte_order_converter\<close> (two conversions that undo each other), \<open>key_map\<close> (what
  the code needs of \<open>std::map\<close>), \<open>writer_sink\<close> (a destination that takes a prefix of what it is
  offered), \<open>converter_table\<close> and \<open>copying\<close> (the copy state machine, proved once for any sink
  and any table of converters), \<open>resumable_writer\<close>, \<open>live_writer\<close>, \<open>window_writer\<close> and
  \<open>resumable_reader\<close> (the loops that repeat a call until it is through).  Each is interpreted
  where its provider is: on the converters of the library and of the examples, on the sorted
  list, on windows and descriptors, on the three classes, on the example class and on a
  container that holds it.

  \<^bold>\<open>What is shown.\<close>  Copying a message of any nesting hands over exactly its serialisation,
  whatever the windows or partial writes, refines a queue of bytes, agrees over all
  destinations, and completes when every call takes a byte.  Loading reassembles a message
  from any portions, refuses bad sizes and never reads past the message.  Parsing finds every
  object, within bounds set by the size of the buffer; \<open>get\<close> converts in place and changes
  nothing else; \<open>emplace\<close> keeps containers well formed; destruction frees what is owned, once.
  Conversions and readings of values are exact in their ranges.  Composed, they give the round
  trips of the library and of the example programs, the safety and termination of the IPC
  dialogue in every interleaving, and the correctness of the routing server: the bytes it
  sends and queues are a function of the requests alone, its connection is the one the client
  has, and \<open>stop\<close> ends its thread, which is joined once.  For client and server together:
  in every interleaving of their steps nothing fails, and what the client hears, prints and
  counts is what the services answer to what it has asked, in order; and after a bounded
  number of turns in which each read and write moves a byte, all of it has been delivered.
  The steps of the two threads are those of their loops: a read that finds only the first
  part of what the other side writes is the same as a read that gives less (\<open>Channel\<close>), so
  that writing in several calls adds no behaviour.  The properties labelled as errors
  state what the code does where that differs from what it is meant to do.

  \<^bold>\<open>Bounds and fuel.\<close>  Recursion through nested objects uses their depth as fuel (\<open>obj_depth\<close>;
  enough because a call goes to a child of smaller depth).  Calls of \<open>Router::route\<close> that are
  made inside a callback are counted: depth 2 is enough for every request of a client (the
  service, then the connection), and no depth is enough for a message between two services,
  which is a theorem.  Loops driven by the environment (\<open>server_loop\<close>, the loops of the clients
  and tests) run over a list of scripts, one for each round; theorems about them hold for
  every such list.  Sizes are bounded by \<open>MAX_DSON_RAM_SIZE\<close> as in the code.

  \<^bold>\<open>Not modelled.\<close>  Opening files and pipes, and the locked output to the console with its
  clock (what the programs print is modelled as values where a theorem speaks of it); the
  scheduling of threads inside an operation (an operation of \<open>RAIIthread\<close>, under its mutex, is
  one step); hosts that are not little-endian and the empty stubs for other platforms;
  alignment and aliasing of the \<open>reinterpret_cast\<close> on buffers; concurrent access to one object,
  which the code does not support; the tests, apart from their transfer loops.  Objects in a
  container are the three classes of the library; a container with an object of a user class
  has a model of its own (\<open>Composite\<close>), of the operations the example uses: insertion and
  \<open>copy_to_fd_network_order\<close>.
\<close>

end
